(* ===== verification/Prelude.thy ===== *)
theory Prelude
  imports Main "HOL-Library.Word" "HOL-Library.Monad_Syntax"
begin

unbundle bit_operations_syntax

text \<open>
  Shared vocabulary of the development.  It fixes the widths of the C types,
  the error numbers, the reading of C flag tests, and the generic facts on
  lists and on the ordered index (the contents of a red-black tree in key
  order) that the components use.

  Conventions used everywhere:
  \<^item> An operation that runs on a state has type state to (state and result)
    option.  The value None is a fault: a failed assertion, or an access
    through a pointer to memory that is not live.
  \<^item> A C function that reports failure by a negative return value and errno
    returns the same integer and sets the errno field of the state.
\<close>

type_synonym u16 = "16 word"
type_synonym u32 = "32 word"
type_synonym u64 = "64 word"
type_synonym addr = nat

named_theorems flag_defs
named_theorems errno_defs
named_theorems const_defs

subsection \<open>Error numbers\<close>

definition EPERM :: int where [errno_defs]: "EPERM = 1"
definition ENOENT :: int where [errno_defs]: "ENOENT = 2"
definition EINTR :: int where [errno_defs]: "EINTR = 4"
definition EIO :: int where [errno_defs]: "EIO = 5"
definition EBADF :: int where [errno_defs]: "EBADF = 9"
definition ECHILD :: int where [errno_defs]: "ECHILD = 10"
definition EAGAIN :: int where [errno_defs]: "EAGAIN = 11"
definition ENOMEM :: int where [errno_defs]: "ENOMEM = 12"
definition EFAULT :: int where [errno_defs]: "EFAULT = 14"
definition EEXIST :: int where [errno_defs]: "EEXIST = 17"
definition EINVAL :: int where [errno_defs]: "EINVAL = 22"
definition EMFILE :: int where [errno_defs]: "EMFILE = 24"
definition ENOTSOCK :: int where [errno_defs]: "ENOTSOCK = 88"
definition ENOSYS :: int where [errno_defs]: "ENOSYS = 38"

subsection \<open>Flag words\<close>

text \<open>The C test \<open>x & f\<close> used as a condition, \<open>x |= f\<close> and \<open>x &= ~f\<close>.\<close>

definition has_flag :: "'a::len word \<Rightarrow> 'a word \<Rightarrow> bool" where
  "has_flag x f \<longleftrightarrow> x AND f \<noteq> 0"

definition set_flag :: "'a::len word \<Rightarrow> 'a word \<Rightarrow> 'a word" where
  "set_flag f x = x OR f"

definition clear_flag :: "'a::len word \<Rightarrow> 'a word \<Rightarrow> 'a word" where
  "clear_flag f x = x AND NOT f"

lemma has_flag_zero [simp]: "\<not> has_flag 0 f"
  by (simp add: has_flag_def)

lemma has_flag_set_same [simp]: "f \<noteq> 0 \<Longrightarrow> has_flag (set_flag f x) f"
proof -
  assume "f \<noteq> 0"
  moreover have "(x OR f) AND f = f"
    by (rule bit_word_eqI) (auto simp: bit_simps)
  ultimately show ?thesis by (simp add: has_flag_def set_flag_def)
qed

lemma has_flag_clear_same [simp]: "\<not> has_flag (clear_flag f x) f"
proof -
  have "(x AND NOT f) AND f = 0"
    by (rule bit_word_eqI) (auto simp: bit_simps)
  then show ?thesis by (simp add: has_flag_def clear_flag_def)
qed

lemma has_flag_set_other:
  assumes "f AND g = 0"
  shows "has_flag (set_flag f x) g \<longleftrightarrow> has_flag x g"
proof -
  have "(x OR f) AND g = x AND g"
    using assms by (simp add: and.commute bit.conj_disj_distrib)
  then show ?thesis by (simp add: has_flag_def set_flag_def)
qed

lemma has_flag_clear_other:
  assumes "f AND g = 0"
  shows "has_flag (clear_flag f x) g \<longleftrightarrow> has_flag x g"
proof -
  have "(x AND NOT f) AND g = x AND g"
  proof (rule bit_word_eqI)
    fix n
    assume "n < LENGTH('a)"
    have "bit (f AND g) n = bit (0 :: 'a word) n" using assms by simp
    then have "\<not> (bit f n \<and> bit g n)" by (simp add: bit_and_iff)
    then show "bit ((x AND NOT f) AND g) n = bit (x AND g) n"
      using \<open>n < LENGTH('a)\<close> by (auto simp: bit_simps)
  qed
  then show ?thesis by (simp add: has_flag_def clear_flag_def)
qed

lemma has_flag_set_mono: "has_flag x g \<Longrightarrow> has_flag (set_flag f x) g"
proof -
  assume "has_flag x g"
  then have "x AND g \<noteq> 0" by (simp add: has_flag_def)
  then obtain n where n: "bit (x AND g) n" by (metis bit_0_eq bit_eq_iff bot_apply bot_bool_def)
  then have "bit ((x OR f) AND g) n" by (auto simp: bit_simps)
  then have "(x OR f) AND g \<noteq> 0" by (metis bit_0_eq bot_apply bot_bool_def)
  then show ?thesis by (simp add: has_flag_def set_flag_def)
qed

lemma set_flag_idem [simp]: "set_flag f (set_flag f x) = set_flag f x"
  by (simp add: set_flag_def or.assoc)

lemma clear_flag_idem [simp]: "clear_flag f (clear_flag f x) = clear_flag f x"
  by (simp add: clear_flag_def and.assoc)

lemma clear_set_flag:
  "x AND f = 0 \<Longrightarrow> clear_flag f (set_flag f x) = x"
proof -
  assume a: "x AND f = 0"
  show ?thesis
    unfolding clear_flag_def set_flag_def
  proof (rule bit_word_eqI)
    fix n
    assume "n < LENGTH('a)"
    have "bit (x AND f) n = bit (0 :: 'a word) n" using a by simp
    then have "\<not> (bit x n \<and> bit f n)" by (simp add: bit_and_iff)
    then show "bit ((x OR f) AND NOT f) n = bit x n"
      using \<open>n < LENGTH('a)\<close> by (auto simp: bit_simps)
  qed
qed

lemma clear_flag_zero [simp]: "clear_flag f 0 = 0"
  by (simp add: clear_flag_def)

lemma clear_flag_or: "clear_flag f (x OR y) = clear_flag f x OR clear_flag f y"
  by (simp add: clear_flag_def bit.conj_disj_distrib2)

lemma has_flag_bit: "has_flag x f \<longleftrightarrow> (\<exists>n. bit x n \<and> bit f n)"
  by (auto simp: has_flag_def bit_eq_iff [of "x AND f"] bit_and_iff dest: bit_imp_le_length)

lemma has_flag_or: "has_flag x (f OR g) \<longleftrightarrow> has_flag x f \<or> has_flag x g"
  by (auto simp: has_flag_bit bit_or_iff)

lemma clear_one_bit:
  fixes x :: "'a::len word"
  shows "has_flag x (2 ^ n) \<Longrightarrow> clear_flag x (2 ^ n) = 0" "clear_flag x (2 ^ n) \<in> {0, 2 ^ n}"
proof -
  have "2 ^ n AND NOT x = (if bit x n then 0 else 2 ^ n)"
    by (rule bit_word_eqI) (auto simp: bit_simps)
  moreover have "has_flag x (2 ^ n) \<Longrightarrow> bit x n"
    by (auto simp: has_flag_bit bit_exp_iff)
  ultimately show "has_flag x (2 ^ n) \<Longrightarrow> clear_flag x (2 ^ n) = 0" "clear_flag x (2 ^ n) \<in> {0, 2 ^ n}"
    by (simp_all add: clear_flag_def)
qed

subsection \<open>Casts\<close>

lemma nat_sint_eq_unat:
  fixes v :: "'a::len word"
  assumes "0 \<le> sint v" shows "nat (sint v) = unat v"
proof -
  have b: "\<not> bit (uint v) (LENGTH('a) - 1)"
    using assms by (simp only: sint_uint signed_take_bit_nonnegative_iff One_nat_def not_False_eq_True)
  have "sint v = take_bit (Suc (LENGTH('a) - 1)) (uint v)"
    unfolding sint_uint signed_take_bit_eq_take_bit_minus using b by simp
  also have "\<dots> = uint v" by (simp add: take_bit_int_eq_self)
  finally show ?thesis by simp
qed

lemma sint_of_int_small:
  assumes "- (2 ^ (LENGTH('a) - 1)) \<le> x" "x < 2 ^ (LENGTH('a) - 1)"
  shows "sint (word_of_int x :: 'a::len word) = x"
  using assms by (simp add: sint_sbintrunc' signed_take_bit_int_eq_self)

lemma ucast_eq_of_unat_eq:
  fixes w :: "'a::len word" and v :: "'b::len word"
  assumes "unat w = unat v" shows "ucast w = v"
  by (metis assms of_nat_unat ucast_id)

subsection \<open>Options\<close>

lemma option_eqI: "(\<And>u. a = Some u \<longleftrightarrow> b = Some u) \<Longrightarrow> a = b"
  by (cases a; cases b) auto

end
