(* ===== verification/Event.thy ===== *)
theory Event
  imports Prelude
begin

text \<open>
  The public data of kqueue (\<^verbatim>\<open>include/sys/event.h.in\<close>): the kevent structure, the
  filter identifiers, the action flags and the filter flags, with the widths
  of the C fields.  The knote flags of \<^verbatim>\<open>common/private.h\<close> are here as well.
\<close>

subsection \<open>The kevent structure\<close>

text \<open>The C field \<^verbatim>\<open>filter\<close> is called \<open>kfilter\<close>; it is a C short, read signed.\<close>

record kevent =
  ident :: u64
  kfilter :: u16
  flags :: u16
  fflags :: u32
  data :: u64
  udata :: u64

definition EV_SET :: "u64 \<Rightarrow> u16 \<Rightarrow> u16 \<Rightarrow> u32 \<Rightarrow> u64 \<Rightarrow> u64 \<Rightarrow> kevent" where
  "EV_SET i f fl ff d u =
     \<lparr>ident = i, kfilter = f, flags = fl, fflags = ff, data = d, udata = u\<rparr>"

subsection \<open>Filter identifiers\<close>

definition EVFILT_READ :: u16 where [const_defs]: "EVFILT_READ = - 1"
definition EVFILT_WRITE :: u16 where [const_defs]: "EVFILT_WRITE = - 2"
definition EVFILT_AIO :: u16 where [const_defs]: "EVFILT_AIO = - 3"
definition EVFILT_VNODE :: u16 where [const_defs]: "EVFILT_VNODE = - 4"
definition EVFILT_PROC :: u16 where [const_defs]: "EVFILT_PROC = - 5"
definition EVFILT_SIGNAL :: u16 where [const_defs]: "EVFILT_SIGNAL = - 6"
definition EVFILT_TIMER :: u16 where [const_defs]: "EVFILT_TIMER = - 7"
definition EVFILT_NETDEV :: u16 where [const_defs]: "EVFILT_NETDEV = - 8"
definition EVFILT_FS :: u16 where [const_defs]: "EVFILT_FS = - 9"
definition EVFILT_LIO :: u16 where [const_defs]: "EVFILT_LIO = - 10"
definition EVFILT_USER :: u16 where [const_defs]: "EVFILT_USER = - 11"
definition EVFILT_LIBKQUEUE :: u16 where [const_defs]: "EVFILT_LIBKQUEUE = - 12"
definition EVFILT_SYSCOUNT :: nat where [const_defs]: "EVFILT_SYSCOUNT = 12"

text \<open>The array offset of a filter: the C expression \<^verbatim>\<open>~id\<close> on a short promoted to int.\<close>

definition inv_filt :: "u16 \<Rightarrow> int" where
  "inv_filt f = NOT (sint f)"

lemma inv_filt_inj: "inv_filt a = inv_filt b \<Longrightarrow> a = b"
  by (simp add: inv_filt_def signed_word_eqI)

lemma inv_filt_consts [simp]:
  "inv_filt EVFILT_READ = 0"
  "inv_filt EVFILT_WRITE = 1"
  "inv_filt EVFILT_AIO = 2"
  "inv_filt EVFILT_VNODE = 3"
  "inv_filt EVFILT_PROC = 4"
  "inv_filt EVFILT_SIGNAL = 5"
  "inv_filt EVFILT_TIMER = 6"
  "inv_filt EVFILT_NETDEV = 7"
  "inv_filt EVFILT_FS = 8"
  "inv_filt EVFILT_LIO = 9"
  "inv_filt EVFILT_USER = 10"
  "inv_filt EVFILT_LIBKQUEUE = 11"
  by (simp_all add: inv_filt_def const_defs)

subsection \<open>Action flags\<close>

definition EV_ADD :: u16 where [flag_defs]: "EV_ADD = 0x0001"
definition EV_DELETE :: u16 where [flag_defs]: "EV_DELETE = 0x0002"
definition EV_ENABLE :: u16 where [flag_defs]: "EV_ENABLE = 0x0004"
definition EV_DISABLE :: u16 where [flag_defs]: "EV_DISABLE = 0x0008"
definition EV_ONESHOT :: u16 where [flag_defs]: "EV_ONESHOT = 0x0010"
definition EV_CLEAR :: u16 where [flag_defs]: "EV_CLEAR = 0x0020"
definition EV_RECEIPT :: u16 where [flag_defs]: "EV_RECEIPT = 0x0040"
definition EV_DISPATCH :: u16 where [flag_defs]: "EV_DISPATCH = 0x0080"
definition EV_EOF :: u16 where [flag_defs]: "EV_EOF = 0x8000"
definition EV_ERROR :: u16 where [flag_defs]: "EV_ERROR = 0x4000"

subsection \<open>Filter flags\<close>

definition NOTE_FFNOP :: u32 where [flag_defs]: "NOTE_FFNOP = 0x00000000"
definition NOTE_FFAND :: u32 where [flag_defs]: "NOTE_FFAND = 0x40000000"
definition NOTE_FFOR :: u32 where [flag_defs]: "NOTE_FFOR = 0x80000000"
definition NOTE_FFCOPY :: u32 where [flag_defs]: "NOTE_FFCOPY = 0xc0000000"
definition NOTE_FFCTRLMASK :: u32 where [flag_defs]: "NOTE_FFCTRLMASK = 0xc0000000"
definition NOTE_FFLAGSMASK :: u32 where [flag_defs]: "NOTE_FFLAGSMASK = 0x00ffffff"
definition NOTE_TRIGGER :: u32 where [flag_defs]: "NOTE_TRIGGER = 0x01000000"
definition NOTE_LOWAT :: u32 where [flag_defs]: "NOTE_LOWAT = 0x0001"
definition NOTE_DELETE :: u32 where [flag_defs]: "NOTE_DELETE = 0x0001"
definition NOTE_WRITE :: u32 where [flag_defs]: "NOTE_WRITE = 0x0002"
definition NOTE_EXTEND :: u32 where [flag_defs]: "NOTE_EXTEND = 0x0004"
definition NOTE_ATTRIB :: u32 where [flag_defs]: "NOTE_ATTRIB = 0x0008"
definition NOTE_LINK :: u32 where [flag_defs]: "NOTE_LINK = 0x0010"
definition NOTE_RENAME :: u32 where [flag_defs]: "NOTE_RENAME = 0x0020"
definition NOTE_TRUNCATE :: u32 where [flag_defs]: "NOTE_TRUNCATE = 0x0080"
definition NOTE_EXIT :: u32 where [flag_defs]: "NOTE_EXIT = 0x80000000"
definition NOTE_FORK :: u32 where [flag_defs]: "NOTE_FORK = 0x40000000"
definition NOTE_EXEC :: u32 where [flag_defs]: "NOTE_EXEC = 0x20000000"
definition NOTE_SECONDS :: u32 where [flag_defs]: "NOTE_SECONDS = 0x0001"
definition NOTE_USECONDS :: u32 where [flag_defs]: "NOTE_USECONDS = 0x0002"
definition NOTE_NSECONDS :: u32 where [flag_defs]: "NOTE_NSECONDS = 0x0004"
definition NOTE_ABSOLUTE :: u32 where [flag_defs]: "NOTE_ABSOLUTE = 0x0008"
definition NOTE_VERSION :: u32 where [flag_defs]: "NOTE_VERSION = 0x0001"
definition NOTE_VERSION_STR :: u32 where [flag_defs]: "NOTE_VERSION_STR = 0x0002"
definition NOTE_THREAD_SAFE :: u32 where [flag_defs]: "NOTE_THREAD_SAFE = 0x0003"
definition NOTE_FORK_CLEANUP :: u32 where [flag_defs]: "NOTE_FORK_CLEANUP = 0x0004"
definition NOTE_DEBUG :: u32 where [flag_defs]: "NOTE_DEBUG = 0x0005"
definition NOTE_DEBUG_PREFIX :: u32 where [flag_defs]: "NOTE_DEBUG_PREFIX = 0x0006"
definition NOTE_DEBUG_FUNC :: u32 where [flag_defs]: "NOTE_DEBUG_FUNC = 0x0007"
definition NOTE_FILE_POLL_INTERVAL :: u32 where [flag_defs]: "NOTE_FILE_POLL_INTERVAL = 0x0008"

subsection \<open>Knote flags\<close>

definition KNFL_FILE :: u32 where [flag_defs]: "KNFL_FILE = 0x1"
definition KNFL_PIPE :: u32 where [flag_defs]: "KNFL_PIPE = 0x2"
definition KNFL_BLOCKDEV :: u32 where [flag_defs]: "KNFL_BLOCKDEV = 0x4"
definition KNFL_CHARDEV :: u32 where [flag_defs]: "KNFL_CHARDEV = 0x8"
definition KNFL_SOCKET_PASSIVE :: u32 where [flag_defs]: "KNFL_SOCKET_PASSIVE = 0x10"
definition KNFL_SOCKET_STREAM :: u32 where [flag_defs]: "KNFL_SOCKET_STREAM = 0x20"
definition KNFL_SOCKET_DGRAM :: u32 where [flag_defs]: "KNFL_SOCKET_DGRAM = 0x40"
definition KNFL_SOCKET_RDM :: u32 where [flag_defs]: "KNFL_SOCKET_RDM = 0x80"
definition KNFL_SOCKET_SEQPACKET :: u32 where [flag_defs]: "KNFL_SOCKET_SEQPACKET = 0x100"
definition KNFL_SOCKET_RAW :: u32 where [flag_defs]: "KNFL_SOCKET_RAW = 0x200"
definition KNFL_ALWAYS_READY_BUMPED :: u32 where [flag_defs]: "KNFL_ALWAYS_READY_BUMPED = 0x400"
definition KNFL_KNOTE_DELETED :: u32 where [flag_defs]: "KNFL_KNOTE_DELETED = 0x80000000"
definition KNFL_SOCKET :: u32 where [flag_defs]: "KNFL_SOCKET = 0x3e0"

lemma EV_SET_simps [simp]:
  "ident (EV_SET i f fl ff d u) = i"
  "kfilter (EV_SET i f fl ff d u) = f"
  "flags (EV_SET i f fl ff d u) = fl"
  "fflags (EV_SET i f fl ff d u) = ff"
  "data (EV_SET i f fl ff d u) = d"
  "udata (EV_SET i f fl ff d u) = u"
  by (simp_all add: EV_SET_def)

lemma KNFL_SOCKET_members:
  "KNFL_SOCKET = KNFL_SOCKET_STREAM OR KNFL_SOCKET_DGRAM OR KNFL_SOCKET_RDM OR
     KNFL_SOCKET_SEQPACKET OR KNFL_SOCKET_RAW"
  by (simp add: flag_defs)

subsection \<open>Bit copying\<close>

definition COPY_FLAGS_BIT :: "kevent \<Rightarrow> kevent \<Rightarrow> u16 \<Rightarrow> kevent" where
  "COPY_FLAGS_BIT dst src f =
     dst\<lparr>flags := (flags dst AND NOT f) OR (flags src AND f)\<rparr>"

definition COPY_FFLAGS_BIT :: "kevent \<Rightarrow> kevent \<Rightarrow> u32 \<Rightarrow> kevent" where
  "COPY_FFLAGS_BIT dst src f =
     dst\<lparr>fflags := (fflags dst AND NOT f) OR (fflags src AND f)\<rparr>"

lemma COPY_FLAGS_BIT_simps [simp]:
  "ident (COPY_FLAGS_BIT d s f) = ident d"
  "kfilter (COPY_FLAGS_BIT d s f) = kfilter d"
  "fflags (COPY_FLAGS_BIT d s f) = fflags d"
  "data (COPY_FLAGS_BIT d s f) = data d"
  "udata (COPY_FLAGS_BIT d s f) = udata d"
  by (simp_all add: COPY_FLAGS_BIT_def)

lemma copy_bits_has_flag:
  fixes x y f :: "'a::len word"
  shows "has_flag ((x AND NOT f) OR (y AND f)) f \<longleftrightarrow> has_flag y f"
proof -
  have "((x AND NOT f) OR (y AND f)) AND f = y AND f"
    by (rule bit_word_eqI) (auto simp: bit_simps)
  then show ?thesis by (simp add: has_flag_def)
qed

lemma copy_bits_other:
  fixes x y f :: "'a::len word"
  assumes "f AND g = 0"
  shows "has_flag ((x AND NOT f) OR (y AND f)) g \<longleftrightarrow> has_flag x g"
proof -
  have "((x AND NOT f) OR (y AND f)) AND g = x AND g"
  proof (rule bit_word_eqI)
    fix n
    assume n: "n < LENGTH('a)"
    have "bit (f AND g) n = bit (0 :: 'a word) n" using assms by simp
    then have "\<not> (bit f n \<and> bit g n)" by (simp add: bit_and_iff)
    then show "bit (((x AND NOT f) OR (y AND f)) AND g) n = bit (x AND g) n"
      using n by (auto simp: bit_simps)
  qed
  then show ?thesis by (simp add: has_flag_def)
qed

lemma COPY_FLAGS_BIT_has [simp]:
  "has_flag (flags (COPY_FLAGS_BIT d s f)) f \<longleftrightarrow> has_flag (flags s) f"
  by (simp add: COPY_FLAGS_BIT_def copy_bits_has_flag)

lemma COPY_FLAGS_BIT_other:
  "f AND g = 0 \<Longrightarrow> has_flag (flags (COPY_FLAGS_BIT d s f)) g \<longleftrightarrow> has_flag (flags d) g"
  by (simp add: COPY_FLAGS_BIT_def copy_bits_other)

end
