(* ===== verification/Knote_Index.thy ===== *)
theory Knote_Index
  imports Prelude
begin

text \<open>
  The per-filter knote index.  The C code keeps the knotes of a filter in a
  red-black tree keyed by \<open>kev.ident\<close>; the model keeps the tree's contents in
  key order.  \<open>idx_find\<close>, \<open>idx_insert\<close> and \<open>idx_remove\<close> stand for the calls
  RB_FIND, RB_INSERT (which leaves the tree alone when the key is taken) and
  RB_REMOVE (which unlinks a node, not a key).  The locale \<open>ordered_index\<close> is
  the contract of the tree that the knote code relies on.
\<close>

subsection \<open>The interface\<close>

locale ordered_index =
  fixes find :: "'t \<Rightarrow> 'k::linorder \<Rightarrow> 'v option"
    and ins :: "'k \<Rightarrow> 'v \<Rightarrow> 't \<Rightarrow> 't"
    and del :: "'v \<Rightarrow> 't \<Rightarrow> 't"
    and entries :: "'t \<Rightarrow> ('k \<times> 'v) list"
    and inv :: "'t \<Rightarrow> bool"
  assumes sorted_entries: "inv t \<Longrightarrow> sorted_wrt (<) (map fst (entries t))"
    and distinct_entries: "inv t \<Longrightarrow> distinct (map snd (entries t))"
    and find_iff: "inv t \<Longrightarrow> find t k = Some v \<longleftrightarrow> (k, v) \<in> set (entries t)"
    and ins_new: "inv t \<Longrightarrow> find t k = None \<Longrightarrow> v \<notin> snd ` set (entries t) \<Longrightarrow>
      inv (ins k v t) \<and> set (entries (ins k v t)) = insert (k, v) (set (entries t))"
    and ins_dup: "inv t \<Longrightarrow> find t k \<noteq> None \<Longrightarrow> ins k v t = t"
    and del_inv: "inv t \<Longrightarrow> inv (del v t)"
    and del_set: "inv t \<Longrightarrow> set (entries (del v t)) = {e \<in> set (entries t). snd e \<noteq> v}"
begin

lemma distinct_all: "inv t \<Longrightarrow> distinct (entries t)"
  using distinct_entries distinct_map by blast

lemma inj_snd: "inv t \<Longrightarrow> inj_on snd (set (entries t))"
  using distinct_entries distinct_map by blast

lemma find_ins:
  assumes "inv t" "find t k = None" "v \<notin> snd ` set (entries t)"
  shows "find (ins k v t) k' = (if k' = k then Some v else find t k')"
proof -
  have i: "inv (ins k v t)" and s: "set (entries (ins k v t)) = insert (k, v) (set (entries t))"
    using ins_new [OF assms] by auto
  show ?thesis
    by (rule option_eqI)
      (use assms(2) find_iff [OF i, of k'] find_iff [OF assms(1), of k'] s in auto)
qed

lemma find_del:
  assumes "inv t" "(k, v) \<in> set (entries t)"
  shows "find (del v t) k' = (if k' = k then None else find t k')"
proof -
  have d: "find (del v t) k' = Some u \<longleftrightarrow> (k', u) \<in> set (entries t) \<and> u \<noteq> v" for u
    using find_iff [OF del_inv [OF assms(1)], of v k' u] del_set [OF assms(1), of v] by auto
  have uniq: "(k, u) \<in> set (entries t) \<Longrightarrow> u = v" for u
    using find_iff [OF assms(1), of k u] find_iff [OF assms(1), of k v] assms(2) by simp
  have key: "(k', v) \<in> set (entries t) \<Longrightarrow> k' = k"
    using inj_onD [OF inj_snd [OF assms(1)], of "(k', v)" "(k, v)"] assms(2) by simp
  show ?thesis
  proof (rule option_eqI)
    fix u
    show "find (del v t) k' = Some u \<longleftrightarrow> (if k' = k then None else find t k') = Some u"
    proof (cases "k' = k")
      case True
      then show ?thesis using d [of u] uniq [of u] by fastforce
    next
      case False
      have "u \<noteq> v" if "(k', u) \<in> set (entries t)" using key that False by blast
      then show ?thesis using d [of u] False find_iff [OF assms(1), of k' u] by auto
    qed
  qed
qed

lemma length_ins:
  assumes "inv t" "find t k = None" "v \<notin> snd ` set (entries t)"
  shows "length (entries (ins k v t)) = Suc (length (entries t))"
proof -
  have i: "inv (ins k v t)" and s: "set (entries (ins k v t)) = insert (k, v) (set (entries t))"
    using ins_new [OF assms] by auto
  have "(k, v) \<notin> set (entries t)" using assms(3) by force
  then have "card (set (entries (ins k v t))) = Suc (card (set (entries t)))" using s by simp
  then show ?thesis using distinct_all [OF i] distinct_all [OF assms(1)] by (simp add: distinct_card)
qed

lemma length_del:
  assumes "inv t" "(k, v) \<in> set (entries t)"
  shows "Suc (length (entries (del v t))) = length (entries t)"
proof -
  have key: "e \<in> set (entries t) \<Longrightarrow> snd e = v \<longleftrightarrow> e = (k, v)" for e
    using inj_onD [OF inj_snd [OF assms(1)], of e "(k, v)"] assms(2) by fastforce
  have "set (entries (del v t)) = set (entries t) - {(k, v)}"
    unfolding del_set [OF assms(1)] using key by blast
  then have "Suc (card (set (entries (del v t)))) = card (set (entries t))"
    using card_Suc_Diff1 [OF List.finite_set assms(2)] by simp
  then show ?thesis
    using distinct_all [OF assms(1)] distinct_all [OF del_inv [OF assms(1)]] by (simp add: distinct_card)
qed

end

subsection \<open>The contents in key order\<close>

type_synonym knote_index = "(u64 \<times> addr) list"

definition idx_find :: "('k::linorder \<times> 'v) list \<Rightarrow> 'k \<Rightarrow> 'v option" where
  "idx_find t k = map_of t k"

fun idx_insert :: "'k::linorder \<Rightarrow> 'v \<Rightarrow> ('k \<times> 'v) list \<Rightarrow> ('k \<times> 'v) list" where
  "idx_insert k v [] = [(k, v)]"
| "idx_insert k v ((k', v') # t) =
     (if k < k' then (k, v) # (k', v') # t
      else if k = k' then (k', v') # t
      else (k', v') # idx_insert k v t)"

definition idx_remove :: "'v \<Rightarrow> ('k::linorder \<times> 'v) list \<Rightarrow> ('k \<times> 'v) list" where
  "idx_remove v t = filter (\<lambda>e. snd e \<noteq> v) t"

definition idx_ok :: "('k::linorder \<times> 'v) list \<Rightarrow> bool" where
  "idx_ok t \<longleftrightarrow> sorted_wrt (<) (map fst t) \<and> distinct (map snd t)"

lemma idx_insert_set:
  "idx_find t k = None \<Longrightarrow> set (idx_insert k v t) = insert (k, v) (set t)"
  by (induction k v t rule: idx_insert.induct) (auto simp: idx_find_def split: if_splits)

lemma idx_insert_subset: "set (idx_insert k v t) \<subseteq> insert (k, v) (set t)"
  by (induction k v t rule: idx_insert.induct) auto

lemma idx_find_insert: "idx_find t k = None \<Longrightarrow> idx_find (idx_insert k v t) k = Some v"
  by (induction k v t rule: idx_insert.induct) (auto simp: idx_find_def split: if_splits)

lemma idx_insert_sorted:
  "sorted_wrt (<) (map fst t) \<Longrightarrow> idx_find t k = None \<Longrightarrow> sorted_wrt (<) (map fst (idx_insert k v t))"
proof (induction k v t rule: idx_insert.induct)
  case (2 k v k' v' t)
  then have n: "k \<noteq> k'" "idx_find t k = None" by (auto simp: idx_find_def split: if_splits)
  show ?case
  proof (cases "k < k'")
    case True
    with 2 show ?thesis by fastforce
  next
    case False
    with 2 n show ?thesis by (auto simp: idx_insert_set)
  qed
qed simp

lemma idx_insert_distinct:
  "distinct (map snd t) \<Longrightarrow> v \<notin> snd ` set t \<Longrightarrow> idx_find t k = None \<Longrightarrow>
   distinct (map snd (idx_insert k v t))"
  by (induction k v t rule: idx_insert.induct)
    (auto simp: idx_find_def idx_insert_set split: if_splits)

lemma idx_insert_dup:
  "sorted_wrt (<) (map fst t) \<Longrightarrow> idx_find t k \<noteq> None \<Longrightarrow> idx_insert k v t = t"
proof (induction k v t rule: idx_insert.induct)
  case (2 k v k' v' t)
  show ?case
  proof (cases "k = k'")
    case False
    with 2(3) have "idx_find t k \<noteq> None" by (simp add: idx_find_def)
    then have "k \<in> fst ` set t" by (simp add: idx_find_def map_of_eq_None_iff)
    then have "\<not> k < k'" using 2(2) by fastforce
    with False 2 \<open>idx_find t k \<noteq> None\<close> show ?thesis by simp
  qed simp
qed (simp add: idx_find_def)

lemma idx_find_iff: "sorted_wrt (<) (map fst t) \<Longrightarrow> idx_find t k = Some v \<longleftrightarrow> (k, v) \<in> set t"
  unfolding idx_find_def by (rule map_of_eq_Some_iff) (simp add: strict_sorted_iff)

interpretation rbi: ordered_index idx_find idx_insert idx_remove "\<lambda>t. t" idx_ok
proof (unfold_locales, goal_cases)
  case (6 t v)
  then show ?case
    by (simp add: idx_ok_def idx_remove_def sorted_wrt_map sorted_wrt_filter distinct_map_filter)
qed (auto simp: idx_ok_def idx_find_iff idx_insert_set idx_insert_sorted idx_insert_distinct
      idx_insert_dup idx_remove_def)

end
