(* ===== verification/Knote.thy ===== *)
theory Knote
  imports Event Knote_Index
begin

text \<open>
  Knotes and their life cycle (\<^verbatim>\<open>common/knote.c\<close>), and the part of the kqueue
  state that the common code owns.  A world is the state of one kqueue: its
  filter slots, the heap of knotes, the knote counter, errno, and the
  allocator.  Platforms extend the records \<open>knote\<close> and \<open>world\<close>, as the C
  macros KNOTE_PLATFORM_SPECIFIC and KQUEUE_PLATFORM_SPECIFIC do.

  The callbacks of a filter are the record \<open>filter_ops\<close>.  A family of such
  records, one for each filter slot, is an argument of the operations.

  The allocator: the n-th allocation of a run yields address n, and fails
  exactly when \<open>calloc_ok n\<close> is false.  Knotes are freed by removing them from
  the heap; an access to an address that is not in the heap is a fault.
\<close>

subsection \<open>State\<close>

record knote =
  kev :: kevent
  kn_flags :: u32
  kn_ref :: u32
  kn_signal_count :: u32

record filter_t =
  kf_id :: u16
  kf_copyout_set :: bool
  kf_index :: knote_index
  kf_ready :: "addr list"
  kf_efd :: int

record 'k world =
  errno :: int
  calloc_ok :: "nat \<Rightarrow> bool"
  next_addr :: addr
  knotes :: "addr \<Rightarrow> 'k knote_scheme option"
  kq_filt :: "filter_t list"
  kq_knote_count :: int

record 'w filter_ops =
  kf_copyout :: "nat \<Rightarrow> addr option \<Rightarrow> u32 \<Rightarrow> 'w \<Rightarrow> ('w \<times> int \<times> kevent list) option"
  kn_create :: "addr \<Rightarrow> 'w \<Rightarrow> ('w \<times> int) option"
  kn_modify :: "addr \<Rightarrow> kevent \<Rightarrow> 'w \<Rightarrow> ('w \<times> int) option"
  kn_delete :: "addr \<Rightarrow> 'w \<Rightarrow> ('w \<times> int) option"
  kn_enable :: "addr \<Rightarrow> 'w \<Rightarrow> ('w \<times> int) option"
  kn_disable :: "addr \<Rightarrow> 'w \<Rightarrow> ('w \<times> int) option"

text \<open>Writing through a knote pointer, and updating a filter slot in place.\<close>

definition upd_knote ::
  "addr \<Rightarrow> ('k knote_scheme \<Rightarrow> 'k knote_scheme) \<Rightarrow> ('k, 'z) world_scheme \<Rightarrow> ('k, 'z) world_scheme" where
  "upd_knote kn f w = w\<lparr>knotes := (knotes w)(kn := map_option f (knotes w kn))\<rparr>"

definition upd_filt ::
  "nat \<Rightarrow> (filter_t \<Rightarrow> filter_t) \<Rightarrow> ('k, 'z) world_scheme \<Rightarrow> ('k, 'z) world_scheme" where
  "upd_filt i f w = w\<lparr>kq_filt := (kq_filt w)[i := f (kq_filt w ! i)]\<rparr>"

definition calloc :: "('k, 'z) world_scheme \<Rightarrow> ('k, 'z) world_scheme \<times> addr option" where
  "calloc w =
     (w\<lparr>next_addr := Suc (next_addr w)\<rparr>,
      if calloc_ok w (next_addr w) then Some (next_addr w) else None)"

subsection \<open>Knote flags\<close>

definition upd_flags :: "(u16 \<Rightarrow> u16) \<Rightarrow> 'k knote_scheme \<Rightarrow> 'k knote_scheme" where
  "upd_flags f k = k\<lparr>kev := (kev k)\<lparr>flags := f (flags (kev k))\<rparr>\<rparr>"

definition KNOTE_ENABLE :: "'k knote_scheme \<Rightarrow> 'k knote_scheme" where
  "KNOTE_ENABLE = upd_flags (clear_flag EV_DISABLE)"

definition KNOTE_DISABLE :: "'k knote_scheme \<Rightarrow> 'k knote_scheme" where
  "KNOTE_DISABLE = upd_flags (set_flag EV_DISABLE)"

definition KNOTE_DISABLED :: "'k knote_scheme \<Rightarrow> bool" where
  "KNOTE_DISABLED k \<longleftrightarrow> has_flag (flags (kev k)) EV_DISABLE"

definition KNOTE_ENABLED :: "'k knote_scheme \<Rightarrow> bool" where
  "KNOTE_ENABLED k \<longleftrightarrow> \<not> has_flag (flags (kev k)) EV_DISABLE"

definition KNOTE_IS_EOF :: "'k knote_scheme \<Rightarrow> bool" where
  "KNOTE_IS_EOF k \<longleftrightarrow> has_flag (flags (kev k)) EV_EOF"

subsection \<open>Operations of knote.c\<close>

definition knote_cmp :: "knote \<Rightarrow> knote \<Rightarrow> int" where
  "knote_cmp a b =
     of_bool (ident (kev a) > ident (kev b)) - of_bool (ident (kev a) < ident (kev b))"

text \<open>\<open>kz\<close> is the zero-filled knote of the platform's record type.\<close>

definition knote_new ::
  "'k knote_scheme \<Rightarrow> ('k, 'z) world_scheme \<Rightarrow> ('k, 'z) world_scheme \<times> addr option" where
  "knote_new kz w =
     (case calloc w of
        (w, None) \<Rightarrow> (w, None)
      | (w, Some a) \<Rightarrow> (w\<lparr>knotes := (knotes w)(a \<mapsto> kz\<lparr>kn_ref := 1\<rparr>)\<rparr>, Some a))"

definition knote_release :: "addr \<Rightarrow> ('k, 'z) world_scheme \<Rightarrow> ('k, 'z) world_scheme option" where
  "knote_release kn w = do {
     k \<leftarrow> knotes w kn;
     if kn_ref k > 0 then
       let r = kn_ref k - 1; w = upd_knote kn (\<lambda>k. k\<lparr>kn_ref := r\<rparr>) w in
       if r = 0 then
         if has_flag (kn_flags k) KNFL_KNOTE_DELETED
         then Some (w\<lparr>knotes := (knotes w)(kn := None)\<rparr>)
         else Some w
       else Some w
     else None }"

definition knote_insert :: "nat \<Rightarrow> addr \<Rightarrow> ('k, 'z) world_scheme \<Rightarrow> ('k, 'z) world_scheme option" where
  "knote_insert fi kn w = do {
     k \<leftarrow> knotes w kn;
     let w = upd_filt fi (\<lambda>f. f\<lparr>kf_index := idx_insert (ident (kev k)) kn (kf_index f)\<rparr>) w;
     Some (w\<lparr>kq_knote_count := kq_knote_count w + 1\<rparr>) }"

definition knote_lookup :: "nat \<Rightarrow> u64 \<Rightarrow> ('k, 'z) world_scheme \<Rightarrow> addr option" where
  "knote_lookup fi i w = idx_find (kf_index (kq_filt w ! fi)) i"

text \<open>The part of \<open>knote_delete\<close> before the callback: RB_REMOVE, the counter, and
  the ready list.  Removing a node that is not linked corrupts the tree.\<close>

definition knote_unlink :: "nat \<Rightarrow> addr \<Rightarrow> ('k, 'z) world_scheme \<Rightarrow> ('k, 'z) world_scheme option" where
  "knote_unlink fi kn w =
     (if kn \<in> snd ` set (kf_index (kq_filt w ! fi)) then
        let w = upd_filt fi (\<lambda>f. f\<lparr>kf_index := idx_remove kn (kf_index f)\<rparr>) w;
            w = (if kq_knote_count w > 0 then w\<lparr>kq_knote_count := kq_knote_count w - 1\<rparr> else w)
        in Some (upd_filt fi (\<lambda>f. f\<lparr>kf_ready := removeAll kn (kf_ready f)\<rparr>) w)
      else None)"

definition knote_delete ::
  "(('k, 'z) world_scheme) filter_ops \<Rightarrow> nat \<Rightarrow> addr \<Rightarrow> ('k, 'z) world_scheme
    \<Rightarrow> (('k, 'z) world_scheme \<times> int) option" where
  "knote_delete ops fi kn w = do {
     k \<leftarrow> knotes w kn;
     if has_flag (kn_flags k) KNFL_KNOTE_DELETED then Some (w, -1)
     else do {
       w \<leftarrow> knote_unlink fi kn w;
       (w, rv) \<leftarrow> kn_delete ops kn w;
       let w = upd_knote kn (\<lambda>k. k\<lparr>kn_flags := set_flag KNFL_KNOTE_DELETED (kn_flags k)\<rparr>) w;
       w \<leftarrow> knote_release kn w;
       Some (w, rv) } }"

definition knote_disable ::
  "(('k, 'z) world_scheme) filter_ops \<Rightarrow> nat \<Rightarrow> addr \<Rightarrow> ('k, 'z) world_scheme
    \<Rightarrow> (('k, 'z) world_scheme \<times> int) option" where
  "knote_disable ops fi kn w = do {
     k \<leftarrow> knotes w kn;
     if KNOTE_DISABLED k then Some (w, 0)
     else do {
       (w, rv) \<leftarrow> kn_disable ops kn w;
       if rv = 0 then
         let w = upd_filt fi (\<lambda>f. f\<lparr>kf_ready := removeAll kn (kf_ready f)\<rparr>) w
         in Some (upd_knote kn KNOTE_DISABLE w, rv)
       else Some (w, rv) } }"

definition knote_enable ::
  "(('k, 'z) world_scheme) filter_ops \<Rightarrow> nat \<Rightarrow> addr \<Rightarrow> ('k, 'z) world_scheme
    \<Rightarrow> (('k, 'z) world_scheme \<times> int) option" where
  "knote_enable ops fi kn w = do {
     k \<leftarrow> knotes w kn;
     if KNOTE_ENABLED k then Some (w, 0)
     else do {
       (w, rv) \<leftarrow> kn_enable ops kn w;
       if rv = 0 then Some (upd_knote kn KNOTE_ENABLE w, rv) else Some (w, rv) } }"

text \<open>The walks over the index.  The successor is taken before the body runs
  and the bodies only unlink the knote they are given, so the walk visits the
  knotes that were linked when it started.\<close>

fun knote_walk_delete ::
  "(('k, 'z) world_scheme) filter_ops \<Rightarrow> nat \<Rightarrow> addr list \<Rightarrow> ('k, 'z) world_scheme
    \<Rightarrow> ('k, 'z) world_scheme option" where
  "knote_walk_delete ops fi [] w = Some w"
| "knote_walk_delete ops fi (kn # kns) w = do {
     (w, rv) \<leftarrow> knote_delete ops fi kn w;
     knote_walk_delete ops fi kns w }"

definition knote_delete_all ::
  "(('k, 'z) world_scheme) filter_ops \<Rightarrow> nat \<Rightarrow> ('k, 'z) world_scheme \<Rightarrow> ('k, 'z) world_scheme option" where
  "knote_delete_all ops fi w = knote_walk_delete ops fi (map snd (kf_index (kq_filt w ! fi))) w"

definition knote_mark_disabled_all :: "nat \<Rightarrow> ('k, 'z) world_scheme \<Rightarrow> ('k, 'z) world_scheme" where
  "knote_mark_disabled_all fi w =
     fold (\<lambda>kn. upd_knote kn KNOTE_DISABLE) (map snd (kf_index (kq_filt w ! fi))) w"

fun knote_walk ::
  "(addr \<Rightarrow> 'w \<Rightarrow> ('w \<times> int) option) \<Rightarrow> addr list \<Rightarrow> 'w \<Rightarrow> ('w \<times> int) option" where
  "knote_walk cb [] w = Some (w, 0)"
| "knote_walk cb (kn # kns) w = do {
     (w, rv) \<leftarrow> cb kn w;
     if rv \<noteq> 0 then Some (w, rv) else knote_walk cb kns w }"

definition knote_foreach ::
  "nat \<Rightarrow> (addr \<Rightarrow> ('k, 'z) world_scheme \<Rightarrow> (('k, 'z) world_scheme \<times> int) option)
    \<Rightarrow> ('k, 'z) world_scheme \<Rightarrow> (('k, 'z) world_scheme \<times> int) option" where
  "knote_foreach fi cb w = knote_walk cb (map snd (kf_index (kq_filt w ! fi))) w"

definition knote_copyout_flag_actions ::
  "(('k, 'z) world_scheme) filter_ops \<Rightarrow> nat \<Rightarrow> addr \<Rightarrow> ('k, 'z) world_scheme
    \<Rightarrow> (('k, 'z) world_scheme \<times> int) option" where
  "knote_copyout_flag_actions ops fi kn w = do {
     k \<leftarrow> knotes w kn;
     (w, rv) \<leftarrow> (if has_flag (flags (kev k)) EV_DISPATCH then knote_disable ops fi kn w else Some (w, 0));
     k \<leftarrow> knotes w kn;
     if has_flag (flags (kev k)) EV_ONESHOT then knote_delete ops fi kn w else Some (w, rv) }"

end
