(* ===== verification/Knote_Inv.thy ===== *)
theory Knote_Inv
  imports Knote
begin

text \<open>
  The invariant of the common state, and the contract of a filter's callbacks.

  \<open>core_inv D R w\<close>: every filter's index is ordered by ident and holds live,
  once-referenced knotes of that filter under their own ident; ready lists hold
  linked knotes; the counter is the number of linked knotes; and every live
  knote is linked, except for those in \<open>D\<close>, which are being created or deleted.
  \<open>R\<close> names the detached knotes that a filter may already have put on a ready
  list.  \<open>core_wf\<close> is the invariant between two operations.
\<close>

subsection \<open>The invariant\<close>

definition kn_core :: "'k knote_scheme \<Rightarrow> u64 \<times> u16 \<times> u32 \<times> bool" where
  "kn_core k = (ident (kev k), kfilter (kev k), kn_ref k, has_flag (kn_flags k) KNFL_KNOTE_DELETED)"

abbreviation filt_at :: "('k, 'z) world_scheme \<Rightarrow> nat \<Rightarrow> filter_t" where
  "filt_at w fi \<equiv> kq_filt w ! fi"

definition linked :: "('k, 'z) world_scheme \<Rightarrow> nat \<Rightarrow> addr set" where
  "linked w fi = snd ` set (kf_index (filt_at w fi))"

definition entry_ok :: "('k, 'z) world_scheme \<Rightarrow> nat \<Rightarrow> u64 \<Rightarrow> addr \<Rightarrow> bool" where
  "entry_ok w fi i a \<longleftrightarrow>
     (\<exists>flt. map_option kn_core (knotes w a) = Some (i, flt, 1, False) \<and> inv_filt flt = int fi)"

definition filt_inv :: "(nat \<times> addr) set \<Rightarrow> ('k, 'z) world_scheme \<Rightarrow> nat \<Rightarrow> bool" where
  "filt_inv R w fi \<longleftrightarrow>
     idx_ok (kf_index (filt_at w fi)) \<and>
     (\<forall>(i, a) \<in> set (kf_index (filt_at w fi)). entry_ok w fi i a) \<and>
     set (kf_ready (filt_at w fi)) \<subseteq> linked w fi \<union> {a. (fi, a) \<in> R} \<and>
     distinct (kf_ready (filt_at w fi))"

definition core_inv :: "addr set \<Rightarrow> (nat \<times> addr) set \<Rightarrow> ('k, 'z) world_scheme \<Rightarrow> bool" where
  "core_inv D R w \<longleftrightarrow>
     length (kq_filt w) = EVFILT_SYSCOUNT \<and>
     (\<forall>fi < EVFILT_SYSCOUNT. filt_inv R w fi) \<and>
     kq_knote_count w = (\<Sum>fi < EVFILT_SYSCOUNT. int (length (kf_index (filt_at w fi)))) \<and>
     dom (knotes w) = (\<Union>fi \<in> {..< EVFILT_SYSCOUNT}. linked w fi) \<union> D \<and>
     (\<forall>fi < EVFILT_SYSCOUNT. linked w fi \<inter> D = {}) \<and>
     (\<forall>a \<in> dom (knotes w). a < next_addr w)"

abbreviation core_wf :: "('k, 'z) world_scheme \<Rightarrow> bool" where
  "core_wf w \<equiv> core_inv {} {} w"

lemmas core_inv_defs = core_inv_def filt_inv_def entry_ok_def linked_def

subsection \<open>The frame of a callback\<close>

text \<open>What a callback of filter \<open>fi\<close> on knote \<open>kn\<close> may change: the non-core part of
  knotes, the platform state, errno and fresh allocations; and, when \<open>r\<close> holds,
  it may put \<open>kn\<close> on its own filter's ready list.\<close>

abbreviation slot_ids :: "('k, 'z) world_scheme \<Rightarrow> u16 list" where
  "slot_ids w \<equiv> map kf_id (kq_filt w)"

lemma slot_ids_upd_filt [simp]:
  "(\<And>f. kf_id (g f) = kf_id f) \<Longrightarrow> slot_ids (upd_filt fi g w) = slot_ids w"
  by (cases "fi < length (kq_filt w)")
    (auto simp: upd_filt_def list_update_beyond nth_list_update intro!: nth_equalityI split: if_splits)

definition op_frame ::
  "nat \<Rightarrow> addr \<Rightarrow> bool \<Rightarrow> ('k, 'z) world_scheme \<Rightarrow> ('k, 'z) world_scheme \<Rightarrow> bool" where
  "op_frame fi kn r w w' \<longleftrightarrow>
     calloc_ok w' = calloc_ok w \<and> next_addr w \<le> next_addr w' \<and>
     kq_knote_count w' = kq_knote_count w \<and>
     (\<forall>a. map_option kn_core (knotes w' a) = map_option kn_core (knotes w a)) \<and>
     length (kq_filt w') = length (kq_filt w) \<and> slot_ids w' = slot_ids w \<and>
     (\<forall>i < length (kq_filt w).
        kf_index (filt_at w' i) = kf_index (filt_at w i) \<and>
        kf_copyout_set (filt_at w' i) = kf_copyout_set (filt_at w i) \<and>
        (distinct (kf_ready (filt_at w i)) \<longrightarrow> distinct (kf_ready (filt_at w' i))) \<and>
        set (kf_ready (filt_at w' i)) \<subseteq>
          set (kf_ready (filt_at w i)) \<union> (if r \<and> i = fi then {kn} else {}))"

lemma op_frame_refl [simp, intro]: "op_frame fi kn r w w"
  by (simp add: op_frame_def)

lemma op_frame_errno [simp]: "op_frame fi kn r w (w'\<lparr>errno := e\<rparr>) = op_frame fi kn r w w'"
  by (simp add: op_frame_def)

lemma op_frame_trans:
  assumes "op_frame fi kn r w w'" "op_frame fi kn r w' w''"
  shows "op_frame fi kn r w w''"
  using assms unfolding op_frame_def by (auto split: if_splits) blast+

lemma op_frame_mono: "op_frame fi kn False w w' \<Longrightarrow> op_frame fi kn r w w'"
  unfolding op_frame_def by auto

lemma op_frame_dom: "op_frame fi kn r w w' \<Longrightarrow> dom (knotes w') = dom (knotes w)"
proof -
  assume "op_frame fi kn r w w'"
  then have "\<And>a. knotes w' a = None \<longleftrightarrow> knotes w a = None"
    unfolding op_frame_def by (metis map_option_is_None)
  then show ?thesis by (simp add: dom_def)
qed

lemma op_frame_knote:
  assumes "op_frame fi kn r w w'" "knotes w a = Some k"
  obtains k' where "knotes w' a = Some k'" "kn_core k' = kn_core k"
  using assms unfolding op_frame_def by (metis map_option_eq_Some)

lemma op_frame_upd_knote:
  assumes "\<And>k. knotes w a = Some k \<Longrightarrow> kn_core (f k) = kn_core k"
  shows "op_frame fi kn r w (upd_knote a f w)"
  using assms by (cases "knotes w a") (auto simp: op_frame_def upd_knote_def)

text \<open>Which slots hold an implemented filter.\<close>

definition impl_set :: "('k, 'z) world_scheme \<Rightarrow> bool list" where
  "impl_set w = map kf_copyout_set (kq_filt w)"

lemma op_frame_impl: "op_frame fi kn r w w' \<Longrightarrow> impl_set w' = impl_set w"
  by (auto simp: impl_set_def op_frame_def intro: nth_equalityI)

lemma impl_set_upd_filt:
  "(\<And>f. kf_copyout_set (g f) = kf_copyout_set f) \<Longrightarrow> impl_set (upd_filt fi g w) = impl_set w"
  by (cases "fi < length (kq_filt w)")
    (auto simp: impl_set_def upd_filt_def list_update_beyond nth_list_update intro!: nth_equalityI split: if_splits)

lemma core_inv_frame:
  assumes inv: "core_inv D R w" and fr: "op_frame fi kn r w w'"
  shows "core_inv D (if r then insert (fi, kn) R else R) w'"
proof -
  have l: "length (kq_filt w) = EVFILT_SYSCOUNT" using inv by (simp add: core_inv_def)
  have ix: "kf_index (filt_at w' i) = kf_index (filt_at w i)" if "i < EVFILT_SYSCOUNT" for i
    using fr l that by (simp add: op_frame_def)
  then have li: "linked w' i = linked w i" if "i < EVFILT_SYSCOUNT" for i
    using that by (simp add: linked_def)
  have en: "entry_ok w' i j a = entry_ok w i j a" for i j a
    using fr by (simp add: op_frame_def entry_ok_def)
  have "filt_inv (if r then insert (fi, kn) R else R) w' i" if i: "i < EVFILT_SYSCOUNT" for i
  proof -
    have "filt_inv R w i" using inv i by (simp add: core_inv_def)
    then show ?thesis
      using fr l i ix [OF i] li [OF i] unfolding filt_inv_def en op_frame_def
      by (fastforce split: if_splits)
  qed
  moreover have "kq_knote_count w' = (\<Sum>fi < EVFILT_SYSCOUNT. int (length (kf_index (filt_at w' fi))))"
    using inv fr ix by (simp add: core_inv_def op_frame_def)
  moreover have "a < next_addr w'" if "a \<in> dom (knotes w)" for a
    using inv fr that unfolding core_inv_def op_frame_def by (meson less_le_trans)
  ultimately show ?thesis
    using inv l li fr op_frame_dom [OF fr] unfolding core_inv_def
    by (simp add: op_frame_def)
qed

lemma core_inv_drop_linked:
  assumes "core_inv D (insert (fi, kn) R) w" "kn \<in> linked w fi"
  shows "core_inv D R w"
  using assms unfolding core_inv_def filt_inv_def by fastforce

lemma core_inv_frame_linked:
  assumes "core_inv D R w" "op_frame fi kn r w w'" "fi < EVFILT_SYSCOUNT" "kn \<in> linked w fi"
  shows "core_inv D R w'"
proof -
  have "kf_index (filt_at w' fi) = kf_index (filt_at w fi)"
    using assms by (simp add: op_frame_def core_inv_def)
  then have "kn \<in> linked w' fi" using assms(4) by (simp add: linked_def)
  with core_inv_frame [OF assms(1,2)] show ?thesis
    by (cases r) (auto intro: core_inv_drop_linked)
qed

subsection \<open>Allocation, insertion, removal\<close>

lemma core_inv_linked_knote:
  assumes "core_inv D R w" "fi < EVFILT_SYSCOUNT" "(i, a) \<in> set (kf_index (filt_at w fi))"
  obtains k where "knotes w a = Some k" "ident (kev k) = i" "kn_ref k = 1"
    "\<not> has_flag (kn_flags k) KNFL_KNOTE_DELETED" "inv_filt (kfilter (kev k)) = int fi"
proof -
  have "filt_inv R w fi" using assms(1,2) by (simp add: core_inv_def)
  then have "entry_ok w fi i a" using assms(3) unfolding filt_inv_def by blast
  then show ?thesis using that by (auto simp: entry_ok_def kn_core_def)
qed

lemma core_inv_lookup:
  assumes "core_inv D R w" "fi < EVFILT_SYSCOUNT"
  shows "knote_lookup fi i w = Some a \<longleftrightarrow> (i, a) \<in> set (kf_index (filt_at w fi))"
  using assms by (simp add: knote_lookup_def rbi.find_iff core_inv_def filt_inv_def)

lemma linkedI: "(i, a) \<in> set (kf_index (filt_at w fi)) \<Longrightarrow> a \<in> linked w fi"
  by (force simp: linked_def)

lemma linked_one_filter:
  assumes "core_inv D R w" "fi < EVFILT_SYSCOUNT" "fj < EVFILT_SYSCOUNT"
    "a \<in> linked w fi" "a \<in> linked w fj"
  shows "fi = fj"
proof -
  obtain i j where "(i, a) \<in> set (kf_index (filt_at w fi))" "(j, a) \<in> set (kf_index (filt_at w fj))"
    using assms(4,5) unfolding linked_def by auto
  then show ?thesis
    using core_inv_linked_knote [OF assms(1,2)] core_inv_linked_knote [OF assms(1,3)]
    by (metis of_nat_eq_iff option.inject)
qed

lemma knote_new_inv:
  assumes "core_inv {} {} w" "knote_new kz w = (w', Some a)"
  shows "core_inv {a} {} w' \<and> knotes w' a = Some (kz\<lparr>kn_ref := 1\<rparr>) \<and> kq_filt w' = kq_filt w"
proof -
  have a: "a = next_addr w" and w': "w' = w\<lparr>next_addr := Suc a, knotes := (knotes w)(a \<mapsto> kz\<lparr>kn_ref := 1\<rparr>)\<rparr>"
    using assms(2) by (auto simp: knote_new_def calloc_def split: if_splits)
  have fresh: "a \<notin> dom (knotes w)" using assms(1) a unfolding core_inv_def by auto
  then have nl: "a \<notin> linked w fi" if "fi < EVFILT_SYSCOUNT" for fi
    using assms(1) that unfolding core_inv_def by auto
  have li: "linked w' fi = linked w fi" for fi by (simp add: w' linked_def)
  have "entry_ok w' fi i b = entry_ok w fi i b" if "(i, b) \<in> set (kf_index (filt_at w fi))" "fi < EVFILT_SYSCOUNT" for fi i b
    using nl [OF that(2)] linkedI [OF that(1)] by (auto simp: entry_ok_def w')
  then have "filt_inv {} w' fi" if "fi < EVFILT_SYSCOUNT" for fi
    using assms(1) that unfolding core_inv_def filt_inv_def li by (force simp: w')
  then show ?thesis
    using assms(1) nl a unfolding core_inv_def li by (auto simp: w' less_Suc_eq)
qed

lemma core_inv_upd_detached:
  assumes "core_inv D R w" "kn \<in> D"
  shows "core_inv D R (upd_knote kn f w)"
proof -
  let ?w = "upd_knote kn f w"
  have li: "linked ?w fi = linked w fi" for fi by (simp add: upd_knote_def linked_def)
  have nl: "kn \<notin> linked w fi" if "fi < EVFILT_SYSCOUNT" for fi
    using assms that unfolding core_inv_def by auto
  have "entry_ok ?w fi i b = entry_ok w fi i b" if "(i, b) \<in> set (kf_index (filt_at w fi))" "fi < EVFILT_SYSCOUNT" for fi i b
    using nl [OF that(2)] linkedI [OF that(1)] by (auto simp: entry_ok_def upd_knote_def)
  then have "filt_inv R ?w fi" if "fi < EVFILT_SYSCOUNT" for fi
    using assms(1) that unfolding core_inv_def filt_inv_def li by (force simp: upd_knote_def)
  moreover have "dom (knotes ?w) = dom (knotes w)" by (auto simp: upd_knote_def dom_def)
  ultimately show ?thesis
    using assms(1) unfolding core_inv_def li by (simp add: upd_knote_def)
qed

lemma sum_upd_filt:
  fixes g :: "filter_t \<Rightarrow> int"
  assumes "fi < EVFILT_SYSCOUNT" "length fs = EVFILT_SYSCOUNT"
  shows "(\<Sum>i < EVFILT_SYSCOUNT. g (fs[fi := f] ! i)) = (\<Sum>i < EVFILT_SYSCOUNT. g (fs ! i)) - g (fs ! fi) + g f"
proof -
  have "(\<Sum>i < EVFILT_SYSCOUNT. g (fs[fi := f] ! i)) = g f + (\<Sum>i \<in> {..< EVFILT_SYSCOUNT} - {fi}. g (fs ! i))"
    using assms by (subst sum.remove [of _ fi]) (auto intro: sum.cong)
  moreover have "(\<Sum>i < EVFILT_SYSCOUNT. g (fs ! i)) = g (fs ! fi) + (\<Sum>i \<in> {..< EVFILT_SYSCOUNT} - {fi}. g (fs ! i))"
    using assms by (subst sum.remove [of _ fi]) auto
  ultimately show ?thesis by simp
qed

lemma upd_filt_at:
  "length (kq_filt w) = EVFILT_SYSCOUNT \<Longrightarrow> fi < EVFILT_SYSCOUNT \<Longrightarrow>
   filt_at (upd_filt fi f w) fj = (if fj = fi then f (filt_at w fi) else filt_at w fj)"
  by (simp add: upd_filt_def)

lemma upd_filt_simps [simp]:
  "knotes (upd_filt fi f w) = knotes w"
  "next_addr (upd_filt fi f w) = next_addr w"
  "kq_knote_count (upd_filt fi f w) = kq_knote_count w"
  "length (kq_filt (upd_filt fi f w)) = length (kq_filt w)"
  "errno (upd_filt fi f w) = errno w"
  "calloc_ok (upd_filt fi f w) = calloc_ok w"
  by (simp_all add: upd_filt_def)

lemma upd_knote_simps [simp]:
  "kq_filt (upd_knote kn f w) = kq_filt w"
  "next_addr (upd_knote kn f w) = next_addr w"
  "kq_knote_count (upd_knote kn f w) = kq_knote_count w"
  "errno (upd_knote kn f w) = errno w"
  "calloc_ok (upd_knote kn f w) = calloc_ok w"
  "knotes (upd_knote kn f w) = (knotes w)(kn := map_option f (knotes w kn))"
  by (simp_all add: upd_knote_def)

lemma knote_insert_inv:
  assumes inv: "core_inv {kn} R w" and R: "R \<subseteq> {(fi, kn)}" and fi: "fi < EVFILT_SYSCOUNT"
    and k: "knotes w kn = Some k" "kn_core k = (i, flt, 1, False)" "inv_filt flt = int fi"
    and new: "knote_lookup fi i w = None"
  obtains w' where "knote_insert fi kn w = Some w'" "core_wf w'" "knotes w' = knotes w"
    "(i, kn) \<in> set (kf_index (filt_at w' fi))"
    "\<And>fj. fj < EVFILT_SYSCOUNT \<Longrightarrow> kf_ready (filt_at w' fj) = kf_ready (filt_at w fj)"
    "errno w' = errno w"
proof -
  let ?f = "\<lambda>f. f\<lparr>kf_index := idx_insert i kn (kf_index f)\<rparr>"
  let ?w = "(upd_filt fi ?f w)\<lparr>kq_knote_count := kq_knote_count w + 1\<rparr>"
  have len: "length (kq_filt w) = EVFILT_SYSCOUNT" using inv by (simp add: core_inv_def)
  have ok: "idx_ok (kf_index (filt_at w fi))" and nl: "kn \<notin> linked w fj" if "fj < EVFILT_SYSCOUNT" for fj
    using inv fi that by (auto simp: core_inv_def filt_inv_def)
  note okfi = ok [OF fi] and nlfi = nl [OF fi]
  have none: "idx_find (kf_index (filt_at w fi)) i = None" using new by (simp add: knote_lookup_def)
  have at: "filt_at ?w fj = (if fj = fi then ?f (filt_at w fi) else filt_at w fj)" for fj
    using len fi by (simp add: upd_filt_def)
  have ins: "idx_ok (idx_insert i kn (kf_index (filt_at w fi)))"
    "set (idx_insert i kn (kf_index (filt_at w fi))) = insert (i, kn) (set (kf_index (filt_at w fi)))"
    "length (idx_insert i kn (kf_index (filt_at w fi))) = Suc (length (kf_index (filt_at w fi)))"
    using rbi.ins_new [OF okfi none, of kn] rbi.length_ins [OF okfi none, of kn] nlfi
    by (auto simp: linked_def)
  have li: "linked ?w fj = (if fj = fi then insert kn (linked w fi) else linked w fj)" for fj
    unfolding linked_def at by (simp add: ins(2))
  have en: "entry_ok ?w fj j a = entry_ok w fj j a" for fj j a by (simp add: entry_ok_def)
  have "filt_inv {} ?w fj" if fj: "fj < EVFILT_SYSCOUNT" for fj
  proof (cases "fj = fi")
    case True
    have "filt_inv R w fi" using inv fi by (simp add: core_inv_def)
    with True R k show ?thesis
      unfolding filt_inv_def en li at using ins(1,2) by (auto simp: entry_ok_def)
  next
    case False
    have "filt_inv R w fj" using inv fj by (simp add: core_inv_def)
    with False R show ?thesis unfolding filt_inv_def en li at by auto
  qed
  moreover have "kq_knote_count ?w = (\<Sum>fj < EVFILT_SYSCOUNT. int (length (kf_index (filt_at ?w fj))))"
    using inv sum_upd_filt [OF fi len, of "\<lambda>f. int (length (kf_index f))" "?f (filt_at w fi)"] ins(3)
    by (simp add: core_inv_def upd_filt_def)
  moreover have "dom (knotes ?w) = (\<Union>fj \<in> {..< EVFILT_SYSCOUNT}. linked ?w fj) \<union> {}"
    using inv fi unfolding core_inv_def li by (auto split: if_splits)
  moreover have "\<forall>a \<in> dom (knotes ?w). a < next_addr ?w" using inv by (simp add: core_inv_def)
  ultimately have "core_wf ?w" using len unfolding core_inv_def by simp
  moreover have "knote_insert fi kn w = Some ?w"
    using k by (simp add: knote_insert_def kn_core_def)
  ultimately show ?thesis using that [of ?w] by (simp add: upd_filt_at len fi ins(2))
qed

lemma knote_unlink_inv:
  assumes inv: "core_wf w" and fi: "fi < EVFILT_SYSCOUNT" and kn: "(i, kn) \<in> set (kf_index (filt_at w fi))"
  obtains w' where "knote_unlink fi kn w = Some w'" "core_inv {kn} {} w'" "knotes w' = knotes w"
    "kf_index (filt_at w' fi) = idx_remove kn (kf_index (filt_at w fi))"
    "\<And>fj. fj \<noteq> fi \<Longrightarrow> filt_at w' fj = filt_at w fj" "errno w' = errno w"
    "calloc_ok w' = calloc_ok w" "next_addr w' = next_addr w"
    "kf_copyout_set (filt_at w' fi) = kf_copyout_set (filt_at w fi)"
    "set (kf_ready (filt_at w' fi)) \<subseteq> set (kf_ready (filt_at w fi)) - {kn}"
proof -
  let ?f = "\<lambda>f. f\<lparr>kf_index := idx_remove kn (kf_index f), kf_ready := removeAll kn (kf_ready f)\<rparr>"
  let ?w = "(upd_filt fi ?f w)\<lparr>kq_knote_count := kq_knote_count w - 1\<rparr>"
  have len: "length (kq_filt w) = EVFILT_SYSCOUNT" using inv by (simp add: core_inv_def)
  have okfi: "idx_ok (kf_index (filt_at w fi))" using inv fi by (simp add: core_inv_def filt_inv_def)
  have at: "filt_at ?w fj = (if fj = fi then ?f (filt_at w fi) else filt_at w fj)" for fj
    using len fi by (simp add: upd_filt_def)
  have del: "idx_ok (idx_remove kn (kf_index (filt_at w fi)))"
    "set (idx_remove kn (kf_index (filt_at w fi))) = {e \<in> set (kf_index (filt_at w fi)). snd e \<noteq> kn}"
    "Suc (length (idx_remove kn (kf_index (filt_at w fi)))) = length (kf_index (filt_at w fi))"
    using rbi.del_inv [OF okfi] rbi.del_set [OF okfi] rbi.length_del [OF okfi kn] by auto
  have lfi: "kn \<in> linked w fi" using kn by (rule linkedI)
  have li: "linked ?w fj = (if fj = fi then linked w fi - {kn} else linked w fj)" for fj
    unfolding linked_def at by (auto simp: del(2))
  have en: "entry_ok ?w fj j a = entry_ok w fj j a" for fj j a by (simp add: entry_ok_def)
  have other: "kn \<notin> linked w fj" if "fj < EVFILT_SYSCOUNT" "fj \<noteq> fi" for fj
    using linked_one_filter [OF inv fi that(1) lfi] that(2) by blast
  have "filt_inv {} ?w fj" if fj: "fj < EVFILT_SYSCOUNT" for fj
  proof -
    have "filt_inv {} w fj" using inv fj by (simp add: core_inv_def)
    then show ?thesis unfolding filt_inv_def en li at using del(1,2) by (auto simp: distinct_removeAll)
  qed
  moreover have cnt: "kq_knote_count ?w = (\<Sum>fj < EVFILT_SYSCOUNT. int (length (kf_index (filt_at ?w fj))))"
    using inv sum_upd_filt [OF fi len, of "\<lambda>f. int (length (kf_index f))" "?f (filt_at w fi)"] del(3)
    by (simp add: core_inv_def upd_filt_def)
  moreover have "dom (knotes ?w) = (\<Union>fj \<in> {..< EVFILT_SYSCOUNT}. linked ?w fj) \<union> {kn}"
    using inv fi lfi unfolding core_inv_def li by (auto split: if_splits)
  moreover have "\<forall>a \<in> dom (knotes ?w). a < next_addr ?w" using inv by (simp add: core_inv_def)
  ultimately have "core_inv {kn} {} ?w" using len other unfolding core_inv_def li by auto
  moreover have "0 < kq_knote_count w"
  proof -
    have "0 \<le> kq_knote_count ?w" unfolding cnt by (rule sum_nonneg) simp
    then show ?thesis by simp
  qed
  then have "knote_unlink fi kn w = Some ?w"
    using lfi len fi by (simp add: knote_unlink_def linked_def upd_filt_def Let_def)
  ultimately show ?thesis using that [of ?w] by (auto simp: upd_filt_at len fi)
qed

lemma knote_release_inv:
  assumes inv: "core_inv {kn} {} w" and k: "knotes w kn = Some k" "kn_ref k = 1"
    "has_flag (kn_flags k) KNFL_KNOTE_DELETED"
  shows "knote_release kn w = Some (w\<lparr>knotes := (knotes w)(kn := None)\<rparr>)"
    and "core_wf (w\<lparr>knotes := (knotes w)(kn := None)\<rparr>)"
proof -
  let ?w = "w\<lparr>knotes := (knotes w)(kn := None)\<rparr>"
  have nl: "kn \<notin> linked w fi" if "fi < EVFILT_SYSCOUNT" for fi
    using inv that unfolding core_inv_def by auto
  have li: "linked ?w fi = linked w fi" for fi by (simp add: linked_def)
  have "entry_ok ?w fi i b = entry_ok w fi i b" if "(i, b) \<in> set (kf_index (filt_at w fi))" "fi < EVFILT_SYSCOUNT" for fi i b
    using nl [OF that(2)] linkedI [OF that(1)] by (auto simp: entry_ok_def)
  then have "filt_inv {} ?w fi" if "fi < EVFILT_SYSCOUNT" for fi
    using inv that unfolding core_inv_def filt_inv_def li by force
  then show "core_wf ?w" using inv nl unfolding core_inv_def li by auto
  show "knote_release kn w = Some ?w"
    using k by (simp add: knote_release_def upd_knote_def Let_def)
qed

text \<open>A kqueue without knotes satisfies the invariant.\<close>

lemma core_wf_empty:
  assumes "length (kq_filt w) = EVFILT_SYSCOUNT" "\<forall>f \<in> set (kq_filt w). kf_index f = [] \<and> kf_ready f = []"
    "knotes w = Map.empty" "kq_knote_count w = 0"
  shows "core_wf w"
proof -
  have "kf_index (filt_at w fi) = [] \<and> kf_ready (filt_at w fi) = []" if "fi < EVFILT_SYSCOUNT" for fi
    using assms(1,2) that by simp
  then show ?thesis using assms by (simp add: core_inv_def filt_inv_def linked_def idx_ok_def)
qed

end
