(* ===== verification/Knote_Contract.thy ===== *)
theory Knote_Contract
  imports Knote_Inv
begin

text \<open>
  The contract between the common code and a filter (the documentation of
  \<^verbatim>\<open>struct filter\<close> in \<^verbatim>\<open>common/private.h\<close>), and the knote operations proved
  against it.

  A backend brings an invariant \<open>binv\<close> of its own state, and a predicate
  \<open>bfree kn\<close> that says that nothing in the backend points to the knote \<open>kn\<close>.  The
  locale \<open>backend_state\<close> says how these two react to the common code;
  \<open>filter_contract\<close> adds the callbacks of one filter: each returns when its
  preconditions hold, stays within its frame, keeps the invariant, and
  \<open>kn_delete\<close> (and a failing \<open>kn_create\<close>) leaves no pointer behind.  \<open>adm\<close> says
  which idents the filter is specified for.
\<close>

subsection \<open>The platform's view of a state\<close>

definition kn_ext :: "'k knote_scheme \<Rightarrow> u64 \<times> u16 \<times> u32 \<times> u32 \<times> 'k" where
  "kn_ext k =
     (ident (kev k), kfilter (kev k), clear_flag KNFL_KNOTE_DELETED (kn_flags k), kn_signal_count k, knote.more k)"

definition ext_same :: "('k, 'z) world_scheme \<Rightarrow> ('k, 'z) world_scheme \<Rightarrow> bool" where
  "ext_same w w' \<longleftrightarrow>
     world.more w' = world.more w \<and> calloc_ok w' = calloc_ok w \<and> next_addr w \<le> next_addr w' \<and>
     (\<forall>a. map_option kn_ext (knotes w' a) = map_option kn_ext (knotes w a))"

lemma ext_same_refl [simp, intro]: "ext_same w w"
  by (simp add: ext_same_def)

lemma ext_same_upd_filt [simp]: "ext_same w (upd_filt fi f w)"
  by (simp add: ext_same_def upd_filt_def)

lemma ext_same_errno [simp]: "ext_same w (w\<lparr>errno := e\<rparr>)"
  by (simp add: ext_same_def)

lemma ext_same_upd_knote:
  "(\<And>k. knotes w a = Some k \<Longrightarrow> kn_ext (f k) = kn_ext k) \<Longrightarrow> ext_same w (upd_knote a f w)"
  by (cases "knotes w a") (auto simp: ext_same_def upd_knote_def)

lemma kn_ext_simps [simp]:
  "kn_ext (KNOTE_ENABLE k) = kn_ext k"
  "kn_ext (KNOTE_DISABLE k) = kn_ext k"
  "kn_ext (k\<lparr>kn_flags := set_flag KNFL_KNOTE_DELETED (kn_flags k)\<rparr>) = kn_ext k"
  "kn_ext (k\<lparr>kn_ref := r\<rparr>) = kn_ext k"
  "ident e = ident (kev k) \<Longrightarrow> kfilter e = kfilter (kev k) \<Longrightarrow> kn_ext (k\<lparr>kev := e\<rparr>) = kn_ext k"
proof -
  have "clear_flag f (set_flag f x) = clear_flag f x" for f x :: u32
    unfolding clear_flag_def set_flag_def by (rule bit_word_eqI) (auto simp: bit_simps)
  then show "kn_ext (k\<lparr>kn_flags := set_flag KNFL_KNOTE_DELETED (kn_flags k)\<rparr>) = kn_ext k"
    by (simp add: kn_ext_def)
qed (simp_all add: kn_ext_def KNOTE_ENABLE_def KNOTE_DISABLE_def upd_flags_def)

lemma kn_core_simps [simp]:
  "kn_core (KNOTE_ENABLE k) = kn_core k"
  "kn_core (KNOTE_DISABLE k) = kn_core k"
  "ident e = ident (kev k) \<Longrightarrow> kfilter e = kfilter (kev k) \<Longrightarrow> kn_core (k\<lparr>kev := e\<rparr>) = kn_core k"
  by (simp_all add: kn_core_def KNOTE_ENABLE_def KNOTE_DISABLE_def upd_flags_def)

definition idx_same :: "('k, 'z) world_scheme \<Rightarrow> ('k, 'z) world_scheme \<Rightarrow> bool" where
  "idx_same w w' \<longleftrightarrow> impl_set w' = impl_set w \<and> slot_ids w' = slot_ids w \<and>
     (\<forall>fj < EVFILT_SYSCOUNT. kf_index (filt_at w' fj) = kf_index (filt_at w fj))"

lemma idx_same_frame:
  assumes "core_inv D R w" "op_frame fi kn r w w'"
  shows "idx_same w w'"
  using op_frame_impl [OF assms(2)] assms by (simp add: idx_same_def op_frame_def core_inv_def)

lemma impl_set_upd_knote [simp]: "impl_set (upd_knote kn f w) = impl_set w"
  by (simp add: impl_set_def)

lemma idx_same_refl [simp]: "idx_same w w"
  by (simp add: idx_same_def)

text \<open>The ready lists of the other filters only shrink.\<close>

definition ready_other :: "nat \<Rightarrow> ('k, 'z) world_scheme \<Rightarrow> ('k, 'z) world_scheme \<Rightarrow> bool" where
  "ready_other fi w w' \<longleftrightarrow>
     (\<forall>fj < EVFILT_SYSCOUNT. fj \<noteq> fi \<longrightarrow> set (kf_ready (filt_at w' fj)) \<subseteq> set (kf_ready (filt_at w fj)))"

lemma ready_other_refl [simp]: "ready_other fi w w"
  by (simp add: ready_other_def)

lemma ready_other_trans: "ready_other fi w w' \<Longrightarrow> ready_other fi w' w'' \<Longrightarrow> ready_other fi w w''"
  unfolding ready_other_def by blast

lemma ready_other_frame: "length (kq_filt w) = EVFILT_SYSCOUNT \<Longrightarrow> op_frame fi kn r w w' \<Longrightarrow> ready_other fi w w'"
proof -
  assume a: "length (kq_filt w) = EVFILT_SYSCOUNT" "op_frame fi kn r w w'"
  have "set (kf_ready (filt_at w' fj)) \<subseteq> set (kf_ready (filt_at w fj)) \<union> (if r \<and> fj = fi then {kn} else {})"
    if "fj < EVFILT_SYSCOUNT" for fj using a that by (simp add: op_frame_def)
  then show ?thesis unfolding ready_other_def by fastforce
qed

lemma ready_other_upd [simp]:
  "ready_other fi w (upd_knote a f w') = ready_other fi w w'"
  "ready_other fi w (w'\<lparr>knotes := h\<rparr>) = ready_other fi w w'"
  "ready_other fi w (upd_filt fi g w') = ready_other fi w w'"
  by (auto simp: ready_other_def upd_knote_def upd_filt_def nth_list_update)

subsection \<open>The contract\<close>

locale backend_state =
  fixes binv :: "('k, 'z) world_scheme \<Rightarrow> bool"
    and bfree :: "addr \<Rightarrow> ('k, 'z) world_scheme \<Rightarrow> bool"
    and kz :: "'k knote_scheme"
  assumes binv_ext: "binv w \<Longrightarrow> ext_same w w' \<Longrightarrow> binv w'"
    and bfree_ext: "bfree kn w \<Longrightarrow> ext_same w w' \<Longrightarrow> bfree kn w'"
    and binv_new: "core_wf w \<Longrightarrow> binv w \<Longrightarrow> knote_new kz w = (w', Some kn) \<Longrightarrow>
      binv (upd_knote kn (\<lambda>k. k\<lparr>kev := e\<rparr>) w') \<and> bfree kn (upd_knote kn (\<lambda>k. k\<lparr>kev := e\<rparr>) w')"
    and binv_free: "core_inv {kn} {} w \<Longrightarrow> binv w \<Longrightarrow> bfree kn w \<Longrightarrow> binv (w\<lparr>knotes := (knotes w)(kn := None)\<rparr>)"
    and kz_flags: "kn_flags kz = 0"

locale filter_contract = backend_state binv bfree kz
  for binv :: "('k, 'z) world_scheme \<Rightarrow> bool" and bfree and kz +
  fixes ops :: "(('k, 'z) world_scheme) filter_ops"
    and fi :: nat
    and adm :: "u64 \<Rightarrow> bool"
  assumes slot: "fi < EVFILT_SYSCOUNT"
    and create: "core_inv {kn} {} w \<Longrightarrow> binv w \<Longrightarrow> bfree kn w \<Longrightarrow> knotes w kn = Some k \<Longrightarrow>
      inv_filt (kfilter (kev k)) = int fi \<Longrightarrow> adm (ident (kev k)) \<Longrightarrow>
      knote_lookup fi (ident (kev k)) w = None \<Longrightarrow>
      \<exists>w' rv. kn_create ops kn w = Some (w', rv) \<and> op_frame fi kn (0 \<le> rv) w w' \<and> binv w' \<and>
        (rv < 0 \<longrightarrow> bfree kn w')"
    and modify: "core_wf w \<Longrightarrow> binv w \<Longrightarrow> (ident src, kn) \<in> set (kf_index (filt_at w fi)) \<Longrightarrow>
      inv_filt (kfilter src) = int fi \<Longrightarrow> adm (ident src) \<Longrightarrow>
      \<exists>w' rv. kn_modify ops kn src w = Some (w', rv) \<and> op_frame fi kn True w w' \<and> binv w'"
    and delete: "core_inv {kn} {} w \<Longrightarrow> binv w \<Longrightarrow> knotes w kn = Some k \<Longrightarrow>
      inv_filt (kfilter (kev k)) = int fi \<Longrightarrow> adm (ident (kev k)) \<Longrightarrow>
      knote_lookup fi (ident (kev k)) w = None \<Longrightarrow>
      \<exists>w' rv. kn_delete ops kn w = Some (w', rv) \<and> op_frame fi kn False w w' \<and> binv w' \<and>
        bfree kn w' \<and> rv \<le> 0"
    and enable: "core_wf w \<Longrightarrow> binv w \<Longrightarrow> (i, kn) \<in> set (kf_index (filt_at w fi)) \<Longrightarrow> adm i \<Longrightarrow>
      \<exists>w' rv. kn_enable ops kn w = Some (w', rv) \<and> op_frame fi kn True w w' \<and> binv w'"
    and disable: "core_wf w \<Longrightarrow> binv w \<Longrightarrow> (i, kn) \<in> set (kf_index (filt_at w fi)) \<Longrightarrow> adm i \<Longrightarrow>
      \<exists>w' rv. kn_disable ops kn w = Some (w', rv) \<and> op_frame fi kn True w w' \<and> binv w'"
begin

text \<open>What an operation on a state that satisfies both invariants leaves behind.\<close>

lemma linked_entry:
  assumes "core_wf w" "kn \<in> linked w fi"
  obtains i k where "(i, kn) \<in> set (kf_index (filt_at w fi))" "knotes w kn = Some k" "ident (kev k) = i"
    "kn_ref k = 1" "\<not> has_flag (kn_flags k) KNFL_KNOTE_DELETED" "inv_filt (kfilter (kev k)) = int fi"
proof -
  obtain i where "(i, kn) \<in> set (kf_index (filt_at w fi))" using assms(2) by (auto simp: linked_def)
  then show ?thesis using that core_inv_linked_knote [OF assms(1) slot] by blast
qed

lemma frame_ready:
  assumes "core_wf w" "kn \<in> linked w fi"
  shows "core_wf (upd_filt fi (\<lambda>f. f\<lparr>kf_ready := removeAll kn (kf_ready f)\<rparr>) w)"
proof (rule core_inv_frame_linked [OF assms(1) _ slot assms(2)])
  have "length (kq_filt w) = EVFILT_SYSCOUNT" using assms(1) by (simp add: core_inv_def)
  then show "op_frame fi kn False w (upd_filt fi (\<lambda>f. f\<lparr>kf_ready := removeAll kn (kf_ready f)\<rparr>) w)"
    using slot by (auto simp: op_frame_def upd_filt_at distinct_removeAll)
qed

lemma upd_linked_wf:
  assumes "core_wf w" "kn \<in> linked w fi" "\<And>k. knotes w kn = Some k \<Longrightarrow> kn_core (f k) = kn_core k"
  shows "core_wf (upd_knote kn f w)"
  using core_inv_frame_linked [OF assms(1) op_frame_upd_knote slot assms(2)] assms(3) by blast

lemma knote_delete_ok:
  assumes wf: "core_wf w" and b: "binv w" and ix: "(i, kn) \<in> set (kf_index (filt_at w fi))" and ad: "adm i"
  obtains w' rv where "knote_delete ops fi kn w = Some (w', rv)" "core_wf w'" "binv w'" "rv \<le> 0"
    "knotes w' kn = None" "impl_set w' = impl_set w" "slot_ids w' = slot_ids w"
    "kf_index (filt_at w' fi) = idx_remove kn (kf_index (filt_at w fi))"
    "\<And>fj. fj < EVFILT_SYSCOUNT \<Longrightarrow> fj \<noteq> fi \<Longrightarrow> kf_index (filt_at w' fj) = kf_index (filt_at w fj)"
    "ready_other fi w w'"
proof -
  obtain k where k: "knotes w kn = Some k" "knotes w kn = Some k"
      "\<not> has_flag (kn_flags k) KNFL_KNOTE_DELETED" "inv_filt (kfilter (kev k)) = int fi" "kn_ref k = 1"
      and i: "ident (kev k) = i"
    using core_inv_linked_knote [OF wf slot ix] by metis
  obtain w1 where w1: "knote_unlink fi kn w = Some w1" "core_inv {kn} {} w1" "knotes w1 = knotes w"
      "kf_index (filt_at w1 fi) = idx_remove kn (kf_index (filt_at w fi))"
      "\<And>fj. fj \<noteq> fi \<Longrightarrow> filt_at w1 fj = filt_at w fj"
    using knote_unlink_inv [OF wf slot ix] by metis
  have "idx_ok (kf_index (filt_at w fi))" using wf slot by (simp add: core_inv_def filt_inv_def)
  then have gone: "knote_lookup fi (ident (kev k)) w1 = None"
    using rbi.find_del [OF _ ix] i w1(4) by (simp add: knote_lookup_def)
  have "ext_same w w1"
    using w1(1) unfolding knote_unlink_def by (auto simp: ext_same_def upd_filt_def Let_def split: if_splits)
  then have "binv w1" using b binv_ext by blast
  then obtain w2 rv where w2: "kn_delete ops kn w1 = Some (w2, rv)" "op_frame fi kn False w1 w2" "binv w2"
      "bfree kn w2" "rv \<le> 0"
    using delete [OF w1(2), of k] w1(3) k gone i ad by auto
  have i2: "core_inv {kn} {} w2" using core_inv_frame [OF w1(2) w2(2)] by simp
  obtain k2 where k2: "knotes w2 kn = Some k2" "kn_core k2 = kn_core k"
    using op_frame_knote [OF w2(2), of kn k] w1(3) k(2) by auto
  let ?f = "\<lambda>k :: 'k knote_scheme. k\<lparr>kn_flags := set_flag KNFL_KNOTE_DELETED (kn_flags k)\<rparr>"
  let ?w3 = "upd_knote kn ?f w2"
  have e3: "ext_same w2 ?w3" by (rule ext_same_upd_knote) simp
  have i3: "core_inv {kn} {} ?w3" by (rule core_inv_upd_detached [OF i2]) simp
  have "knotes ?w3 kn = Some (?f k2)" "kn_ref (?f k2) = 1" "has_flag (kn_flags (?f k2)) KNFL_KNOTE_DELETED"
    using k2 k(5) by (simp_all add: kn_core_def KNFL_KNOTE_DELETED_def)
  note w4 = knote_release_inv [OF i3 this]
  let ?w4 = "?w3\<lparr>knotes := (knotes ?w3)(kn := None)\<rparr>"
  have "binv ?w4" by (rule binv_free [OF i3 binv_ext [OF w2(3) e3] bfree_ext [OF w2(4) e3]])
  moreover have "knote_delete ops fi kn w = Some (?w4, rv)"
    using k(2,3) w1(1) w2(1) w4(1) by (simp add: knote_delete_def)
  moreover have "kf_index (filt_at ?w4 fj) = kf_index (filt_at w1 fj)" if "fj < EVFILT_SYSCOUNT" for fj
    using w2(2) w1(2) that by (simp add: op_frame_def core_inv_def)
  moreover have "impl_set ?w4 = impl_set w"
    using op_frame_impl [OF w2(2)] w1(1)
    by (auto simp: impl_set_def knote_unlink_def Let_def impl_set_upd_filt [unfolded impl_set_def] split: if_splits)
  moreover have "slot_ids ?w4 = slot_ids w"
    using w2(2) w1(1)
    by (auto simp: op_frame_def knote_unlink_def Let_def split: if_splits)
  moreover have "ready_other fi w ?w4"
  proof -
    have "ready_other fi w w1" using w1(5) by (simp add: ready_other_def)
    then show ?thesis using ready_other_trans ready_other_frame [OF _ w2(2)] w1(2) by (simp add: core_inv_def) blast
  qed
  ultimately show ?thesis using that [of ?w4 rv] w4(2) w1 w2(5) slot by simp
qed

lemma knote_disable_ok:
  assumes wf: "core_wf w" and b: "binv w" and ix: "(i, kn) \<in> set (kf_index (filt_at w fi))" and ad: "adm i"
  obtains w' rv where "knote_disable ops fi kn w = Some (w', rv)" "core_wf w'" "binv w'" "idx_same w w'"
    "\<exists>k. knotes w' kn = Some k \<and> (rv = 0 \<longrightarrow> KNOTE_DISABLED k)" "ready_other fi w w'"
proof -
  note kn = linkedI [OF ix]
  obtain k where k: "(i, kn) \<in> set (kf_index (filt_at w fi))" "knotes w kn = Some k"
    using core_inv_linked_knote [OF wf slot ix] ix by metis
  obtain w1 rv where w1: "kn_disable ops kn w = Some (w1, rv)" "op_frame fi kn True w w1" "binv w1"
    using disable [OF wf b ix ad] by blast
  have i1: "core_wf w1" using core_inv_frame_linked [OF wf w1(2) slot kn] .
  have same: "idx_same w w1" by (rule idx_same_frame [OF wf w1(2)])
  then have kn1: "kn \<in> linked w1 fi" using kn slot by (simp add: idx_same_def linked_def)
  obtain k1 where k1: "knotes w1 kn = Some k1" using op_frame_knote [OF w1(2) k(2)] by blast
  let ?w2 = "upd_filt fi (\<lambda>f. f\<lparr>kf_ready := removeAll kn (kf_ready f)\<rparr>) w1"
  have i2: "core_wf ?w2" by (rule frame_ready [OF i1 kn1])
  have ro: "ready_other fi w w1" using ready_other_frame [OF _ w1(2)] wf by (simp add: core_inv_def)
  have s2: "idx_same w1 ?w2" using i1 slot by (simp add: idx_same_def upd_filt_at core_inv_def impl_set_upd_filt)
  have kn2: "kn \<in> linked ?w2 fi" using kn1 s2 slot by (simp add: idx_same_def linked_def)
  show ?thesis
  proof (cases "KNOTE_DISABLED k")
    case True
    then show ?thesis using that [of w 0] wf b k by (simp add: knote_disable_def)
  next
    case False
    show ?thesis
    proof (cases "rv = 0")
      case True
      have "binv (upd_knote kn KNOTE_DISABLE ?w2)"
        using binv_ext [OF binv_ext [OF w1(3) ext_same_upd_filt] ext_same_upd_knote] by simp
      moreover have "core_wf (upd_knote kn KNOTE_DISABLE ?w2)" by (rule upd_linked_wf [OF i2 kn2]) simp
      moreover have "idx_same w (upd_knote kn KNOTE_DISABLE ?w2)"
        using same s2 by (simp add: idx_same_def)
      moreover have "KNOTE_DISABLED (KNOTE_DISABLE k1)"
        by (simp add: KNOTE_DISABLED_def KNOTE_DISABLE_def upd_flags_def EV_DISABLE_def)
      ultimately show ?thesis
        using that [of "upd_knote kn KNOTE_DISABLE ?w2" 0] False True k w1(1) k1 ro
        by (simp add: knote_disable_def)
    next
      case rv: False
      then show ?thesis using that [of w1 rv] False k w1 i1 same k1 ro by (simp add: knote_disable_def)
    qed
  qed
qed

lemma knote_enable_ok:
  assumes wf: "core_wf w" and b: "binv w" and ix: "(i, kn) \<in> set (kf_index (filt_at w fi))" and ad: "adm i"
  obtains w' rv where "knote_enable ops fi kn w = Some (w', rv)" "core_wf w'" "binv w'" "idx_same w w'"
    "\<exists>k. knotes w' kn = Some k \<and> (rv = 0 \<longrightarrow> KNOTE_ENABLED k)"
proof -
  note kn = linkedI [OF ix]
  obtain k where k: "(i, kn) \<in> set (kf_index (filt_at w fi))" "knotes w kn = Some k"
    using core_inv_linked_knote [OF wf slot ix] ix by metis
  obtain w1 rv where w1: "kn_enable ops kn w = Some (w1, rv)" "op_frame fi kn True w w1" "binv w1"
    using enable [OF wf b ix ad] by blast
  have i1: "core_wf w1" using core_inv_frame_linked [OF wf w1(2) slot kn] .
  have same: "idx_same w w1" by (rule idx_same_frame [OF wf w1(2)])
  then have kn1: "kn \<in> linked w1 fi" using kn slot by (simp add: idx_same_def linked_def)
  obtain k1 where k1: "knotes w1 kn = Some k1" using op_frame_knote [OF w1(2) k(2)] by blast
  let ?w2 = "upd_knote kn KNOTE_ENABLE w1"
  have w2: "binv ?w2" "core_wf ?w2" "idx_same w ?w2" "KNOTE_ENABLED (KNOTE_ENABLE k1)"
    using binv_ext [OF w1(3) ext_same_upd_knote] upd_linked_wf [OF i1 kn1, of KNOTE_ENABLE] same
    by (simp_all add: idx_same_def KNOTE_ENABLED_def KNOTE_ENABLE_def upd_flags_def)
  show ?thesis
  proof (cases "KNOTE_ENABLED k")
    case True
    then show ?thesis using that [of w 0] wf b k by (simp add: knote_enable_def)
  next
    case False
    then show ?thesis
      using that [of ?w2 0] that [of w1 rv] k w1 i1 same k1 w2
      by (cases "rv = 0") (simp_all add: knote_enable_def)
  qed
qed

text \<open>Deleting every knote of the filter empties its index and faults nowhere.\<close>

lemma knote_walk_delete_ok:
  assumes "core_wf w" "binv w" "\<forall>(i, a) \<in> set (kf_index (filt_at w fi)). adm i" "map snd (kf_index (filt_at w fi)) = kns"
  shows "\<exists>w'. knote_walk_delete ops fi kns w = Some w' \<and> core_wf w' \<and> binv w' \<and>
    kf_index (filt_at w' fi) = [] \<and> impl_set w' = impl_set w \<and> slot_ids w' = slot_ids w \<and>
    (\<forall>fj < EVFILT_SYSCOUNT. fj \<noteq> fi \<longrightarrow> kf_index (filt_at w' fj) = kf_index (filt_at w fj))"
  using assms
proof (induction kns arbitrary: w)
  case (Cons kn kns)
  have "kn \<in> snd ` set (kf_index (filt_at w fi))" using Cons.prems(4) by (simp flip: set_map)
  then obtain i where ix: "(i, kn) \<in> set (kf_index (filt_at w fi))" by force
  then have ad: "adm i" using Cons.prems(3) by blast
  obtain w1 rv where w1: "knote_delete ops fi kn w = Some (w1, rv)" "core_wf w1" "binv w1"
      "kf_index (filt_at w1 fi) = idx_remove kn (kf_index (filt_at w fi))" "impl_set w1 = impl_set w" "slot_ids w1 = slot_ids w"
      "\<And>fj. fj < EVFILT_SYSCOUNT \<Longrightarrow> fj \<noteq> fi \<Longrightarrow> kf_index (filt_at w1 fj) = kf_index (filt_at w fj)"
    using knote_delete_ok [OF Cons.prems(1,2) ix ad] by metis
  have "distinct (kn # kns)"
    using Cons.prems slot by (metis core_inv_def filt_inv_def idx_ok_def)
  then have "map snd (idx_remove kn (kf_index (filt_at w fi))) = kns"
    using Cons.prems(4) by (auto simp: idx_remove_def intro!: arg_cong [of _ _ "map snd"] filter_True)
  then have "map snd (kf_index (filt_at w1 fi)) = kns" using w1(4) by simp
  moreover have "\<forall>(i, a) \<in> set (kf_index (filt_at w1 fi)). adm i" using Cons.prems(3) w1(4) by (auto simp: idx_remove_def)
  ultimately show ?case using Cons.IH [OF w1(2,3)] w1 by auto
qed simp

lemma knote_delete_all_ok:
  assumes "core_wf w" "binv w" "\<forall>(i, a) \<in> set (kf_index (filt_at w fi)). adm i"
  shows "\<exists>w'. knote_delete_all ops fi w = Some w' \<and> core_wf w' \<and> binv w' \<and> kf_index (filt_at w' fi) = [] \<and>
    impl_set w' = impl_set w \<and> slot_ids w' = slot_ids w \<and>
    (\<forall>fj < EVFILT_SYSCOUNT. fj \<noteq> fi \<longrightarrow> kf_index (filt_at w' fj) = kf_index (filt_at w fj))"
  using knote_walk_delete_ok [OF assms refl] by (simp add: knote_delete_all_def)

text \<open>The actions after an event: EV_ONESHOT deletes the knote, EV_DISPATCH disables it.\<close>

lemma flag_actions_index:
  assumes wf: "core_wf w" and b: "binv w" and ix: "(i, kn) \<in> set (kf_index (filt_at w fi))" and ad: "adm i"
  shows "\<exists>w' rv. knote_copyout_flag_actions ops fi kn w = Some (w', rv) \<and> core_wf w' \<and> binv w' \<and>
    impl_set w' = impl_set w \<and> slot_ids w' = slot_ids w \<and>
    kf_index (filt_at w' fi) \<in> {kf_index (filt_at w fi), idx_remove kn (kf_index (filt_at w fi))} \<and>
    (\<forall>fj < EVFILT_SYSCOUNT. fj \<noteq> fi \<longrightarrow> kf_index (filt_at w' fj) = kf_index (filt_at w fj) \<and>
      set (kf_ready (filt_at w' fj)) \<subseteq> set (kf_ready (filt_at w fj)))"
proof -
  obtain k where k: "knotes w kn = Some k" using core_inv_linked_knote [OF wf slot ix] by metis
  obtain w1 r where w1: "(if has_flag (flags (kev k)) EV_DISPATCH then knote_disable ops fi kn w else Some (w, 0)) = Some (w1, r)"
      "core_wf w1" "binv w1" "idx_same w w1" "ready_other fi w w1"
  proof (cases "has_flag (flags (kev k)) EV_DISPATCH")
    case disp: True
    show ?thesis using knote_disable_ok [OF wf b ix ad] that disp by metis
  next
    case False
    then show ?thesis using that [of w 0] wf b by simp
  qed
  have ix1: "(i, kn) \<in> set (kf_index (filt_at w1 fi))" using ix slot w1(4) by (simp add: idx_same_def)
  obtain k1 where k1: "knotes w1 kn = Some k1" using core_inv_linked_knote [OF w1(2) slot ix1] by metis
  obtain w2 rv where w2: "knote_delete ops fi kn w1 = Some (w2, rv)" "core_wf w2" "binv w2"
      "impl_set w2 = impl_set w1" "slot_ids w2 = slot_ids w1" "kf_index (filt_at w2 fi) = idx_remove kn (kf_index (filt_at w1 fi))"
      "\<And>fj. fj < EVFILT_SYSCOUNT \<Longrightarrow> fj \<noteq> fi \<Longrightarrow> kf_index (filt_at w2 fj) = kf_index (filt_at w1 fj)" "ready_other fi w1 w2"
    using knote_delete_ok [OF w1(2,3) ix1 ad] by metis
  have run: "knote_copyout_flag_actions ops fi kn w =
      (if has_flag (flags (kev k1)) EV_ONESHOT then Some (w2, rv) else Some (w1, r))"
    using k k1 w1(1) w2(1) by (simp add: knote_copyout_flag_actions_def)
  show ?thesis
  proof (cases "has_flag (flags (kev k1)) EV_ONESHOT")
    case True
    then show ?thesis using run w2 w1(4) ready_other_trans [OF w1(5) w2(8)] slot by (auto simp: idx_same_def ready_other_def)
  next
    case False
    then show ?thesis using run w1 slot by (auto simp: idx_same_def ready_other_def)
  qed
qed

end

end
