(* ===== verification/Kq_Filter.thy ===== *)
theory Kq_Filter
  imports Knote_Contract
begin

text \<open>
  The filter table of a kqueue (\<^verbatim>\<open>common/filter.c\<close>).  The list of compiled-in
  filters (\<^verbatim>\<open>filter_list.h\<close>, written by the build) is an argument: a list of
  \<open>filter_def\<close> records, the static \<^verbatim>\<open>struct filter\<close> objects the list names.  The
  optional hooks \<open>filter_init\<close> and \<open>filter_free\<close> of the platform's vtable are
  arguments as well.
\<close>

subsection \<open>Filter objects\<close>

record 'w filter_def =
  fd_id :: u16
  fd_callbacks :: bool
  fd_ops :: "'w filter_ops"
  fd_init :: "(nat \<Rightarrow> 'w \<Rightarrow> ('w \<times> int) option) option"
  fd_destroy :: "(nat \<Rightarrow> 'w \<Rightarrow> 'w option) option"
  fd_libkqueue_init :: "('w \<Rightarrow> 'w) option"
  fd_libkqueue_fork :: "('w \<Rightarrow> 'w) option"
  fd_libkqueue_free :: "('w \<Rightarrow> 'w) option"

definition filter_zero :: filter_t where
  "filter_zero = \<lparr>kf_id = 0, kf_copyout_set = False, kf_index = [], kf_ready = [], kf_efd = 0\<rparr>"

subsection \<open>Process-wide hooks\<close>

definition run_hook :: "('w \<Rightarrow> 'w) option \<Rightarrow> 'w \<Rightarrow> 'w" where
  "run_hook h w = (case h of None \<Rightarrow> w | Some f \<Rightarrow> f w)"

definition filter_init_all :: "'w filter_def list \<Rightarrow> 'w \<Rightarrow> 'w" where
  "filter_init_all fs w = fold (\<lambda>f. run_hook (fd_libkqueue_init f)) fs w"

definition filter_fork_all :: "'w filter_def list \<Rightarrow> 'w \<Rightarrow> 'w" where
  "filter_fork_all fs w = fold (\<lambda>f. run_hook (fd_libkqueue_fork f)) fs w"

definition filter_free_all :: "'w filter_def list \<Rightarrow> 'w \<Rightarrow> 'w" where
  "filter_free_all fs w = fold (\<lambda>f. run_hook (fd_libkqueue_free f)) fs w"

text \<open>Marking every knote of a kqueue disabled.\<close>

definition kqueue_knote_mark_disabled_all :: "('k, 'z) world_scheme \<Rightarrow> ('k, 'z) world_scheme" where
  "kqueue_knote_mark_disabled_all w = fold knote_mark_disabled_all [0 ..< EVFILT_SYSCOUNT] w"

subsection \<open>Registration\<close>

text \<open>The array offset as the C code computes it: \<^verbatim>\<open>(-1 * src->kf_id) - 1\<close> in an
  unsigned int.\<close>

definition filter_offset :: "u16 \<Rightarrow> u32" where
  "filter_offset f = word_of_int (- 1 * sint f - 1)"

definition filter_register ::
  "(nat \<Rightarrow> ('k, 'z) world_scheme \<Rightarrow> (('k, 'z) world_scheme \<times> int) option) option
    \<Rightarrow> (('k, 'z) world_scheme) filter_def \<Rightarrow> ('k, 'z) world_scheme
    \<Rightarrow> (('k, 'z) world_scheme \<times> int) option" where
  "filter_register platform_init src w =
     (if fd_id src = 0 then Some (w, 0)
      else if unat (filter_offset (fd_id src)) \<ge> EVFILT_SYSCOUNT then Some (w, -1)
      else
        let i = unat (filter_offset (fd_id src));
            w = upd_filt i (\<lambda>_. filter_zero\<lparr>kf_id := fd_id src, kf_copyout_set := fd_callbacks src\<rparr>) w
        in if \<not> fd_callbacks src then None
        else do {
          (w, rv) \<leftarrow> (case fd_init src of None \<Rightarrow> Some (w, 0) | Some f \<Rightarrow> f i w);
          if rv < 0 then Some (upd_filt i (\<lambda>f. f\<lparr>kf_id := 0\<rparr>) w, -1)
          else do {
            (w, rv) \<leftarrow> (case platform_init of None \<Rightarrow> Some (w, 0) | Some f \<Rightarrow> f i w);
            if rv < 0 then Some (w, -1) else Some (w, 0) } })"

fun filter_register_list ::
  "(nat \<Rightarrow> ('k, 'z) world_scheme \<Rightarrow> (('k, 'z) world_scheme \<times> int) option) option
    \<Rightarrow> (('k, 'z) world_scheme) filter_def list \<Rightarrow> ('k, 'z) world_scheme
    \<Rightarrow> (('k, 'z) world_scheme \<times> int) option" where
  "filter_register_list h [] w = Some (w, 0)"
| "filter_register_list h (f # fs) w = do {
     (w, r1) \<leftarrow> filter_register h f w;
     (w, r2) \<leftarrow> filter_register_list h fs w;
     Some (w, r1 + r2) }"

text \<open>\<open>vt\<close> gives the callbacks and \<open>destroy\<close> the destructor that the slots hold.\<close>

fun filter_unregister_slots ::
  "(nat \<Rightarrow> (('k, 'z) world_scheme) filter_ops)
    \<Rightarrow> (nat \<Rightarrow> (nat \<Rightarrow> ('k, 'z) world_scheme \<Rightarrow> ('k, 'z) world_scheme option) option)
    \<Rightarrow> (nat \<Rightarrow> ('k, 'z) world_scheme \<Rightarrow> ('k, 'z) world_scheme option) option
    \<Rightarrow> nat list \<Rightarrow> ('k, 'z) world_scheme \<Rightarrow> ('k, 'z) world_scheme option" where
  "filter_unregister_slots vt destroy platform_free [] w = Some w"
| "filter_unregister_slots vt destroy platform_free (i # is) w =
     (if kf_id (kq_filt w ! i) = 0 then filter_unregister_slots vt destroy platform_free is w
      else do {
        w \<leftarrow> knote_delete_all (vt i) i w;
        w \<leftarrow> (case destroy i of None \<Rightarrow> Some w | Some f \<Rightarrow> f i w);
        w \<leftarrow> (case platform_free of None \<Rightarrow> Some w | Some f \<Rightarrow> f i w);
        filter_unregister_slots vt destroy platform_free is w })"

definition filter_unregister_all ::
  "(nat \<Rightarrow> (('k, 'z) world_scheme) filter_ops)
    \<Rightarrow> (nat \<Rightarrow> (nat \<Rightarrow> ('k, 'z) world_scheme \<Rightarrow> ('k, 'z) world_scheme option) option)
    \<Rightarrow> (nat \<Rightarrow> ('k, 'z) world_scheme \<Rightarrow> ('k, 'z) world_scheme option) option
    \<Rightarrow> ('k, 'z) world_scheme \<Rightarrow> ('k, 'z) world_scheme option" where
  "filter_unregister_all vt destroy platform_free w = do {
     w \<leftarrow> filter_unregister_slots vt destroy platform_free [0 ..< EVFILT_SYSCOUNT] w;
     Some (w\<lparr>kq_filt := replicate EVFILT_SYSCOUNT filter_zero\<rparr>) }"

definition filter_register_all ::
  "(nat \<Rightarrow> (('k, 'z) world_scheme) filter_ops)
    \<Rightarrow> (nat \<Rightarrow> (nat \<Rightarrow> ('k, 'z) world_scheme \<Rightarrow> ('k, 'z) world_scheme option) option)
    \<Rightarrow> (nat \<Rightarrow> ('k, 'z) world_scheme \<Rightarrow> ('k, 'z) world_scheme option) option
    \<Rightarrow> (nat \<Rightarrow> ('k, 'z) world_scheme \<Rightarrow> (('k, 'z) world_scheme \<times> int) option) option
    \<Rightarrow> (('k, 'z) world_scheme) filter_def list
    \<Rightarrow> ('k, 'z) world_scheme \<Rightarrow> (('k, 'z) world_scheme \<times> int) option" where
  "filter_register_all vt destroy platform_free platform_init fs w = do {
     (w, rv) \<leftarrow> filter_register_list platform_init fs w;
     if rv \<noteq> 0 then do {
       w \<leftarrow> filter_unregister_all vt destroy platform_free w;
       Some (w, -1) }
     else Some (w, 0) }"

subsection \<open>Lookup\<close>

definition filter_lookup ::
  "u16 \<Rightarrow> ('k, 'z) world_scheme \<Rightarrow> ('k, 'z) world_scheme \<times> nat option" where
  "filter_lookup f w =
     (if inv_filt f < 0 \<or> inv_filt f \<ge> int EVFILT_SYSCOUNT then (w\<lparr>errno := EINVAL\<rparr>, None)
      else if \<not> kf_copyout_set (kq_filt w ! nat (inv_filt f)) then (w\<lparr>errno := ENOSYS\<rparr>, None)
      else (w, Some (nat (inv_filt f))))"

text \<open>The names are compiled in per filter (\<open>defd\<close>: is the macro defined); an
  entry without an initialiser is a NULL pointer, here None.\<close>

definition fname :: "string option list" where
  "fname = [Some ''EVFILT_READ'', Some ''EVFILT_WRITE'', Some ''EVFILT_AIO'', Some ''EVFILT_VNODE'',
     Some ''EVFILT_PROC'', Some ''EVFILT_SIGNAL'', Some ''EVFILT_TIMER'', Some ''EVFILT_NETDEV'',
     Some ''EVFILT_FS'', Some ''EVFILT_LIO'', Some ''EVFILT_USER'', None]"

definition filter_name :: "(nat \<Rightarrow> bool) \<Rightarrow> u16 \<Rightarrow> string option" where
  "filter_name defd f =
     (let i = inv_filt f in
      if i < 0 \<or> i \<ge> int (length fname) then Some ''EVFILT_INVALID''
      else if defd (nat i) then fname ! nat i else None)"

subsection \<open>Lemmas\<close>

lemma filter_lookup_Some:
  "filter_lookup f w = (w', Some fi) \<longleftrightarrow>
   w' = w \<and> fi < EVFILT_SYSCOUNT \<and> inv_filt f = int fi \<and> kf_copyout_set (filt_at w fi)"
  by (auto simp: filter_lookup_def)

lemma filter_lookup_None:
  "filter_lookup f w = (w', None) \<Longrightarrow> \<exists>e \<in> {EINVAL, ENOSYS}. w' = w\<lparr>errno := e\<rparr>"
  by (auto simp: filter_lookup_def split: if_splits)

lemma filter_offset_slot:
  assumes "f \<noteq> 0"
  shows "unat (filter_offset f) < EVFILT_SYSCOUNT \<longleftrightarrow> 0 \<le> inv_filt f \<and> inv_filt f < int EVFILT_SYSCOUNT"
    and "0 \<le> inv_filt f \<Longrightarrow> int (unat (filter_offset f)) = inv_filt f"
proof -
  have r: "- 32768 \<le> sint f" "sint f < 32768" using sint_ge [of f] sint_lt [of f] by simp_all
  have u: "int (unat (filter_offset f)) = (- sint f - 1) mod 4294967296"
    unfolding filter_offset_def uint_nat [symmetric] uint_word_of_int by simp
  have i: "inv_filt f = - sint f - 1" by (simp add: inv_filt_def not_int_def)
  show c: "int (unat (filter_offset f)) = inv_filt f" if "0 \<le> inv_filt f"
    using that r i u by simp
  show "unat (filter_offset f) < EVFILT_SYSCOUNT \<longleftrightarrow> 0 \<le> inv_filt f \<and> inv_filt f < int EVFILT_SYSCOUNT"
  proof (cases "0 \<le> inv_filt f")
    case True
    with c show ?thesis by linarith
  next
    case False
    have "(- sint f - 1) mod 4294967296 = (- sint f - 1 + 4294967296) mod 4294967296" by (rule mod_add_self2 [symmetric])
    also have "\<dots> = - sint f - 1 + 4294967296"
      using r i False by (intro mod_pos_pos_trivial) linarith+
    finally have "\<not> unat (filter_offset f) < 12" using r u by linarith
    then show ?thesis using False by (simp add: EVFILT_SYSCOUNT_def)
  qed
qed

subsection \<open>Registration and lookup agree\<close>

text \<open>A filter that is registered is found.  Registration computes its slot with
  unsigned arithmetic and lookup by complementing the signed id; the two agree on
  every id.  A filter with a valid id is found in its slot with an empty index
  and no other slot changes; an id out of range is refused by both.\<close>

theorem filter_register_lookup:
  fixes src :: "(('k, 'z) world_scheme) filter_def"
  assumes "fd_id src \<noteq> 0" "fd_callbacks src" "fd_init src = None" "length (kq_filt w) = EVFILT_SYSCOUNT"
  shows "if 0 \<le> inv_filt (fd_id src) \<and> inv_filt (fd_id src) < int EVFILT_SYSCOUNT then
      \<exists>w'. filter_register None src w = Some (w', 0) \<and>
        filter_lookup (fd_id src) w' = (w', Some (nat (inv_filt (fd_id src)))) \<and>
        knote_lookup (nat (inv_filt (fd_id src))) i w' = None \<and>
        (\<forall>fj. fj \<noteq> nat (inv_filt (fd_id src)) \<longrightarrow> filt_at w' fj = filt_at w fj)
    else filter_register None src w = Some (w, -1) \<and> filter_lookup (fd_id src) w = (w\<lparr>errno := EINVAL\<rparr>, None)"
proof -
  note off = filter_offset_slot [OF assms(1)]
  show ?thesis
  proof (cases "0 \<le> inv_filt (fd_id src) \<and> inv_filt (fd_id src) < int EVFILT_SYSCOUNT")
    case True
    then have s: "unat (filter_offset (fd_id src)) = nat (inv_filt (fd_id src))" "nat (inv_filt (fd_id src)) < EVFILT_SYSCOUNT"
      using off(2) by (metis nat_int, linarith)
    then show ?thesis
      using True assms
      by (simp add: filter_register_def filter_lookup_def knote_lookup_def upd_filt_def Let_def filter_zero_def idx_find_def)
  next
    case False
    then have "\<not> unat (filter_offset (fd_id src)) < EVFILT_SYSCOUNT" using off(1) by blast
    then show ?thesis using False assms by (auto simp: filter_register_def filter_lookup_def)
  qed
qed

text \<open>Every filter id has a name, except that of EVFILT_LIBKQUEUE: ids outside the
  table are called EVFILT_INVALID, the eleven kqueue filters have their own
  distinct names, and the twelfth id, the library's own filter, yields the NULL
  pointer that the table holds there.\<close>

theorem filter_name_cases:
  "(inv_filt f \<notin> {0 ..< 12} \<longrightarrow> filter_name (\<lambda>_. True) f = Some ''EVFILT_INVALID'') \<and>
   (inv_filt f \<in> {0 ..< 11} \<longrightarrow> (\<exists>s. filter_name (\<lambda>_. True) f = Some s \<and> s \<noteq> ''EVFILT_INVALID'')) \<and>
   (inv_filt f \<in> {0 ..< 11} \<and> inv_filt g \<in> {0 ..< 11} \<and> filter_name (\<lambda>_. True) f = filter_name (\<lambda>_. True) g \<longrightarrow> f = g) \<and>
   filter_name (\<lambda>_. True) EVFILT_LIBKQUEUE = None"
proof -
  have inj: "f = g" if "inv_filt f = inv_filt g" using that word_eq_iff_signed [where 'a = int, of f g] by (simp add: inv_filt_def not_int_def)
  have tab: "distinct (''EVFILT_INVALID'' # map the (butlast fname))" "length fname = 12" "\<forall>i < 11. fname ! i \<noteq> None"
    by (auto simp: fname_def less_Suc_eq numeral_eq_Suc)
  have in_tab: "\<exists>s. filter_name (\<lambda>_. True) h = Some s \<and> s = map the (butlast fname) ! nat (inv_filt h) \<and> nat (inv_filt h) < 11"
    if "inv_filt h \<in> {0 ..< 11}" for h
  proof -
    have "nat (inv_filt h) < 11" using that by auto
    then show ?thesis using that tab by (auto simp: filter_name_def nth_butlast)
  qed
  have len: "length (map the (butlast fname)) = 11" using tab by simp
  show ?thesis
  proof (intro conjI impI)
    assume "inv_filt f \<notin> {0 ..< 12}"
    then show "filter_name (\<lambda>_. True) f = Some ''EVFILT_INVALID''" using tab(2) by (auto simp: filter_name_def)
  next
    assume "inv_filt f \<in> {0 ..< 11}"
    from in_tab [OF this] show "\<exists>s. filter_name (\<lambda>_. True) f = Some s \<and> s \<noteq> ''EVFILT_INVALID''"
      using tab(1) len by (metis distinct.simps(2) nth_mem)
  next
    assume a: "inv_filt f \<in> {0 ..< 11} \<and> inv_filt g \<in> {0 ..< 11} \<and> filter_name (\<lambda>_. True) f = filter_name (\<lambda>_. True) g"
    then have "nat (inv_filt f) = nat (inv_filt g)"
      using in_tab [of f] in_tab [of g] tab(1) len by (metis distinct.simps(2) nth_eq_iff_index_eq option.inject)
    then show "f = g" using a inj by (metis atLeastLessThan_iff nat_0_le)
  qed (simp add: filter_name_def fname_def inv_filt_def not_int_def EVFILT_LIBKQUEUE_def)
qed

theorem filter_name_cases_witness:
  "filter_name (\<lambda>_. True) EVFILT_READ \<noteq> filter_name (\<lambda>_. True) EVFILT_WRITE \<and>
   filter_name (\<lambda>_. True) 5 = Some ''EVFILT_INVALID''"
  using filter_name_cases [of EVFILT_READ EVFILT_WRITE] filter_name_cases [of 5 5]
  by (simp add: inv_filt_def not_int_def EVFILT_READ_def EVFILT_WRITE_def)

end
