(* ===== verification/Kevent.thy ===== *)
theory Kevent
  imports Kq_Filter
begin

text \<open>
  The kevent() call (\<^verbatim>\<open>common/kevent.c\<close>): one change (\<open>kevent_copyin_one\<close>), the
  change list (\<open>kevent_copyin\<close>) and the call itself (\<open>kevent_run\<close>, the part of
  \<^verbatim>\<open>kevent\<close> that runs once the descriptor is resolved).  The platform hooks that
  the call goes through are the record \<open>kevent_hooks\<close>.
\<close>

subsection \<open>One change\<close>

text \<open>The branch for an ident that is not registered.\<close>

definition kevent_copyin_add ::
  "(nat \<Rightarrow> (('k, 'z) world_scheme) filter_ops) \<Rightarrow> 'k knote_scheme \<Rightarrow> nat \<Rightarrow> kevent
    \<Rightarrow> ('k, 'z) world_scheme \<Rightarrow> (('k, 'z) world_scheme \<times> int \<times> addr option) option" where
  "kevent_copyin_add vt kz fi src w =
     (case knote_new kz w of
        (w, None) \<Rightarrow> Some (w\<lparr>errno := ENOENT\<rparr>, -1, None)
      | (w, Some kn) \<Rightarrow> do {
          let w = upd_knote kn (\<lambda>k. k\<lparr>kev := src\<lparr>flags := clear_flag EV_ENABLE (flags src)\<rparr>\<rparr>) w;
          (w, rv) \<leftarrow> kn_create (vt fi) kn w;
          if rv < 0 then do {
            let saved_errno = errno w;
            let w = upd_knote kn (\<lambda>k. k\<lparr>kn_flags := set_flag KNFL_KNOTE_DELETED (kn_flags k)\<rparr>) w;
            w \<leftarrow> knote_release kn w;
            Some (w\<lparr>errno := (if saved_errno \<noteq> 0 then saved_errno else EFAULT)\<rparr>, -1, None) }
          else do {
            w \<leftarrow> knote_insert fi kn w;
            if has_flag (flags src) EV_DISABLE then do {
              let w = upd_knote kn KNOTE_DISABLE w;
              (w, rv) \<leftarrow> kn_disable (vt fi) kn w;
              Some (w, rv, Some kn) }
            else Some (w, rv, Some kn) } })"

text \<open>Does a change that is neither a delete nor a disable reach \<open>kn_modify\<close>?\<close>

definition wants_modify :: "kevent \<Rightarrow> bool" where
  "wants_modify src \<longleftrightarrow>
     has_flag (flags src) EV_ADD \<or> flags src = 0 \<or> has_flag (flags src) EV_RECEIPT \<or>
     has_flag (flags src) EV_ENABLE \<and> has_flag (fflags src) NOTE_TRIGGER"

text \<open>What the common code stores in the knote after a successful modify.\<close>

definition store_modify :: "kevent \<Rightarrow> 'k knote_scheme \<Rightarrow> 'k knote_scheme" where
  "store_modify src k =
     (let e = (kev k)\<lparr>udata := udata src\<rparr>
      in k\<lparr>kev := (if has_flag (flags src) EV_ADD then COPY_FLAGS_BIT e src EV_DISPATCH else e)\<rparr>)"

text \<open>The branch for a registered ident.\<close>

definition kevent_copyin_known ::
  "(nat \<Rightarrow> (('k, 'z) world_scheme) filter_ops) \<Rightarrow> nat \<Rightarrow> addr \<Rightarrow> kevent
    \<Rightarrow> ('k, 'z) world_scheme \<Rightarrow> (('k, 'z) world_scheme \<times> int) option" where
  "kevent_copyin_known vt fi kn src w =
     (if has_flag (flags src) EV_DELETE then knote_delete (vt fi) fi kn w
      else if has_flag (flags src) EV_DISABLE then knote_disable (vt fi) fi kn w
      else do {
        (w, rv) \<leftarrow> (if has_flag (flags src) EV_ENABLE then knote_enable (vt fi) fi kn w else Some (w, 0));
        if rv \<noteq> 0 then Some (w, rv)
        else if wants_modify src then do {
          (w, rv) \<leftarrow> kn_modify (vt fi) kn src w;
          if rv = 0 then Some (upd_knote kn (store_modify src) w, rv) else Some (w, rv) }
        else Some (w, rv) })"

definition kevent_copyin_one ::
  "(nat \<Rightarrow> (('k, 'z) world_scheme) filter_ops) \<Rightarrow> 'k knote_scheme \<Rightarrow> kevent
    \<Rightarrow> ('k, 'z) world_scheme \<Rightarrow> (('k, 'z) world_scheme \<times> int \<times> addr option) option" where
  "kevent_copyin_one vt kz src w =
     (if has_flag (flags src) EV_DISPATCH \<and> has_flag (flags src) EV_ONESHOT
      then Some (w\<lparr>errno := EINVAL\<rparr>, -1, None)
      else case filter_lookup (kfilter src) w of
        (w, None) \<Rightarrow> Some (w, -1, None)
      | (w, Some fi) \<Rightarrow>
          (case knote_lookup fi (ident src) w of
             None \<Rightarrow>
               if has_flag (flags src) EV_ADD then kevent_copyin_add vt kz fi src w
               else Some (w\<lparr>errno := ENOENT\<rparr>, -1, None)
           | Some kn \<Rightarrow> do {
               (w, rv) \<leftarrow> kevent_copyin_known vt fi kn src w;
               Some (w, rv, Some kn) }))"

subsection \<open>The change list\<close>

definition receipt :: "kevent \<Rightarrow> int \<Rightarrow> kevent" where
  "receipt c status = c\<lparr>flags := set_flag EV_ERROR (flags c), data := word_of_int status\<rparr>"

text \<open>\<open>out\<close> holds the entries written to the event list so far, \<open>n\<close> is its room.
  The result is the value returned and the entries written.  An event list
  that is the same array as the change list is written only at positions the
  loop has already read, so it behaves as a separate array.\<close>

fun kevent_copyin_loop ::
  "(nat \<Rightarrow> (('k, 'z) world_scheme) filter_ops) \<Rightarrow> 'k knote_scheme \<Rightarrow> kevent list \<Rightarrow> nat \<Rightarrow> kevent list
    \<Rightarrow> ('k, 'z) world_scheme \<Rightarrow> (('k, 'z) world_scheme \<times> int \<times> kevent list) option" where
  "kevent_copyin_loop vt kz [] n out w = Some (w, int (length out), out)"
| "kevent_copyin_loop vt kz (c # cs) n out w = do {
     (w, rv, kn) \<leftarrow> kevent_copyin_one vt kz c w;
     if rv = 1 then
       if length out = n then Some (w\<lparr>errno := EFAULT\<rparr>, -1, out)
       else do {
         a \<leftarrow> kn;
         k \<leftarrow> knotes w a;
         let e = (kev k)\<lparr>flags := set_flag EV_RECEIPT (flags (kev k))\<rparr>;
         kevent_copyin_loop vt kz cs n (out @ [e]) w }
     else if rv < 0 then
       if length out = n then Some (w, -1, out)
       else kevent_copyin_loop vt kz cs n (out @ [receipt c (errno w)]) (w\<lparr>errno := 0\<rparr>)
     else if has_flag (flags c) EV_RECEIPT then
       if length out = n then Some (w\<lparr>errno := EFAULT\<rparr>, -1, out)
       else kevent_copyin_loop vt kz cs n (out @ [receipt c 0]) w
     else kevent_copyin_loop vt kz cs n out w }"

definition kevent_copyin ::
  "(nat \<Rightarrow> (('k, 'z) world_scheme) filter_ops) \<Rightarrow> 'k knote_scheme \<Rightarrow> kevent list \<Rightarrow> nat
    \<Rightarrow> ('k, 'z) world_scheme \<Rightarrow> (('k, 'z) world_scheme \<times> int \<times> kevent list) option" where
  "kevent_copyin vt kz cs n w = kevent_copyin_loop vt kz cs n [] w"

subsection \<open>The call\<close>

definition MAX_KEVENT :: int where "MAX_KEVENT = 512"

record 'w kevent_hooks =
  hk_enter :: "'w \<Rightarrow> 'w"
  hk_exit :: "'w \<Rightarrow> 'w option"
  hk_wait :: "nat \<Rightarrow> 'w \<Rightarrow> ('w \<times> int) option"
  hk_copyout :: "int \<Rightarrow> nat \<Rightarrow> 'w \<Rightarrow> ('w \<times> int \<times> kevent list) option"

text \<open>Waiting and copying out, when there is room left in the event list.\<close>

definition kevent_collect ::
  "(('k, 'z) world_scheme) kevent_hooks \<Rightarrow> nat \<Rightarrow> kevent list
    \<Rightarrow> ('k, 'z) world_scheme \<Rightarrow> (('k, 'z) world_scheme \<times> int \<times> kevent list) option" where
  "kevent_collect hk nevents out w =
     (if length out < nevents then do {
        (w, rv) \<leftarrow> hk_wait hk nevents w;
        if rv > 0 then do {
          (w, rv, evs) \<leftarrow> hk_copyout hk rv (nevents - length out) w;
          if rv \<ge> 0 then Some (w, int (length out) + rv, out @ evs) else Some (w, rv, out) }
        else Some (w, rv, out) }
      else Some (w, int (length out), out))"

definition kevent_run ::
  "(('k, 'z) world_scheme) kevent_hooks \<Rightarrow> (nat \<Rightarrow> (('k, 'z) world_scheme) filter_ops) \<Rightarrow> 'k knote_scheme
    \<Rightarrow> kevent list \<Rightarrow> nat \<Rightarrow> ('k, 'z) world_scheme \<Rightarrow> (('k, 'z) world_scheme \<times> int \<times> kevent list) option" where
  "kevent_run hk vt kz changes nevents w = do {
     let w = hk_enter hk w;
     (w, rv, out) \<leftarrow> (if changes \<noteq> [] then kevent_copyin vt kz changes nevents w else Some (w, 0, []));
     (w, rv, out) \<leftarrow> (if rv < 0 then Some (w, rv, out) else kevent_collect hk nevents out w);
     w \<leftarrow> hk_exit hk w;
     Some (w, rv, out) }"

text \<open>The argument checks at the start of \<^verbatim>\<open>kevent\<close>: negative counts are refused, and
  the room is what the caller gave, at most 512, and nothing without an event list.\<close>

definition kevent_nevents :: "int \<Rightarrow> int \<Rightarrow> bool \<Rightarrow> nat option" where
  "kevent_nevents nchanges nevents has_eventlist =
     (if nchanges < 0 \<or> nevents < 0 then None
      else if has_eventlist then Some (nat (min nevents MAX_KEVENT)) else Some 0)"

subsection \<open>Timeouts\<close>

text \<open>C40: error reports are lost when the wait times out.  When processing the change
  list has written entries and room is left in the event list, the call goes on to
  wait; if no event arrives in time it returns 0, although the entries that report
  errors and receipts are in the caller's array.\<close>

theorem kevent_timeout_drops_receipts:
  assumes "changes \<noteq> []" "kevent_copyin vt kz changes nevents (hk_enter hk w) = Some (w1, int (length out), out)"
    and "length out < nevents" "hk_wait hk nevents w1 = Some (w2, 0)" "hk_exit hk w2 = Some w3"
  shows "kevent_run hk vt kz changes nevents w = Some (w3, 0, out)"
  using assms by (simp add: kevent_run_def kevent_collect_def)

subsection \<open>Splitting a change list\<close>

text \<open>A result after the entries \<open>out\<close>.\<close>

definition after_entries :: "kevent list \<Rightarrow> 'w \<times> int \<times> kevent list \<Rightarrow> 'w \<times> int \<times> kevent list" where
  "after_entries out = (\<lambda>(w, rv, es). (w, if rv < 0 then rv else int (length out) + rv, out @ es))"

lemma after_entries_append: "after_entries out (after_entries [e] r) = after_entries (out @ [e]) r"
  by (cases r) (simp add: after_entries_def)

lemma after_entries_simps [simp]:
  "after_entries out (w, -1, es) = (w, -1, out @ es)" "after_entries out (w, int n, es) = (w, int (length out) + int n, out @ es)"
  "after_entries out (w, 0, es) = (w, int (length out), out @ es)"
  by (simp_all add: after_entries_def)

lemma copyin_loop_out:
  "length out \<le> n \<Longrightarrow> kevent_copyin_loop vt kz cs n out w =
    map_option (after_entries out) (kevent_copyin_loop vt kz cs (n - length out) [] w)"
proof (induction cs arbitrary: n out w)
  case (Cons c cs)
  show ?case
  proof (cases "kevent_copyin_one vt kz c w")
    case (Some r)
    obtain w1 rv kn where r: "r = (w1, rv, kn)" by (cases r)
    have one: "kevent_copyin_loop vt kz cs n (out @ [e]) w2 =
        map_option (after_entries out) (kevent_copyin_loop vt kz cs (n - length out) [e] w2)" if "length out \<noteq> n" for e w2
    proof -
      have "kevent_copyin_loop vt kz cs (n - length out) [e] w2 =
          map_option (after_entries [e]) (kevent_copyin_loop vt kz cs (n - length (out @ [e])) [] w2)"
        using Cons.IH [of "[e]" "n - length out" w2] Cons.prems that by simp
      then show ?thesis using Cons.IH [of "out @ [e]" n w2] Cons.prems that
        by (simp add: option.map_comp comp_def after_entries_append)
    qed
    have z: "n - length out = 0 \<longleftrightarrow> length out = n" using Cons.prems by auto
    show ?thesis
    proof (cases "length out = n")
      case True
      then show ?thesis using Some r Cons.IH [of out n w1] by simp
    next
      case False
      then show ?thesis using Some r one [OF False] Cons.IH [of out n w1] Cons.prems z
        by (cases kn; cases "knotes w1 (the kn)") (auto simp: Let_def)
    qed
  qed simp
qed simp

lemma copyin_loop_append:
  "kevent_copyin_loop vt kz (cs @ ds) n out w =
    Option.bind (kevent_copyin_loop vt kz cs n out w) (\<lambda>(w1, rv, es).
      if rv < 0 then Some (w1, rv, es) else kevent_copyin_loop vt kz ds n es w1)"
proof (induction cs arbitrary: out w)
  case (Cons c cs)
  show ?case
  proof (cases "kevent_copyin_one vt kz c w")
    case (Some r)
    obtain w1 rv kn where r: "r = (w1, rv, kn)" by (cases r)
    show ?thesis using Some r by (cases kn; cases "knotes w1 (the kn)") (simp_all add: Cons.IH Let_def)
  qed simp
qed simp

lemma copyin_loop_fits:
  assumes "kevent_copyin_loop vt kz cs n out w = Some (w', rv, out')" "length out \<le> n"
  shows "length out' \<le> n \<and> (rv = -1 \<or> rv = int (length out'))"
  using assms
proof (induction cs arbitrary: out w)
  case (Cons c cs)
  from Cons.prems(1) obtain w1 r kn where one: "kevent_copyin_one vt kz c w = Some (w1, r, kn)"
    by (auto simp: bind_eq_Some_conv)
  have full: ?case if "length out = n" "rv = -1" "out' = out"
    using that by simp
  have step: ?case if "kevent_copyin_loop vt kz cs n (out @ [e]) w'' = Some (w', rv, out')" "length out \<noteq> n" for e w''
    using Cons.IH [OF that(1)] Cons.prems(2) that(2) by simp
  show ?case
  proof (cases "r = 1")
    case True
    then show ?thesis
      using Cons.prems(1) one full step by (auto simp: bind_eq_Some_conv Let_def split: if_splits)
  next
    case False
    then show ?thesis
      using Cons.prems one full step Cons.IH [of out w1] by (simp split: if_splits)
  qed
qed simp


end
