(* ===== verification/Kevent_Safe.thy ===== *)
theory Kevent_Safe
  imports Kevent
begin

text \<open>
  kevent() against a backend whose filters meet their contract: processing a
  change list never touches freed memory and never fails an assertion, it
  keeps the invariants, and the entries it writes fit the caller's array.  The
  locale \<open>backend\<close> collects the contracts of all the filters of a platform.
\<close>

text \<open>Only implemented filters are registered, under an id; only registered filters have
  knotes, and every knote has an ident its filter is specified for.\<close>

definition impl_ok :: "(nat \<Rightarrow> bool) \<Rightarrow> (nat \<Rightarrow> u64 \<Rightarrow> bool) \<Rightarrow> ('k, 'z) world_scheme \<Rightarrow> bool" where
  "impl_ok impl adm w \<longleftrightarrow>
     (\<forall>fi < length (impl_set w). impl_set w ! fi \<longrightarrow> impl fi \<and> slot_ids w ! fi \<noteq> 0) \<and>
     (\<forall>fi < EVFILT_SYSCOUNT. kf_index (filt_at w fi) \<noteq> [] \<longrightarrow> impl_set w ! fi) \<and>
     (\<forall>fi < EVFILT_SYSCOUNT. \<forall>(i, a) \<in> set (kf_index (filt_at w fi)). adm fi i)"

lemma impl_ok_filt: "kq_filt w' = kq_filt w \<Longrightarrow> impl_ok impl adm w' = impl_ok impl adm w"
  by (simp add: impl_ok_def impl_set_def)

lemma impl_ok_idx_same: "impl_ok impl adm w \<Longrightarrow> idx_same w w' \<Longrightarrow> impl_ok impl adm w'"
  by (simp add: idx_same_def impl_ok_def)

lemma impl_ok_sub:
  assumes "impl_ok impl adm w" "impl_set w' = impl_set w" "slot_ids w' = slot_ids w"
    and "\<And>fi. fi < EVFILT_SYSCOUNT \<Longrightarrow> set (kf_index (filt_at w' fi)) \<subseteq> set (kf_index (filt_at w fi))"
  shows "impl_ok impl adm w'"
proof -
  have "kf_index (filt_at w fi) \<noteq> []" if "fi < EVFILT_SYSCOUNT" "kf_index (filt_at w' fi) \<noteq> []" for fi
    using assms(4) [OF that(1)] that(2) by (metis set_empty subset_empty)
  then show ?thesis using assms(1,4) unfolding impl_ok_def assms(2,3) by blast
qed

lemma impl_set_errno [simp]: "impl_set (w\<lparr>errno := e\<rparr>) = impl_set w"
  by (simp add: impl_set_def)

lemma core_inv_errno [simp]: "core_inv D R (w\<lparr>errno := e\<rparr>) = core_inv D R w"
  by (simp add: core_inv_def filt_inv_def entry_ok_def linked_def)

lemma impl_ok_errno [simp]: "impl_ok impl adm (w\<lparr>errno := e\<rparr>) = impl_ok impl adm w"
  by (simp add: impl_ok_def)

text \<open>The idents a change list may name: those each filter is specified for.\<close>

definition adm_change :: "(nat \<Rightarrow> u64 \<Rightarrow> bool) \<Rightarrow> kevent \<Rightarrow> bool" where
  "adm_change adm c \<longleftrightarrow>
     (0 \<le> inv_filt (kfilter c) \<longrightarrow> adm (nat (inv_filt (kfilter c))) (ident c))"

locale backend = backend_state binv bfree kz
  for binv :: "('k, 'z) world_scheme \<Rightarrow> bool" and bfree and kz +
  fixes vt :: "nat \<Rightarrow> (('k, 'z) world_scheme) filter_ops"
    and impl :: "nat \<Rightarrow> bool"
    and adm :: "nat \<Rightarrow> u64 \<Rightarrow> bool"
  assumes contract: "impl fi \<Longrightarrow> filter_contract binv bfree kz (vt fi) fi (adm fi)"
begin

abbreviation good :: "('k, 'z) world_scheme \<Rightarrow> bool" where
  "good w \<equiv> core_wf w \<and> binv w \<and> impl_ok impl adm w"

lemma binv_errno [simp]: "binv (w\<lparr>errno := e\<rparr>) = binv w"
proof
  assume "binv (w\<lparr>errno := e\<rparr>)"
  from binv_ext [OF this ext_same_errno [of _ "errno w"]] show "binv w" by simp
qed (rule binv_ext [OF _ ext_same_errno])

text \<open>A new knote, up to the call of the filter.\<close>

lemma new_knote:
  assumes g: "good w" and n: "knote_new kz w = (w', Some kn)"
    and w1_def: "w1 = upd_knote kn (\<lambda>k. k\<lparr>kev := e\<rparr>) w'"
  shows "core_inv {kn} {} w1" "binv w1" "bfree kn w1" "impl_ok impl adm w1"
    and "\<exists>k. knotes w1 kn = Some k \<and> kev k = e \<and> kn_core k = (ident e, kfilter e, 1, False)"
    and "kq_filt w1 = kq_filt w"
proof -
  have nk: "core_inv {kn} {} w'" "knotes w' kn = Some (kz\<lparr>kn_ref := 1\<rparr>)" "kq_filt w' = kq_filt w"
    using knote_new_inv [OF _ n] g by auto
  show "core_inv {kn} {} w1" unfolding w1_def by (rule core_inv_upd_detached [OF nk(1)]) simp
  show "binv w1" "bfree kn w1" using binv_new [OF _ _ n] g unfolding w1_def by auto
  show "impl_ok impl adm w1" using g nk(3) by (simp add: w1_def impl_ok_def impl_set_def)
  show "\<exists>k. knotes w1 kn = Some k \<and> kev k = e \<and> kn_core k = (ident e, kfilter e, 1, False)"
    using nk(2) kz_flags by (simp add: w1_def kn_core_def)
  show "kq_filt w1 = kq_filt w" using nk(3) by (simp add: w1_def)
qed

text \<open>The failure path of a creation.\<close>

lemma create_failed:
  assumes "core_inv {kn} {} w" "binv w" "bfree kn w" "impl_ok impl adm w"
    and "knotes w kn = Some k" "kn_ref k = 1"
  shows "\<exists>w'. knote_release kn (upd_knote kn (\<lambda>k. k\<lparr>kn_flags := set_flag KNFL_KNOTE_DELETED (kn_flags k)\<rparr>) w)
      = Some w' \<and> good w'"
proof -
  let ?f = "\<lambda>k :: 'k knote_scheme. k\<lparr>kn_flags := set_flag KNFL_KNOTE_DELETED (kn_flags k)\<rparr>"
  let ?w = "upd_knote kn ?f w"
  have e: "ext_same w ?w" by (rule ext_same_upd_knote) simp
  have i: "core_inv {kn} {} ?w" by (rule core_inv_upd_detached [OF assms(1)]) simp
  have "knotes ?w kn = Some (?f k)" "kn_ref (?f k) = 1" "has_flag (kn_flags (?f k)) KNFL_KNOTE_DELETED"
    using assms(5,6) by (simp_all add: KNFL_KNOTE_DELETED_def)
  note r = knote_release_inv [OF i this]
  have "binv (?w\<lparr>knotes := (knotes ?w)(kn := None)\<rparr>)"
    by (rule binv_free [OF i binv_ext [OF assms(2) e] bfree_ext [OF assms(3) e]])
  moreover have "impl_ok impl adm (?w\<lparr>knotes := (knotes ?w)(kn := None)\<rparr>)"
    using assms(4) by (simp add: impl_ok_def impl_set_def)
  ultimately show ?thesis using r by simp
qed

lemma create_oom:
  assumes "good w" "knote_new kz w = (w', None)"
  shows "good w'"
proof -
  have w': "w' = w\<lparr>next_addr := Suc (next_addr w)\<rparr>"
    using assms(2) by (auto simp: knote_new_def calloc_def split: if_splits)
  have "ext_same w w'" by (simp add: w' ext_same_def)
  moreover have "core_wf w'"
    using assms(1) unfolding w' core_inv_def filt_inv_def entry_ok_def linked_def by (auto simp: less_Suc_eq)
  ultimately show ?thesis using assms(1) binv_ext by (auto simp: w' impl_ok_def impl_set_def)
qed

text \<open>The success path: the knote is linked, and disabled again when the change says so.\<close>

lemma create_linked:
  assumes i: "core_inv {kn} {(fi, kn)} w" and b: "binv w" and im: "impl_ok impl adm w" "impl fi"
    and k: "knotes w kn = Some k" "kn_core k = (i, flt, 1, False)" "inv_filt flt = int fi"
    and new: "knote_lookup fi i w = None" and ad: "adm fi i" and reg: "kf_copyout_set (filt_at w fi)"
  shows "\<exists>w'. knote_insert fi kn w = Some w' \<and> good w' \<and> (i, kn) \<in> set (kf_index (filt_at w' fi))"
proof -
  have fi: "fi < EVFILT_SYSCOUNT" by (rule filter_contract.slot [OF contract [OF im(2)]])
  obtain w' where w': "knote_insert fi kn w = Some w'" "core_wf w'" "(i, kn) \<in> set (kf_index (filt_at w' fi))"
    using knote_insert_inv [OF i _ fi k new] by blast
  have "ext_same w w'" using w'(1) k by (auto simp: knote_insert_def ext_same_def upd_filt_def)
  moreover have "impl_ok impl adm w'"
  proof -
    have s: "impl_set w' = impl_set w" "slot_ids w' = slot_ids w"
      using w'(1) k by (auto simp: knote_insert_def impl_set_def impl_set_upd_filt [unfolded impl_set_def])
    have len: "length (kq_filt w) = EVFILT_SYSCOUNT" using i by (simp add: core_inv_def)
    then have "impl_set w ! fi" using reg fi by (simp add: impl_set_def)
    moreover have "kf_index (filt_at w' fj) = (if fj = fi then idx_insert i kn (kf_index (filt_at w fi)) else kf_index (filt_at w fj))"
      if "fj < EVFILT_SYSCOUNT" for fj
      using w'(1) k that fi len by (auto simp: knote_insert_def upd_filt_at kn_core_def)
    ultimately show ?thesis
      using im ad s idx_insert_subset [of i kn "kf_index (filt_at w fi)"] by (auto simp: impl_ok_def) blast
  qed
  ultimately show ?thesis using w' b binv_ext by blast
qed

lemma add_disable:
  assumes g: "good w" and ix: "(i, kn) \<in> set (kf_index (filt_at w fi))" and im: "impl fi"
  shows "\<exists>w' rv k. kn_disable (vt fi) kn (upd_knote kn KNOTE_DISABLE w) = Some (w', rv) \<and> good w' \<and>
    knotes w' kn = Some k \<and> (i, kn) \<in> set (kf_index (filt_at w' fi))"
proof -
  note fc = contract [OF im]
  have fi: "fi < EVFILT_SYSCOUNT" by (rule filter_contract.slot [OF fc])
  let ?w = "upd_knote kn KNOTE_DISABLE w"
  note kn = linkedI [OF ix]
  have ad: "adm fi i" using g ix fi by (auto simp: impl_ok_def)
  have ix': "(i, kn) \<in> set (kf_index (filt_at ?w fi))" using ix by simp
  have c: "core_wf ?w" by (rule filter_contract.upd_linked_wf [OF fc]) (use g kn in auto)
  have b: "binv ?w" using binv_ext [of w ?w] g ext_same_upd_knote [of w kn KNOTE_DISABLE] by simp
  have l: "kn \<in> linked ?w fi" using kn by (simp add: linked_def)
  obtain w' rv where w': "kn_disable (vt fi) kn ?w = Some (w', rv)" "op_frame fi kn True ?w w'" "binv w'"
    using filter_contract.disable [OF fc c b ix' ad] by blast
  have "core_wf w'" by (rule core_inv_frame_linked [OF c w'(2) fi l])
  moreover have "impl_ok impl adm w'"
    by (rule impl_ok_idx_same [OF _ idx_same_frame [OF c w'(2)]]) (use g in \<open>simp add: impl_ok_def\<close>)
  moreover have "knotes w' kn \<noteq> None"
    using op_frame_dom [OF w'(2)] c l fi unfolding core_inv_def by blast
  moreover have "(i, kn) \<in> set (kf_index (filt_at w' fi))"
    using ix' idx_same_frame [OF c w'(2)] fi by (simp add: idx_same_def)
  ultimately show ?thesis using w' by auto
qed

lemma copyin_add_ok:
  assumes g: "good w" and im: "impl fi" and f: "inv_filt (kfilter src) = int fi"
    and a: "adm fi (ident src)" and new: "knote_lookup fi (ident src) w = None" and reg: "kf_copyout_set (filt_at w fi)"
  shows "\<exists>w' rv kn. kevent_copyin_add vt kz fi src w = Some (w', rv, kn) \<and> good w' \<and>
    (0 \<le> rv \<longrightarrow> (\<exists>a k. kn = Some a \<and> knotes w' a = Some k \<and> (ident src, a) \<in> set (kf_index (filt_at w' fi))))"
proof (cases "knote_new kz w")
  case (Pair w0 r)
  let ?e = "src\<lparr>flags := clear_flag EV_ENABLE (flags src)\<rparr>"
  note fc = contract [OF im]
  show ?thesis
  proof (cases r)
    case None
    then show ?thesis using Pair create_oom [OF g] by (simp add: kevent_copyin_add_def)
  next
    case (Some kn)
    define w1 where "w1 = upd_knote kn (\<lambda>k. k\<lparr>kev := ?e\<rparr>) w0"
    note n = new_knote [OF g Pair [unfolded Some] w1_def]
    obtain k where k: "knotes w1 kn = Some k" "kev k = ?e" "kn_core k = (ident src, kfilter src, 1, False)"
      using n(5) by auto
    obtain w2 rv where w2: "kn_create (vt fi) kn w1 = Some (w2, rv)" "op_frame fi kn (0 \<le> rv) w1 w2"
        "binv w2" "rv < 0 \<longrightarrow> bfree kn w2"
      using filter_contract.create [OF fc n(1,2,3) k(1)] k(2) f a new n(6) by (auto simp: knote_lookup_def)
    obtain k2 where k2: "knotes w2 kn = Some k2" "kn_core k2 = (ident src, kfilter src, 1, False)"
      using op_frame_knote [OF w2(2) k(1)] k(3) by metis
    have i2: "core_inv {kn} (if 0 \<le> rv then {(fi, kn)} else {}) w2" using core_inv_frame [OF n(1) w2(2)] .
    have im2: "impl_ok impl adm w2" by (rule impl_ok_idx_same [OF n(4) idx_same_frame [OF n(1) w2(2)]])
    have unfolded: "kevent_copyin_add vt kz fi src w = Some (w', rv', kn') \<longleftrightarrow>
        (if rv < 0 then \<exists>w3. knote_release kn
              (upd_knote kn (\<lambda>k. k\<lparr>kn_flags := set_flag KNFL_KNOTE_DELETED (kn_flags k)\<rparr>) w2) = Some w3 \<and>
            (w', rv', kn') = (w3\<lparr>errno := (if errno w2 \<noteq> 0 then errno w2 else EFAULT)\<rparr>, -1, None)
         else \<exists>w3. knote_insert fi kn w2 = Some w3 \<and>
            (if has_flag (flags src) EV_DISABLE
             then kn_disable (vt fi) kn (upd_knote kn KNOTE_DISABLE w3) = Some (w', rv') \<and> kn' = Some kn
             else (w', rv', kn') = (w3, rv, Some kn)))" for w' rv' kn'
      using Pair Some w2(1) by (auto simp: kevent_copyin_add_def w1_def Let_def bind_eq_Some_conv split: if_splits)
    show ?thesis
    proof (cases "rv < 0")
      case True
      then show ?thesis
        using create_failed [OF _ w2(3) _ im2 k2(1)] i2 w2(4) k2(2)
        unfolding unfolded by (fastforce simp: kn_core_def)
    next
      case False
      have fi: "fi < EVFILT_SYSCOUNT" by (rule filter_contract.slot [OF fc])
      note same = idx_same_frame [OF n(1) w2(2)]
      have "impl_set w2 ! fi" using reg n(6) same fi g by (simp add: idx_same_def impl_set_def core_inv_def)
      then have "kf_copyout_set (filt_at w2 fi)" using i2 fi by (simp add: impl_set_def core_inv_def)
      moreover have "knote_lookup fi (ident src) w2 = None"
        using new n(6) same fi by (simp add: knote_lookup_def idx_same_def)
      ultimately obtain w3 where w3: "knote_insert fi kn w2 = Some w3" "good w3" "(ident src, kn) \<in> set (kf_index (filt_at w3 fi))"
        using create_linked [OF _ w2(3) im2 im k2 f _ a] i2 False by auto
      moreover have "knotes w3 kn = Some k2" using w3(1) k2 by (auto simp: knote_insert_def)
      ultimately show ?thesis
        using False add_disable [OF w3(2,3) im] unfolding unfolded by (cases "has_flag (flags src) EV_DISABLE") auto
    qed
  qed
qed

lemma modify_ok:
  assumes g: "good w" and im: "impl fi" and f: "inv_filt (kfilter src) = int fi" and a: "adm fi (ident src)"
    and kn: "(ident src, kn) \<in> set (kf_index (filt_at w fi))"
  shows "\<exists>w' rv. kn_modify (vt fi) kn src w = Some (w', rv) \<and> good w' \<and>
    good (upd_knote kn (store_modify src) w') \<and> (\<exists>k. knotes w' kn = Some k)"
proof -
  note fc = contract [OF im]
  have fi: "fi < EVFILT_SYSCOUNT" by (rule filter_contract.slot [OF fc])
  obtain w' rv where w': "kn_modify (vt fi) kn src w = Some (w', rv)" "op_frame fi kn True w w'" "binv w'"
    using filter_contract.modify [OF fc _ _ kn f a] g by blast
  have c: "core_wf w'" using core_inv_frame_linked [OF _ w'(2) fi linkedI [OF kn]] g by blast
  have l: "kn \<in> linked w' fi"
    using linkedI [OF kn] idx_same_frame [OF _ w'(2)] g fi by (auto simp: idx_same_def linked_def)
  have im': "impl_ok impl adm w'" using impl_ok_idx_same [OF _ idx_same_frame [OF _ w'(2)]] g by blast
  have "kn_core (store_modify src k) = kn_core k" "kn_ext (store_modify src k) = kn_ext k" for k :: "'k knote_scheme"
    by (simp_all add: store_modify_def Let_def)
  then have "core_wf (upd_knote kn (store_modify src) w')" "binv (upd_knote kn (store_modify src) w')"
    using filter_contract.upd_linked_wf [OF fc c l] binv_ext [OF w'(3) ext_same_upd_knote] by simp_all
  moreover have "\<exists>k. knotes w' kn = Some k" using c l fi unfolding core_inv_def by blast
  ultimately show ?thesis using w' c im' by (auto simp: impl_ok_def)
qed

lemma copyin_known_ok:
  assumes g: "good w" and im: "impl fi" and f: "inv_filt (kfilter src) = int fi" and a: "adm fi (ident src)"
    and kn: "knote_lookup fi (ident src) w = Some kn"
  shows "\<exists>w' rv. kevent_copyin_known vt fi kn src w = Some (w', rv) \<and> good w' \<and>
    (rv = 1 \<longrightarrow> (\<exists>k. knotes w' kn = Some k))"
proof -
  note fc = contract [OF im]
  have fi: "fi < EVFILT_SYSCOUNT" by (rule filter_contract.slot [OF fc])
  have ix: "(ident src, kn) \<in> set (kf_index (filt_at w fi))" using kn core_inv_lookup [OF _ fi] g by blast
  note l = linkedI [OF ix]
  obtain wd rd where d: "knote_delete (vt fi) fi kn w = Some (wd, rd)" "core_wf wd" "binv wd" "rd \<le> 0" "impl_set wd = impl_set w"
      "kf_index (filt_at wd fi) = idx_remove kn (kf_index (filt_at w fi))"
      "\<And>fj. fj < EVFILT_SYSCOUNT \<Longrightarrow> fj \<noteq> fi \<Longrightarrow> kf_index (filt_at wd fj) = kf_index (filt_at w fj)"
      "slot_ids wd = slot_ids w"
    using filter_contract.knote_delete_ok [OF fc _ _ ix a] g by metis
  have "set (kf_index (filt_at wd fj)) \<subseteq> set (kf_index (filt_at w fj))" if "fj < EVFILT_SYSCOUNT" for fj
    using d(6,7) that by (cases "fj = fi") (auto simp: idx_remove_def)
  then have gd: "good wd" using g d(2,3) impl_ok_sub [OF _ d(5,8)] by blast
  obtain ws rs where ds: "knote_disable (vt fi) fi kn w = Some (ws, rs)" "core_wf ws" "binv ws" "idx_same w ws" "\<exists>k. knotes ws kn = Some k"
    using filter_contract.knote_disable_ok [OF fc _ _ ix a] g by metis
  obtain we re where en: "knote_enable (vt fi) fi kn w = Some (we, re)" "core_wf we" "binv we" "idx_same w we" "\<exists>k. knotes we kn = Some k"
    using filter_contract.knote_enable_ok [OF fc _ _ ix a] g by metis
  have mod: "\<exists>w' rv. (if wants_modify src then do {
        (w, rv) \<leftarrow> kn_modify (vt fi) kn src w1;
        if rv = 0 then Some (upd_knote kn (store_modify src) w, rv) else Some (w, rv) } else Some (w1, 0)) = Some (w', rv) \<and>
      good w' \<and> (rv = 1 \<longrightarrow> (\<exists>k. knotes w' kn = Some k))"
    if "good w1" "(ident src, kn) \<in> set (kf_index (filt_at w1 fi))" for w1
    using modify_ok [OF that(1) im f a that(2)] that(1) by (cases "wants_modify src") auto
  have "good we" "good ws" using g ds en impl_ok_idx_same by blast+
  moreover have "(ident src, kn) \<in> set (kf_index (filt_at we fi))" using ix en(4) fi by (simp add: idx_same_def)
  ultimately show ?thesis
    using mod [of w] mod [of we] g gd ix d(1-4) ds en unfolding kevent_copyin_known_def
    by (cases "has_flag (flags src) EV_DELETE"; cases "has_flag (flags src) EV_DISABLE";
        cases "has_flag (flags src) EV_ENABLE"; cases "re = 0") auto
qed

lemma copyin_one_ok:
  assumes g: "good w" and a: "adm_change adm src"
  shows "\<exists>w' rv kn. kevent_copyin_one vt kz src w = Some (w', rv, kn) \<and> good w' \<and>
    (rv = 1 \<longrightarrow> (\<exists>a k. kn = Some a \<and> knotes w' a = Some k))"
proof (cases "has_flag (flags src) EV_DISPATCH \<and> has_flag (flags src) EV_ONESHOT")
  case True
  with g show ?thesis by (simp add: kevent_copyin_one_def)
next
  case False
  show ?thesis
  proof (cases "filter_lookup (kfilter src) w")
    case (Pair w1 r)
    show ?thesis
    proof (cases r)
      case None
      from filter_lookup_None [OF Pair [unfolded None]] obtain e where "w1 = w\<lparr>errno := e\<rparr>" by blast
      with False Pair None g show ?thesis by (auto simp: kevent_copyin_one_def)
    next
      case (Some fi)
      have w1: "w1 = w" "fi < EVFILT_SYSCOUNT" "inv_filt (kfilter src) = int fi" "kf_copyout_set (filt_at w fi)"
        using Pair Some filter_lookup_Some by blast+
      have im: "impl fi" using g w1(2,4) by (auto simp: impl_ok_def impl_set_def core_inv_def)
      have ad: "adm fi (ident src)" using a w1(3) by (simp add: adm_change_def)
      show ?thesis
      proof (cases "knote_lookup fi (ident src) w")
        case None
        obtain w2 rv kn where w2: "kevent_copyin_add vt kz fi src w = Some (w2, rv, kn)" "good w2"
            "0 \<le> rv \<longrightarrow> (\<exists>a k. kn = Some a \<and> knotes w2 a = Some k)"
          using copyin_add_ok [OF g im w1(3) ad None w1(4)] by blast
        show ?thesis
        proof (cases "has_flag (flags src) EV_ADD")
          case True
          with w2 False Pair Some w1(1) None g show ?thesis by (simp add: kevent_copyin_one_def)
        next
          case no_add: False
          with False Pair Some w1(1) None g show ?thesis by (simp add: kevent_copyin_one_def)
        qed
      next
        case kn: (Some kn)
        from copyin_known_ok [OF g im w1(3) ad kn] kn False Pair Some w1(1) show ?thesis
          by (auto simp: kevent_copyin_one_def)
      qed
    qed
  qed
qed

lemma copyin_loop_ok:
  assumes "good w" "\<forall>c \<in> set cs. adm_change adm c" "length out \<le> n"
  shows "\<exists>w' rv out'. kevent_copyin_loop vt kz cs n out w = Some (w', rv, out') \<and> good w' \<and>
    length out' \<le> n \<and> (rv = -1 \<or> rv = int (length out'))"
  using assms
proof (induction cs arbitrary: w out)
  case (Cons c cs)
  obtain w1 rv kn where w1: "kevent_copyin_one vt kz c w = Some (w1, rv, kn)" "good w1"
      "rv = 1 \<longrightarrow> (\<exists>a k. kn = Some a \<and> knotes w1 a = Some k)"
    using copyin_one_ok [OF Cons.prems(1), of c] Cons.prems(2) by auto
  have rest: "\<exists>w' rv out'. kevent_copyin_loop vt kz cs n o1 w2 = Some (w', rv, out') \<and> good w' \<and>
      length out' \<le> n \<and> (rv = -1 \<or> rv = int (length out'))" if "good w2" "length o1 \<le> n" for w2 o1
    using Cons.IH [OF that(1) _ that(2)] Cons.prems(2) by simp
  consider (full) "length out = n" | (room) "length out < n" using Cons.prems(3) by linarith
  then show ?case
  proof cases
    case full
    with w1 rest [OF w1(2), of out] show ?thesis by auto
  next
    case room
    then have "length (out @ [e]) \<le> n" for e by simp
    with room w1 rest [of "w1\<lparr>errno := 0\<rparr>"] rest [OF w1(2)] Cons.prems(3) show ?thesis by auto
  qed
qed simp

lemma copyin_ok:
  assumes "good w" "\<forall>c \<in> set cs. adm_change adm c"
  shows "\<exists>w' rv out. kevent_copyin vt kz cs n w = Some (w', rv, out) \<and> good w' \<and>
    length out \<le> n \<and> (rv = -1 \<or> rv = int (length out))"
  using copyin_loop_ok [OF assms, of "[]" n] by (simp add: kevent_copyin_def)

text \<open>Taking the filters of a kqueue down, when they have no destructor of their own:
  no knote survives.\<close>

lemma unregister_slots_ok:
  assumes "good w" "set is \<subseteq> {..< EVFILT_SYSCOUNT}"
  shows "\<exists>w'. filter_unregister_slots vt (\<lambda>_. None) None is w = Some w' \<and> good w' \<and>
    (\<forall>fi < EVFILT_SYSCOUNT. kf_index (filt_at w' fi) = (if fi \<in> set is then [] else kf_index (filt_at w fi)))"
  using assms
proof (induction "is" arbitrary: w)
  case (Cons i "is")
  have i: "i < EVFILT_SYSCOUNT" using Cons.prems(2) by simp
  show ?case
  proof (cases "kf_index (filt_at w i) = []")
    case True
    then have "knote_delete_all (vt i) i w = Some w" by (simp add: knote_delete_all_def)
    then show ?thesis using Cons.IH [OF Cons.prems(1)] Cons.prems(2) True by auto
  next
    case False
    then have "impl_set w ! i" using Cons.prems(1) i by (simp add: impl_ok_def)
    then have im: "impl i" "kf_id (filt_at w i) \<noteq> 0"
      using Cons.prems(1) i by (simp_all add: impl_ok_def impl_set_def core_inv_def)
    have "\<forall>(j, a) \<in> set (kf_index (filt_at w i)). adm i j" using Cons.prems(1) i by (simp add: impl_ok_def)
    then obtain w1 where w1: "knote_delete_all (vt i) i w = Some w1" "core_wf w1" "binv w1" "kf_index (filt_at w1 i) = []"
        "impl_set w1 = impl_set w" "slot_ids w1 = slot_ids w"
        "\<forall>fj < EVFILT_SYSCOUNT. fj \<noteq> i \<longrightarrow> kf_index (filt_at w1 fj) = kf_index (filt_at w fj)"
      using filter_contract.knote_delete_all_ok [OF contract [OF im(1)]] Cons.prems(1) by blast
    have ix: "kf_index (filt_at w1 fi) = (if fi = i then [] else kf_index (filt_at w fi))" if "fi < EVFILT_SYSCOUNT" for fi
      using w1(4,7) that by simp
    have g1: "good w1" using Cons.prems(1) w1(2,3) ix impl_ok_sub [OF _ w1(5,6)] by simp
    from Cons.IH [OF g1] Cons.prems(2) w1(1) im(2) ix show ?thesis by auto
  qed
qed simp

lemma unregister_all_ok:
  assumes "good w"
  shows "\<exists>w'. filter_unregister_all vt (\<lambda>_. None) None w = Some w' \<and> core_wf w' \<and> binv w' \<and>
    knotes w' = Map.empty \<and> kq_knote_count w' = 0"
proof -
  obtain w1 where w1: "filter_unregister_slots vt (\<lambda>_. None) None [0 ..< EVFILT_SYSCOUNT] w = Some w1" "good w1"
      "\<forall>fi < EVFILT_SYSCOUNT. kf_index (filt_at w1 fi) = []"
    using unregister_slots_ok [OF assms, of "[0 ..< EVFILT_SYSCOUNT]"] by (auto simp: atLeast0LessThan)
  let ?w = "w1\<lparr>kq_filt := replicate EVFILT_SYSCOUNT filter_zero\<rparr>"
  have "linked w1 fi = {}" if "fi < EVFILT_SYSCOUNT" for fi using w1(3) that by (simp add: linked_def)
  then have e: "dom (knotes w1) = {}" using w1(2) by (simp add: core_inv_def)
  then have "knotes w1 = Map.empty" by (simp only: dom_eq_empty_conv)
  moreover have "kq_knote_count w1 = 0" using w1(2,3) by (simp add: core_inv_def)
  moreover have "ext_same w1 ?w" by (simp add: ext_same_def)
  then have "binv ?w" using binv_ext w1(2) by blast
  moreover have "core_wf ?w"
    by (rule core_wf_empty) (use e \<open>kq_knote_count w1 = 0\<close> in \<open>auto simp: filter_zero_def\<close>)
  ultimately show ?thesis using w1(1) by (simp add: filter_unregister_all_def)
qed

text \<open>What one change does to the index: a successful addition links the ident, and a
  deletion removes it, whatever the filter answers.\<close>

lemma copyin_add_effect:
  assumes g: "good w" and a: "adm_change adm src" and f: "filter_lookup (kfilter src) w = (w, Some fi)"
    and kn: "knote_lookup fi (ident src) w = None"
    and fl: "has_flag (flags src) EV_ADD" "\<not> (has_flag (flags src) EV_DISPATCH \<and> has_flag (flags src) EV_ONESHOT)"
  shows "\<exists>w' rv r. kevent_copyin_one vt kz src w = Some (w', rv, r) \<and>
    (0 \<le> rv \<longrightarrow> (\<exists>kn. r = Some kn \<and> knote_lookup fi (ident src) w' = Some kn \<and> knotes w' kn \<noteq> None))"
proof -
  have fi: "fi < EVFILT_SYSCOUNT" "inv_filt (kfilter src) = int fi" "kf_copyout_set (filt_at w fi)"
    using f filter_lookup_Some by blast+
  have im: "impl fi" using g fi by (auto simp: impl_ok_def impl_set_def core_inv_def)
  have ad: "adm fi (ident src)" using a fi by (simp add: adm_change_def)
  obtain w' rv r where w': "kevent_copyin_add vt kz fi src w = Some (w', rv, r)" "good w'"
      "0 \<le> rv \<longrightarrow> (\<exists>a k. r = Some a \<and> knotes w' a = Some k \<and> (ident src, a) \<in> set (kf_index (filt_at w' fi)))"
    using copyin_add_ok [OF g im fi(2) ad kn fi(3)] by blast
  then have "0 \<le> rv \<longrightarrow> (\<exists>a. r = Some a \<and> knotes w' a \<noteq> None \<and> knote_lookup fi (ident src) w' = Some a)"
    using core_inv_lookup [OF _ fi(1)] by blast
  then show ?thesis using w'(1) f kn fl by (auto simp: kevent_copyin_one_def)
qed

lemma copyin_delete_effect:
  assumes g: "good w" and a: "adm_change adm src" and f: "filter_lookup (kfilter src) w = (w, Some fi)"
    and kn: "knote_lookup fi (ident src) w = Some kn"
    and fl: "has_flag (flags src) EV_DELETE" "\<not> (has_flag (flags src) EV_DISPATCH \<and> has_flag (flags src) EV_ONESHOT)"
  shows "\<exists>w' rv. kevent_copyin_one vt kz src w = Some (w', rv, Some kn) \<and> rv \<le> 0 \<and>
    knote_lookup fi (ident src) w' = None \<and> knotes w' kn = None"
proof -
  have fi: "fi < EVFILT_SYSCOUNT" "inv_filt (kfilter src) = int fi" "kf_copyout_set (filt_at w fi)"
    using f filter_lookup_Some by blast+
  have im: "impl fi" using g fi by (auto simp: impl_ok_def impl_set_def core_inv_def)
  have ad: "adm fi (ident src)" using a fi by (simp add: adm_change_def)
  have ix: "(ident src, kn) \<in> set (kf_index (filt_at w fi))" using kn core_inv_lookup [OF _ fi(1)] g by blast
  obtain w' rv where w': "knote_delete (vt fi) fi kn w = Some (w', rv)" "rv \<le> 0" "knotes w' kn = None"
      "kf_index (filt_at w' fi) = idx_remove kn (kf_index (filt_at w fi))"
    using filter_contract.knote_delete_ok [OF contract [OF im] _ _ ix ad] g by metis
  have "idx_ok (kf_index (filt_at w fi))" using g fi(1) by (simp add: core_inv_def filt_inv_def)
  then have "knote_lookup fi (ident src) w' = None" using rbi.find_del [OF _ ix] w'(4) by (simp add: knote_lookup_def)
  then show ?thesis using w' f kn fl by (auto simp: kevent_copyin_one_def kevent_copyin_known_def)
qed

end

end
