(* ===== verification/Libkqueue_Filter.thy ===== *)
theory Libkqueue_Filter
  imports Kevent_Safe
begin

text \<open>
  The EVFILT_LIBKQUEUE filter (\<^verbatim>\<open>common/libkqueue.c\<close>): queries and settings of the
  library itself, made through the change list.  The state it reads and writes
  are the globals of the library; the version numbers come from the build
  and are arguments.  Debugging support is compiled in.
\<close>

subsection \<open>State\<close>

record 'k gworld = "'k world" +
  libkqueue_thread_safe :: bool
  libkqueue_fork_cleanup :: bool
  libkqueue_debug :: bool
  libkqueue_debug_ident :: u64
  libkqueue_debug_func :: u64

text \<open>What the build and the platform's vtable provide: the version, the
  optional hook for the file poll interval, and the default debug function.
  A string or a function is named by its address.\<close>

record 'w lkq_build =
  version_string :: u64
  version_major :: u32
  version_minor :: u32
  version_patch :: u32
  version_release :: "u32 option"
  set_file_poll_interval :: "(u64 \<Rightarrow> 'w \<Rightarrow> 'w \<times> int) option"
  dbg_default :: "u64 option"
  dbg_stderr :: u64

definition libkqueue_debug_func_set ::
  "(('k, 'z) gworld_scheme) lkq_build \<Rightarrow> u64 \<Rightarrow> ('k, 'z) gworld_scheme \<Rightarrow> ('k, 'z) gworld_scheme" where
  "libkqueue_debug_func_set B f w =
     (if f = 0 then
        (case dbg_default B of
           Some d \<Rightarrow> w\<lparr>libkqueue_debug_func := d\<rparr>
         | None \<Rightarrow> w\<lparr>libkqueue_debug_func := dbg_stderr B\<rparr>)
      else w\<lparr>libkqueue_debug_func := f\<rparr>)"

definition libkqueue_debug_func_init ::
  "(('k, 'z) gworld_scheme) lkq_build \<Rightarrow> ('k, 'z) gworld_scheme \<Rightarrow> ('k, 'z) gworld_scheme" where
  "libkqueue_debug_func_init B w =
     (case dbg_default B of
        Some d \<Rightarrow> if libkqueue_debug_func w = dbg_stderr B then w\<lparr>libkqueue_debug_func := d\<rparr> else w
      | None \<Rightarrow> w)"

definition libkqueue_debug_ident_set :: "u64 \<Rightarrow> ('k, 'z) gworld_scheme \<Rightarrow> ('k, 'z) gworld_scheme" where
  "libkqueue_debug_ident_set str w = w\<lparr>libkqueue_debug_ident := str\<rparr>"

definition libkqueue_debug_ident_clear :: "('k, 'z) gworld_scheme \<Rightarrow> ('k, 'z) gworld_scheme" where
  "libkqueue_debug_ident_clear w = w\<lparr>libkqueue_debug_ident := 0\<rparr>"

subsection \<open>Callbacks\<close>

definition version_number :: "'w lkq_build \<Rightarrow> u32" where
  "version_number B =
     push_bit 24 (version_major B) OR push_bit 16 (version_minor B) OR push_bit 8 (version_patch B) OR
     (case version_release B of None \<Rightarrow> 0 | Some r \<Rightarrow> r)"

definition upd_kev :: "addr \<Rightarrow> (kevent \<Rightarrow> kevent) \<Rightarrow> ('k, 'z) world_scheme \<Rightarrow> ('k, 'z) world_scheme" where
  "upd_kev kn f w = upd_knote kn (\<lambda>k. k\<lparr>kev := f (kev k)\<rparr>) w"

definition bool_data :: "bool \<Rightarrow> u64" where "bool_data b = (if b then 1 else 0)"

text \<open>The switch on the request; a negative result is the early return.\<close>

definition libkqueue_request ::
  "(('k, 'z) gworld_scheme) lkq_build \<Rightarrow> addr \<Rightarrow> u32 \<Rightarrow> u64 \<Rightarrow> ('k, 'z) gworld_scheme
    \<Rightarrow> ('k, 'z) gworld_scheme \<times> int" where
  "libkqueue_request B kn ff d w =
     (if ff = NOTE_VERSION_STR then
        (upd_kev kn (\<lambda>e. e\<lparr>udata := version_string B, flags := set_flag EV_RECEIPT (flags e)\<rparr>) w, 0)
      else if ff = NOTE_VERSION then
        (upd_kev kn (\<lambda>e. e\<lparr>data := ucast (version_number B), flags := set_flag EV_RECEIPT (flags e)\<rparr>) w, 0)
      else if ff = NOTE_THREAD_SAFE then
        (upd_kev kn (\<lambda>e. e\<lparr>data := bool_data (libkqueue_thread_safe w)\<rparr>)
           (w\<lparr>libkqueue_thread_safe := (sint d > 0)\<rparr>), 0)
      else if ff = NOTE_FORK_CLEANUP then
        (upd_kev kn (\<lambda>e. e\<lparr>data := bool_data (libkqueue_fork_cleanup w)\<rparr>)
           (w\<lparr>libkqueue_fork_cleanup := (sint d > 0)\<rparr>), 0)
      else if ff = NOTE_FILE_POLL_INTERVAL then
        (case set_file_poll_interval B of
           None \<Rightarrow> (w\<lparr>errno := ENOSYS\<rparr>, -1)
         | Some f \<Rightarrow> let (w, r) = f d w in (w, if r < 0 then -1 else 0))
      else if ff = NOTE_DEBUG then
        (upd_kev kn (\<lambda>e. e\<lparr>data := bool_data (libkqueue_debug w)\<rparr>)
           (w\<lparr>libkqueue_debug := (sint d > 0)\<rparr>), 0)
      else if ff = NOTE_DEBUG_PREFIX then (libkqueue_debug_ident_set d w, 0)
      else if ff = NOTE_DEBUG_FUNC then (libkqueue_debug_func_set B d w, 0)
      else (w, -1))"

definition common_libkqueue_knote_create ::
  "(('k, 'z) gworld_scheme) lkq_build \<Rightarrow> addr \<Rightarrow> ('k, 'z) gworld_scheme
    \<Rightarrow> (('k, 'z) gworld_scheme \<times> int) option" where
  "common_libkqueue_knote_create B kn w = do {
     k \<leftarrow> knotes w kn;
     let (w, rv) = libkqueue_request B kn (fflags (kev k)) (data (kev k)) w;
     if rv < 0 then Some (w, -1)
     else do {
       k \<leftarrow> knotes w kn;
       Some (w, if has_flag (flags (kev k)) EV_RECEIPT then 1 else 0) } }"

definition common_libkqueue_knote_copyout ::
  "nat \<Rightarrow> addr option \<Rightarrow> u32 \<Rightarrow> 'w \<Rightarrow> ('w \<times> int \<times> kevent list) option" where
  "common_libkqueue_knote_copyout nevents kn ev w = Some (w, -1, [])"

definition common_libkqueue_knote_modify ::
  "(('k, 'z) gworld_scheme) lkq_build \<Rightarrow> addr \<Rightarrow> kevent \<Rightarrow> ('k, 'z) gworld_scheme
    \<Rightarrow> (('k, 'z) gworld_scheme \<times> int) option" where
  "common_libkqueue_knote_modify B kn src w =
     common_libkqueue_knote_create B kn (upd_kev kn (\<lambda>_. src) w)"

definition common_libkqueue_knote_delete :: "addr \<Rightarrow> 'w \<Rightarrow> ('w \<times> int) option" where
  "common_libkqueue_knote_delete kn w = Some (w, 0)"

definition common_libkqueue_knote_enable :: "addr \<Rightarrow> 'w \<Rightarrow> ('w \<times> int) option" where
  "common_libkqueue_knote_enable kn w = Some (w, 0)"

definition common_libkqueue_knote_disable :: "addr \<Rightarrow> 'w \<Rightarrow> ('w \<times> int) option" where
  "common_libkqueue_knote_disable kn w = Some (w, 0)"

definition evfilt_libkqueue ::
  "(('k, 'z) gworld_scheme) lkq_build \<Rightarrow> (('k, 'z) gworld_scheme) filter_ops" where
  "evfilt_libkqueue B =
     \<lparr>kf_copyout = common_libkqueue_knote_copyout,
      kn_create = common_libkqueue_knote_create B,
      kn_modify = common_libkqueue_knote_modify B,
      kn_delete = common_libkqueue_knote_delete,
      kn_enable = common_libkqueue_knote_enable,
      kn_disable = common_libkqueue_knote_disable\<rparr>"

lemma evfilt_libkqueue_simps [simp]:
  "kf_copyout (evfilt_libkqueue B) = common_libkqueue_knote_copyout"
  "kn_create (evfilt_libkqueue B) = common_libkqueue_knote_create B"
  "kn_modify (evfilt_libkqueue B) = common_libkqueue_knote_modify B"
  "kn_delete (evfilt_libkqueue B) = common_libkqueue_knote_delete"
  "kn_enable (evfilt_libkqueue B) = common_libkqueue_knote_enable"
  "kn_disable (evfilt_libkqueue B) = common_libkqueue_knote_disable"
  by (simp_all add: evfilt_libkqueue_def)

subsection \<open>The filter meets its contract\<close>

text \<open>A backend invariant that does not depend on the globals, on a backend whose
  vtable has no hook for the poll interval (Linux, Solaris, Windows).  The last
  law: no backend structure points to a knote of this filter.\<close>

definition glob_same :: "('k, 'z) gworld_scheme \<Rightarrow> ('k, 'z) gworld_scheme \<Rightarrow> bool" where
  "glob_same w w' \<longleftrightarrow>
     gworld.more w' = gworld.more w \<and> calloc_ok w' = calloc_ok w \<and> next_addr w \<le> next_addr w' \<and>
     (\<forall>a. map_option kn_ext (knotes w' a) = map_option kn_ext (knotes w a))"

locale global_state = backend_state binv bfree kz
  for binv :: "('k, 'z) gworld_scheme \<Rightarrow> bool" and bfree and kz +
  assumes binv_glob: "binv w \<Longrightarrow> glob_same w w' \<Longrightarrow> binv w'"
    and bfree_glob: "bfree kn w \<Longrightarrow> glob_same w w' \<Longrightarrow> bfree kn w'"
    and bfree_own: "core_inv {kn} {} w \<Longrightarrow> binv w \<Longrightarrow> knotes w kn = Some k \<Longrightarrow>
      inv_filt (kfilter (kev k)) = 11 \<Longrightarrow> bfree kn w"

lemma upd_kev_frame:
  assumes "\<And>k. knotes w kn = Some k \<Longrightarrow> ident (f (kev k)) = ident (kev k) \<and> kfilter (f (kev k)) = kfilter (kev k)"
  shows "op_frame fi kn r w (upd_kev kn f w)" "glob_same w (upd_kev kn f w)"
proof -
  have "map_option kn_core (map_option (\<lambda>k. k\<lparr>kev := f (kev k)\<rparr>) (knotes w kn)) = map_option kn_core (knotes w kn)"
    "map_option kn_ext (map_option (\<lambda>k. k\<lparr>kev := f (kev k)\<rparr>) (knotes w kn)) = map_option kn_ext (knotes w kn)"
    using assms by (cases "knotes w kn"; simp)+
  then show "op_frame fi kn r w (upd_kev kn f w)" "glob_same w (upd_kev kn f w)"
    by (simp_all add: upd_kev_def op_frame_def glob_same_def upd_knote_def)
qed

lemma glob_same_trans: "glob_same w w' \<Longrightarrow> glob_same w' w'' \<Longrightarrow> glob_same w w''"
  by (simp add: glob_same_def)

text \<open>Writes to the globals are invisible to the common code and to the backend.\<close>

lemma global_writes:
  "op_frame fi kn r w (w\<lparr>libkqueue_thread_safe := b\<rparr>)" "glob_same w (w\<lparr>libkqueue_thread_safe := b\<rparr>)"
  "op_frame fi kn r w (w\<lparr>libkqueue_fork_cleanup := b\<rparr>)" "glob_same w (w\<lparr>libkqueue_fork_cleanup := b\<rparr>)"
  "op_frame fi kn r w (w\<lparr>libkqueue_debug := b\<rparr>)" "glob_same w (w\<lparr>libkqueue_debug := b\<rparr>)"
  "op_frame fi kn r w (libkqueue_debug_ident_set x w)" "glob_same w (libkqueue_debug_ident_set x w)"
  "op_frame fi kn r w (libkqueue_debug_func_set B x w)" "glob_same w (libkqueue_debug_func_set B x w)"
  "op_frame fi kn r w (w\<lparr>errno := n\<rparr>)" "glob_same w (w\<lparr>errno := n\<rparr>)" "glob_same w w"
  by (auto simp: op_frame_def glob_same_def libkqueue_debug_ident_set_def libkqueue_debug_func_set_def
      split: option.splits)

lemma upd_kev_step:
  assumes "\<And>e. ident (f e) = ident e \<and> kfilter (f e) = kfilter e"
  shows "op_frame fi kn r w w1 \<Longrightarrow> op_frame fi kn r w (upd_kev kn f w1)"
    and "glob_same w w1 \<Longrightarrow> glob_same w (upd_kev kn f w1)"
  using op_frame_trans [OF _ upd_kev_frame(1)] glob_same_trans [OF _ upd_kev_frame(2)] assms by blast+

lemma knotes_upd_kev: "knotes (upd_kev kn f w) kn = map_option (\<lambda>k. k\<lparr>kev := f (kev k)\<rparr>) (knotes w kn)"
  by (simp add: upd_kev_def)

lemma libkqueue_request_step:
  assumes k: "knotes w kn = Some k" and B: "set_file_poll_interval B = None"
    and req: "libkqueue_request B kn ff d w = (w', rv)"
  shows "op_frame fi kn r w w' \<and> glob_same w w' \<and> (\<exists>k. knotes w' kn = Some k)"
proof -
  note step = upd_kev_step(1) [OF _ global_writes(1)] upd_kev_step(2) [OF _ global_writes(2)]
    upd_kev_step(1) [OF _ global_writes(3)] upd_kev_step(2) [OF _ global_writes(4)]
    upd_kev_step(1) [OF _ global_writes(5)] upd_kev_step(2) [OF _ global_writes(6)]
    upd_kev_step(1) [OF _ op_frame_refl] upd_kev_step(2) [OF _ global_writes(13)]
  show ?thesis
    using req k unfolding libkqueue_request_def B
    by (auto intro!: step simp: global_writes knotes_upd_kev split: if_splits)
      (auto simp: libkqueue_debug_ident_set_def libkqueue_debug_func_set_def split: option.splits if_splits)
qed

lemma lkq_create_step:
  assumes k: "knotes w kn = Some k" and B: "set_file_poll_interval B = None"
  shows "\<exists>w' rv. common_libkqueue_knote_create B kn w = Some (w', rv) \<and> op_frame fi kn r w w' \<and> glob_same w w'"
proof (cases "libkqueue_request B kn (fflags (kev k)) (data (kev k)) w")
  case (Pair w' rv)
  from libkqueue_request_step [OF k B this, of fi r] Pair k show ?thesis
    by (cases "rv < 0") (auto simp: common_libkqueue_knote_create_def)
qed

context global_state
begin

lemma libkqueue_contract:
  assumes B: "set_file_poll_interval B = None"
  shows "filter_contract binv bfree kz (evfilt_libkqueue B) 11 (\<lambda>_. True)"
proof (unfold_locales, goal_cases)
  case 1
  show ?case by (simp add: EVFILT_SYSCOUNT_def)
next
  case (2 kn w k)
  obtain w' rv where "common_libkqueue_knote_create B kn w = Some (w', rv)" "op_frame 11 kn False w w'" "glob_same w w'"
    using lkq_create_step [OF 2(4) B] by blast
  with binv_glob [OF 2(2)] bfree_glob [OF 2(3)] op_frame_mono show ?case by simp
next
  case (3 w src kn)
  have "11 < EVFILT_SYSCOUNT" by (simp add: EVFILT_SYSCOUNT_def)
  then obtain k where k: "knotes w kn = Some k" "ident (kev k) = ident src" "inv_filt (kfilter (kev k)) = int 11"
    using core_inv_linked_knote [OF 3(1) _ 3(3)] by blast
  then have f: "op_frame 11 kn True w (upd_kev kn (\<lambda>_. src) w)" "glob_same w (upd_kev kn (\<lambda>_. src) w)"
    using upd_kev_frame [of w kn "\<lambda>_. src"] 3(4) by (simp_all add: inv_filt_inj)
  have "knotes (upd_kev kn (\<lambda>_. src) w) kn = Some (k\<lparr>kev := src\<rparr>)" using k by (simp add: knotes_upd_kev)
  from lkq_create_step [OF this B, of 11 True] obtain w' rv where w':
    "common_libkqueue_knote_modify B kn src w = Some (w', rv)" "op_frame 11 kn True (upd_kev kn (\<lambda>_. src) w) w'"
    "glob_same (upd_kev kn (\<lambda>_. src) w) w'"
    by (auto simp: common_libkqueue_knote_modify_def)
  show ?case
    using w'(1) op_frame_trans [OF f(1) w'(2)] binv_glob [OF 3(2) glob_same_trans [OF f(2) w'(3)]] by simp
next
  case (4 kn w k)
  then show ?case using bfree_own [OF 4(1,2,3)] by (simp add: common_libkqueue_knote_delete_def)
qed (simp_all add: common_libkqueue_knote_enable_def common_libkqueue_knote_disable_def)

end

subsection \<open>Properties\<close>

text \<open>C19: a NOTE_VERSION query.  A change that adds an EVFILT_LIBKQUEUE knote with
  NOTE_VERSION yields one event list entry that carries the library's version
  number and EV_RECEIPT, so the query interface answers through the change list.\<close>

theorem libkqueue_version_query:
  assumes "core_wf w" "kf_copyout_set (filt_at w 11)" "vt 11 = evfilt_libkqueue B"
    and "knote_lookup 11 i w = None" "calloc_ok w (next_addr w)"
  shows "\<exists>w' e. kevent_copyin vt kz [EV_SET i EVFILT_LIBKQUEUE EV_ADD NOTE_VERSION d u] (Suc n) w = Some (w', 1, [e]) \<and>
     ident e = i \<and> data e = ucast (version_number B) \<and> has_flag (flags e) EV_RECEIPT \<and>
     knote_lookup 11 i w' \<noteq> None"
proof -
  let ?src = "EV_SET i EVFILT_LIBKQUEUE EV_ADD NOTE_VERSION d u"
  have look: "filter_lookup (kfilter ?src) w = (w, Some 11)"
    using assms(2) by (simp add: filter_lookup_def EVFILT_SYSCOUNT_def)
  have len: "length (kq_filt w) = EVFILT_SYSCOUNT" "11 < EVFILT_SYSCOUNT"
    using assms(1) by (simp_all add: core_inv_def EVFILT_SYSCOUNT_def)
  have fl: "has_flag EV_ADD EV_ADD" "\<not> has_flag EV_ADD EV_DISPATCH" "\<not> has_flag EV_ADD EV_DISABLE"
    "\<not> has_flag EV_ADD EV_RECEIPT" "clear_flag EV_ENABLE EV_ADD = EV_ADD" "NOTE_VERSION \<noteq> NOTE_VERSION_STR"
    by (simp_all add: has_flag_def clear_flag_def flag_defs)
  have rec: "has_flag (set_flag EV_RECEIPT x) EV_RECEIPT" for x by (simp add: flag_defs)
  show ?thesis
    using assms(2-) look fl rec len
    by (simp add: upd_filt_at idx_find_insert kevent_copyin_def kevent_copyin_one_def kevent_copyin_add_def knote_new_def calloc_def
        common_libkqueue_knote_create_def libkqueue_request_def knotes_upd_kev upd_kev_def knote_insert_def
        knote_lookup_def)
qed

text \<open>A kqueue with only this filter registered, and version 2.6.3.\<close>

definition sample_world :: "unit gworld" where
  "sample_world =
     \<lparr>errno = 0, calloc_ok = (\<lambda>_. True), next_addr = 1, knotes = Map.empty,
      kq_filt = replicate 11 filter_zero @ [filter_zero\<lparr>kf_id := EVFILT_LIBKQUEUE, kf_copyout_set := True\<rparr>],
      kq_knote_count = 0, libkqueue_thread_safe = True, libkqueue_fork_cleanup = True,
      libkqueue_debug = False, libkqueue_debug_ident = 0, libkqueue_debug_func = 0\<rparr>"

definition sample_build :: "(unit gworld) lkq_build" where
  "sample_build =
     \<lparr>version_string = 0x1000, version_major = 2, version_minor = 6, version_patch = 3,
      version_release = None, set_file_poll_interval = None, dbg_default = None, dbg_stderr = 0\<rparr>"

definition knote_zero :: knote where
  "knote_zero = \<lparr>kev = EV_SET 0 0 0 0 0 0, kn_flags = 0, kn_ref = 0, kn_signal_count = 0\<rparr>"

lemma sample_world_wf: "core_wf sample_world"
  by (rule core_wf_empty) (auto simp: sample_world_def filter_zero_def EVFILT_SYSCOUNT_def)

theorem libkqueue_version_query_witness:
  "\<exists>w' e. kevent_copyin (\<lambda>_. evfilt_libkqueue sample_build) knote_zero
      [EV_SET 7 EVFILT_LIBKQUEUE EV_ADD NOTE_VERSION 0 0] 1 sample_world = Some (w', 1, [e]) \<and>
      data e = 0x02060300"
  using libkqueue_version_query [OF sample_world_wf, of "\<lambda>_. evfilt_libkqueue sample_build" sample_build 7 knote_zero 0 0 0]
  by (auto simp: sample_world_def sample_build_def version_number_def filter_zero_def knote_lookup_def
      idx_find_def nth_append push_bit_eq_mult)



end
