(* ===== verification/Linux_World.thy ===== *)
theory Linux_World
  imports Libkqueue_Filter
begin

text \<open>
  The state of the Linux backend (\<^verbatim>\<open>linux/platform.h\<close>): the platform fields of
  knotes and kqueues, the fd_state objects that multiplex a descriptor between
  the read and the write filter, and the epoll_udata objects that the kernel
  hands back.

  The kernel is an argument: the record \<open>kernel\<close> has one field for each system
  call the code makes, over an abstract state \<open>'o\<close> that is part of the world.
  A call returns the new kernel state, the value, and the error number that
  is stored in errno when the value is negative.
\<close>

subsection \<open>Kernel interface\<close>

datatype epoll_op = EPOLL_CTL_ADD | EPOLL_CTL_DEL | EPOLL_CTL_MOD

definition EPOLLIN :: u32 where [flag_defs]: "EPOLLIN = 0x001"
definition EPOLLOUT :: u32 where [flag_defs]: "EPOLLOUT = 0x004"
definition EPOLLERR :: u32 where [flag_defs]: "EPOLLERR = 0x008"
definition EPOLLHUP :: u32 where [flag_defs]: "EPOLLHUP = 0x010"
definition EPOLLRDHUP :: u32 where [flag_defs]: "EPOLLRDHUP = 0x2000"
definition EPOLLONESHOT :: u32 where [flag_defs]: "EPOLLONESHOT = 0x40000000"
definition EPOLLET :: u32 where [flag_defs]: "EPOLLET = 0x80000000"

text \<open>What fstat, SO_TYPE and waitid report, as far as the code looks at it.  The
  mode \<open>S_IFZERO\<close> has no type bits (an eventfd).\<close>

datatype file_type = S_IFREG | S_IFIFO | S_IFBLK | S_IFCHR | S_IFSOCK | S_IFZERO | S_IFOTHER

datatype sock_type = SOCK_STREAM | SOCK_DGRAM | SOCK_RDM | SOCK_SEQPACKET | SOCK_RAW | SOCK_OTHER

datatype cld_code = CLD_EXITED | CLD_DUMPED | CLD_KILLED | CLD_OTHER

record stat =
  st_mode :: file_type
  st_nlink :: u64
  st_size :: int

record siginfo =
  si_pid :: int
  si_code :: cld_code
  si_status :: u32

text \<open>\<open>it_interval\<close> and \<open>it_value\<close> as pairs of seconds and nanoseconds.\<close>

record itimerspec =
  it_interval :: "int \<times> int"
  it_value :: "int \<times> int"

type_synonym 'o sys = "'o \<Rightarrow> 'o \<times> int \<times> int"

text \<open>Reads that deliver a value return it beside the result.\<close>

type_synonym ('o, 'a) sysval = "'o \<Rightarrow> 'o \<times> int \<times> int \<times> 'a"

record 'o kernel =
  sys_epoll_ctl :: "int \<Rightarrow> epoll_op \<Rightarrow> int \<Rightarrow> u32 \<Rightarrow> addr option \<Rightarrow> 'o sys"
  sys_eventfd :: "'o sys"
  sys_write8 :: "int \<Rightarrow> 'o sys"
  sys_read8 :: "int \<Rightarrow> ('o, u64) sysval"
  sys_close :: "int \<Rightarrow> 'o sys"
  sys_fstat :: "int \<Rightarrow> ('o, stat) sysval"
  sys_lseek_cur :: "int \<Rightarrow> 'o sys"
  sys_so_type :: "int \<Rightarrow> ('o, sock_type) sysval"
  sys_so_acceptconn :: "int \<Rightarrow> ('o, int) sysval"
  sys_so_get_filter :: "int \<Rightarrow> ('o, int) sysval"
  sys_so_error :: "int \<Rightarrow> ('o, int) sysval"
  sys_set_rcvlowat :: "int \<Rightarrow> int \<Rightarrow> 'o sys"
  sys_set_sndlowat :: "int \<Rightarrow> int \<Rightarrow> 'o sys"
  sys_siocinq :: "int \<Rightarrow> ('o, int) sysval"
  sys_siocoutq :: "int \<Rightarrow> ('o, int) sysval"
  sys_pipe_sz :: "int \<Rightarrow> 'o sys"
  sys_fionread :: "int \<Rightarrow> ('o, int) sysval"
  sys_timerfd_create :: "bool \<Rightarrow> 'o sys"
  sys_timerfd_settime :: "int \<Rightarrow> bool \<Rightarrow> itimerspec \<Rightarrow> 'o sys"
  sys_inotify_init :: "'o sys"
  sys_inotify_add_watch :: "int \<Rightarrow> string \<Rightarrow> u32 \<Rightarrow> 'o sys"
  sys_inotify_rm_watch :: "int \<Rightarrow> int \<Rightarrow> 'o sys"
  sys_inotify_read :: "int \<Rightarrow> nat \<Rightarrow> ('o, u32) sysval"
  sys_readlink_fd :: "int \<Rightarrow> ('o, string) sysval"
  sys_pidfd_open :: "int \<Rightarrow> 'o sys"
  sys_set_cloexec :: "int \<Rightarrow> 'o sys"
  sys_waitid :: "int \<Rightarrow> bool \<Rightarrow> ('o, siginfo) sysval"
  sys_ppoll :: "int \<Rightarrow> int \<times> int \<Rightarrow> 'o sys"
  sys_epoll_wait :: "int \<Rightarrow> nat \<Rightarrow> int \<Rightarrow> ('o, (u32 \<times> addr option) list) sysval"
  sys_epoll_create :: "'o sys"
  sys_pipe :: "('o, int \<times> int) sysval"
  sys_set_nonblock :: "int \<Rightarrow> 'o sys"
  sys_read_pipe :: "int \<Rightarrow> 'o sys"
  sys_write_pipe :: "int \<Rightarrow> 'o sys"

subsection \<open>Objects\<close>

text \<open>\<open>ud_type\<close> and the union of back pointers are one tagged value.  An eventfd is
  embedded in its filter and is named by the filter's slot.\<close>

datatype udata_ref =
    EPOLL_UDATA_KNOTE addr
  | EPOLL_UDATA_FD_STATE addr
  | EPOLL_UDATA_EVENT_FD nat
  | EPOLL_UDATA_KQ_WAKE

record epoll_udata =
  ud_ref :: udata_ref
  ud_stale :: bool
  ud_boundary_epoch :: u64

record fd_state =
  fds_fd :: int
  fds_read :: "addr option"
  fds_write :: "addr option"
  fds_udata :: "addr option"

text \<open>The filter-exclusive members of the C union are separate fields: a knote
  serves one filter.\<close>

record lknote = knote +
  kn_epollfd :: int
  kn_registered :: int
  kn_fds :: "addr option"
  epoll_events :: u32
  kn_timer_timerfd :: int
  kn_user_eventfd :: int
  kn_read_eventfd :: int
  kn_write_eventfd :: int
  kn_vnode_nlink :: u64
  kn_vnode_size :: int
  kn_vnode_inotifyfd :: int
  kn_proc_procfd :: int
  kn_udata :: "addr option"

text \<open>\<open>kq_inflight\<close> lists the callers inside kevent() in the order of entry, each
  with the epoch of its kqueue_kevent_state; \<open>kq_fd_st\<close> is the tree of
  fd_state objects in descriptor order; \<open>efd_udata\<close> is the udata of the eventfd
  embedded in each filter; \<open>pipefd\<close> is the close-detection pipe, whose write end is
  the kqueue's descriptor; \<open>tls_events\<close> is the thread-local buffer of each caller,
  which its epoll_wait fills.\<close>

record 'o lworld = "(unit lknote_ext) gworld" +
  epollfd :: int
  kq_fd_st :: "(int \<times> addr) list"
  fdss :: "addr \<Rightarrow> fd_state option"
  udatas :: "addr \<Rightarrow> epoll_udata option"
  kq_wake_udata :: "addr option"
  efd_udata :: "nat \<Rightarrow> addr option"
  kq_next_epoch :: u64
  kq_inflight :: "(nat \<times> u64) list"
  ud_deferred_free :: "addr list"
  pipefd :: "int \<times> int"
  kq_id :: int
  tls_events :: "nat \<Rightarrow> (u32 \<times> addr option) list"
  os :: 'o

type_synonym ('o, 'z) lw = "('o, 'z) lworld_scheme"

definition syscall :: "'o sys \<Rightarrow> ('o, 'z) lw \<Rightarrow> ('o, 'z) lw \<times> int" where
  "syscall f w =
     (case f (os w) of (o', rv, e) \<Rightarrow>
        (w\<lparr>os := o', errno := (if rv < 0 then e else errno w)\<rparr>, rv))"

definition syscall_val :: "('o, 'a) sysval \<Rightarrow> ('o, 'z) lw \<Rightarrow> ('o, 'z) lw \<times> int \<times> 'a" where
  "syscall_val f w =
     (case f (os w) of (o', rv, e, v) \<Rightarrow>
        (w\<lparr>os := o', errno := (if rv < 0 then e else errno w)\<rparr>, rv, v))"

definition lknote_zero :: lknote where
  "lknote_zero =
     \<lparr>kev = EV_SET 0 0 0 0 0 0, kn_flags = 0, kn_ref = 0, kn_signal_count = 0,
      kn_epollfd = 0, kn_registered = 0, kn_fds = None, epoll_events = 0, kn_timer_timerfd = 0,
      kn_user_eventfd = 0, kn_read_eventfd = 0, kn_write_eventfd = 0, kn_vnode_nlink = 0,
      kn_vnode_size = 0, kn_vnode_inotifyfd = 0, kn_proc_procfd = 0, kn_udata = None\<rparr>"

subsection \<open>udata objects\<close>

definition epoll_udata_alloc :: "udata_ref \<Rightarrow> ('o, 'z) lw \<Rightarrow> ('o, 'z) lw \<times> addr option" where
  "epoll_udata_alloc r w =
     (case calloc w of
        (w, None) \<Rightarrow> (w, None)
      | (w, Some u) \<Rightarrow>
          (w\<lparr>udatas := (udatas w)(u \<mapsto> \<lparr>ud_ref = r, ud_stale = False, ud_boundary_epoch = 0\<rparr>)\<rparr>, Some u))"

definition epoll_udata_defer_free :: "addr option \<Rightarrow> ('o, 'z) lw \<Rightarrow> ('o, 'z) lw option" where
  "epoll_udata_defer_free u w =
     (case u of
        None \<Rightarrow> Some w
      | Some u \<Rightarrow> do {
          ud \<leftarrow> udatas w u;
          if ud_stale ud then None
          else Some (w\<lparr>udatas := (udatas w)(u \<mapsto> ud\<lparr>ud_stale := True, ud_boundary_epoch := kq_next_epoch w\<rparr>),
                       ud_deferred_free := ud_deferred_free w @ [u]\<rparr>) })"

definition free_udata :: "addr option \<Rightarrow> ('o, 'z) lw \<Rightarrow> ('o, 'z) lw" where
  "free_udata u w = (case u of None \<Rightarrow> w | Some u \<Rightarrow> w\<lparr>udatas := (udatas w)(u := None)\<rparr>)"

definition KN_UDATA_ALLOC :: "addr \<Rightarrow> ('o, 'z) lw \<Rightarrow> ('o, 'z) lw" where
  "KN_UDATA_ALLOC kn w =
     (let (w, u) = epoll_udata_alloc (EPOLL_UDATA_KNOTE kn) w
      in upd_knote kn (\<lambda>k. k\<lparr>kn_udata := u\<rparr>) w)"

definition KN_UDATA_FREE :: "addr \<Rightarrow> ('o, 'z) lw \<Rightarrow> ('o, 'z) lw option" where
  "KN_UDATA_FREE kn w = do {
     k \<leftarrow> knotes w kn;
     Some (upd_knote kn (\<lambda>k. k\<lparr>kn_udata := None\<rparr>) (free_udata (kn_udata k) w)) }"

definition KN_UDATA_DEFER_FREE :: "addr \<Rightarrow> ('o, 'z) lw \<Rightarrow> ('o, 'z) lw option" where
  "KN_UDATA_DEFER_FREE kn w = do {
     k \<leftarrow> knotes w kn;
     w \<leftarrow> epoll_udata_defer_free (kn_udata k) w;
     Some (upd_knote kn (\<lambda>k. k\<lparr>kn_udata := None\<rparr>) w) }"

definition EVENTFD_UDATA_ALLOC :: "nat \<Rightarrow> ('o, 'z) lw \<Rightarrow> ('o, 'z) lw" where
  "EVENTFD_UDATA_ALLOC fi w =
     (let (w, u) = epoll_udata_alloc (EPOLL_UDATA_EVENT_FD fi) w
      in w\<lparr>efd_udata := (efd_udata w)(fi := u)\<rparr>)"

definition EVENTFD_UDATA_FREE :: "nat \<Rightarrow> ('o, 'z) lw \<Rightarrow> ('o, 'z) lw" where
  "EVENTFD_UDATA_FREE fi w = (free_udata (efd_udata w fi) w)\<lparr>efd_udata := (efd_udata w)(fi := None)\<rparr>"

definition EVENTFD_UDATA_DEFER_FREE :: "nat \<Rightarrow> ('o, 'z) lw \<Rightarrow> ('o, 'z) lw option" where
  "EVENTFD_UDATA_DEFER_FREE fi w = do {
     w \<leftarrow> epoll_udata_defer_free (efd_udata w fi) w;
     Some (w\<lparr>efd_udata := (efd_udata w)(fi := None)\<rparr>) }"

text \<open>A kqueue without knotes, its filters in the slots \<open>fs\<close>, over a kernel state.\<close>

definition lworld_empty :: "filter_t list \<Rightarrow> 'o \<Rightarrow> 'o lworld" where
  "lworld_empty fs k =
     \<lparr>errno = 0, calloc_ok = (\<lambda>_. True), next_addr = 1, knotes = Map.empty, kq_filt = fs,
      kq_knote_count = 0, libkqueue_thread_safe = True, libkqueue_fork_cleanup = True,
      libkqueue_debug = False, libkqueue_debug_ident = 0, libkqueue_debug_func = 0,
      epollfd = 3, kq_fd_st = [], fdss = Map.empty, udatas = Map.empty, kq_wake_udata = None,
      efd_udata = (\<lambda>_. None), kq_next_epoch = 0, kq_inflight = [], ud_deferred_free = [],
      pipefd = (4, 5), kq_id = 5, tls_events = (\<lambda>_. []), os = k\<rparr>"

end
