(* ===== verification/Linux_Deferred.thy ===== *)
theory Linux_Deferred
  imports Linux_World
begin

text \<open>
  Deferred reclamation of udata objects (\<^verbatim>\<open>linux/platform.c\<close>).  A thread that
  returns from epoll_wait holds udata pointers in a thread-local buffer while
  it does not hold the kqueue's lock, so a udata whose registration is deleted
  is only marked stale and queued; it is freed once every caller that was inside
  kevent() at that time has left.  The code orders both queues by epoch.

  The step relation \<open>dstep\<close> interleaves callers of kevent() on one kqueue, each
  with its buffer.  The main result is that no pointer in a buffer ever
  dangles.
\<close>

subsection \<open>Model\<close>

text \<open>The loop of the sweep.  \<open>oldest\<close> is the entry epoch at the head of
  \<open>kq_inflight\<close>, None when the list is empty.\<close>

fun sweep_loop ::
  "u64 option \<Rightarrow> addr list \<Rightarrow> (addr \<Rightarrow> epoll_udata option)
    \<Rightarrow> (addr list \<times> (addr \<Rightarrow> epoll_udata option)) option" where
  "sweep_loop oldest [] uds = Some ([], uds)"
| "sweep_loop oldest (u # us) uds = do {
     ud \<leftarrow> uds u;
     if (case oldest of None \<Rightarrow> True | Some e \<Rightarrow> ud_boundary_epoch ud < e)
     then sweep_loop oldest us (uds(u := None))
     else Some (u # us, uds) }"

definition oldest_epoch :: "('o, 'z) lw \<Rightarrow> u64 option" where
  "oldest_epoch w = (case kq_inflight w of [] \<Rightarrow> None | (_, e) # _ \<Rightarrow> Some e)"

definition linux_kqueue_sweep_deferred :: "('o, 'z) lw \<Rightarrow> ('o, 'z) lw option" where
  "linux_kqueue_sweep_deferred w = do {
     (us, uds) \<leftarrow> sweep_loop (oldest_epoch w) (ud_deferred_free w) (udatas w);
     Some (w\<lparr>ud_deferred_free := us, udatas := uds\<rparr>) }"

text \<open>Subtract \<open>base\<close> from every live epoch.\<close>

definition shift_epochs :: "u64 \<Rightarrow> ('o, 'z) lw \<Rightarrow> ('o, 'z) lw" where
  "shift_epochs base w =
     w\<lparr>kq_inflight := map (\<lambda>(t, e). (t, e - base)) (kq_inflight w),
       udatas := (\<lambda>u. if u \<in> set (ud_deferred_free w)
                      then map_option (\<lambda>ud. ud\<lparr>ud_boundary_epoch := ud_boundary_epoch ud - base\<rparr>) (udatas w u)
                      else udatas w u),
       kq_next_epoch := kq_next_epoch w - base\<rparr>"

definition linux_kqueue_epoch_rebase :: "('o, 'z) lw \<Rightarrow> ('o, 'z) lw" where
  "linux_kqueue_epoch_rebase w =
     shift_epochs (case kq_inflight w of [] \<Rightarrow> kq_next_epoch w | (_, e) # _ \<Rightarrow> e - 1) w"

definition linux_kevent_enter :: "nat \<Rightarrow> ('o, 'z) lw \<Rightarrow> ('o, 'z) lw" where
  "linux_kevent_enter t w =
     (let w = (if kq_next_epoch w = -1 then linux_kqueue_epoch_rebase w else w);
          e = kq_next_epoch w + 1
      in w\<lparr>kq_next_epoch := e, kq_inflight := kq_inflight w @ [(t, e)]\<rparr>)"

definition linux_kevent_exit :: "nat \<Rightarrow> ('o, 'z) lw \<Rightarrow> ('o, 'z) lw option" where
  "linux_kevent_exit t w =
     (if t \<in> fst ` set (kq_inflight w)
      then linux_kqueue_sweep_deferred (w\<lparr>kq_inflight := filter (\<lambda>p. fst p \<noteq> t) (kq_inflight w)\<rparr>)
      else None)"

subsection \<open>Interleaved callers\<close>

text \<open>A state is a world and the buffer of each thread.  A thread waits between its
  enter and its exit; the kernel reports only registered udatas, which are live
  and not stale.  Any thread inside kevent() may allocate a udata or queue one
  for reclamation.  \<open>epoch_room\<close> excludes one state: the counter at its maximum
  while the very first epoch is still inside.\<close>

definition epoch_room :: "('o, 'z) lw \<Rightarrow> bool" where
  "epoch_room w \<longleftrightarrow> \<not> (kq_next_epoch w = -1 \<and> oldest_epoch w = Some 1)"

inductive dstep ::
  "('o, 'z) lw \<times> (nat \<Rightarrow> addr set) \<Rightarrow> ('o, 'z) lw \<times> (nat \<Rightarrow> addr set) \<Rightarrow> bool" where
  d_enter: "t \<notin> fst ` set (kq_inflight w) \<Longrightarrow> epoch_room w \<Longrightarrow>
    dstep (w, buf) (linux_kevent_enter t w, buf(t := {}))"
| d_wait: "t \<in> fst ` set (kq_inflight w) \<Longrightarrow> (\<And>u. u \<in> us \<Longrightarrow> \<exists>ud. udatas w u = Some ud \<and> \<not> ud_stale ud) \<Longrightarrow>
    dstep (w, buf) (w, buf(t := us))"
| d_alloc: "t \<in> fst ` set (kq_inflight w) \<Longrightarrow> epoll_udata_alloc r w = (w', u) \<Longrightarrow> dstep (w, buf) (w', buf)"
| d_defer: "t \<in> fst ` set (kq_inflight w) \<Longrightarrow> epoll_udata_defer_free u w = Some w' \<Longrightarrow> dstep (w, buf) (w', buf)"
| d_leave: "linux_kevent_exit t w = Some w' \<Longrightarrow> dstep (w, buf) (w', buf(t := {}))"

inductive_cases dstepE: "dstep (w, buf) s"

subsection \<open>The invariant\<close>

text \<open>Epochs grow along the queue of callers and the counter bounds them; the
  queued udatas are exactly the stale ones, in the order of their boundaries, and
  no boundary is below the oldest caller's epoch.\<close>

definition callers_inv :: "('o, 'z) lw \<Rightarrow> bool" where
  "callers_inv w \<longleftrightarrow>
     distinct (map fst (kq_inflight w)) \<and>
     sorted_wrt (<) (map snd (kq_inflight w)) \<and>
     (\<forall>e \<in> snd ` set (kq_inflight w). 0 < e \<and> e \<le> kq_next_epoch w)"

definition boundary :: "('o, 'z) lw \<Rightarrow> addr \<Rightarrow> u64" where
  "boundary w u = (case udatas w u of None \<Rightarrow> 0 | Some ud \<Rightarrow> ud_boundary_epoch ud)"

lemma boundary_upd [simp]:
  "boundary (w\<lparr>kq_next_epoch := e\<rparr>) = boundary w"
  "boundary (w\<lparr>kq_inflight := l\<rparr>) = boundary w"
  by (simp_all add: boundary_def fun_eq_iff)

definition queue_inv :: "('o, 'z) lw \<Rightarrow> bool" where
  "queue_inv w \<longleftrightarrow>
     distinct (ud_deferred_free w) \<and>
     (\<forall>u ud. udatas w u = Some ud \<longrightarrow> u < next_addr w \<and> (ud_stale ud \<longleftrightarrow> u \<in> set (ud_deferred_free w))) \<and>
     (\<forall>u \<in> set (ud_deferred_free w). udatas w u \<noteq> None \<and> boundary w u \<le> kq_next_epoch w) \<and>
     sorted (map (boundary w) (ud_deferred_free w)) \<and>
     (case oldest_epoch w of
        None \<Rightarrow> ud_deferred_free w = []
      | Some e \<Rightarrow> \<forall>u \<in> set (ud_deferred_free w). e \<le> boundary w u)"

text \<open>A buffer belongs to a caller; each pointer in it is live, and a stale one was
  queued after the caller entered.\<close>

definition buffers_inv :: "('o, 'z) lw \<Rightarrow> (nat \<Rightarrow> addr set) \<Rightarrow> bool" where
  "buffers_inv w buf \<longleftrightarrow>
     (\<forall>t. buf t \<noteq> {} \<longrightarrow> t \<in> fst ` set (kq_inflight w)) \<and>
     (\<forall>(t, e) \<in> set (kq_inflight w). \<forall>u \<in> buf t.
        udatas w u \<noteq> None \<and> (u \<in> set (ud_deferred_free w) \<longrightarrow> e \<le> boundary w u))"

definition dinv :: "('o, 'z) lw \<times> (nat \<Rightarrow> addr set) \<Rightarrow> bool" where
  "dinv s \<longleftrightarrow> callers_inv (fst s) \<and> queue_inv (fst s) \<and> buffers_inv (fst s) (snd s)"

subsection \<open>Word arithmetic of epochs\<close>

lemma epoch_sub_mono:
  fixes a b x :: "'a::len word"
  assumes "x \<le> a" "x \<le> b"
  shows "a - x \<le> b - x \<longleftrightarrow> a \<le> b" "a - x < b - x \<longleftrightarrow> a < b"
  using assms by (auto simp: word_le_nat_alt word_less_nat_alt unat_sub)

lemma epoch_succ:
  fixes n :: "'a::len word"
  assumes "n \<noteq> -1"
  shows "n < n + 1" "e \<le> n \<Longrightarrow> e < n + 1" "e \<le> n \<Longrightarrow> e \<le> n + 1" "0 < n + 1"
proof -
  have "n + 1 \<noteq> 0" using assms by (simp add: eq_neg_iff_add_eq_0)
  then have "unat (n + 1) = Suc (unat n)" using unatSuc [of n] by (simp add: add.commute)
  then show "n < n + 1" "e \<le> n \<Longrightarrow> e < n + 1" "e \<le> n \<Longrightarrow> e \<le> n + 1" "0 < n + 1"
    by (auto simp: word_le_nat_alt word_less_nat_alt)
qed

subsection \<open>Preservation\<close>

lemma oldest_le:
  assumes "callers_inv w" "oldest_epoch w = Some e" "(t, f) \<in> set (kq_inflight w)"
  shows "e \<le> f"
proof (cases "kq_inflight w")
  case (Cons p ps)
  then obtain t0 where p: "p = (t0, e)" using assms(2) by (cases p) (auto simp: oldest_epoch_def)
  have "\<forall>g \<in> snd ` set ps. e < g" using assms(1) Cons p by (auto simp: callers_inv_def)
  then show ?thesis using assms(3) Cons p by force
qed (use assms in \<open>simp add: oldest_epoch_def\<close>)

lemma sorted_shift:
  assumes "sorted_wrt (<) es" "\<forall>e \<in> set es. (b :: u64) \<le> e"
  shows "sorted_wrt (<) (map (\<lambda>e. e - b) es)"
  using assms by (induction es) (auto simp: epoch_sub_mono)

lemma sorted_shift_le:
  assumes "sorted es" "\<forall>e \<in> set es. (b :: u64) \<le> e"
  shows "sorted (map (\<lambda>e. e - b) es)"
  using assms by (induction es) (auto simp: epoch_sub_mono)

text \<open>Subtracting an amount below every epoch in use keeps the invariants.\<close>

lemma shift_facts:
  "kq_inflight (shift_epochs b w) = map (\<lambda>(t, e). (t, e - b)) (kq_inflight w)"
  "kq_next_epoch (shift_epochs b w) = kq_next_epoch w - b"
  "ud_deferred_free (shift_epochs b w) = ud_deferred_free w"
  "next_addr (shift_epochs b w) = next_addr w"
  "udatas (shift_epochs b w) u = None \<longleftrightarrow> udatas w u = None"
  "oldest_epoch (shift_epochs b w) = map_option (\<lambda>e. e - b) (oldest_epoch w)"
  "map snd (kq_inflight (shift_epochs b w)) = map (\<lambda>e. e - b) (map snd (kq_inflight w))"
  "map fst (kq_inflight (shift_epochs b w)) = map fst (kq_inflight w)"
  by (auto simp: shift_epochs_def oldest_epoch_def split: list.splits)

lemma shift_boundary:
  "u \<in> set (ud_deferred_free w) \<Longrightarrow> udatas w u \<noteq> None \<Longrightarrow> boundary (shift_epochs b w) u = boundary w u - b"
  by (auto simp: shift_epochs_def boundary_def split: option.splits)

lemma shift_callers:
  assumes c: "callers_inv w" and b: "\<forall>e \<in> snd ` set (kq_inflight w). b < e"
  shows "callers_inv (shift_epochs b w)"
proof -
  have "0 < e - b \<and> e - b \<le> kq_next_epoch w - b" if e: "e \<in> snd ` set (kq_inflight w)" for e
  proof -
    have "b < e" "e \<le> kq_next_epoch w" using b c e by (auto simp: callers_inv_def)
    then have "b \<le> e" "b \<le> kq_next_epoch w" by auto
    then show ?thesis
      using epoch_sub_mono(2) [of b b e] epoch_sub_mono(1) [of b e] \<open>b < e\<close> \<open>e \<le> kq_next_epoch w\<close> by simp
  qed
  moreover have "snd ` set (kq_inflight (shift_epochs b w)) = (\<lambda>e. e - b) ` snd ` set (kq_inflight w)"
    by (force simp: shift_facts)
  moreover have "sorted_wrt (<) (map snd (kq_inflight (shift_epochs b w)))"
    unfolding shift_facts(7) using c b by (intro sorted_shift) (auto simp: callers_inv_def less_imp_le)
  ultimately show ?thesis unfolding callers_inv_def shift_facts(2,8) using c by (simp add: callers_inv_def)
qed

lemma shift_queue:
  assumes q: "queue_inv w" and b: "\<forall>e \<in> snd ` set (kq_inflight w). b < e"
    and u: "\<forall>u \<in> set (ud_deferred_free w). b \<le> boundary w u"
  shows "queue_inv (shift_epochs b w)"
proof -
  have live: "udatas w u \<noteq> None" if "u \<in> set (ud_deferred_free w)" for u
    using q that by (simp add: queue_inv_def)
  have bd: "map (boundary (shift_epochs b w)) (ud_deferred_free w) = map (\<lambda>e. e - b) (map (boundary w) (ud_deferred_free w))"
    using shift_boundary [OF _ live] by (simp add: comp_def)
  have stale: "ud_stale ud \<longleftrightarrow> u \<in> set (ud_deferred_free w)" "u < next_addr w" if "udatas (shift_epochs b w) u = Some ud" for u ud
    using q that by (auto simp: shift_epochs_def queue_inv_def split: if_splits)
  have le: "boundary w u - b \<le> kq_next_epoch w - b" if "u \<in> set (ud_deferred_free w)" for u
  proof -
    have "boundary w u \<le> kq_next_epoch w" "b \<le> boundary w u" using q u that by (auto simp: queue_inv_def)
    then show ?thesis by (simp add: epoch_sub_mono order_trans)
  qed
  have srt: "sorted (map (boundary (shift_epochs b w)) (ud_deferred_free w))"
    unfolding bd by (rule sorted_shift_le) (use q u in \<open>auto simp: queue_inv_def\<close>)
  have old: "e - b \<le> boundary w u - b" if "oldest_epoch w = Some e" "u \<in> set (ud_deferred_free w)" for e u
  proof -
    have "e \<in> snd ` set (kq_inflight w)" using that(1) by (auto simp: oldest_epoch_def split: list.splits)
    then have "b \<le> e" "e \<le> boundary w u" using b q that by (auto simp: queue_inv_def less_imp_le)
    then show ?thesis using u that(2) by (simp add: epoch_sub_mono)
  qed
  show ?thesis
    using q stale le srt old shift_boundary [OF _ live]
    by (auto simp: queue_inv_def shift_facts split: option.splits)
qed

lemma shift_buffers:
  assumes q: "queue_inv w" and bf: "buffers_inv w buf" and b: "\<forall>e \<in> snd ` set (kq_inflight w). b < e"
    and u: "\<forall>u \<in> set (ud_deferred_free w). b \<le> boundary w u"
  shows "buffers_inv (shift_epochs b w) buf"
proof -
  have "fst ` set (kq_inflight (shift_epochs b w)) = fst ` set (kq_inflight w)"
    using arg_cong [OF shift_facts(8), of set b w] by simp
  moreover have "e - b \<le> boundary (shift_epochs b w) v"
    if "(t, e) \<in> set (kq_inflight w)" "v \<in> buf t" "v \<in> set (ud_deferred_free w)" for t e v
  proof -
    have "b \<le> e" using b that(1) by (force intro: less_imp_le)
    moreover have "e \<le> boundary w v" "udatas w v \<noteq> None" using bf that by (auto simp: buffers_inv_def)
    ultimately show ?thesis using u that(3) by (simp add: shift_boundary epoch_sub_mono)
  qed
  ultimately show ?thesis using bf by (auto simp: buffers_inv_def shift_facts)
qed

text \<open>Rebasing moves every epoch by the same amount and leaves room for one more.\<close>

lemma rebase_inv:
  assumes c: "callers_inv w" and q: "queue_inv w" and b: "buffers_inv w buf" and r: "epoch_room w"
    and n: "kq_next_epoch w = -1"
  shows "callers_inv (linux_kqueue_epoch_rebase w)" "queue_inv (linux_kqueue_epoch_rebase w)"
    "buffers_inv (linux_kqueue_epoch_rebase w) buf" "kq_next_epoch (linux_kqueue_epoch_rebase w) \<noteq> -1"
    "fst ` set (kq_inflight (linux_kqueue_epoch_rebase w)) = fst ` set (kq_inflight w)"
proof -
  define base where "base = (case kq_inflight w of [] \<Rightarrow> kq_next_epoch w | (_, e) # _ \<Rightarrow> e - 1)"
  have rb: "linux_kqueue_epoch_rebase w = shift_epochs base w"
    by (simp add: linux_kqueue_epoch_rebase_def base_def)
  have "(\<forall>e \<in> snd ` set (kq_inflight w). base < e) \<and> (\<forall>u \<in> set (ud_deferred_free w). base \<le> boundary w u) \<and> base \<noteq> 0"
  proof (cases "kq_inflight w")
    case Nil
    then show ?thesis using q n by (simp add: base_def queue_inv_def oldest_epoch_def)
  next
    case (Cons p ps)
    obtain t0 e0 where p: "p = (t0, e0)" by (cases p)
    have old: "oldest_epoch w = Some e0" using Cons p by (simp add: oldest_epoch_def)
    have e0: "e0 \<noteq> 0" "e0 \<noteq> 1" using c r n old Cons p by (auto simp: callers_inv_def epoch_room_def)
    have bb: "base < e0" "base \<noteq> 0"
      using e0 epoch_succ(1) [of "e0 - 1"] Cons p by (auto simp: base_def)
    have "base < e" if "(t, e) \<in> set (kq_inflight w)" for t e
      using less_le_trans [OF bb(1) oldest_le [OF c old that]] .
    moreover have "base \<le> boundary w u" if "u \<in> set (ud_deferred_free w)" for u
    proof -
      have "e0 \<le> boundary w u" using q old that by (simp add: queue_inv_def)
      then show ?thesis using bb(1) by simp
    qed
    ultimately show ?thesis using bb(2) by auto
  qed
  then have base: "\<forall>e \<in> snd ` set (kq_inflight w). base < e" "\<forall>u \<in> set (ud_deferred_free w). base \<le> boundary w u" "base \<noteq> 0"
    by blast+
  show "callers_inv (linux_kqueue_epoch_rebase w)" unfolding rb by (rule shift_callers [OF c base(1)])
  show "queue_inv (linux_kqueue_epoch_rebase w)" unfolding rb by (rule shift_queue [OF q base(1,2)])
  show "buffers_inv (linux_kqueue_epoch_rebase w) buf" unfolding rb by (rule shift_buffers [OF q b base(1,2)])
  show "kq_next_epoch (linux_kqueue_epoch_rebase w) \<noteq> -1" unfolding rb shift_facts using n base(3) by simp
  show "fst ` set (kq_inflight (linux_kqueue_epoch_rebase w)) = fst ` set (kq_inflight w)"
    unfolding rb using arg_cong [OF shift_facts(8), of set base w] by simp
qed

lemma enter_inv:
  assumes "dinv (w, buf)" and r: "epoch_room w" and t: "t \<notin> fst ` set (kq_inflight w)"
  shows "dinv (linux_kevent_enter t w, buf(t := {}))"
proof -
  define w1 where "w1 = (if kq_next_epoch w = -1 then linux_kqueue_epoch_rebase w else w)"
  have i: "callers_inv w" "queue_inv w" "buffers_inv w buf" using assms(1) by (simp_all add: dinv_def)
  have w1: "callers_inv w1" "queue_inv w1" "buffers_inv w1 buf" "kq_next_epoch w1 \<noteq> -1"
      "t \<notin> fst ` set (kq_inflight w1)"
    using i rebase_inv [OF i r] t by (auto simp: w1_def)
  let ?e = "kq_next_epoch w1 + 1"
  let ?w = "w1\<lparr>kq_next_epoch := ?e, kq_inflight := kq_inflight w1 @ [(t, ?e)]\<rparr>"
  have "callers_inv ?w"
    using w1 epoch_succ [OF w1(4)] by (auto simp: callers_inv_def sorted_wrt_append)
  moreover have "queue_inv ?w"
    using w1(2) epoch_succ(3) [OF w1(4)]
    by (auto simp: queue_inv_def oldest_epoch_def split: list.splits)
  moreover have "buffers_inv ?w (buf(t := {}))"
    using w1(3,5) by (auto simp: buffers_inv_def split: if_splits)
  ultimately show ?thesis by (simp add: dinv_def linux_kevent_enter_def w1_def Let_def)
qed

lemma wait_inv:
  assumes "dinv (w, buf)" and t: "t \<in> fst ` set (kq_inflight w)"
    and us: "\<And>u. u \<in> us \<Longrightarrow> \<exists>ud. udatas w u = Some ud \<and> \<not> ud_stale ud"
  shows "dinv (w, buf(t := us))"
proof -
  have "u \<notin> set (ud_deferred_free w) \<and> udatas w u \<noteq> None" if "u \<in> us" for u
    using us [OF that] assms(1) by (auto simp: dinv_def queue_inv_def)
  then show ?thesis using assms(1) t by (auto simp: dinv_def buffers_inv_def split: if_splits)
qed

lemma alloc_inv:
  assumes "dinv (w, buf)" "epoll_udata_alloc r w = (w', u)"
  shows "dinv (w', buf)"
proof -
  have q: "queue_inv w" using assms(1) by (simp add: dinv_def)
  then have none: "udatas w (next_addr w) = None"
    by (cases "udatas w (next_addr w)") (auto simp: queue_inv_def)
  then have fresh: "udatas w (next_addr w) = None" "next_addr w \<notin> set (ud_deferred_free w)"
    using q by (auto simp: queue_inv_def)
  have w': "w' = w\<lparr>next_addr := Suc (next_addr w)\<rparr> \<or>
      w' = w\<lparr>next_addr := Suc (next_addr w), udatas := (udatas w)(next_addr w \<mapsto>
        \<lparr>ud_ref = r, ud_stale = False, ud_boundary_epoch = 0\<rparr>)\<rparr>"
    using assms(2) by (auto simp: epoll_udata_alloc_def calloc_def split: if_splits)
  have bd: "boundary w' v = boundary w v" if "v \<in> set (ud_deferred_free w)" for v
    using w' that fresh by (auto simp: boundary_def)
  have f: "kq_inflight w' = kq_inflight w" "kq_next_epoch w' = kq_next_epoch w" "ud_deferred_free w' = ud_deferred_free w"
      "oldest_epoch w' = oldest_epoch w" "\<And>v. udatas w v \<noteq> None \<Longrightarrow> udatas w' v \<noteq> None"
    using w' fresh by (auto simp: oldest_epoch_def)
  have eq: "map (boundary w') (ud_deferred_free w) = map (boundary w) (ud_deferred_free w)" using bd by simp
  have "sorted (map (boundary w') (ud_deferred_free w))" unfolding eq using q by (simp add: queue_inv_def)
  moreover have "\<forall>v ud. udatas w' v = Some ud \<longrightarrow> v < next_addr w' \<and> (ud_stale ud \<longleftrightarrow> v \<in> set (ud_deferred_free w))"
    using w' fresh q by (auto simp: queue_inv_def less_Suc_eq split: if_splits)
  ultimately have "queue_inv w'"
    using assms(1) bd f by (auto simp: dinv_def queue_inv_def split: option.splits)
  moreover have "buffers_inv w' buf"
    using assms(1) bd f by (fastforce simp: dinv_def buffers_inv_def)
  moreover have "callers_inv w'" using assms(1) f by (simp add: dinv_def callers_inv_def)
  ultimately show ?thesis by (simp add: dinv_def)
qed

lemma defer_inv:
  assumes d: "dinv (w, buf)" and t: "t \<in> fst ` set (kq_inflight w)" and u: "epoll_udata_defer_free u w = Some w'"
  shows "dinv (w', buf)"
proof (cases u)
  case None
  then show ?thesis using d u by (simp add: epoll_udata_defer_free_def)
next
  case (Some v)
  obtain ud where ud: "udatas w v = Some ud" "\<not> ud_stale ud"
    and w': "w' = w\<lparr>udatas := (udatas w)(v \<mapsto> ud\<lparr>ud_stale := True, ud_boundary_epoch := kq_next_epoch w\<rparr>),
        ud_deferred_free := ud_deferred_free w @ [v]\<rparr>"
    using u Some by (auto simp: epoll_udata_defer_free_def bind_eq_Some_conv split: if_splits)
  have v: "v \<notin> set (ud_deferred_free w)" using d ud by (auto simp: dinv_def queue_inv_def)
  have bd: "boundary w' x = (if x = v then kq_next_epoch w else boundary w x)" for x
    by (simp add: w' boundary_def)
  have bds: "map (boundary w') (ud_deferred_free w') = map (boundary w) (ud_deferred_free w) @ [kq_next_epoch w]"
    using v bd by (auto simp: w')
  have e: "e \<le> kq_next_epoch w" if "(s, e) \<in> set (kq_inflight w)" for s e
    using d that by (force simp: dinv_def callers_inv_def)
  have old: "oldest_epoch w' = oldest_epoch w" "\<And>e. oldest_epoch w = Some e \<Longrightarrow> e \<le> kq_next_epoch w"
      "oldest_epoch w \<noteq> None"
    using e t by (auto simp: w' oldest_epoch_def split: list.splits)
  have q: "queue_inv w" using d by (simp add: dinv_def)
  have "queue_inv w'"
    unfolding queue_inv_def
  proof (intro conjI)
    show "sorted (map (boundary w') (ud_deferred_free w'))"
      unfolding bds using q by (auto simp: sorted_append queue_inv_def)
    show "case oldest_epoch w' of None \<Rightarrow> ud_deferred_free w' = []
        | Some e \<Rightarrow> \<forall>u \<in> set (ud_deferred_free w'). e \<le> boundary w' u"
      using q old by (auto simp: w' queue_inv_def bd [unfolded w'])
  qed (use q ud v in \<open>auto simp: w' queue_inv_def bd [unfolded w']\<close>)
  moreover have "buffers_inv w' buf"
    using d bd v e ud unfolding dinv_def buffers_inv_def by (fastforce simp: w')
  moreover have "callers_inv w'" using d by (simp add: dinv_def callers_inv_def w')
  ultimately show ?thesis by (simp add: dinv_def)
qed

text \<open>The sweep frees the longest prefix of the queue that is below the oldest caller.\<close>

definition sweepable :: "u64 option \<Rightarrow> (addr \<Rightarrow> epoll_udata option) \<Rightarrow> addr \<Rightarrow> bool" where
  "sweepable oldest uds u \<longleftrightarrow>
     (case oldest of None \<Rightarrow> True | Some e \<Rightarrow> ud_boundary_epoch (the (uds u)) < e)"

lemma sweep_loop_spec:
  assumes "distinct us" "\<forall>u \<in> set us. uds u \<noteq> None"
  shows "sweep_loop oldest us uds =
    Some (dropWhile (sweepable oldest uds) us,
          \<lambda>u. if u \<in> set (takeWhile (sweepable oldest uds) us) then None else uds u)"
  using assms
proof (induction us arbitrary: uds)
  case (Cons u us)
  obtain ud where "uds u = Some ud" using Cons.prems by auto
  then have step: "sweep_loop oldest (u # us) uds =
      (if sweepable oldest uds u then sweep_loop oldest us (uds(u := None)) else Some (u # us, uds))"
    by (simp add: sweepable_def split: option.splits)
  show ?case
  proof (cases "sweepable oldest uds u")
    case True
    have eq: "sweepable oldest (uds(u := None)) v = sweepable oldest uds v" if "v \<in> set us" for v
      using that Cons.prems(1) by (auto simp: sweepable_def split: option.splits)
    have "takeWhile (sweepable oldest (uds(u := None))) us = takeWhile (sweepable oldest uds) us"
      "dropWhile (sweepable oldest (uds(u := None))) us = dropWhile (sweepable oldest uds) us"
      using eq by (auto intro: takeWhile_cong dropWhile_cong)
    moreover have "sweep_loop oldest us (uds(u := None)) =
        Some (dropWhile (sweepable oldest (uds(u := None))) us,
          \<lambda>v. if v \<in> set (takeWhile (sweepable oldest (uds(u := None))) us) then None else (uds(u := None)) v)"
      using Cons.prems by (intro Cons.IH) auto
    ultimately show ?thesis unfolding step using True by (auto simp: fun_eq_iff)
  next
    case False
    then show ?thesis unfolding step by simp
  qed
qed simp

lemma sweep_spec:
  assumes "queue_inv w"
  shows "linux_kqueue_sweep_deferred (w\<lparr>kq_inflight := l\<rparr>) =
    (let P = sweepable (oldest_epoch (w\<lparr>kq_inflight := l\<rparr>)) (udatas w) in
     Some (w\<lparr>kq_inflight := l, ud_deferred_free := dropWhile P (ud_deferred_free w),
       udatas := (\<lambda>u. if u \<in> set (takeWhile P (ud_deferred_free w)) then None else udatas w u)\<rparr>))"
proof -
  have "distinct (ud_deferred_free w)" "\<forall>u \<in> set (ud_deferred_free w). udatas w u \<noteq> None"
    using assms by (auto simp: queue_inv_def)
  from sweep_loop_spec [OF this] show ?thesis by (simp add: linux_kqueue_sweep_deferred_def Let_def)
qed

lemma sweepable_boundary:
  "udatas w u \<noteq> None \<Longrightarrow> sweepable (Some e) (udatas w) u \<longleftrightarrow> boundary w u < e"
  by (auto simp: sweepable_def boundary_def)

lemma oldest_mono:
  assumes c: "callers_inv w" and o: "oldest_epoch (w\<lparr>kq_inflight := filter P (kq_inflight w)\<rparr>) = Some e"
    and f: "(t, f) \<in> set (kq_inflight w)" "P (t, f)"
  shows "e \<le> f"
proof -
  have "callers_inv (w\<lparr>kq_inflight := filter P (kq_inflight w)\<rparr>)"
    using c by (auto simp: callers_inv_def distinct_map_filter sorted_wrt_map sorted_wrt_filter)
  from oldest_le [OF this o] f show ?thesis by simp
qed

lemma dropWhile_sorted_ge:
  fixes f :: "'a \<Rightarrow> 'b::linorder"
  assumes "sorted (map f xs)" "u \<in> set (dropWhile (\<lambda>x. f x < e) xs)"
  shows "e \<le> f u"
  using assms by (induction xs) (auto split: if_splits)

lemma sweepable_Some_conv:
  assumes "queue_inv w"
  shows "dropWhile (sweepable (Some e) (udatas w)) (ud_deferred_free w) = dropWhile (\<lambda>u. boundary w u < e) (ud_deferred_free w)"
proof (rule dropWhile_cong)
  fix u
  assume "u \<in> set (ud_deferred_free w)"
  then have "udatas w u \<noteq> None" using assms by (auto simp: queue_inv_def)
  then show "sweepable (Some e) (udatas w) u = (boundary w u < e)" by (rule sweepable_boundary)
qed simp

text \<open>What remains of the queue when the callers are restricted to \<open>l\<close>.\<close>

lemma sweep_queue:
  fixes l w
  defines "oe \<equiv> oldest_epoch (w\<lparr>kq_inflight := l\<rparr>)"
  defines "P \<equiv> sweepable oe (udatas w)"
  defines "w' \<equiv> w\<lparr>kq_inflight := l, ud_deferred_free := dropWhile P (ud_deferred_free w),
      udatas := (\<lambda>u. if u \<in> set (takeWhile P (ud_deferred_free w)) then None else udatas w u)\<rparr>"
  assumes q: "queue_inv w"
  shows "queue_inv w'"
    and "u \<in> set (dropWhile P (ud_deferred_free w)) \<Longrightarrow> boundary w' u = boundary w u"
    and "u \<notin> set (takeWhile P (ud_deferred_free w)) \<Longrightarrow> udatas w' u = udatas w u"
proof -
  have dis: "set (takeWhile P (ud_deferred_free w)) \<inter> set (dropWhile P (ud_deferred_free w)) = {}"
    using q distinct_append [of "takeWhile P (ud_deferred_free w)" "dropWhile P (ud_deferred_free w)"]
    by (simp add: queue_inv_def)
  have un: "set (takeWhile P (ud_deferred_free w)) \<union> set (dropWhile P (ud_deferred_free w)) = set (ud_deferred_free w)"
    by (metis set_append takeWhile_dropWhile_id)
  show bd: "boundary w' u = boundary w u" if "u \<in> set (dropWhile P (ud_deferred_free w))" for u
    using that dis by (auto simp: w'_def boundary_def)
  show "udatas w' u = udatas w u" if "u \<notin> set (takeWhile P (ud_deferred_free w))" for u
    using that by (simp add: w'_def)
  have eq: "map (boundary w') (dropWhile P (ud_deferred_free w)) = map (boundary w) (dropWhile P (ud_deferred_free w))"
    using bd by simp
  have "sorted (map (boundary w') (dropWhile P (ud_deferred_free w)))"
    unfolding eq using q by (simp add: queue_inv_def sorted_map sorted_wrt_dropWhile)
  moreover have "case oldest_epoch w' of None \<Rightarrow> dropWhile P (ud_deferred_free w) = []
      | Some e \<Rightarrow> \<forall>u \<in> set (dropWhile P (ud_deferred_free w)). e \<le> boundary w' u"
  proof (cases oe)
    case None
    then show ?thesis by (auto simp: P_def sweepable_def w'_def oe_def oldest_epoch_def split: list.splits)
  next
    case (Some e)
    then have "oldest_epoch w' = Some e" by (simp add: w'_def oe_def oldest_epoch_def)
    moreover have "e \<le> boundary w' u" if u: "u \<in> set (dropWhile P (ud_deferred_free w))" for u
      using u dropWhile_sorted_ge [of "boundary w" "ud_deferred_free w" u e] sweepable_Some_conv [OF q, of e] q Some bd [OF u]
      by (simp add: P_def queue_inv_def)
    ultimately show ?thesis by simp
  qed
  moreover have "\<forall>u ud. udatas w' u = Some ud \<longrightarrow> u < next_addr w' \<and> (ud_stale ud \<longleftrightarrow> u \<in> set (dropWhile P (ud_deferred_free w)))"
    using q un dis by (auto simp: w'_def queue_inv_def split: if_splits)
  moreover have "\<forall>u \<in> set (dropWhile P (ud_deferred_free w)). udatas w' u \<noteq> None \<and> boundary w' u \<le> kq_next_epoch w'"
    using q un dis bd by (auto simp: w'_def queue_inv_def)
  moreover have df: "ud_deferred_free w' = dropWhile P (ud_deferred_free w)" by (simp add: w'_def)
  moreover have "distinct (dropWhile P (ud_deferred_free w))" using q by (simp add: queue_inv_def distinct_dropWhile)
  ultimately show "queue_inv w'" unfolding queue_inv_def df by blast
qed

lemma leave_inv:
  assumes d: "dinv (w, buf)" and l: "linux_kevent_exit t w = Some w'"
  shows "dinv (w', buf(t := {}))"
proof -
  let ?l = "filter (\<lambda>p. fst p \<noteq> t) (kq_inflight w)"
  let ?o = "oldest_epoch (w\<lparr>kq_inflight := ?l\<rparr>)"
  let ?P = "sweepable ?o (udatas w)"
  have i: "callers_inv w" "queue_inv w" "buffers_inv w buf" using d by (simp_all add: dinv_def)
  have w': "w' = w\<lparr>kq_inflight := ?l, ud_deferred_free := dropWhile ?P (ud_deferred_free w),
      udatas := (\<lambda>u. if u \<in> set (takeWhile ?P (ud_deferred_free w)) then None else udatas w u)\<rparr>"
    using l sweep_spec [OF i(2)] by (auto simp: linux_kevent_exit_def Let_def split: if_splits)
  note sq = sweep_queue [OF i(2), where l = ?l, folded w']
  have "callers_inv w'"
    using i(1) by (auto simp: w' callers_inv_def distinct_map_filter sorted_wrt_map sorted_wrt_filter)
  moreover have "buffers_inv w' (buf(t := {}))"
  proof -
    have "udatas w' u \<noteq> None \<and> (u \<in> set (ud_deferred_free w') \<longrightarrow> e \<le> boundary w' u)"
      if s: "(s, e) \<in> set ?l" "u \<in> buf s" for s e u
    proof -
      have u: "udatas w u \<noteq> None" "u \<in> set (ud_deferred_free w) \<longrightarrow> e \<le> boundary w u"
        using i(3) s by (auto simp: buffers_inv_def)
      obtain e1 where e1: "?o = Some e1" using s by (cases ?l) (auto simp: oldest_epoch_def)
      have "e1 \<le> e" using oldest_mono [OF i(1) e1, of s e] s by simp
      have "u \<notin> set (takeWhile ?P (ud_deferred_free w))"
      proof
        assume "u \<in> set (takeWhile ?P (ud_deferred_free w))"
        then have "?P u" "u \<in> set (ud_deferred_free w)" by (auto dest: set_takeWhileD)
        then have "boundary w u < e1" using e1 sweepable_boundary [OF u(1), of e1] by simp
        then show False using u(2) \<open>u \<in> set (ud_deferred_free w)\<close> \<open>e1 \<le> e\<close> by simp
      qed
      then show ?thesis using u sq(2,3) set_dropWhileD by (fastforce simp: w')
    qed
    then show ?thesis using i(3) by (auto simp: buffers_inv_def w' split: if_splits)
  qed
  ultimately show ?thesis using sq(1) by (simp add: dinv_def)
qed

lemma dstep_inv: "dstep s s' \<Longrightarrow> dinv s \<Longrightarrow> dinv s'"
  by (induction rule: dstep.induct) (auto intro: enter_inv wait_inv alloc_inv defer_inv leave_inv)

lemma dsteps_inv: "dstep\<^sup>*\<^sup>* s s' \<Longrightarrow> dinv s \<Longrightarrow> dinv s'"
  by (induction rule: rtranclp_induct) (auto intro: dstep_inv)

text \<open>The state of a new kqueue.\<close>

definition quiescent :: "('o, 'z) lw \<Rightarrow> bool" where
  "quiescent w \<longleftrightarrow> kq_inflight w = [] \<and> ud_deferred_free w = [] \<and>
     (\<forall>u ud. udatas w u = Some ud \<longrightarrow> u < next_addr w \<and> \<not> ud_stale ud)"

lemma quiescent_inv: "quiescent w \<Longrightarrow> dinv (w, \<lambda>_. {})"
  by (simp add: quiescent_def dinv_def callers_inv_def queue_inv_def buffers_inv_def oldest_epoch_def)

subsection \<open>Properties\<close>


text \<open>C17: leaving kevent() always succeeds, and reclamation is complete: the sweep
  never touches freed memory, it keeps exactly the queued udatas whose boundary is
  not below the oldest remaining caller, and when the last caller leaves no stale
  udata remains allocated.\<close>

theorem exit_reclaims:
  assumes "quiescent w0" "dstep\<^sup>*\<^sup>* (w0, \<lambda>_. {}) (w, buf)" "t \<in> fst ` set (kq_inflight w)"
  shows "\<exists>w'. linux_kevent_exit t w = Some w' \<and>
    (\<forall>u \<in> set (ud_deferred_free w). udatas w' u = None \<longleftrightarrow>
       (case oldest_epoch w' of None \<Rightarrow> True | Some e \<Rightarrow> boundary w u < e)) \<and>
    (kq_inflight w' = [] \<longrightarrow> (\<forall>u ud. udatas w' u = Some ud \<longrightarrow> \<not> ud_stale ud))"
proof -
  have d: "dinv (w, buf)" using dsteps_inv [OF assms(2) quiescent_inv [OF assms(1)]] .
  then have q: "queue_inv w" by (simp add: dinv_def)
  obtain w' where w': "linux_kevent_exit t w = Some w'"
    using sweep_spec [OF q] assms(3) by (auto simp: linux_kevent_exit_def Let_def)
  let ?l = "filter (\<lambda>p. fst p \<noteq> t) (kq_inflight w)"
  let ?P = "sweepable (oldest_epoch (w\<lparr>kq_inflight := ?l\<rparr>)) (udatas w)"
  have eq: "w' = w\<lparr>kq_inflight := ?l, ud_deferred_free := dropWhile ?P (ud_deferred_free w),
      udatas := (\<lambda>u. if u \<in> set (takeWhile ?P (ud_deferred_free w)) then None else udatas w u)\<rparr>"
    using w' sweep_spec [OF q] by (auto simp: linux_kevent_exit_def Let_def split: if_splits)
  note sq = sweep_queue [OF q, where l = ?l, folded eq]
  have old: "oldest_epoch (w\<lparr>kq_inflight := ?l\<rparr>) = oldest_epoch w'" by (simp add: eq oldest_epoch_def)
  have "udatas w' u = None \<longleftrightarrow> (case oldest_epoch w' of None \<Rightarrow> True | Some e \<Rightarrow> boundary w u < e)"
    if u: "u \<in> set (ud_deferred_free w)" for u
  proof (cases "u \<in> set (takeWhile ?P (ud_deferred_free w))")
    case True
    then have "?P u" by (auto dest: set_takeWhileD)
    moreover have "udatas w u \<noteq> None" using q u by (auto simp: queue_inv_def)
    ultimately have "case oldest_epoch w' of None \<Rightarrow> True | Some e \<Rightarrow> boundary w u < e"
      using sweepable_boundary [of w u] old by (cases "oldest_epoch w'") simp_all
    moreover have "udatas w' u = None" unfolding eq using True by simp
    ultimately show ?thesis by simp
  next
    case False
    then have dr: "u \<in> set (dropWhile ?P (ud_deferred_free w))"
      using u by (metis UnE set_append takeWhile_dropWhile_id)
    then have "u \<in> set (ud_deferred_free w')" unfolding eq by simp
    then show ?thesis using sq(1) sq(2) [OF dr] by (auto simp: queue_inv_def split: option.splits)
  qed
  moreover have "\<not> ud_stale ud" if "kq_inflight w' = []" "udatas w' u = Some ud" for u ud
    using sq(1) that by (auto simp: queue_inv_def oldest_epoch_def)
  ultimately show ?thesis using w' by blast
qed

text \<open>C22: the epoch counter can wrap.  With the counter at its maximum and a caller of
  epoch 1 still inside, the rebase subtracts nothing, so the next caller gets epoch
  0, and a udata deleted by that caller is freed when it leaves although the first
  caller, which may hold a pointer to it, is still inside.\<close>

theorem epoch_wrap_frees_early:
  assumes "kq_next_epoch w = -1" "kq_inflight w = [(t0, 1)]" "ud_deferred_free w = []" "t \<noteq> t0"
    and "udatas w u = Some ud" "\<not> ud_stale ud"
  shows "kq_inflight (linux_kevent_enter t w) = [(t0, 1), (t, 0)] \<and>
    (\<exists>w1 w2. epoll_udata_defer_free (Some u) (linux_kevent_enter t w) = Some w1 \<and>
      linux_kevent_exit t w1 = Some w2 \<and> kq_inflight w2 = [(t0, 1)] \<and> udatas w2 u = None)"
proof -
  have r: "linux_kqueue_epoch_rebase w = w"
    using assms by (simp add: linux_kqueue_epoch_rebase_def shift_epochs_def)
  have e: "linux_kevent_enter t w = w\<lparr>kq_next_epoch := 0, kq_inflight := [(t0, 1), (t, 0)]\<rparr>"
    using assms r by (simp add: linux_kevent_enter_def)
  show ?thesis
    using assms(3-) unfolding e
    by (auto simp: epoll_udata_defer_free_def linux_kevent_exit_def linux_kqueue_sweep_deferred_def oldest_epoch_def)
qed

subsection \<open>Witnesses\<close>

text \<open>Caller 1 takes a pointer out of epoll_wait; caller 2 enters, deletes the
  registration and leaves; the udata is stale and still allocated.\<close>

definition trace_world :: "unit lworld" where
  "trace_world = (lworld_empty [] ())\<lparr>next_addr := 6,
     udatas := [5 \<mapsto> \<lparr>ud_ref = EPOLL_UDATA_KNOTE 4, ud_stale = False, ud_boundary_epoch = 0\<rparr>]\<rparr>"

definition trace_end :: "unit lworld" where
  "trace_end = trace_world\<lparr>kq_next_epoch := 2, kq_inflight := [(1, 1)], ud_deferred_free := [5],
     udatas := [5 \<mapsto> \<lparr>ud_ref = EPOLL_UDATA_KNOTE 4, ud_stale = True, ud_boundary_epoch = 2\<rparr>]\<rparr>"

lemma trace_quiescent: "quiescent trace_world"
  by (auto simp: quiescent_def trace_world_def lworld_empty_def)

lemma trace_steps: "dstep\<^sup>*\<^sup>* (trace_world, \<lambda>_. {}) (trace_end, (\<lambda>_. {})(1 := {5}))"
proof -
  let ?w1 = "linux_kevent_enter 1 trace_world"
  let ?w2 = "linux_kevent_enter 2 ?w1"
  let ?w3 = "?w2\<lparr>udatas := (udatas ?w2)(5 \<mapsto> \<lparr>ud_ref = EPOLL_UDATA_KNOTE 4, ud_stale = True, ud_boundary_epoch = 2\<rparr>),
      ud_deferred_free := [5]\<rparr>"
  have "dstep (trace_world, \<lambda>_. {}) (?w1, (\<lambda>_. {})(1 := {}))"
    by (rule d_enter) (simp_all add: trace_world_def lworld_empty_def epoch_room_def oldest_epoch_def)
  moreover have "dstep (?w1, (\<lambda>_. {})(1 := {})) (?w1, (\<lambda>_. {})(1 := {}, 1 := {5}))"
    by (rule d_wait) (auto simp: trace_world_def lworld_empty_def linux_kevent_enter_def)
  moreover have "dstep (?w1, (\<lambda>_. {})(1 := {}, 1 := {5})) (?w2, (\<lambda>_. {})(1 := {}, 1 := {5}, 2 := {}))"
    by (rule d_enter) (simp_all add: trace_world_def lworld_empty_def linux_kevent_enter_def epoch_room_def)
  moreover have "dstep (?w2, (\<lambda>_. {})(1 := {}, 1 := {5}, 2 := {})) (?w3, (\<lambda>_. {})(1 := {}, 1 := {5}, 2 := {}))"
    by (rule d_defer [of 2 _ "Some 5"])
      (auto simp: trace_world_def lworld_empty_def linux_kevent_enter_def epoll_udata_defer_free_def)
  moreover have "dstep (?w3, (\<lambda>_. {})(1 := {}, 1 := {5}, 2 := {})) (trace_end, (\<lambda>_. {})(1 := {}, 1 := {5}, 2 := {}, 2 := {}))"
    by (rule d_leave) (auto simp: trace_world_def trace_end_def lworld_empty_def linux_kevent_enter_def
        linux_kevent_exit_def linux_kqueue_sweep_deferred_def oldest_epoch_def)
  moreover have "(\<lambda>_. {})(1 := {}, 1 := {5}, 2 := {}, 2 := {}) = (\<lambda>_ :: nat. {} :: nat set)(1 := {5})"
    by (auto simp: fun_eq_iff)
  ultimately show ?thesis by (metis (no_types, lifting) converse_rtranclp_into_rtranclp rtranclp.rtrancl_refl)
qed


theorem exit_reclaims_witness:
  "\<exists>w'. linux_kevent_exit 1 trace_end = Some w' \<and> udatas w' 5 = None"
  using exit_reclaims [OF trace_quiescent trace_steps, of 1]
  by (auto simp: trace_end_def trace_world_def lworld_empty_def oldest_epoch_def linux_kevent_exit_def
      linux_kqueue_sweep_deferred_def)

theorem epoch_wrap_frees_early_witness:
  "\<exists>w1 w2. epoll_udata_defer_free (Some 5) (linux_kevent_enter 2 (trace_world\<lparr>kq_next_epoch := -1, kq_inflight := [(1, 1)]\<rparr>)) = Some w1 \<and>
     linux_kevent_exit 2 w1 = Some w2 \<and> kq_inflight w2 = [(1, 1)] \<and> udatas w2 5 = None"
  using epoch_wrap_frees_early [of "trace_world\<lparr>kq_next_epoch := -1, kq_inflight := [(1, 1)]\<rparr>" 1 2 5]
  by (simp add: trace_world_def lworld_empty_def)

end
