(* ===== verification/Linux_Epoll.thy ===== *)
theory Linux_Epoll
  imports Linux_Deferred
begin

text \<open>
  The descriptor multiplexer (\<^verbatim>\<open>linux/platform.c\<close>).  epoll accepts a descriptor
  only once, so the read and the write knote of a descriptor share an fd_state
  object, and \<open>epoll_update\<close> computes the events to register from the knotes that
  are enabled.
\<close>

subsection \<open>Model\<close>

text \<open>The C conversion \<^verbatim>\<open>int fd = kn->kev.ident\<close>.\<close>

definition fd_of :: "u64 \<Rightarrow> int" where
  "fd_of i = sint (ucast i :: 32 word)"

definition EV_EPOLLINOUT :: "u32 \<Rightarrow> u32" where
  "EV_EPOLLINOUT x = x AND (EPOLLIN OR EPOLLOUT)"

text \<open>Is there a knote in the slot, and is it disabled (or enabled) as asked?\<close>

definition fds_match :: "addr option \<Rightarrow> bool \<Rightarrow> ('o, 'z) lw \<Rightarrow> bool option" where
  "fds_match slot disabled w =
     (case slot of
        None \<Rightarrow> Some False
      | Some a \<Rightarrow> do {
          k \<leftarrow> knotes w a;
          Some (disabled = has_flag (flags (kev k)) (EV_DISABLE OR EV_EOF)) })"

definition find_fds :: "addr option \<Rightarrow> lknote \<Rightarrow> ('o, 'z) lw \<Rightarrow> addr option" where
  "find_fds fds k w =
     (case fds of
        Some f \<Rightarrow> Some f
      | None \<Rightarrow> (case kn_fds k of
                   Some f \<Rightarrow> Some f
                 | None \<Rightarrow> idx_find (kq_fd_st w) (fd_of (ident (kev k)))))"

text \<open>The result is the fd_state found and the events of its matching knotes.\<close>

definition epoll_fd_state ::
  "addr option \<Rightarrow> addr \<Rightarrow> bool \<Rightarrow> ('o, 'z) lw \<Rightarrow> (addr option \<times> u32) option" where
  "epoll_fd_state fds kn disabled w = do {
     k \<leftarrow> knotes w kn;
     case find_fds fds k w of
       None \<Rightarrow> Some (None, 0)
     | Some f \<Rightarrow> do {
         s \<leftarrow> fdss w f;
         r \<leftarrow> fds_match (fds_read s) disabled w;
         wr \<leftarrow> fds_match (fds_write s) disabled w;
         Some (Some f, (if r then EPOLLIN else 0) OR (if wr then EPOLLOUT else 0)) } }"

text \<open>A new fd_state for the descriptor, linked into the tree.\<close>

definition new_fd_state :: "int \<Rightarrow> ('o, 'z) lw \<Rightarrow> ('o, 'z) lw \<times> addr option" where
  "new_fd_state fd w =
     (case calloc w of
        (w, None) \<Rightarrow> (w, None)
      | (w, Some f) \<Rightarrow>
          (let (w, u) = epoll_udata_alloc (EPOLL_UDATA_FD_STATE f) w
           in (w\<lparr>fdss := (fdss w)(f \<mapsto> \<lparr>fds_fd = fd, fds_read = None, fds_write = None, fds_udata = u\<rparr>),
                 kq_fd_st := idx_insert fd f (kq_fd_st w)\<rparr>, Some f)))"

definition epoll_fd_state_mod ::
  "addr option \<Rightarrow> addr \<Rightarrow> u32 \<Rightarrow> ('o, 'z) lw \<Rightarrow> (('o, 'z) lw \<times> addr option \<times> int) option" where
  "epoll_fd_state_mod fds kn ev w =
     (if \<not> has_flag ev (EPOLLIN OR EPOLLOUT) then None
      else do {
        k \<leftarrow> knotes w kn;
        let (w, f) = (case find_fds fds k w of
                        Some f \<Rightarrow> (w, Some f)
                      | None \<Rightarrow> new_fd_state (fd_of (ident (kev k))) w);
        case f of
          None \<Rightarrow> Some (w, fds, -1)
        | Some f \<Rightarrow> do {
            s \<leftarrow> fdss w f;
            if (has_flag ev EPOLLIN \<longrightarrow> fds_read s = None \<or> fds_read s = Some kn) \<and>
               (has_flag ev EPOLLOUT \<longrightarrow> fds_write s = None \<or> fds_write s = Some kn)
            then
              let s = (if has_flag ev EPOLLIN then s\<lparr>fds_read := Some kn\<rparr> else s);
                  s = (if has_flag ev EPOLLOUT then s\<lparr>fds_write := Some kn\<rparr> else s)
              in Some (upd_knote kn (\<lambda>k. k\<lparr>kn_fds := Some f\<rparr>) (w\<lparr>fdss := (fdss w)(f \<mapsto> s)\<rparr>), Some f, 0)
            else None } })"

definition epoll_fd_state_del ::
  "addr option \<Rightarrow> addr \<Rightarrow> u32 \<Rightarrow> ('o, 'z) lw \<Rightarrow> (('o, 'z) lw \<times> addr option) option" where
  "epoll_fd_state_del fds kn ev w =
     (if \<not> has_flag ev (EPOLLIN OR EPOLLOUT) then None
      else do {
        k \<leftarrow> knotes w kn;
        f \<leftarrow> kn_fds k;
        s \<leftarrow> fdss w f;
        if fds \<noteq> None \<and> fds \<noteq> Some f then None
        else if has_flag ev EPOLLIN \<and> fds_read s = None \<or> has_flag ev EPOLLOUT \<and> fds_write s = None then None
        else do {
          let s = (if has_flag ev EPOLLIN then s\<lparr>fds_read := None\<rparr> else s);
          let s = (if has_flag ev EPOLLOUT then s\<lparr>fds_write := None\<rparr> else s);
          (w, fds) \<leftarrow>
            (if fds_read s = None \<and> fds_write s = None then do {
               w \<leftarrow> epoll_udata_defer_free (fds_udata s) w;
               Some (w\<lparr>kq_fd_st := idx_remove f (kq_fd_st w), fdss := (fdss w)(f := None)\<rparr>, None) }
             else Some (w\<lparr>fdss := (fdss w)(f \<mapsto> s)\<rparr>, fds));
          Some (upd_knote kn (\<lambda>k. k\<lparr>kn_fds := None\<rparr>) w, fds) } })"

text \<open>The first part of \<open>epoll_update\<close>: the events registered now, the events wanted,
  and, on a delete, the release of a disabled knote's slot.\<close>

definition epoll_update_want ::
  "epoll_op \<Rightarrow> addr \<Rightarrow> u32 \<Rightarrow> bool \<Rightarrow> ('o, 'z) lw \<Rightarrow> (('o, 'z) lw \<times> addr option \<times> u32 \<times> u32) option" where
  "epoll_update_want op kn ev del w = do {
     (fds, have_ev) \<leftarrow> epoll_fd_state None kn False w;
     let want = (case op of EPOLL_CTL_ADD \<Rightarrow> have_ev OR ev | EPOLL_CTL_DEL \<Rightarrow> have_ev AND NOT ev | EPOLL_CTL_MOD \<Rightarrow> ev);
     (w, fds) \<leftarrow>
       (if op \<noteq> EPOLL_CTL_ADD \<and> del then do {
          (fds, to_delete) \<leftarrow> epoll_fd_state fds kn True w;
          let to_delete = (if op = EPOLL_CTL_DEL then to_delete AND EV_EPOLLINOUT ev else to_delete AND NOT ev);
          if to_delete \<noteq> 0 then epoll_fd_state_del fds kn to_delete w else Some (w, fds) }
        else Some (w, fds));
     Some (w, fds, have_ev, want) }"

text \<open>After a failed epoll_ctl.\<close>

definition epoll_update_failed ::
  "epoll_op \<Rightarrow> addr option \<Rightarrow> addr \<Rightarrow> u32 \<Rightarrow> u32 \<Rightarrow> ('o, 'z) lw \<Rightarrow> (('o, 'z) lw \<times> int) option" where
  "epoll_update_failed opn fds kn have_ev want_ev w =
     (case opn of
        EPOLL_CTL_ADD \<Rightarrow> do {
          (w, fds) \<leftarrow> epoll_fd_state_del fds kn (want_ev AND NOT have_ev) w;
          Some (w, -1) }
      | _ \<Rightarrow>
          if errno w = EBADF \<or> errno w = ENOENT then do {
            f \<leftarrow> fds;
            s \<leftarrow> fdss w f;
            let kn_ev = (if fds_read s = Some kn then EPOLLIN else if fds_write s = Some kn then EPOLLOUT else 0);
            let kn_ev = kn_ev AND NOT want_ev;
            if kn_ev \<noteq> 0 then do {
              (w, fds) \<leftarrow> epoll_fd_state_del fds kn kn_ev w;
              Some (w, 0) }
            else Some (w, -1) }
          else Some (w, -1))"

text \<open>After a successful epoll_ctl.\<close>

definition epoll_update_done ::
  "epoll_op \<Rightarrow> addr option \<Rightarrow> addr \<Rightarrow> u32 \<Rightarrow> u32 \<Rightarrow> bool \<Rightarrow> ('o, 'z) lw \<Rightarrow> (('o, 'z) lw \<times> int) option" where
  "epoll_update_done opn fds kn have_ev want_ev del w =
     (case opn of
        EPOLL_CTL_ADD \<Rightarrow> Some (w, 0)
      | EPOLL_CTL_DEL \<Rightarrow>
          if del then do {
            (w, fds) \<leftarrow> epoll_fd_state_del fds kn (have_ev AND NOT want_ev) w;
            Some (w, 0) }
          else Some (w, 0)
      | EPOLL_CTL_MOD \<Rightarrow> do {
          let add = want_ev AND NOT have_ev;
          let del_ev = have_ev AND NOT want_ev;
          (w, fds) \<leftarrow> (if add \<noteq> 0 then do { (w, fds, rv) \<leftarrow> epoll_fd_state_mod fds kn add w; Some (w, fds) }
                       else Some (w, fds));
          if del_ev \<noteq> 0 \<and> del then do {
            (w, fds) \<leftarrow> epoll_fd_state_del fds kn del_ev w;
            Some (w, 0) }
          else Some (w, 0) })"

definition epoll_update ::
  "'o kernel \<Rightarrow> epoll_op \<Rightarrow> addr \<Rightarrow> u32 \<Rightarrow> bool \<Rightarrow> ('o, 'z) lw \<Rightarrow> (('o, 'z) lw \<times> int) option" where
  "epoll_update K op kn ev del w = do {
     k \<leftarrow> knotes w kn;
     (w, fds, have_ev, want) \<leftarrow> epoll_update_want op kn ev del w;
     let want_ev = EV_EPOLLINOUT want;
     if have_ev = want_ev then Some (w, 0)
     else do {
       let opn = (if have_ev = 0 then EPOLL_CTL_ADD else if want_ev = 0 then EPOLL_CTL_DEL else EPOLL_CTL_MOD);
       (w, fds) \<leftarrow>
         (if opn = EPOLL_CTL_ADD then do {
            (w, fds, rv) \<leftarrow> epoll_fd_state_mod fds kn (want_ev AND NOT have_ev) w;
            Some (w, fds) }
          else Some (w, fds));
       f \<leftarrow> fds;
       s \<leftarrow> fdss w f;
       let (w, rv) = syscall (sys_epoll_ctl K (epollfd w) opn (fd_of (ident (kev k))) want (fds_udata s)) w;
       if rv < 0 then epoll_update_failed opn fds kn have_ev want_ev w
       else epoll_update_done opn fds kn have_ev want_ev del w } }"

definition epoll_fd_registered :: "'o kernel \<Rightarrow> addr \<Rightarrow> ('o, 'z) lw \<Rightarrow> (('o, 'z) lw \<times> bool) option" where
  "epoll_fd_registered K kn w = do {
     k \<leftarrow> knotes w kn;
     if kn_fds k = None then Some (w, False)
     else do {
       (fds, have_ev) \<leftarrow> epoll_fd_state None kn False w;
       if have_ev = 0 then Some (w, False)
       else do {
         f \<leftarrow> fds;
         s \<leftarrow> fdss w f;
         let (w, rv) = syscall (sys_epoll_ctl K (epollfd w) EPOLL_CTL_MOD (fd_of (ident (kev k))) have_ev (fds_udata s)) w;
         Some (w, rv \<ge> 0) } } }"

end
