(* ===== verification/Linux_Inv.thy ===== *)
theory Linux_Inv
  imports Linux_Epoll
begin

text \<open>
  The invariant of the Linux backend's objects, and the steps that keep it.
  \<open>linux_inv\<close> says that the pointers between knotes, fd_state objects and udata
  objects are live and agree: a knote's udata and an fd_state's udata are live,
  not stale and point back; the slots of an fd_state hold knotes that point to
  it; and the tree of fd_state objects is ordered by descriptor.  It assumes
  that allocations succeed, and of the kernel that \<^verbatim>\<open>epoll_ctl\<close> with EPOLL_CTL_MOD or
  EPOLL_CTL_DEL fails only because the descriptor is closed or not registered
  (EBADF, ENOENT).
\<close>

subsection \<open>The invariant\<close>

definition ctl_law :: "'o kernel \<Rightarrow> bool" where
  "ctl_law K \<longleftrightarrow>
     (\<forall>ep op fd ev u s. op \<noteq> EPOLL_CTL_ADD \<longrightarrow>
        (case sys_epoll_ctl K ep op fd ev u s of (s', rv, e) \<Rightarrow> rv < 0 \<longrightarrow> e = EBADF \<or> e = ENOENT))"

definition udata_ok :: "(addr \<Rightarrow> epoll_udata option) \<Rightarrow> udata_ref \<Rightarrow> addr option \<Rightarrow> bool" where
  "udata_ok us r u \<longleftrightarrow>
     (case u of None \<Rightarrow> True
      | Some u \<Rightarrow> \<exists>ud. us u = Some ud \<and> ud_ref ud = r \<and> \<not> ud_stale ud)"

definition is_file :: "'k knote_scheme \<Rightarrow> bool" where
  "is_file k \<longleftrightarrow> has_flag (kn_flags k) KNFL_FILE"

text \<open>What the backend looks at in a knote.\<close>

record kn_view =
  v_ident :: u64
  v_slot :: int
  v_file :: bool
  v_fds :: "addr option"
  v_events :: u32
  v_udata :: "addr option"

definition lk_view :: "lknote \<Rightarrow> kn_view" where
  "lk_view k =
     \<lparr>v_ident = ident (kev k), v_slot = inv_filt (kfilter (kev k)), v_file = is_file k, v_fds = kn_fds k,
      v_events = epoll_events k, v_udata = kn_udata k\<rparr>"

definition view :: "('o, 'z) lw \<Rightarrow> addr \<Rightarrow> kn_view option" where
  "view w a = map_option lk_view (knotes w a)"

text \<open>The epoll event a filter slot stands for, and the knote that an fd_state has for it.\<close>

definition slot_event :: "int \<Rightarrow> u32" where
  "slot_event fi = (if fi = 0 then EPOLLIN else if fi = 1 then EPOLLOUT else 0)"

definition slot_knote :: "int \<Rightarrow> fd_state \<Rightarrow> addr option" where
  "slot_knote fi s = (if fi = 0 then fds_read s else if fi = 1 then fds_write s else None)"

definition kn_ok :: "(addr \<Rightarrow> fd_state option) \<Rightarrow> (addr \<Rightarrow> epoll_udata option) \<Rightarrow> addr \<Rightarrow> kn_view \<Rightarrow> bool" where
  "kn_ok fs us a v \<longleftrightarrow>
     udata_ok us (EPOLL_UDATA_KNOTE a) (v_udata v) \<and>
     (\<forall>f. v_fds v = Some f \<longrightarrow> \<not> v_file v \<and>
        (\<exists>s. fs f = Some s \<and> fds_fd s = fd_of (v_ident v) \<and> slot_knote (v_slot v) s = Some a)) \<and>
     (v_slot v \<in> {0, 1} \<and> \<not> v_file v \<and> v_events v \<noteq> 0 \<longrightarrow>
        v_ident v < 2 ^ 31 \<and> EV_EPOLLINOUT (v_events v) = slot_event (v_slot v))"

definition slot_ok :: "(addr \<Rightarrow> kn_view option) \<Rightarrow> addr \<Rightarrow> fd_state \<Rightarrow> int \<Rightarrow> bool" where
  "slot_ok vs f s fi \<longleftrightarrow>
     (\<forall>a. slot_knote fi s = Some a \<longrightarrow>
        (\<exists>v. vs a = Some v \<and> v_fds v = Some f \<and> v_slot v = fi \<and> v_events v \<noteq> 0))"

definition fds_ok :: "('o, 'z) lw \<Rightarrow> addr \<Rightarrow> fd_state \<Rightarrow> bool" where
  "fds_ok w f s \<longleftrightarrow>
     f < next_addr w \<and> (fds_fd s, f) \<in> set (kq_fd_st w) \<and>
     udata_ok (udatas w) (EPOLL_UDATA_FD_STATE f) (fds_udata s) \<and>
     slot_ok (view w) f s 0 \<and> slot_ok (view w) f s 1"

definition queue_stale :: "('o, 'z) lw \<Rightarrow> bool" where
  "queue_stale w \<longleftrightarrow>
     (\<forall>u \<in> dom (udatas w). u < next_addr w) \<and> distinct (ud_deferred_free w) \<and>
     (\<forall>u \<in> set (ud_deferred_free w). \<exists>ud. udatas w u = Some ud \<and> ud_stale ud)"

definition tree_ok :: "('o, 'z) lw \<Rightarrow> bool" where
  "tree_ok w \<longleftrightarrow>
     idx_ok (kq_fd_st w) \<and>
     (\<forall>(fd, f) \<in> set (kq_fd_st w). \<exists>s. fdss w f = Some s \<and> fds_fd s = fd)"

definition linux_inv :: "'o kernel \<Rightarrow> (nat \<times> u64) list \<Rightarrow> ('o, 'z) lw \<Rightarrow> bool" where
  "linux_inv K I w \<longleftrightarrow>
     ctl_law K \<and> kq_inflight w = I \<and> (\<forall>n. calloc_ok w n) \<and> queue_stale w \<and> tree_ok w \<and>
     (\<forall>a v. view w a = Some v \<longrightarrow> kn_ok (fdss w) (udatas w) a v) \<and>
     (\<forall>f s. fdss w f = Some s \<longrightarrow> fds_ok w f s)"

text \<open>No fd_state points to the knote.\<close>

definition lfree :: "addr \<Rightarrow> ('o, 'z) lw \<Rightarrow> bool" where
  "lfree kn w \<longleftrightarrow> (\<forall>f s. fdss w f = Some s \<longrightarrow> fds_read s \<noteq> Some kn \<and> fds_write s \<noteq> Some kn)"

lemma linux_inv_cong:
  assumes "view w' = view w" "fdss w' = fdss w" "udatas w' = udatas w" "kq_fd_st w' = kq_fd_st w"
    "ud_deferred_free w' = ud_deferred_free w" "kq_inflight w' = kq_inflight w" "calloc_ok w' = calloc_ok w" "next_addr w \<le> next_addr w'"
    "linux_inv K I w"
  shows "linux_inv K I w'"
proof -
  have "queue_stale w'"
    using assms(3,5,8,9) unfolding linux_inv_def queue_stale_def by (metis less_le_trans)
  moreover have "tree_ok w'" using assms by (simp add: linux_inv_def tree_ok_def)
  moreover have "fds_ok w' f s" if "fdss w' f = Some s" for f s
  proof -
    have "fds_ok w f s" using that assms by (simp add: linux_inv_def)
    then show ?thesis using assms by (simp add: fds_ok_def)
  qed
  ultimately show ?thesis using assms by (simp add: linux_inv_def)
qed

lemma lfree_cong: "fdss w' = fdss w \<Longrightarrow> lfree kn w' = lfree kn w"
  by (simp add: lfree_def)

text \<open>A knote that is in no slot has no fd_state; so has a knote of another filter.\<close>

lemma lfree_fds:
  assumes "linux_inv K I w" "lfree kn w" "view w kn = Some v"
  shows "v_fds v = None"
proof (rule ccontr)
  assume "v_fds v \<noteq> None"
  then obtain f s where "v_fds v = Some f" "fdss w f = Some s" "slot_knote (v_slot v) s = Some kn"
    using assms(1,3) unfolding linux_inv_def kn_ok_def by blast
  with assms(2) show False by (auto simp: lfree_def slot_knote_def split: if_splits)
qed

lemma fds_lfree:
  assumes "linux_inv K I w" "view w kn = Some v" "v_fds v = None"
  shows "lfree kn w"
  using assms unfolding lfree_def linux_inv_def fds_ok_def slot_ok_def slot_knote_def by fastforce

lemma other_lfree:
  assumes "linux_inv K I w" "view w kn = Some v" "v_slot v \<notin> {0, 1}"
  shows "lfree kn w"
proof (rule fds_lfree [OF assms(1,2)])
  have "kn_ok (fdss w) (udatas w) kn v" using assms by (simp add: linux_inv_def)
  then show "v_fds v = None" using assms(3) by (cases "v_fds v") (auto simp: kn_ok_def slot_knote_def)
qed

subsection \<open>Steps of a callback\<close>

text \<open>\<open>reach K I fi kn w0 w\<close>: a callback of filter slot \<open>fi\<close> on the knote \<open>kn\<close>, started in
  \<open>w0\<close>, has come to \<open>w\<close>: it stayed in its frame, the invariant holds, the knote is
  still there, and of what the backend looks at only the knote's udata changed.  \<open>okr\<close> says the same of a computation that returns, with a
  condition on the value returned.\<close>

definition reach :: "'o kernel \<Rightarrow> (nat \<times> u64) list \<Rightarrow> nat \<Rightarrow> addr \<Rightarrow> ('o, 'z) lw \<Rightarrow> ('o, 'z) lw \<Rightarrow> bool" where
  "reach K I fi kn w0 w \<longleftrightarrow>
     op_frame fi kn False w0 w \<and> linux_inv K I w \<and>
     (\<exists>k. knotes w kn = Some k \<and> inv_filt (kfilter (kev k)) = int fi) \<and>
     fdss w = fdss w0 \<and> (\<exists>v u. view w0 kn = Some v \<and> view w = (view w0)(kn \<mapsto> v\<lparr>v_udata := u\<rparr>))"

definition okr ::
  "'o kernel \<Rightarrow> (nat \<times> u64) list \<Rightarrow> nat \<Rightarrow> addr \<Rightarrow> ('o, 'z) lw \<Rightarrow> (int \<Rightarrow> bool) \<Rightarrow> (('o, 'z) lw \<times> int) option \<Rightarrow> bool" where
  "okr K I fi kn w0 P m \<longleftrightarrow> (\<exists>w rv. m = Some (w, rv) \<and> reach K I fi kn w0 w \<and> P rv)"

lemma reach_start:
  "linux_inv K I w \<Longrightarrow> knotes w kn = Some k \<Longrightarrow> inv_filt (kfilter (kev k)) = int fi \<Longrightarrow> reach K I fi kn w w"
  by (auto simp: reach_def view_def fun_eq_iff intro!: exI [of _ "v_udata (lk_view k)"])

lemma reach_trans: "reach K I fi kn w0 w1 \<Longrightarrow> reach K I fi kn w1 w2 \<Longrightarrow> reach K I fi kn w0 w2"
  unfolding reach_def using op_frame_trans by (fastforce simp: fun_upd_def)

text \<open>A step that the invariant does not see.\<close>

lemma reach_invisible:
  assumes r: "reach K I fi kn w0 w" and f: "op_frame fi kn False w w'"
    and same: "view w' = view w" "fdss w' = fdss w" "udatas w' = udatas w" "kq_fd_st w' = kq_fd_st w"
      "ud_deferred_free w' = ud_deferred_free w" "kq_inflight w' = kq_inflight w"
  shows "reach K I fi kn w0 w'"
proof -
  have "linux_inv K I w'"
    using linux_inv_cong [OF same] r f by (simp add: reach_def op_frame_def)
  moreover obtain k where k: "knotes w kn = Some k" "inv_filt (kfilter (kev k)) = int fi" using r by (auto simp: reach_def)
  then obtain k' where "knotes w' kn = Some k'" "kn_core k' = kn_core k" using op_frame_knote [OF f] by metis
  ultimately show ?thesis
    using r k same(1,2) op_frame_trans [OF _ f] by (auto simp: reach_def kn_core_def)
qed

lemma syscall_fields:
  assumes "syscall f w = (w', rv)"
  shows "op_frame fi kn r w w'" "view w' = view w" "fdss w' = fdss w" "udatas w' = udatas w"
    "kq_fd_st w' = kq_fd_st w" "ud_deferred_free w' = ud_deferred_free w" "kq_inflight w' = kq_inflight w" "knotes w' = knotes w"
  using assms by (auto simp: syscall_def op_frame_def view_def split: prod.splits)

lemma syscall_val_fields:
  assumes "syscall_val f w = (w', rv, v)"
  shows "op_frame fi kn r w w'" "view w' = view w" "fdss w' = fdss w" "udatas w' = udatas w"
    "kq_fd_st w' = kq_fd_st w" "ud_deferred_free w' = ud_deferred_free w" "kq_inflight w' = kq_inflight w"
  using assms by (auto simp: syscall_val_def op_frame_def view_def split: prod.splits)

lemma reach_syscall: "reach K I fi kn w0 w \<Longrightarrow> syscall f w = (w', rv) \<Longrightarrow> reach K I fi kn w0 w'"
  by (rule reach_invisible [OF _ syscall_fields(1-7)])

lemma reach_syscall_val: "reach K I fi kn w0 w \<Longrightarrow> syscall_val f w = (w', rv, v) \<Longrightarrow> reach K I fi kn w0 w'"
  by (rule reach_invisible [OF _ syscall_val_fields])

lemma reach_errno: "reach K I fi kn w0 w \<Longrightarrow> reach K I fi kn w0 (w\<lparr>errno := e\<rparr>)"
  by (rule reach_invisible) (auto simp: view_def)

text \<open>Writes to the knote that touch neither its core nor what the backend looks at.\<close>

definition quiet :: "(lknote \<Rightarrow> lknote) \<Rightarrow> bool" where
  "quiet g \<longleftrightarrow> (\<forall>k. kn_core (g k) = kn_core k \<and> lk_view (g k) = lk_view k)"

lemma reach_upd_knote:
  assumes "reach K I fi kn w0 w" "quiet g"
  shows "reach K I fi kn w0 (upd_knote kn g w)"
proof (rule reach_invisible [OF assms(1) op_frame_upd_knote])
  show "view (upd_knote kn g w) = view w"
    using assms(2) by (auto simp: fun_eq_iff view_def upd_knote_def quiet_def option.map_comp comp_def)
qed (use assms(2) in \<open>auto simp: quiet_def upd_knote_def\<close>)

lemma reach_upd_kev:
  assumes "reach K I fi kn w0 w" "\<And>e. ident (g e) = ident e \<and> kfilter (g e) = kfilter e"
  shows "reach K I fi kn w0 (upd_kev kn g w)"
  unfolding upd_kev_def
  by (rule reach_upd_knote [OF assms(1)]) (simp add: quiet_def assms(2) kn_core_def lk_view_def is_file_def)

subsection \<open>The udata of a knote\<close>

lemma view_upd_knote:
  "knotes w kn = Some k \<Longrightarrow> view (upd_knote kn g w) = (view w)(kn \<mapsto> lk_view (g k))"
  by (auto simp: fun_eq_iff view_def)

lemma linux_inv_set_udata:
  assumes inv: "linux_inv K I w" and v: "view w kn = Some v"
    and view': "view w' = (view w)(kn \<mapsto> v\<lparr>v_udata := u\<rparr>)"
    and own: "udata_ok (udatas w') (EPOLL_UDATA_KNOTE kn) u"
    and others: "\<And>r x. r \<noteq> EPOLL_UDATA_KNOTE kn \<Longrightarrow> udata_ok (udatas w) r x \<Longrightarrow> udata_ok (udatas w') r x"
    and q: "queue_stale w'"
    and same: "fdss w' = fdss w" "kq_fd_st w' = kq_fd_st w" "calloc_ok w' = calloc_ok w" "next_addr w \<le> next_addr w'"
      "kq_inflight w' = kq_inflight w"
  shows "linux_inv K I w'"
proof -
  have "kn_ok (fdss w') (udatas w') a x" if x: "view w' a = Some x" for a x
  proof (cases "a = kn")
    case True
    then have "x = v\<lparr>v_udata := u\<rparr>" using x view' by simp
    moreover have "kn_ok (fdss w) (udatas w) kn v" using inv v by (simp add: linux_inv_def)
    ultimately show ?thesis using own True same(1) by (simp add: kn_ok_def)
  next
    case False
    then have "kn_ok (fdss w) (udatas w) a x" using inv x view' by (simp add: linux_inv_def)
    then show ?thesis using others [of "EPOLL_UDATA_KNOTE a"] False same(1) by (simp add: kn_ok_def)
  qed
  moreover have "fds_ok w' f s" if "fdss w' f = Some s" for f s
  proof -
    have ok: "fds_ok w f s" using inv that same by (simp add: linux_inv_def)
    have "slot_ok (view w) f s fi \<Longrightarrow> slot_ok (view w') f s fi" for fi
      using v by (auto simp: slot_ok_def view')
    then show ?thesis using ok others same by (simp add: fds_ok_def)
  qed
  moreover have "tree_ok w'" using inv same by (simp add: linux_inv_def tree_ok_def)
  ultimately show ?thesis using inv q same by (simp add: linux_inv_def)
qed

text \<open>The three macros.\<close>

lemma lk_view_udata [simp]: "lk_view (k\<lparr>kn_udata := u\<rparr>) = (lk_view k)\<lparr>v_udata := u\<rparr>"
  by (simp add: lk_view_def is_file_def)

lemma reachD:
  assumes "reach K I fi kn w0 w"
  obtains k where "knotes w kn = Some k" "view w kn = Some (lk_view k)" "inv_filt (kfilter (kev k)) = int fi"
    "linux_inv K I w" "kn_ok (fdss w) (udatas w) kn (lk_view k)" "op_frame fi kn False w0 w"
proof -
  obtain k where k: "knotes w kn = Some k" "inv_filt (kfilter (kev k)) = int fi" "linux_inv K I w" "op_frame fi kn False w0 w"
    using assms by (auto simp: reach_def)
  then have "view w kn = Some (lk_view k)" by (simp add: view_def)
  with k show ?thesis using that by (simp add: linux_inv_def)
qed

lemma reach_intro:
  assumes r: "reach K I fi kn w0 w" and inv: "linux_inv K I w'" and f: "op_frame fi kn False w w'"
    and same: "fdss w' = fdss w" and v: "view w kn = Some v" and view': "view w' = (view w)(kn \<mapsto> v\<lparr>v_udata := u\<rparr>)"
  shows "reach K I fi kn w0 w'"
proof -
  obtain k where k: "knotes w kn = Some k" "inv_filt (kfilter (kev k)) = int fi" using reachD [OF r] by blast
  obtain k' where "knotes w' kn = Some k'" "kn_core k' = kn_core k" using op_frame_knote [OF f k(1)] .
  moreover obtain v0 u0 where "view w0 kn = Some v0" "view w = (view w0)(kn \<mapsto> v0\<lparr>v_udata := u0\<rparr>)" using r by (auto simp: reach_def)
  then have "\<exists>v u. view w0 kn = Some v \<and> view w' = (view w0)(kn \<mapsto> v\<lparr>v_udata := u\<rparr>)" using v view' by auto
  ultimately show ?thesis using r k inv same op_frame_trans [OF _ f] by (auto simp: reach_def kn_core_def)
qed

lemma reach_alloc:
  assumes r: "reach K I fi kn w0 w"
  shows "reach K I fi kn w0 (KN_UDATA_ALLOC kn w)"
proof -
  obtain k where k: "knotes w kn = Some k" "view w kn = Some (lk_view k)" "linux_inv K I w"
    using reachD [OF r] by blast
  let ?u = "next_addr w"
  let ?w' = "KN_UDATA_ALLOC kn w"
  have fresh: "udatas w ?u = None" and ok: "calloc_ok w ?u"
    using k(3) by (auto simp: linux_inv_def queue_stale_def)
  let ?us = "(udatas w)(?u \<mapsto> \<lparr>ud_ref = EPOLL_UDATA_KNOTE kn, ud_stale = False, ud_boundary_epoch = 0\<rparr>)"
  let ?w1 = "w\<lparr>next_addr := Suc ?u, udatas := ?us\<rparr>"
  have eq: "?w' = upd_knote kn (\<lambda>k. k\<lparr>kn_udata := Some ?u\<rparr>) ?w1"
    using ok by (simp add: KN_UDATA_ALLOC_def epoll_udata_alloc_def calloc_def)
  have "view ?w1 = view w" by (simp add: view_def fun_eq_iff)
  then have w': "view ?w' = (view w)(kn \<mapsto> (lk_view k)\<lparr>v_udata := Some ?u\<rparr>)"
    "udatas ?w' = ?us" "fdss ?w' = fdss w" "kq_fd_st ?w' = kq_fd_st w" "calloc_ok ?w' = calloc_ok w"
    "next_addr ?w' = Suc ?u" "ud_deferred_free ?w' = ud_deferred_free w" "kq_inflight ?w' = kq_inflight w"
    using k(1) by (simp_all add: eq view_upd_knote) (simp_all add: upd_knote_def)
  have "linux_inv K I ?w'"
  proof (rule linux_inv_set_udata [OF k(3,2) w'(1)])
    show "udata_ok (udatas ?w') (EPOLL_UDATA_KNOTE kn) (Some ?u)" by (simp add: udata_ok_def w')
    show "udata_ok (udatas ?w') r x" if "udata_ok (udatas w) r x" for r x
      using that fresh by (auto simp: udata_ok_def w' split: option.splits)
    have "queue_stale w" using k(3) by (simp add: linux_inv_def)
    then show "queue_stale ?w'" unfolding queue_stale_def w' using fresh by (auto simp: less_Suc_eq)
  qed (simp_all add: w')
  moreover have "op_frame fi kn False w ?w'"
    using k(1) by (simp add: eq op_frame_def upd_knote_def kn_core_def)
  ultimately show ?thesis using reach_intro [OF r _ _ w'(3) k(2) w'(1)] by blast
qed

lemma udata_ok_other:
  assumes "udata_ok us r (Some u)" "r \<noteq> r'" "udata_ok us r' x" "\<And>v. v \<noteq> u \<Longrightarrow> us' v = us v"
  shows "udata_ok us' r' x"
proof (cases x)
  case (Some v)
  then have "v \<noteq> u" using assms(1-3) by (auto simp: udata_ok_def)
  then show ?thesis using assms(3,4) Some by (simp add: udata_ok_def)
qed (simp add: udata_ok_def)

lemma free_udata_simps [simp]:
  "fdss (free_udata u w) = fdss w" "kq_fd_st (free_udata u w) = kq_fd_st w"
  "calloc_ok (free_udata u w) = calloc_ok w" "next_addr (free_udata u w) = next_addr w"
  "knotes (free_udata u w) = knotes w" "ud_deferred_free (free_udata u w) = ud_deferred_free w"
  "view (free_udata u w) = view w" "kq_filt (free_udata u w) = kq_filt w"
  "kq_knote_count (free_udata u w) = kq_knote_count w" "kq_inflight (free_udata u w) = kq_inflight w"
  by (simp_all add: free_udata_def view_def fun_eq_iff split: option.split)

lemma reach_free:
  assumes r: "reach K I fi kn w0 w"
  shows "\<exists>w'. KN_UDATA_FREE kn w = Some w' \<and> reach K I fi kn w0 w'"
proof -
  obtain k where k: "knotes w kn = Some k" "view w kn = Some (lk_view k)" "linux_inv K I w"
      "kn_ok (fdss w) (udatas w) kn (lk_view k)"
    using reachD [OF r] by metis
  have ud: "udata_ok (udatas w) (EPOLL_UDATA_KNOTE kn) (kn_udata k)" using k(4) by (simp add: kn_ok_def lk_view_def)
  let ?w' = "upd_knote kn (\<lambda>k. k\<lparr>kn_udata := None\<rparr>) (free_udata (kn_udata k) w)"
  have us: "udatas ?w' = (case kn_udata k of None \<Rightarrow> udatas w | Some u \<Rightarrow> (udatas w)(u := None))"
    by (simp add: upd_knote_def free_udata_def split: option.split)
  have view': "view ?w' = (view w)(kn \<mapsto> (lk_view k)\<lparr>v_udata := None\<rparr>)" using k(1) by (simp add: view_upd_knote)
  have "linux_inv K I ?w'"
  proof (rule linux_inv_set_udata [OF k(3,2) view'])
    show "udata_ok (udatas ?w') (EPOLL_UDATA_KNOTE kn) None" by (simp add: udata_ok_def)
    show "udata_ok (udatas ?w') r x" if "r \<noteq> EPOLL_UDATA_KNOTE kn" "udata_ok (udatas w) r x" for r x
      using that ud udata_ok_other [of "udatas w" "EPOLL_UDATA_KNOTE kn" _ r x] unfolding us by (cases "kn_udata k") auto
    have "queue_stale w" using k(3) by (simp add: linux_inv_def)
    then show "queue_stale ?w'"
      using ud unfolding queue_stale_def us by (cases "kn_udata k") (auto simp: udata_ok_def upd_knote_def)
  qed (simp_all add: upd_knote_def)
  moreover have "op_frame fi kn False w ?w'"
    using k(1) by (simp add: op_frame_def upd_knote_def kn_core_def)
  ultimately have "reach K I fi kn w0 ?w'" using reach_intro [OF r _ _ _ k(2) view'] by (simp add: upd_knote_def)
  then show ?thesis using k(1) by (simp add: KN_UDATA_FREE_def)
qed

lemma reach_defer:
  assumes r: "reach K I fi kn w0 w"
  shows "\<exists>w'. KN_UDATA_DEFER_FREE kn w = Some w' \<and> reach K I fi kn w0 w'"
proof -
  obtain k where k: "knotes w kn = Some k" "view w kn = Some (lk_view k)" "linux_inv K I w"
      "kn_ok (fdss w) (udatas w) kn (lk_view k)"
    using reachD [OF r] by metis
  have ud: "udata_ok (udatas w) (EPOLL_UDATA_KNOTE kn) (kn_udata k)" using k(4) by (simp add: kn_ok_def lk_view_def)
  show ?thesis
  proof (cases "kn_udata k")
    case None
    have "reach K I fi kn w0 (upd_knote kn (\<lambda>k. k\<lparr>kn_udata := None\<rparr>) w)"
    proof (rule reach_invisible [OF r op_frame_upd_knote])
      show "view (upd_knote kn (\<lambda>k. k\<lparr>kn_udata := None\<rparr>) w) = view w"
        using k None by (simp add: view_upd_knote) (simp add: lk_view_def fun_upd_idem)
    qed (simp_all add: upd_knote_def kn_core_def)
    then show ?thesis using k(1) None by (simp add: KN_UDATA_DEFER_FREE_def epoll_udata_defer_free_def)
  next
    case (Some u)
    then obtain d where d: "udatas w u = Some d" "ud_ref d = EPOLL_UDATA_KNOTE kn" "\<not> ud_stale d"
      using ud by (auto simp: udata_ok_def)
    let ?us = "(udatas w)(u \<mapsto> d\<lparr>ud_stale := True, ud_boundary_epoch := kq_next_epoch w\<rparr>)"
    let ?w1 = "w\<lparr>udatas := ?us, ud_deferred_free := ud_deferred_free w @ [u]\<rparr>"
    let ?w' = "upd_knote kn (\<lambda>k. k\<lparr>kn_udata := None\<rparr>) ?w1"
    have "view ?w1 = view w" by (simp add: view_def fun_eq_iff)
    then have view': "view ?w' = (view w)(kn \<mapsto> (lk_view k)\<lparr>v_udata := None\<rparr>)" using k(1) by (simp add: view_upd_knote)
    have us: "udatas ?w' = ?us" by (simp add: upd_knote_def)
    have "linux_inv K I ?w'"
    proof (rule linux_inv_set_udata [OF k(3,2) view'])
      show "udata_ok (udatas ?w') (EPOLL_UDATA_KNOTE kn) None" by (simp add: udata_ok_def)
      show "udata_ok (udatas ?w') r x" if "r \<noteq> EPOLL_UDATA_KNOTE kn" "udata_ok (udatas w) r x" for r x
        unfolding us using udata_ok_other [OF ud [unfolded Some] that(1) [symmetric] that(2)] by simp
      have "queue_stale w" using k(3) by (simp add: linux_inv_def)
      then show "queue_stale ?w'"
        unfolding queue_stale_def us using d(1,3) by (auto simp: upd_knote_def)
    qed (simp_all add: upd_knote_def)
    moreover have "op_frame fi kn False w ?w'" using k(1) by (simp add: op_frame_def upd_knote_def kn_core_def)
    ultimately have "reach K I fi kn w0 ?w'" using reach_intro [OF r _ _ _ k(2) view'] by (simp add: upd_knote_def)
    then show ?thesis using k(1) Some d by (simp add: KN_UDATA_DEFER_FREE_def epoll_udata_defer_free_def)
  qed
qed

subsection \<open>Rules for callbacks\<close>

named_theorems okr_intros

lemma okr_Some [okr_intros]: "reach K I fi kn w0 w \<Longrightarrow> P rv \<Longrightarrow> okr K I fi kn w0 P (Some (w, rv))"
  by (simp add: okr_def)

lemma okr_knote [okr_intros]:
  assumes "reach K I fi kn w0 w" "\<And>k. knotes w kn = Some k \<Longrightarrow> okr K I fi kn w0 P (F k)"
  shows "okr K I fi kn w0 P (Option.bind (knotes w kn) F)"
proof -
  obtain k where "knotes w kn = Some k" using reachD [OF assms(1)] .
  with assms(2) show ?thesis by simp
qed

lemma okr_syscall [okr_intros]:
  assumes "reach K I fi kn w0 w" "\<And>w' rv. reach K I fi kn w0 w' \<Longrightarrow> okr K I fi kn w0 P (F w' rv)"
  shows "okr K I fi kn w0 P (case syscall f w of (w', rv) \<Rightarrow> F w' rv)"
proof (cases "syscall f w")
  case (Pair w' rv)
  with assms(2) [OF reach_syscall [OF assms(1) Pair]] show ?thesis by simp
qed

lemma okr_syscall_val [okr_intros]:
  assumes "reach K I fi kn w0 w" "\<And>w' rv v. reach K I fi kn w0 w' \<Longrightarrow> okr K I fi kn w0 P (F w' rv v)"
  shows "okr K I fi kn w0 P (case syscall_val f w of (w', rv, v) \<Rightarrow> F w' rv v)"
proof (cases "syscall_val f w")
  case (fields w' rv v)
  with assms(2) [OF reach_syscall_val [OF assms(1) fields]] show ?thesis by simp
qed

lemma okr_if [okr_intros]:
  assumes "c \<Longrightarrow> okr K I fi kn w0 P a" "\<not> c \<Longrightarrow> okr K I fi kn w0 P b"
  shows "okr K I fi kn w0 P (if c then a else b)"
  using assms by simp

lemma okr_Let [okr_intros]: "okr K I fi kn w0 P (F x) \<Longrightarrow> okr K I fi kn w0 P (Let x F)"
  by simp

lemma okr_free [okr_intros]:
  assumes "reach K I fi kn w0 w" "\<And>w'. reach K I fi kn w0 w' \<Longrightarrow> okr K I fi kn w0 P (F w')"
  shows "okr K I fi kn w0 P (Option.bind (KN_UDATA_FREE kn w) F)"
  using assms(2) reach_free [OF assms(1)] by force

lemma okr_defer [okr_intros]:
  assumes "reach K I fi kn w0 w" "\<And>w'. reach K I fi kn w0 w' \<Longrightarrow> okr K I fi kn w0 P (F w')"
  shows "okr K I fi kn w0 P (Option.bind (KN_UDATA_DEFER_FREE kn w) F)"
  using assms(2) reach_defer [OF assms(1)] by force

lemma okr_bind:
  assumes "okr K I fi kn w0 Q m" "\<And>w rv. reach K I fi kn w0 w \<Longrightarrow> Q rv \<Longrightarrow> okr K I fi kn w0 P (F w rv)"
  shows "okr K I fi kn w0 P (Option.bind m (\<lambda>(w, rv). F w rv))"
  using assms by (auto simp: okr_def)

lemma okr_mono: "okr K I fi kn w0 Q m \<Longrightarrow> (\<And>rv. Q rv \<Longrightarrow> P rv) \<Longrightarrow> okr K I fi kn w0 P m"
  by (auto simp: okr_def)

lemma reach_lfree: "reach K I fi kn w0 w \<Longrightarrow> lfree kn w0 \<Longrightarrow> lfree kn w"
  by (simp add: reach_def lfree_def)

lemma reach_fst: "reach K I fi kn w0 w \<Longrightarrow> reach K I fi kn w0 (fst (syscall f w))"
  by (rule reach_syscall [of K I fi kn w0 w f _ "snd (syscall f w)"]) simp_all

lemma reach_if: "(c \<Longrightarrow> reach K I fi kn w0 w) \<Longrightarrow> (\<not> c \<Longrightarrow> reach K I fi kn w0 w') \<Longrightarrow> reach K I fi kn w0 (if c then w else w')"
  by simp

lemmas reach_intros = reach_upd_knote reach_upd_kev reach_alloc reach_errno reach_fst reach_if

subsection \<open>The backend interface\<close>

text \<open>What the common code does to a state is invisible to the invariant.\<close>

lemma kn_ext_view: "kn_ext k' = kn_ext k \<Longrightarrow> lk_view k' = lk_view (k :: lknote)"
proof -
  assume e: "kn_ext k' = kn_ext k"
  then have "knote.more k' = knote.more k" by (simp add: kn_ext_def)
  then have "kn_fds k' = kn_fds k" "epoll_events k' = epoll_events k" "kn_udata k' = kn_udata k"
    by (cases k; cases k'; simp)+
  moreover have "is_file k' = is_file k"
  proof -
    have d: "KNFL_KNOTE_DELETED AND KNFL_FILE = 0" by (simp add: KNFL_FILE_def KNFL_KNOTE_DELETED_def)
    have "clear_flag KNFL_KNOTE_DELETED (kn_flags k') = clear_flag KNFL_KNOTE_DELETED (kn_flags k)"
      using e by (simp add: kn_ext_def)
    then show ?thesis unfolding is_file_def by (metis has_flag_clear_other [OF d])
  qed
  ultimately show ?thesis using e by (simp add: lk_view_def kn_ext_def)
qed

lemma ext_view:
  assumes "\<forall>a. map_option kn_ext (knotes w' a) = map_option kn_ext (knotes w a)"
  shows "view w' = view w"
proof
  fix a
  show "view w' a = view w a"
    using spec [OF assms, of a] by (cases "knotes w' a"; cases "knotes w a") (auto simp: view_def intro: kn_ext_view)
qed

lemma glob_same_lfields:
  assumes "gworld.more w' = gworld.more w"
  shows "fdss w' = fdss w" "udatas w' = udatas w" "kq_fd_st w' = kq_fd_st w" "ud_deferred_free w' = ud_deferred_free w"
    "kq_inflight w' = kq_inflight w"
  using assms by (cases w; cases w'; simp)+

lemma ext_same_glob: "ext_same w w' \<Longrightarrow> glob_same w w'"
  unfolding ext_same_def glob_same_def by (cases w; cases w') simp

lemma linux_inv_glob:
  assumes "linux_inv K I w" "glob_same w w'"
  shows "linux_inv K I w'"
  using linux_inv_cong [OF ext_view glob_same_lfields, of w' w K I] assms by (simp add: glob_same_def)

lemma linux_inv_new:
  assumes wf: "core_wf w" and inv: "linux_inv K I w" and new: "knote_new lknote_zero w = (w', Some kn)"
    and w1: "w1 = upd_knote kn (\<lambda>k. k\<lparr>kev := e\<rparr>) w'"
  shows "linux_inv K I w1 \<and> lfree kn w1"
proof -
  have kn: "kn = next_addr w" and w': "w' = w\<lparr>next_addr := Suc kn, knotes := (knotes w)(kn \<mapsto> lknote_zero\<lparr>kn_ref := 1\<rparr>)\<rparr>"
    using new by (auto simp: knote_new_def calloc_def split: if_splits)
  have fresh: "view w kn = None" using wf by (auto simp: core_inv_def kn view_def)
  let ?v = "lk_view (lknote_zero\<lparr>kn_ref := 1, kev := e\<rparr>)"
  have vf: "v_udata ?v = None" "v_fds ?v = None" "v_events ?v = 0"
    by (simp_all add: lk_view_def lknote_zero_def)
  have view1: "view w1 = (view w)(kn \<mapsto> ?v)" by (auto simp: w1 w' view_def fun_eq_iff)
  have same: "fdss w1 = fdss w" "udatas w1 = udatas w" "kq_fd_st w1 = kq_fd_st w" "ud_deferred_free w1 = ud_deferred_free w"
    "calloc_ok w1 = calloc_ok w" "next_addr w1 = Suc (next_addr w)" "kq_inflight w1 = kq_inflight w"
    by (simp_all add: w1 w' upd_knote_def kn)
  have "kn_ok (fdss w1) (udatas w1) a v" if "view w1 a = Some v" for a v
    using that inv by (cases "a = kn") (auto simp: view1 same linux_inv_def kn_ok_def udata_ok_def vf)
  moreover have fds: "fds_ok w1 f s" if "fdss w1 f = Some s" for f s
  proof -
    have ok: "fds_ok w f s" using that inv by (simp add: same linux_inv_def)
    have "slot_ok (view w) f s fi \<Longrightarrow> slot_ok (view w1) f s fi" for fi using fresh by (auto simp: slot_ok_def view1)
    then show ?thesis using ok by (simp add: fds_ok_def same)
  qed
  moreover have "queue_stale w1" "tree_ok w1" using inv by (auto simp: linux_inv_def queue_stale_def tree_ok_def same less_Suc_eq)
  ultimately have inv1: "linux_inv K I w1" using inv by (simp add: linux_inv_def same)
  moreover have "view w1 kn = Some ?v" by (simp add: view1)
  ultimately show ?thesis using fds_lfree vf(2) by blast
qed

lemma linux_inv_free:
  assumes inv: "linux_inv K I w" and free: "lfree kn w" and w': "w' = w\<lparr>knotes := (knotes w)(kn := None)\<rparr>"
  shows "linux_inv K I w'"
proof -
  have view': "view w' = (view w)(kn := None)" by (simp add: w' view_def fun_eq_iff)
  have "kn_ok (fdss w') (udatas w') a v" if "view w' a = Some v" for a v
    using that inv unfolding view' linux_inv_def by (auto simp: w' split: if_splits)
  moreover have "fds_ok w' f s" if s: "fdss w' f = Some s" for f s
  proof -
    have ok: "fds_ok w f s" using s inv by (simp add: w' linux_inv_def)
    have "slot_knote fi s \<noteq> Some kn" for fi using free s by (auto simp: lfree_def slot_knote_def w')
    then have "slot_ok (view w) f s fi \<Longrightarrow> slot_ok (view w') f s fi" for fi by (auto simp: slot_ok_def view')
    then show ?thesis using ok by (simp add: fds_ok_def w')
  qed
  moreover have "queue_stale w'" "tree_ok w'" using inv by (simp_all add: linux_inv_def queue_stale_def tree_ok_def w')
  ultimately show ?thesis using inv by (simp add: linux_inv_def w')
qed

interpretation lbs: global_state "linux_inv K I" lfree lknote_zero for K I
proof (unfold_locales, goal_cases)
  case (1 w w')
  then show ?case using linux_inv_glob ext_same_glob by blast
next
  case (2 kn w w')
  then show ?case using lfree_cong [OF glob_same_lfields(1)] ext_same_glob by (metis glob_same_def)
next
  case (3 w w' kn e)
  then show ?case using linux_inv_new by blast
next
  case (4 kn w)
  then show ?case using linux_inv_free by blast
next
  case 5
  show ?case by (simp add: lknote_zero_def)
next
  case (6 w w')
  then show ?case using linux_inv_glob by blast
next
  case (7 kn w w')
  then show ?case using lfree_cong [OF glob_same_lfields(1)] by (metis glob_same_def)
next
  case (8 kn w k)
  then show ?case using other_lfree [of K I w kn "lk_view k"] by (simp add: view_def lk_view_def)
qed

text \<open>A filter outside the multiplexer meets its contract when its callbacks stay
  within the steps.\<close>

lemma okr_contract:
  assumes fi: "fi < EVFILT_SYSCOUNT" "1 < fi"
    and create: "\<And>kn w. reach K I fi kn w w \<Longrightarrow> okr K I fi kn w (\<lambda>_. True) (kn_create ops kn w)"
    and modify: "\<And>kn src w. reach K I fi kn w w \<Longrightarrow> okr K I fi kn w (\<lambda>_. True) (kn_modify ops kn src w)"
    and delete: "\<And>kn w. reach K I fi kn w w \<Longrightarrow> okr K I fi kn w (\<lambda>rv. rv \<le> 0) (kn_delete ops kn w)"
    and enable: "\<And>kn w. reach K I fi kn w w \<Longrightarrow> okr K I fi kn w (\<lambda>_. True) (kn_enable ops kn w)"
    and disable: "\<And>kn w. reach K I fi kn w w \<Longrightarrow> okr K I fi kn w (\<lambda>_. True) (kn_disable ops kn w)"
  shows "filter_contract (linux_inv K I) lfree lknote_zero ops fi (\<lambda>_. True)"
proof -
  have free: "lfree kn w'" if r: "reach K I fi kn w w'" for kn w w'
  proof -
    obtain k where k: "view w' kn = Some (lk_view k)" "inv_filt (kfilter (kev k)) = int fi" "linux_inv K I w'"
      using reachD [OF r] by metis
    show ?thesis by (rule other_lfree [OF k(3,1)]) (use fi(2) k(2) in \<open>auto simp: lk_view_def\<close>)
  qed
  have mono: "op_frame fi kn r w w'" if "reach K I fi kn w w'" for kn r w w'
    by (rule op_frame_mono) (use that in \<open>simp add: reach_def\<close>)
  have inv: "linux_inv K I w'" if "reach K I fi kn w w'" for kn w w' using that by (simp add: reach_def)
  have start: "reach K I fi kn w w" if "core_wf w" "linux_inv K I w" "kn \<in> linked w fi" for kn w
  proof -
    obtain i where "(i, kn) \<in> set (kf_index (filt_at w fi))" using \<open>kn \<in> linked w fi\<close> by (auto simp: linked_def)
    from core_inv_linked_knote [OF that(1) fi(1) this] obtain k where
      "knotes w kn = Some k" "inv_filt (kfilter (kev k)) = int fi" .
    then show ?thesis using reach_start [OF that(2)] by blast
  qed
  show ?thesis
  proof (unfold_locales, goal_cases)
    case (2 kn w k)
    with create [OF reach_start [OF 2(2,4,5)]] show ?case unfolding okr_def using free mono inv by blast
  next
    case (3 w src kn)
    with modify [OF start [OF 3(1,2) linkedI [OF 3(3)]]] show ?case unfolding okr_def using mono inv by blast
  next
    case (4 kn w k)
    with delete [OF reach_start [OF 4(2,3,4)]] show ?case unfolding okr_def using free mono inv by blast
  next
    case (5 w i kn)
    with enable [OF start [OF 5(1,2) linkedI [OF 5(3)]]] show ?case unfolding okr_def using mono inv by blast
  next
    case (6 w i kn)
    with disable [OF start [OF 6(1,2) linkedI [OF 6(3)]]] show ?case unfolding okr_def using mono inv by blast
  qed (rule fi(1))
qed

end
