(* ===== verification/Linux_Mux.thy ===== *)
theory Linux_Mux
  imports Linux_Inv
begin

text \<open>
  The descriptor multiplexer keeps the invariant of the backend: attaching a
  knote to an fd_state, detaching it, dropping an empty fd_state, and
  \<open>epoll_update\<close> as a whole, for registrations (EPOLL_CTL_ADD) and removals
  (EPOLL_CTL_DEL) of the read and the write filter.
\<close>

subsection \<open>Attaching and detaching a knote\<close>

definition set_slot :: "int \<Rightarrow> addr option \<Rightarrow> fd_state \<Rightarrow> fd_state" where
  "set_slot fi x s = (if fi = 0 then s\<lparr>fds_read := x\<rparr> else s\<lparr>fds_write := x\<rparr>)"

lemma set_slot_simps [simp]:
  "fds_fd (set_slot fi x s) = fds_fd s" "fds_udata (set_slot fi x s) = fds_udata s"
  "fi \<in> {0, 1} \<Longrightarrow> slot_knote fi (set_slot fi x s) = x"
  "fi \<in> {0, 1} \<Longrightarrow> fj \<noteq> fi \<Longrightarrow> slot_knote fj (set_slot fi x s) = slot_knote fj s"
  by (auto simp: set_slot_def slot_knote_def)

lemma slot_knote_range: "slot_knote fi s = Some a \<Longrightarrow> fi \<in> {0, 1}"
  by (auto simp: slot_knote_def split: if_splits)

text \<open>Both directions at once: the knote's pointer and its slot become \<open>x\<close> and \<open>y\<close>,
  which agree.\<close>

lemma linux_inv_slot:
  assumes inv: "linux_inv K I w" and v: "view w kn = Some v" "v_slot v \<in> {0, 1}" "x \<noteq> None \<Longrightarrow> \<not> v_file v" "v_events v \<noteq> 0"
    and s: "fdss w f = Some s" "fds_fd s = fd_of (v_ident v)"
    and free: "slot_knote (v_slot v) s \<in> {None, Some kn}"
    and was: "v_fds v \<in> {None, Some f}"
    and agree: "x = Some f \<and> y = Some kn \<or> x = None \<and> y = None"
    and view': "view w' = (view w)(kn \<mapsto> v\<lparr>v_fds := x\<rparr>)"
    and fdss': "fdss w' = (fdss w)(f \<mapsto> set_slot (v_slot v) y s)"
    and same: "udatas w' = udatas w" "kq_fd_st w' = kq_fd_st w" "ud_deferred_free w' = ud_deferred_free w"
      "calloc_ok w' = calloc_ok w" "next_addr w' = next_addr w" "kq_inflight w' = kq_inflight w"
  shows "linux_inv K I w'"
proof -
  have other: "slot_knote (v_slot z) (set_slot (v_slot v) y s) = Some a"
    if "slot_knote (v_slot z) s = Some a" "a \<noteq> kn" for z :: kn_view and a
    using that free v(2) by (cases "v_slot z = v_slot v") auto
  have "kn_ok (fdss w') (udatas w') a z" if z: "view w' a = Some z" for a z
  proof (cases "a = kn")
    case True
    have "kn_ok (fdss w) (udatas w) kn v" using inv v by (simp add: linux_inv_def)
    moreover have "z = v\<lparr>v_fds := x\<rparr>" using z True by (simp add: view')
    ultimately show ?thesis using True agree s v by (auto simp: kn_ok_def same fdss')
  next
    case False
    then have "kn_ok (fdss w) (udatas w) a z" using inv z by (simp add: linux_inv_def view')
    then show ?thesis using False s other unfolding kn_ok_def same fdss' by fastforce
  qed
  moreover have "fds_ok w' g t" if t: "fdss w' g = Some t" for g t
  proof (cases "g = f")
    case True
    have ok: "fds_ok w f s" using inv s by (simp add: linux_inv_def)
    have "slot_ok (view w) f s fj \<Longrightarrow> slot_ok (view w') f (set_slot (v_slot v) y s) fj" for fj
      using v agree True by (cases "fj = v_slot v") (auto simp: slot_ok_def view')
    then show ?thesis using ok t True by (auto simp: fds_ok_def fdss' same)
  next
    case False
    then have ok: "fds_ok w g t" using inv t by (simp add: linux_inv_def fdss')
    have "slot_ok (view w) g t fj \<Longrightarrow> slot_ok (view w') g t fj" for fj
      using False was v(1) by (auto simp: slot_ok_def view')
    then show ?thesis using ok by (simp add: fds_ok_def same)
  qed
  moreover have "queue_stale w'" using inv by (simp add: linux_inv_def queue_stale_def same)
  moreover have "tree_ok w'" using inv s unfolding linux_inv_def tree_ok_def same fdss' by (auto split: if_splits)
  ultimately show ?thesis using inv by (simp add: linux_inv_def same)
qed

subsection \<open>Creating and dropping an fd_state\<close>

lemma new_fd_state_ok:
  assumes inv: "linux_inv K I w" and none: "idx_find (kq_fd_st w) fd = None" and new: "new_fd_state fd w = (w', r)"
  obtains f u where "r = Some f" "linux_inv K I w'" "view w' = view w" "knotes w' = knotes w" "op_frame fi kn False w w'"
    "fdss w' = (fdss w)(f \<mapsto> \<lparr>fds_fd = fd, fds_read = None, fds_write = None, fds_udata = Some u\<rparr>)" "fdss w f = None"
proof -
  let ?f = "next_addr w"
  let ?u = "Suc ?f"
  let ?s = "\<lparr>fds_fd = fd, fds_read = None, fds_write = None, fds_udata = Some ?u\<rparr>"
  let ?us = "(udatas w)(?u \<mapsto> \<lparr>ud_ref = EPOLL_UDATA_FD_STATE ?f, ud_stale = False, ud_boundary_epoch = 0\<rparr>)"
  have ok: "calloc_ok w n" for n using inv by (simp add: linux_inv_def)
  have w': "w' = w\<lparr>next_addr := Suc ?u, udatas := ?us, fdss := (fdss w)(?f \<mapsto> ?s), kq_fd_st := idx_insert fd ?f (kq_fd_st w)\<rparr>"
    and r: "r = Some ?f"
    using new ok by (auto simp: new_fd_state_def calloc_def epoll_udata_alloc_def Let_def)
  have fresh: "udatas w ?u = None" "fdss w ?f = None"
  proof -
    have "?u \<notin> dom (udatas w)" using inv unfolding linux_inv_def queue_stale_def by (meson Suc_lessD less_irrefl)
    then show "udatas w ?u = None" by blast
    show "fdss w ?f = None" using inv by (cases "fdss w ?f") (auto simp: linux_inv_def fds_ok_def)
  qed
  have view': "view w' = view w" by (simp add: w' view_def fun_eq_iff)
  have uok: "udata_ok (udatas w) q x \<Longrightarrow> udata_ok (udatas w') q x" for q x
    using fresh by (auto simp: w' udata_ok_def split: option.splits)
  have "kn_ok (fdss w') (udatas w') a v" if "view w' a = Some v" for a v
  proof -
    have "kn_ok (fdss w) (udatas w) a v" using inv that by (simp add: linux_inv_def view')
    then show ?thesis using fresh(2) uok unfolding kn_ok_def by (force simp: w')
  qed
  moreover have tree: "idx_ok (idx_insert fd ?f (kq_fd_st w)) \<and> set (idx_insert fd ?f (kq_fd_st w)) = insert (fd, ?f) (set (kq_fd_st w))"
  proof (rule rbi.ins_new [OF _ none])
    show "idx_ok (kq_fd_st w)" using inv by (simp add: linux_inv_def tree_ok_def)
    show "?f \<notin> snd ` set (kq_fd_st w)" using inv fresh(2) by (force simp: linux_inv_def tree_ok_def)
  qed
  moreover have "fds_ok w' g t" if t: "fdss w' g = Some t" for g t
  proof (cases "g = ?f")
    case True
    then have "t = ?s" using t by (simp add: w')
    then show ?thesis using True tree by (simp add: fds_ok_def slot_ok_def slot_knote_def udata_ok_def w')
  next
    case False
    then have "fds_ok w g t" using inv t by (simp add: linux_inv_def w')
    then show ?thesis using tree uok view' by (simp add: fds_ok_def) (simp add: w')
  qed
  moreover have "queue_stale w'"
  proof -
    have "queue_stale w" using inv by (simp add: linux_inv_def)
    then show ?thesis unfolding queue_stale_def w' using fresh by (auto simp: less_Suc_eq)
  qed
  moreover have "tree_ok w'" using tree inv fresh(2) unfolding tree_ok_def linux_inv_def by (auto simp: w')
  ultimately have "linux_inv K I w'" using inv by (simp add: linux_inv_def w')
  moreover have "op_frame fi kn False w w'" by (simp add: w' op_frame_def)
  ultimately show ?thesis using that [of ?f ?u] r view' fresh(2) by (simp add: w')
qed

lemma linux_inv_drop_fds:
  assumes inv: "linux_inv K I w" and s: "fdss w f = Some s" "fds_read s = None" "fds_write s = None"
    and dfr: "epoll_udata_defer_free (fds_udata s) w = Some w1"
    and view': "view w' = view w"
    and fields: "fdss w' = (fdss w)(f := None)" "kq_fd_st w' = idx_remove f (kq_fd_st w)" "udatas w' = udatas w1"
      "ud_deferred_free w' = ud_deferred_free w1" "calloc_ok w' = calloc_ok w" "next_addr w' = next_addr w"
      "kq_inflight w' = kq_inflight w"
  shows "linux_inv K I w'"
proof -
  have fok: "fds_ok w f s" using inv s by (simp add: linux_inv_def)
  then have ud: "udata_ok (udatas w) (EPOLL_UDATA_FD_STATE f) (fds_udata s)" by (simp add: fds_ok_def)
  have uok: "udata_ok (udatas w1) q x" if "udata_ok (udatas w) q x" "q \<noteq> EPOLL_UDATA_FD_STATE f" for q x
    using that ud dfr udata_ok_other [of "udatas w" "EPOLL_UDATA_FD_STATE f" _ q x "udatas w1"]
    by (cases "fds_udata s") (auto simp: epoll_udata_defer_free_def bind_eq_Some_conv split: if_splits)
  have "queue_stale w" using inv by (simp add: linux_inv_def)
  then have "queue_stale w'"
    using ud dfr unfolding queue_stale_def fields
    by (cases "fds_udata s") (fastforce simp: epoll_udata_defer_free_def bind_eq_Some_conv udata_ok_def split: if_splits)+
  moreover have "kn_ok (fdss w') (udatas w') a v" if "view w' a = Some v" for a v
  proof -
    have ok: "kn_ok (fdss w) (udatas w) a v" using inv that by (simp add: linux_inv_def view')
    then have "v_fds v \<noteq> Some f" using s by (auto simp: kn_ok_def slot_knote_def split: if_splits)
    then show ?thesis using ok uok by (auto simp: kn_ok_def fields)
  qed
  moreover have dels: "set (kq_fd_st w') = {e \<in> set (kq_fd_st w). snd e \<noteq> f}" and ix: "idx_ok (kq_fd_st w')"
    using inv rbi.del_set [of "kq_fd_st w" f] rbi.del_inv [of "kq_fd_st w" f] by (simp_all add: linux_inv_def tree_ok_def fields)
  moreover have "fds_ok w' g t" if t: "fdss w' g = Some t" for g t
  proof -
    have g: "g \<noteq> f" "fds_ok w g t" using inv t by (auto simp: linux_inv_def fields split: if_splits)
    then show ?thesis using uok dels by (simp add: fds_ok_def fields(3,6) view')
  qed
  moreover have "tree_ok w'" using inv ix dels unfolding tree_ok_def linux_inv_def by (fastforce simp: fields(1))
  ultimately show ?thesis using inv by (simp add: linux_inv_def fields(5,7))
qed

subsection \<open>The operations\<close>

text \<open>\<open>sole K fi kn w\<close>: no other knote of the filter is attached to the descriptor.\<close>

definition sole :: "addr \<Rightarrow> ('o, 'z) lw \<Rightarrow> bool" where
  "sole kn w \<longleftrightarrow>
     (\<forall>v. view w kn = Some v \<longrightarrow>
       (\<forall>a z f. view w a = Some z \<and> v_fds z = Some f \<and> v_slot z = v_slot v \<and> fd_of (v_ident z) = fd_of (v_ident v) \<longrightarrow>
          a = kn))"

text \<open>The state of a callback of the read or the write filter, with the knote's view.\<close>

definition mux :: "'o kernel \<Rightarrow> (nat \<times> u64) list \<Rightarrow> nat \<Rightarrow> addr \<Rightarrow> ('o, 'z) lw \<Rightarrow> kn_view \<Rightarrow> bool" where
  "mux K I fi kn w v \<longleftrightarrow>
     linux_inv K I w \<and> view w kn = Some v \<and> v_slot v = int fi \<and> fi \<le> 1 \<and> sole kn w"

lemma muxD:
  assumes "mux K I fi kn w v"
  shows "linux_inv K I w" "view w kn = Some v" "v_slot v = int fi" "v_slot v \<in> {0, 1}" "sole kn w"
    "kn_ok (fdss w) (udatas w) kn v" "tree_ok w"
  using assms by (auto simp: mux_def linux_inv_def)

text \<open>What the lookup finds is live and is for the knote's descriptor; a knote in
  the filter's slot of it is the knote itself.\<close>

lemma find_fds_ok:
  assumes m: "mux K I fi kn w v" and k: "knotes w kn = Some k" and f: "find_fds None k w = Some f"
  obtains s where "fdss w f = Some s" "fds_fd s = fd_of (v_ident v)" "fds_ok w f s"
    "slot_knote (int fi) s \<in> {None, Some kn}" "v_fds v = None \<longleftrightarrow> slot_knote (int fi) s = None"
    "v_fds v \<in> {None, Some f}"
proof -
  have kv: "v = lk_view k" using muxD(2) [OF m] k by (simp add: view_def)
  then have vk: "v_fds v = kn_fds k" "v_ident v = ident (kev k)" by (simp_all add: lk_view_def)
  have "\<exists>s. fdss w f = Some s \<and> fds_fd s = fd_of (v_ident v) \<and> (v_fds v = Some f \<longrightarrow> slot_knote (int fi) s = Some kn)"
  proof (cases "v_fds v")
    case (Some g)
    then show ?thesis using f vk muxD(3,6) [OF m] by (auto simp: find_fds_def kn_ok_def)
  next
    case None
    then have "idx_find (kq_fd_st w) (fd_of (v_ident v)) = Some f" using f vk by (simp add: find_fds_def)
    then have "(fd_of (v_ident v), f) \<in> set (kq_fd_st w)" using muxD(7) [OF m] by (simp add: tree_ok_def rbi.find_iff)
    then show ?thesis using muxD(7) [OF m] None by (auto simp: tree_ok_def)
  qed
  then obtain s where s: "fdss w f = Some s" "fds_fd s = fd_of (v_ident v)" "v_fds v = Some f \<longrightarrow> slot_knote (int fi) s = Some kn" by blast
  have ok: "fds_ok w f s" using muxD(1) [OF m] s(1) by (simp add: linux_inv_def)
  have slot: "a = kn \<and> v_fds v = Some f" if a: "slot_knote (int fi) s = Some a" for a
  proof -
    have "slot_ok (view w) f s (int fi)" using ok slot_knote_range [OF a] by (auto simp: fds_ok_def)
    then obtain z where z: "view w a = Some z" "v_fds z = Some f" "v_slot z = int fi" using a by (auto simp: slot_ok_def)
    then have "kn_ok (fdss w) (udatas w) a z" using muxD(1) [OF m] by (simp add: linux_inv_def)
    then have "fd_of (v_ident z) = fds_fd s" using z s(1) by (auto simp: kn_ok_def)
    then have "a = kn" using muxD(2,3,5) [OF m] z s(2) unfolding sole_def by metis
    then show ?thesis using z muxD(2) [OF m] by simp
  qed
  have was: "v_fds v \<in> {None, Some f}" using f vk by (auto simp: find_fds_def split: option.splits)
  show ?thesis using that [OF s(1,2) ok] slot was s(3) by (cases "slot_knote (int fi) s") auto
qed

lemma slot_events [simp]: "slot_event 0 = EPOLLIN" "slot_event 1 = EPOLLOUT"
  by (simp_all add: slot_event_def)

lemma epoll_flags [simp]:
  "has_flag EPOLLIN EPOLLIN" "\<not> has_flag EPOLLIN EPOLLOUT" "has_flag EPOLLOUT EPOLLOUT" "\<not> has_flag EPOLLOUT EPOLLIN"
  "has_flag EPOLLIN (EPOLLIN OR EPOLLOUT)" "has_flag EPOLLOUT (EPOLLIN OR EPOLLOUT)" "EPOLLIN \<noteq> 0" "EPOLLOUT \<noteq> 0"
  by (simp_all add: has_flag_def EPOLLIN_def EPOLLOUT_def)

lemma lk_view_fds [simp]: "lk_view (k\<lparr>kn_fds := x\<rparr>) = (lk_view k)\<lparr>v_fds := x\<rparr>"
  by (simp add: lk_view_def is_file_def)

text \<open>Writing the knote's pointer and its slot.\<close>

lemma mux_slot:
  assumes m: "mux K I fi kn w v" and ev: "v_events v \<noteq> 0" and nf: "x \<noteq> None \<Longrightarrow> \<not> v_file v"
    and s: "fdss w f = Some s" "fds_fd s = fd_of (v_ident v)" "slot_knote (int fi) s \<in> {None, Some kn}" "v_fds v \<in> {None, Some f}"
    and agree: "x = Some f \<and> y = Some kn \<or> x = None \<and> y = None"
    and w': "w' = upd_knote kn (\<lambda>k. k\<lparr>kn_fds := x\<rparr>) (w\<lparr>fdss := (fdss w)(f \<mapsto> set_slot (int fi) y s)\<rparr>)"
  shows "mux K I fi kn w' (v\<lparr>v_fds := x\<rparr>)" "op_frame fi kn r w w'"
proof -
  note d = muxD [OF m]
  obtain k where k: "knotes w kn = Some k" "v = lk_view k" using d(2) by (auto simp: view_def)
  have "view (w\<lparr>fdss := g\<rparr>) = view w" for g by (simp add: view_def fun_eq_iff)
  then have view': "view w' = (view w)(kn \<mapsto> v\<lparr>v_fds := x\<rparr>)" using k by (simp add: w' view_upd_knote)
  have "linux_inv K I w'"
    by (rule linux_inv_slot [OF d(1,2,4) nf ev s(1,2) _ s(4) agree view'])
      (use s(3) d(3) in \<open>simp_all add: w' upd_knote_def\<close>)
  moreover have "sole kn w'" using d(2,5) unfolding sole_def view' by (auto split: if_splits)
  ultimately show "mux K I fi kn w' (v\<lparr>v_fds := x\<rparr>)" using m view' by (simp add: mux_def)
  show "op_frame fi kn r w w'" using k(1) by (simp add: w' op_frame_def upd_knote_def kn_core_def)
qed

lemma find_fds_param: "fds \<in> {None, find_fds None k w} \<Longrightarrow> find_fds fds k w = find_fds None k w"
  by (auto simp: find_fds_def split: option.splits)

lemma mod_ok:
  assumes m: "mux K I fi kn w v" and k: "knotes w kn = Some k" and ev: "v_events v \<noteq> 0" and nf: "\<not> v_file v"
    and fds: "fds \<in> {None, find_fds None k w}"
  obtains w' f where "epoll_fd_state_mod fds kn (slot_event (int fi)) w = Some (w', Some f, 0)"
    "mux K I fi kn w' (v\<lparr>v_fds := Some f\<rparr>)" "op_frame fi kn False w w'"
proof -
  have fi: "fi = 0 \<or> fi = 1" using m by (auto simp: mux_def)
  obtain w1 f s where w1: "(case find_fds None k w of Some f \<Rightarrow> (w, Some f) | None \<Rightarrow> new_fd_state (fd_of (ident (kev k))) w) = (w1, Some f)"
    "mux K I fi kn w1 v" "knotes w1 = knotes w" "op_frame fi kn False w w1"
    and s: "fdss w1 f = Some s" "fds_fd s = fd_of (v_ident v)" "slot_knote (int fi) s \<in> {None, Some kn}" "v_fds v \<in> {None, Some f}"
  proof (cases "find_fds None k w")
    case (Some f)
    obtain s where "fdss w f = Some s" "fds_fd s = fd_of (v_ident v)" "slot_knote (int fi) s \<in> {None, Some kn}" "v_fds v \<in> {None, Some f}"
      using find_fds_ok [OF m k Some] by metis
    then show ?thesis using that [of w f s] m Some by simp
  next
    case None
    have kv: "v = lk_view k" using muxD(2) [OF m] k by (simp add: view_def)
    obtain w1 r where n: "new_fd_state (fd_of (ident (kev k))) w = (w1, r)" by (meson surj_pair)
    have free: "idx_find (kq_fd_st w) (fd_of (ident (kev k))) = None" "v_fds v = None"
      using None kv by (auto simp: find_fds_def lk_view_def split: option.splits)
    from new_fd_state_ok [OF muxD(1) [OF m] free(1) n, of fi kn] obtain f u where
      w1: "r = Some f" "linux_inv K I w1" "view w1 = view w" "knotes w1 = knotes w" "op_frame fi kn False w w1"
        "fdss w1 = (fdss w)(f \<mapsto> \<lparr>fds_fd = fd_of (ident (kev k)), fds_read = None, fds_write = None, fds_udata = Some u\<rparr>)" .
    have "mux K I fi kn w1 v" using m w1(2,3) by (simp add: mux_def sole_def)
    then show ?thesis using that [of w1 f] None n w1 kv free(2) by (simp add: slot_knote_def lk_view_def)
  qed
  let ?w' = "upd_knote kn (\<lambda>k. k\<lparr>kn_fds := Some f\<rparr>) (w1\<lparr>fdss := (fdss w1)(f \<mapsto> set_slot (int fi) (Some kn) s)\<rparr>)"
  have "mux K I fi kn ?w' (v\<lparr>v_fds := Some f\<rparr>)" "op_frame fi kn False w1 ?w'"
    using mux_slot [OF w1(2) ev _ s _ refl, where x = "Some f" and y = "Some kn"] nf by simp_all
  moreover have "epoll_fd_state_mod fds kn (slot_event (int fi)) w = Some (?w', Some f, 0)"
    using fi k w1(1) s(1,3)
    by (elim disjE) (auto simp: epoll_fd_state_mod_def find_fds_param [OF fds] Let_def set_slot_def slot_knote_def)
  ultimately show ?thesis using that op_frame_trans [OF w1(4)] by blast
qed

lemma del_ok:
  assumes m: "mux K I fi kn w v" and k: "knotes w kn = Some k" and at: "v_fds v = Some f" and fds: "fds \<in> {None, Some f}"
  obtains w' fds' where "epoll_fd_state_del fds kn (slot_event (int fi)) w = Some (w', fds')"
    "mux K I fi kn w' (v\<lparr>v_fds := None\<rparr>)" "op_frame fi kn False w w'"
proof -
  have fi: "fi = 0 \<or> fi = 1" using m by (auto simp: mux_def)
  have kf: "kn_fds k = Some f" using muxD(2) [OF m] k at by (auto simp: view_def lk_view_def)
  then have "find_fds None k w = Some f" by (simp add: find_fds_def)
  from find_fds_ok [OF m k this] obtain s where s: "fdss w f = Some s" "fds_fd s = fd_of (v_ident v)" "fds_ok w f s"
    "slot_knote (int fi) s \<in> {None, Some kn}" "v_fds v = None \<longleftrightarrow> slot_knote (int fi) s = None" "v_fds v \<in> {None, Some f}" .
  then have own: "slot_knote (int fi) s = Some kn" using at by auto
  have ev: "v_events v \<noteq> 0"
  proof -
    have "slot_ok (view w) f s (int fi)" using s(3) slot_knote_range [OF own] by (auto simp: fds_ok_def)
    then show ?thesis using own muxD(2) [OF m] by (auto simp: slot_ok_def)
  qed
  let ?s = "set_slot (int fi) None s"
  let ?w1 = "upd_knote kn (\<lambda>k. k\<lparr>kn_fds := None\<rparr>) (w\<lparr>fdss := (fdss w)(f \<mapsto> ?s)\<rparr>)"
  have w1: "mux K I fi kn ?w1 (v\<lparr>v_fds := None\<rparr>)" "op_frame fi kn False w ?w1"
    using mux_slot [OF m ev _ s(1,2,4,6) _ refl, where x = None and y = None] by simp_all
  have run: "epoll_fd_state_del fds kn (slot_event (int fi)) w =
      (if fds_read ?s = None \<and> fds_write ?s = None then
         Option.bind (epoll_udata_defer_free (fds_udata s) w) (\<lambda>w2.
           Some (upd_knote kn (\<lambda>k. k\<lparr>kn_fds := None\<rparr>) (w2\<lparr>kq_fd_st := idx_remove f (kq_fd_st w2), fdss := (fdss w2)(f := None)\<rparr>), None))
       else Some (?w1, fds))"
    using fi k kf s(1) own fds
    by (elim disjE) (auto simp: epoll_fd_state_del_def Let_def slot_knote_def set_slot_def)
  show ?thesis
  proof (cases "fds_read ?s = None \<and> fds_write ?s = None")
    case False
    then have "epoll_fd_state_del fds kn (slot_event (int fi)) w = Some (?w1, fds)" using run by auto
    from that [OF this w1] show ?thesis .
  next
    case True
    have "udata_ok (udatas w) (EPOLL_UDATA_FD_STATE f) (fds_udata s)" using s(3) by (simp add: fds_ok_def)
    then obtain w2 where w2: "epoll_udata_defer_free (fds_udata s) w = Some w2"
      by (cases "fds_udata s") (auto simp: epoll_udata_defer_free_def udata_ok_def)
    then have f2: "knotes w2 = knotes w" "fdss w2 = fdss w" "kq_fd_st w2 = kq_fd_st w" "calloc_ok w2 = calloc_ok w"
      "next_addr w2 = next_addr w" "kq_filt w2 = kq_filt w" "kq_knote_count w2 = kq_knote_count w" "kq_inflight w2 = kq_inflight w"
      by (auto simp: epoll_udata_defer_free_def bind_eq_Some_conv split: option.splits if_splits)
    let ?w' = "upd_knote kn (\<lambda>k. k\<lparr>kn_fds := None\<rparr>) (w2\<lparr>kq_fd_st := idx_remove f (kq_fd_st w2), fdss := (fdss w2)(f := None)\<rparr>)"
    obtain w3 where w3: "epoll_udata_defer_free (fds_udata ?s) ?w1 = Some w3" "udatas w3 = udatas w2" "ud_deferred_free w3 = ud_deferred_free w2"
      using w2 by (auto simp: epoll_udata_defer_free_def bind_eq_Some_conv upd_knote_def split: option.splits if_splits)
    have view': "view ?w' = view ?w1" using f2(1) by (simp add: view_def fun_eq_iff)
    have "linux_inv K I ?w'"
      by (rule linux_inv_drop_fds [OF muxD(1) [OF w1(1)] _ _ _ w3(1) view', where f = f])
        (use True f2 w3 in \<open>simp_all add: upd_knote_def\<close>)
    then have "mux K I fi kn ?w' (v\<lparr>v_fds := None\<rparr>)" using w1(1) view' by (simp add: mux_def sole_def)
    moreover have "op_frame fi kn False w ?w'" using k f2 by (simp add: op_frame_def upd_knote_def kn_core_def)
    moreover have "epoll_fd_state_del fds kn (slot_event (int fi)) w = Some (?w', None)" using run True w2 by simp
    ultimately show ?thesis using that by blast
  qed
qed

subsection \<open>The events of an fd_state\<close>

text \<open>Does the slot hold a knote that is disabled (or enabled)?\<close>

definition slot_on :: "('o, 'z) lw \<Rightarrow> bool \<Rightarrow> fd_state \<Rightarrow> int \<Rightarrow> bool" where
  "slot_on w d s fi \<longleftrightarrow> fds_match (slot_knote fi s) d w = Some True"

definition fds_events :: "('o, 'z) lw \<Rightarrow> bool \<Rightarrow> fd_state \<Rightarrow> u32" where
  "fds_events w d s = (if slot_on w d s 0 then EPOLLIN else 0) OR (if slot_on w d s 1 then EPOLLOUT else 0)"

lemma fds_match_live:
  assumes "fds_ok w f s" "fi \<in> {0, 1}"
  shows "fds_match (slot_knote fi s) d w = Some (slot_on w d s fi)"
proof (cases "slot_knote fi s")
  case None
  then show ?thesis by (simp add: slot_on_def fds_match_def)
next
  case (Some a)
  then have "view w a \<noteq> None" using assms by (auto simp: fds_ok_def slot_ok_def)
  then obtain k where "knotes w a = Some k" by (auto simp: view_def)
  then show ?thesis using Some by (simp add: slot_on_def fds_match_def)
qed

lemma epoll_fd_state_found:
  assumes "knotes w kn = Some k" "find_fds fds k w = Some f" "fdss w f = Some s" "fds_ok w f s"
  shows "epoll_fd_state fds kn d w = Some (Some f, fds_events w d s)"
  using assms fds_match_live [OF assms(4), of 0 d] fds_match_live [OF assms(4), of 1 d]
  by (simp add: epoll_fd_state_def fds_events_def slot_knote_def)

lemma epoll_fd_state_none:
  "knotes w kn = Some k \<Longrightarrow> find_fds fds k w = None \<Longrightarrow> epoll_fd_state fds kn d w = Some (None, 0)"
  by (simp add: epoll_fd_state_def)

text \<open>A slot is not both enabled and disabled, and an empty slot is neither.\<close>

lemma slot_on_excl: "slot_on w True s fi \<Longrightarrow> \<not> slot_on w False s fi"
  by (auto simp: slot_on_def fds_match_def bind_eq_Some_conv split: option.splits)

lemma slot_on_Some: "slot_on w d s fi \<Longrightarrow> \<exists>a. slot_knote fi s = Some a"
  by (auto simp: slot_on_def fds_match_def split: option.splits)

lemma slot_on_or:
  assumes "fds_ok w f s" "slot_knote fi s = Some a"
  shows "slot_on w True s fi \<or> slot_on w False s fi"
proof -
  have "view w a \<noteq> None" using assms slot_knote_range [OF assms(2)] by (auto simp: fds_ok_def slot_ok_def)
  then obtain k where "knotes w a = Some k" by (auto simp: view_def)
  then show ?thesis using assms(2) by (simp add: slot_on_def fds_match_def)
qed

subsection \<open>\<open>epoll_update\<close>\<close>

lemma mux_syscall:
  assumes "mux K I fi kn w v" "syscall f w = (w', rv)"
  shows "mux K I fi kn w' v" "knotes w' = knotes w" "fdss w' = fdss w" "op_frame fi kn False w w'"
proof -
  note c = syscall_fields [OF assms(2)]
  show "knotes w' = knotes w" "fdss w' = fdss w" "op_frame fi kn False w w'" using c by simp_all
  have "calloc_ok w' = calloc_ok w" "next_addr w \<le> next_addr w'" using c(1) [of fi kn False] by (simp_all add: op_frame_def)
  then have "linux_inv K I w'" using linux_inv_cong [OF c(2-7)] muxD(1) [OF assms(1)] by blast
  then show "mux K I fi kn w' v" using assms(1) c(2) by (simp add: mux_def sole_def)
qed

lemma ctl_errno:
  assumes "ctl_law K" "op \<noteq> EPOLL_CTL_ADD" "syscall (sys_epoll_ctl K ep op fd ev u) w = (w', rv)" "rv < 0"
  shows "errno w' = EBADF \<or> errno w' = ENOENT"
  using assms(1) [unfolded ctl_law_def, rule_format, OF assms(2), of ep fd ev u "os w"] assms(3,4)
  by (auto simp: syscall_def split: prod.splits)

text \<open>The result of an update: it returns, and the knote is attached to \<open>x\<close>.\<close>

definition upd_res ::
  "'o kernel \<Rightarrow> (nat \<times> u64) list \<Rightarrow> nat \<Rightarrow> addr \<Rightarrow> ('o, 'z) lw \<Rightarrow> kn_view \<Rightarrow> (int \<Rightarrow> addr option \<Rightarrow> bool) \<Rightarrow> (('o, 'z) lw \<times> int) option \<Rightarrow> bool" where
  "upd_res K I fi kn w v P m \<longleftrightarrow>
     (\<exists>w' rv x. m = Some (w', rv) \<and> mux K I fi kn w' (v\<lparr>v_fds := x\<rparr>) \<and> op_frame fi kn False w w' \<and>
        rv \<in> {0, -1} \<and> P rv x)"

lemma upd_resI:
  "m = Some (w', rv) \<Longrightarrow> mux K I fi kn w' (v\<lparr>v_fds := x\<rparr>) \<Longrightarrow> op_frame fi kn False w w' \<Longrightarrow> rv \<in> {0, -1} \<Longrightarrow> P rv x \<Longrightarrow>
   upd_res K I fi kn w v P m"
  by (auto simp: upd_res_def)

lemma epollinout:
  "EV_EPOLLINOUT (x OR y) = EV_EPOLLINOUT x OR EV_EPOLLINOUT y" "EV_EPOLLINOUT EPOLLIN = EPOLLIN"
  "EV_EPOLLINOUT EPOLLOUT = EPOLLOUT" "EV_EPOLLINOUT 0 = 0"
  by (simp_all add: EV_EPOLLINOUT_def EPOLLIN_def EPOLLOUT_def bit.conj_disj_distrib2)

text \<open>The first registration of a descriptor.\<close>

lemma update_add_new:
  assumes m: "mux K I fi kn w v" and k: "knotes w kn = Some k" and ev: "v_events v \<noteq> 0" "\<not> v_file v" "EV_EPOLLINOUT ev = slot_event (int fi)"
    and st: "epoll_fd_state None kn False w = Some (fds, 0)" and fds: "fds \<in> {None, find_fds None k w}"
  shows "upd_res K I fi kn w v (\<lambda>rv x. rv < 0 \<longrightarrow> x = None) (epoll_update K EPOLL_CTL_ADD kn ev False w)"
proof -
  have e: "slot_event (int fi) \<noteq> 0" using m by (auto simp: mux_def slot_event_def)
  obtain w1 f where w1: "epoll_fd_state_mod fds kn (slot_event (int fi)) w = Some (w1, Some f, 0)"
      "mux K I fi kn w1 (v\<lparr>v_fds := Some f\<rparr>)" "op_frame fi kn False w w1"
    using mod_ok [OF m k ev(1,2) fds] .
  obtain s where s: "fdss w1 f = Some s" using muxD(6) [OF w1(2)] by (auto simp: kn_ok_def)
  obtain w2 rv where w2: "syscall (sys_epoll_ctl K (epollfd w1) EPOLL_CTL_ADD (fd_of (ident (kev k))) ev (fds_udata s)) w1 = (w2, rv)"
    by (meson surj_pair)
  note m2 = mux_syscall [OF w1(2) w2]
  have fr: "op_frame fi kn False w w2" using op_frame_trans [OF w1(3) m2(4)] .
  have run: "epoll_update K EPOLL_CTL_ADD kn ev False w =
      (if rv < 0 then Option.bind (epoll_fd_state_del (Some f) kn (slot_event (int fi)) w2) (\<lambda>(w, fds). Some (w, -1))
       else Some (w2, 0))"
    using k st ev(3) e w1(1) s w2
    by (simp add: epoll_update_def epoll_update_want_def epoll_update_failed_def epoll_update_done_def)
  show ?thesis
  proof (cases "rv < 0")
    case True
    obtain k2 where "knotes w2 kn = Some k2" using muxD(2) [OF m2(1)] by (auto simp: view_def)
    from del_ok [OF m2(1) this, of f "Some f"] obtain w3 fds' where
      w3: "epoll_fd_state_del (Some f) kn (slot_event (int fi)) w2 = Some (w3, fds')" "mux K I fi kn w3 (v\<lparr>v_fds := None\<rparr>)"
        "op_frame fi kn False w2 w3" by auto
    show ?thesis using run True w3 op_frame_trans [OF fr w3(3)] by (intro upd_resI [of _ w3 "-1"]) simp_all
  next
    case False
    then show ?thesis using run m2 fr by (intro upd_resI [of _ w2 0]) simp_all
  qed
qed

text \<open>The event of the filter, and the event of the other filter of the descriptor.\<close>

abbreviation other_event :: "nat \<Rightarrow> u32" where
  "other_event fi \<equiv> slot_event (1 - int fi)"

lemma fds_events_split:
  "fi = 0 \<or> fi = 1 \<Longrightarrow>
   fds_events w d s = (if slot_on w d s (int fi) then slot_event (int fi) else 0) OR
                      (if slot_on w d s (1 - int fi) then other_event fi else 0)"
  by (auto simp: fds_events_def or.commute)

lemma slot_words:
  assumes "fi = 0 \<or> fi = 1"
  shows "slot_event (int fi) \<noteq> 0" "other_event fi \<noteq> 0" "slot_event (int fi) \<noteq> other_event fi"
    "slot_event (int fi) OR other_event fi \<noteq> other_event fi" "slot_event (int fi) OR other_event fi \<noteq> slot_event (int fi)"
    "slot_event (int fi) OR other_event fi \<noteq> 0"
    "slot_event (int fi) AND slot_event (int fi) = slot_event (int fi)"
    "other_event fi AND slot_event (int fi) = 0"
    "(slot_event (int fi) OR other_event fi) AND slot_event (int fi) = slot_event (int fi)"
    "slot_event (int fi) AND NOT (slot_event (int fi)) = 0"
    "other_event fi AND NOT (slot_event (int fi)) = other_event fi"
    "(slot_event (int fi) OR other_event fi) AND NOT (slot_event (int fi)) = other_event fi"
    "(slot_event (int fi) OR other_event fi) AND NOT (other_event fi) = slot_event (int fi)"
    "slot_event (int fi) AND NOT (other_event fi) = slot_event (int fi)"
    "slot_event (int fi) AND NOT (slot_event (int fi) OR other_event fi) = 0"
    "other_event fi AND NOT (slot_event (int fi) OR other_event fi) = 0"
    "EV_EPOLLINOUT (slot_event (int fi)) = slot_event (int fi)" "EV_EPOLLINOUT (other_event fi) = other_event fi"
    "other_event fi OR slot_event (int fi) = slot_event (int fi) OR other_event fi"
  using assms by (auto simp: EPOLLIN_def EPOLLOUT_def EV_EPOLLINOUT_def)

lemma find_fds_syscall:
  "syscall f w = (w', rv) \<Longrightarrow> find_fds x k w' = find_fds x k w"
  using syscall_fields(5) [of f w w' rv] by (simp add: find_fds_def split: option.split)

text \<open>A registration beside the other filter's.\<close>

lemma update_add_mod:
  assumes m: "mux K I fi kn w v" and k: "knotes w kn = Some k" and ev: "v_events v \<noteq> 0" "\<not> v_file v" "EV_EPOLLINOUT ev = slot_event (int fi)"
    and st: "epoll_fd_state None kn False w = Some (Some f, other_event fi)" and f: "find_fds None k w = Some f"
  shows "upd_res K I fi kn w v (\<lambda>rv x. rv < 0 \<and> v_fds v = None \<longrightarrow> x = None) (epoll_update K EPOLL_CTL_ADD kn ev False w)"
proof -
  have fi: "fi = 0 \<or> fi = 1" using m by (auto simp: mux_def)
  note sw = slot_words [OF fi]
  obtain s where s: "fdss w f = Some s" using find_fds_ok [OF m k f] by metis
  let ?want = "other_event fi OR ev"
  obtain w2 rv where w2: "syscall (sys_epoll_ctl K (epollfd w) EPOLL_CTL_MOD (fd_of (ident (kev k))) ?want (fds_udata s)) w = (w2, rv)"
    by (meson surj_pair)
  note m2 = mux_syscall [OF m w2]
  have want: "EV_EPOLLINOUT ?want = slot_event (int fi) OR other_event fi" using ev(3) sw by (simp add: epollinout)
  have k2: "knotes w2 kn = Some k" using m2(2) k by simp
  have run: "epoll_update K EPOLL_CTL_ADD kn ev False w =
      (if rv < 0 then epoll_update_failed EPOLL_CTL_MOD (Some f) kn (other_event fi) (slot_event (int fi) OR other_event fi) w2
       else epoll_update_done EPOLL_CTL_MOD (Some f) kn (other_event fi) (slot_event (int fi) OR other_event fi) False w2)"
    using k st want sw s w2 by (simp add: epoll_update_def epoll_update_want_def)
  show ?thesis
  proof (cases "rv < 0")
    case True
    have "ctl_law K" using muxD(1) [OF m] by (simp add: linux_inv_def)
    then have "errno w2 = EBADF \<or> errno w2 = ENOENT" using ctl_errno [OF _ _ w2 True] by simp
    moreover have "(if a then EPOLLIN else if b then EPOLLOUT else 0) AND NOT (slot_event (int fi) OR other_event fi) = 0" for a b
      using fi by (auto simp: EPOLLIN_def EPOLLOUT_def)
    ultimately have "epoll_update K EPOLL_CTL_ADD kn ev False w = Some (w2, -1)"
      using run True s m2(3) unfolding epoll_update_failed_def by auto
    then show ?thesis using m2 by (intro upd_resI [of _ w2 "-1", where x = "v_fds v"]) simp_all
  next
    case False
    obtain w3 g where w3: "epoll_fd_state_mod (Some f) kn (slot_event (int fi)) w2 = Some (w3, Some g, 0)"
        "mux K I fi kn w3 (v\<lparr>v_fds := Some g\<rparr>)" "op_frame fi kn False w2 w3"
      using mod_ok [OF m2(1) k2 ev(1,2), of "Some f"] find_fds_syscall [OF w2] f by auto
    then have "epoll_update K EPOLL_CTL_ADD kn ev False w = Some (w3, 0)"
      using run False sw by (simp add: epoll_update_done_def)
    then show ?thesis using w3 op_frame_trans [OF m2(4) w3(3)] by (intro upd_resI [of _ w3 0]) simp_all
  qed
qed

lemma update_add_ok:
  assumes m: "mux K I fi kn w v" and ev: "v_events v \<noteq> 0" "\<not> v_file v" "EV_EPOLLINOUT ev = slot_event (int fi)"
  shows "upd_res K I fi kn w v (\<lambda>rv x. rv < 0 \<and> v_fds v = None \<longrightarrow> x = None) (epoll_update K EPOLL_CTL_ADD kn ev False w)"
proof -
  have fi: "fi = 0 \<or> fi = 1" using m by (auto simp: mux_def)
  note sw = slot_words [OF fi]
  obtain k where k: "knotes w kn = Some k" using muxD(2) [OF m] by (auto simp: view_def)
  have weaken: "upd_res K I fi kn w v (\<lambda>rv x. rv < 0 \<longrightarrow> x = None) r \<Longrightarrow>
      upd_res K I fi kn w v (\<lambda>rv x. rv < 0 \<and> v_fds v = None \<longrightarrow> x = None) r" for r by (auto simp: upd_res_def)
  show ?thesis
  proof (cases "find_fds None k w")
    case None
    then show ?thesis using weaken [OF update_add_new [OF m k ev epoll_fd_state_none [OF k None]]] by simp
  next
    case (Some f)
    obtain s where s: "fdss w f = Some s" "fds_ok w f s" using find_fds_ok [OF m k Some] by metis
    note st = epoll_fd_state_found [OF k Some s, of False, unfolded fds_events_split [OF fi]]
    consider (on) "slot_on w False s (int fi)" | (new) "\<not> slot_on w False s (int fi)" "\<not> slot_on w False s (1 - int fi)"
      | (mod) "\<not> slot_on w False s (int fi)" "slot_on w False s (1 - int fi)" by blast
    then show ?thesis
    proof cases
      case on
      then have "epoll_update K EPOLL_CTL_ADD kn ev False w = Some (w, 0)"
        using k st ev(3) sw by (auto simp: epoll_update_def epoll_update_want_def epollinout or.assoc or.left_commute)
      then show ?thesis using m by (intro upd_resI [of _ w 0, where x = "v_fds v"]) simp_all
    next
      case new
      then show ?thesis using weaken [OF update_add_new [OF m k ev, of "Some f"]] st Some by simp
    next
      case mod
      then show ?thesis using update_add_mod [OF m k ev _ Some] st by simp
    qed
  qed
qed

text \<open>A removal; with \<open>d\<close> the knote is detached for good.\<close>

lemma update_del_live:
  assumes m: "mux K I fi kn w v" and k: "knotes w kn = Some k" and f: "find_fds None k w = Some f"
    and s: "fdss w f = Some s" "fds_ok w f s" and on: "slot_on w False s (int fi)"
  shows "upd_res K I fi kn w v (\<lambda>rv x. d \<longrightarrow> x = None) (epoll_update K EPOLL_CTL_DEL kn (slot_event (int fi)) d w)"
proof -
  have fi: "fi = 0 \<or> fi = 1" using m by (auto simp: mux_def)
  note sw = slot_words [OF fi]
  define oth where "oth = (if slot_on w False s (1 - int fi) then other_event fi else 0)"
  let ?have = "slot_event (int fi) OR oth"
  let ?op = "if oth = 0 then EPOLL_CTL_DEL else EPOLL_CTL_MOD"
  have st: "epoll_fd_state None kn False w = Some (Some f, ?have)"
    using epoll_fd_state_found [OF k f s, of False] fds_events_split [OF fi, of w False s] on by (simp add: oth_def)
  have "\<not> slot_on w True s (int fi)" using on slot_on_excl by blast
  then have st2: "epoll_fd_state (Some f) kn True w = Some (Some f, if slot_on w True s (1 - int fi) then other_event fi else 0)"
    using epoll_fd_state_found [OF k _ s, of "Some f" True] fds_events_split [OF fi, of w True s] by (simp add: find_fds_def)
  obtain a where "slot_knote (int fi) s = Some a" using slot_on_Some [OF on] by blast
  then have own: "slot_knote (int fi) s = Some kn" "v_fds v = Some f" using find_fds_ok [OF m k f] s(1) by fastforce+
  obtain w2 rv where w2: "syscall (sys_epoll_ctl K (epollfd w) ?op (fd_of (ident (kev k))) oth (fds_udata s)) w = (w2, rv)"
    by (meson surj_pair)
  note m2 = mux_syscall [OF m w2]
  have k2: "knotes w2 kn = Some k" using m2(2) k by simp
  obtain w3 fds' where w3: "epoll_fd_state_del (Some f) kn (slot_event (int fi)) w2 = Some (w3, fds')"
      "mux K I fi kn w3 (v\<lparr>v_fds := None\<rparr>)" "op_frame fi kn False w2 w3"
    using del_ok [OF m2(1) k2 own(2), of "Some f"] by auto
  have td: "(if b then other_event fi else 0) AND slot_event (int fi) = 0" for b using sw by simp
  have run: "epoll_update K EPOLL_CTL_DEL kn (slot_event (int fi)) d w =
      (if rv < 0 then epoll_update_failed ?op (Some f) kn ?have oth w2 else epoll_update_done ?op (Some f) kn ?have oth d w2)"
  proof -
    have "epoll_update_want EPOLL_CTL_DEL kn (slot_event (int fi)) d w = Some (w, Some f, ?have, ?have AND NOT (slot_event (int fi)))"
      using st st2 td sw(17) by (cases d) (simp_all add: epoll_update_want_def)
    moreover have "?have AND NOT (slot_event (int fi)) = oth" "EV_EPOLLINOUT oth = oth" "?have \<noteq> oth" "?have \<noteq> 0"
      using sw(1,4,6,10,12,18) by (simp_all add: epollinout oth_def)
    ultimately show ?thesis using k s(1) w2 by (auto simp: epoll_update_def)
  qed
  show ?thesis
  proof (cases "rv < 0")
    case True
    have "ctl_law K" using muxD(1) [OF m] by (simp add: linux_inv_def)
    then have "errno w2 = EBADF \<or> errno w2 = ENOENT" using ctl_errno [OF _ _ w2 True] by simp
    moreover have "(if fds_read s = Some kn then EPOLLIN else if fds_write s = Some kn then EPOLLOUT else 0) = slot_event (int fi)"
    proof -
      have "slot_ok (view w) f s 0" using s(2) by (simp add: fds_ok_def)
      then show ?thesis using own(1) muxD(2,3) [OF m] fi by (auto simp: slot_ok_def slot_knote_def)
    qed
    moreover have "slot_event (int fi) AND NOT oth = slot_event (int fi)" using sw by (simp add: oth_def)
    ultimately have "epoll_update K EPOLL_CTL_DEL kn (slot_event (int fi)) d w = Some (w3, 0)"
      using run True s(1) m2(3) w3(1) sw(1) unfolding epoll_update_failed_def by auto
    then show ?thesis using w3 op_frame_trans [OF m2(4) w3(3)] by (intro upd_resI [of _ w3 0, where x = None]) simp_all
  next
    case False
    then have "epoll_update K EPOLL_CTL_DEL kn (slot_event (int fi)) d w = (if d then Some (w3, 0) else Some (w2, 0))"
      using run w3(1) sw by (cases "slot_on w False s (1 - int fi)") (auto simp: epoll_update_done_def oth_def)
    then show ?thesis
      using w3 op_frame_trans [OF m2(4) w3(3)] m2 upd_resI [of _ w3 0, where x = None] upd_resI [of _ w2 0, where x = "v_fds v"]
      by (cases d) simp_all
  qed
qed

lemma update_del_ok:
  assumes m: "mux K I fi kn w v"
  shows "upd_res K I fi kn w v (\<lambda>rv x. d \<longrightarrow> x = None) (epoll_update K EPOLL_CTL_DEL kn (slot_event (int fi)) d w)"
proof -
  have fi: "fi = 0 \<or> fi = 1" using m by (auto simp: mux_def)
  note sw = slot_words [OF fi]
  obtain k where k: "knotes w kn = Some k" "v = lk_view k" using muxD(2) [OF m] by (auto simp: view_def)
  show ?thesis
  proof (cases "find_fds None k w")
    case None
    then have "v_fds v = None" using k(2) by (auto simp: find_fds_def lk_view_def split: option.splits)
    then have "v\<lparr>v_fds := None\<rparr> = v" by (cases v) simp
    moreover have "epoll_update K EPOLL_CTL_DEL kn (slot_event (int fi)) d w = Some (w, 0)"
      using k(1) epoll_fd_state_none [OF k(1) None] by (simp add: epoll_update_def epoll_update_want_def epollinout)
    ultimately show ?thesis using m by (intro upd_resI [of _ w 0, where x = None]) simp_all
  next
    case (Some f)
    obtain s where s: "fdss w f = Some s" "fds_ok w f s" "slot_knote (int fi) s \<in> {None, Some kn}"
        "v_fds v = None \<longleftrightarrow> slot_knote (int fi) s = None" "v_fds v \<in> {None, Some f}"
      using find_fds_ok [OF m k(1) Some] by metis
    let ?oth = "\<lambda>d. if slot_on w d s (1 - int fi) then other_event fi else 0"
    show ?thesis
    proof (cases "slot_on w False s (int fi)")
      case True
      then show ?thesis using update_del_live [OF m k(1) Some s(1,2)] by blast
    next
      case off: False
      have st: "epoll_fd_state None kn False w = Some (Some f, ?oth False)"
        using epoll_fd_state_found [OF k(1) Some s(1,2), of False] fds_events_split [OF fi, of w False s] off by simp
      have st2: "epoll_fd_state (Some f) kn True w =
          Some (Some f, (if slot_on w True s (int fi) then slot_event (int fi) else 0) OR ?oth True)"
        using epoll_fd_state_found [OF k(1) _ s(1,2), of "Some f" True] fds_events_split [OF fi, of w True s] by (simp add: find_fds_def)
      have want: "?oth False AND NOT (slot_event (int fi)) = ?oth False" "EV_EPOLLINOUT (?oth False) = ?oth False"
        "?oth True AND slot_event (int fi) = 0" "(slot_event (int fi) OR ?oth True) AND slot_event (int fi) = slot_event (int fi)"
        using sw by (simp_all add: epollinout)
      show ?thesis
      proof (cases "d \<and> slot_on w True s (int fi)")
        case True
        then have "v_fds v = Some f" using slot_on_Some [of w True s "int fi"] s by auto
        then obtain w3 fds' where w3: "epoll_fd_state_del (Some f) kn (slot_event (int fi)) w = Some (w3, fds')"
            "mux K I fi kn w3 (v\<lparr>v_fds := None\<rparr>)" "op_frame fi kn False w w3"
          using del_ok [OF m k(1), of f "Some f"] by auto
        then have "epoll_update K EPOLL_CTL_DEL kn (slot_event (int fi)) d w = Some (w3, 0)"
          using k(1) st st2 want sw True by (simp add: epoll_update_def epoll_update_want_def)
        then show ?thesis using w3 by (intro upd_resI [of _ w3 0, where x = None]) simp_all
      next
        case False
        then have "d \<Longrightarrow> v_fds v = None" using off s slot_on_or [OF s(2), of "int fi" kn] by auto
        moreover have "epoll_update K EPOLL_CTL_DEL kn (slot_event (int fi)) d w = Some (w, 0)"
          using k(1) st st2 want sw False by (cases d) (simp_all add: epoll_update_def epoll_update_want_def)
        ultimately show ?thesis using m by (intro upd_resI [of _ w 0, where x = "v_fds v"]) simp_all
      qed
    qed
  qed
qed

end
