(* ===== verification/Linux_Read.thy ===== *)
theory Linux_Read
  imports Linux_Mux
begin

text \<open>
  EVFILT_READ and EVFILT_WRITE on Linux (\<^verbatim>\<open>linux/read.c\<close>, \<^verbatim>\<open>linux/write.c\<close>, and the
  descriptor classification of \<^verbatim>\<open>linux/platform.c\<close>).  epoll refuses regular files,
  so a knote on a file polls a surrogate eventfd that is always readable; every
  other descriptor goes through \<open>epoll_update\<close>.
\<close>

subsection \<open>Descriptor types\<close>

definition set_kn_flag :: "addr \<Rightarrow> u32 \<Rightarrow> ('o, 'z) lw \<Rightarrow> ('o, 'z) lw" where
  "set_kn_flag kn f w = upd_knote kn (\<lambda>k. k\<lparr>kn_flags := set_flag f (kn_flags k)\<rparr>) w"

definition sock_flag :: "sock_type \<Rightarrow> u32 option" where
  "sock_flag t = (case t of
     SOCK_STREAM \<Rightarrow> Some KNFL_SOCKET_STREAM
   | SOCK_DGRAM \<Rightarrow> Some KNFL_SOCKET_DGRAM
   | SOCK_RDM \<Rightarrow> Some KNFL_SOCKET_RDM
   | SOCK_SEQPACKET \<Rightarrow> Some KNFL_SOCKET_SEQPACKET
   | SOCK_RAW \<Rightarrow> Some KNFL_SOCKET_RAW
   | SOCK_OTHER \<Rightarrow> None)"

text \<open>The two tests for a socket that only signals: it listens, or has a packet filter.\<close>

definition passive_test :: "addr \<Rightarrow> ('o, int) sysval \<Rightarrow> ('o, 'z) lw \<Rightarrow> ('o, 'z) lw \<times> int" where
  "passive_test kn f w =
     (let (w, ret, v) = syscall_val f w in
      if ret < 0 then if errno w = ENOTSOCK then (w, 0) else (w, -1)
      else if v \<noteq> 0 then (set_kn_flag kn KNFL_SOCKET_PASSIVE w, 0)
      else (w, 0))"

definition socket_type :: "'o kernel \<Rightarrow> addr \<Rightarrow> int \<Rightarrow> ('o, 'z) lw \<Rightarrow> ('o, 'z) lw \<times> int" where
  "socket_type K kn fd w =
     (let (w, ret, t) = syscall_val (sys_so_type K fd) w in
      if ret < 0 then (w, -1)
      else case sock_flag t of
        None \<Rightarrow> (w\<lparr>errno := EBADF\<rparr>, -1)
      | Some f \<Rightarrow>
          let (w, rv) = passive_test kn (sys_so_acceptconn K fd) (set_kn_flag kn f w) in
          if rv < 0 then (w, -1) else passive_test kn (sys_so_get_filter K fd) w)"

definition linux_get_descriptor_type :: "'o kernel \<Rightarrow> addr \<Rightarrow> ('o, 'z) lw \<Rightarrow> (('o, 'z) lw \<times> int) option" where
  "linux_get_descriptor_type K kn w = do {
     k \<leftarrow> knotes w kn;
     let fd = fd_of (ident (kev k));
     let (w, rv, sb) = syscall_val (sys_fstat K fd) w;
     Some (if rv < 0 then (w, -1)
       else case st_mode sb of
         S_IFREG \<Rightarrow> (set_kn_flag kn KNFL_FILE w, 0)
       | S_IFIFO \<Rightarrow> (set_kn_flag kn KNFL_PIPE w, 0)
       | S_IFBLK \<Rightarrow> (set_kn_flag kn KNFL_BLOCKDEV w, 0)
       | S_IFCHR \<Rightarrow> (set_kn_flag kn KNFL_CHARDEV w, 0)
       | S_IFZERO \<Rightarrow> (set_kn_flag kn KNFL_SOCKET_PASSIVE (set_kn_flag kn KNFL_SOCKET w), 0)
       | S_IFSOCK \<Rightarrow> socket_type K kn fd w
       | S_IFOTHER \<Rightarrow> (w\<lparr>errno := EBADF\<rparr>, -1)) }"

text \<open>The type \<^verbatim>\<open>int\<close> a data field is converted to.\<close>

definition int_of_data :: "u64 \<Rightarrow> int" where "int_of_data d = sint (ucast d :: 32 word)"

subsection \<open>The surrogate eventfd of a regular file\<close>

text \<open>Read and write keep the descriptor in different members of a union; \<open>upd\<close>
  stores it.  The code is the same in both filters.\<close>

definition file_knote_create ::
  "'o kernel \<Rightarrow> (int \<Rightarrow> lknote \<Rightarrow> lknote) \<Rightarrow> addr \<Rightarrow> ('o, 'z) lw \<Rightarrow> (('o, 'z) lw \<times> int) option" where
  "file_knote_create K upd kn w = do {
     let w = upd_knote kn (\<lambda>k.
       if has_flag (flags (kev k)) EV_ONESHOT \<or> has_flag (flags (kev k)) EV_DISPATCH
       then k\<lparr>epoll_events := set_flag EPOLLONESHOT (epoll_events k)\<rparr> else k) w;
     let w = upd_knote kn (\<lambda>k. k\<lparr>kn_epollfd := epollfd w\<rparr>) w;
     let (w, evfd) = syscall (sys_eventfd K) w;
     if evfd < 0 then Some (w, -1)
     else do {
       let (w, rv) = syscall (sys_write8 K evfd) w;
       if rv < 0 then
         let (w, _) = syscall (sys_close K evfd) w in Some (w, -1)
       else do {
         let w = KN_UDATA_ALLOC kn (upd_knote kn (upd evfd) w);
         k \<leftarrow> knotes w kn;
         let (w, rv) = syscall (sys_epoll_ctl K (kn_epollfd k) EPOLL_CTL_ADD evfd (epoll_events k) (kn_udata k)) w;
         if rv < 0 then do {
           let (w, _) = syscall (sys_close K evfd) w;
           w \<leftarrow> KN_UDATA_FREE kn w;
           Some (w, -1) }
         else Some (upd_knote kn (\<lambda>k. k\<lparr>kn_registered := 1\<rparr>) w, 0) } } }"

definition file_knote_delete ::
  "'o kernel \<Rightarrow> (int \<Rightarrow> lknote \<Rightarrow> lknote) \<Rightarrow> int \<Rightarrow> addr \<Rightarrow> ('o, 'z) lw \<Rightarrow> (('o, 'z) lw \<times> int) option" where
  "file_knote_delete K upd evfd kn w = do {
     k \<leftarrow> knotes w kn;
     let (w, rv) = (if kn_registered k \<noteq> 0
                    then syscall (sys_epoll_ctl K (kn_epollfd k) EPOLL_CTL_DEL evfd 0 None) w else (w, 0));
     if rv < 0 then Some (w, -1)
     else do {
       let w = upd_knote kn (\<lambda>k. k\<lparr>kn_registered := 0\<rparr>) w;
       w \<leftarrow> KN_UDATA_DEFER_FREE kn w;
       let (w, _) = syscall (sys_close K evfd) w;
       Some (upd_knote kn (upd (-1)) w, 0) } }"

definition file_knote_enable :: "'o kernel \<Rightarrow> int \<Rightarrow> addr \<Rightarrow> ('o, 'z) lw \<Rightarrow> (('o, 'z) lw \<times> int) option" where
  "file_knote_enable K evfd kn w = do {
     k \<leftarrow> knotes w kn;
     let (w, rv) = syscall (sys_epoll_ctl K (kn_epollfd k) EPOLL_CTL_ADD evfd (epoll_events k) (kn_udata k)) w;
     if rv < 0 then Some (w, -1)
     else Some (upd_knote kn (\<lambda>k. k\<lparr>kn_registered := 1\<rparr>) w, 0) }"

definition file_knote_disable :: "'o kernel \<Rightarrow> int \<Rightarrow> addr \<Rightarrow> ('o, 'z) lw \<Rightarrow> (('o, 'z) lw \<times> int) option" where
  "file_knote_disable K evfd kn w = do {
     k \<leftarrow> knotes w kn;
     let (w, rv) = syscall (sys_epoll_ctl K (kn_epollfd k) EPOLL_CTL_DEL evfd 0 None) w;
     if rv < 0 then Some (w, -1)
     else Some (upd_knote kn (\<lambda>k. k\<lparr>kn_registered := 0\<rparr>) w, 0) }"

subsection \<open>EVFILT_READ\<close>

definition get_eof_offset :: "'o kernel \<Rightarrow> int \<Rightarrow> ('o, 'z) lw \<Rightarrow> ('o, 'z) lw \<times> int" where
  "get_eof_offset K fd w =
     (let (w, pos) = syscall (sys_lseek_cur K fd) w;
          curpos = (if pos = -1 then 0 else pos);
          (w, rv, sb) = syscall_val (sys_fstat K fd) w;
          size = (if rv < 0 then 1 else st_size sb)
      in (w, if curpos \<ge> size then 0 else size - curpos))"

definition evfilt_read_knote_create :: "'o kernel \<Rightarrow> addr \<Rightarrow> ('o, 'z) lw \<Rightarrow> (('o, 'z) lw \<times> int) option" where
  "evfilt_read_knote_create K kn w = do {
     (w, rv) \<leftarrow> linux_get_descriptor_type K kn w;
     if rv < 0 then Some (w, -1)
     else do {
       let w = upd_knote kn (\<lambda>k. k\<lparr>epoll_events :=
         EPOLLIN OR EPOLLRDHUP OR (if has_flag (flags (kev k)) EV_CLEAR then EPOLLET else 0)\<rparr>) w;
       k \<leftarrow> knotes w kn;
       let w = (if has_flag (fflags (kev k)) NOTE_LOWAT \<and> \<not> is_file k
                then fst (syscall (sys_set_rcvlowat K (fd_of (ident (kev k))) (int_of_data (data (kev k)))) w)
                else w);
       if is_file k then file_knote_create K (\<lambda>fd k. k\<lparr>kn_read_eventfd := fd\<rparr>) kn w
       else epoll_update K EPOLL_CTL_ADD kn (epoll_events k) False w } }"

definition evfilt_read_knote_modify ::
  "'o kernel \<Rightarrow> addr \<Rightarrow> kevent \<Rightarrow> ('o, 'z) lw \<Rightarrow> (('o, 'z) lw \<times> int) option" where
  "evfilt_read_knote_modify K kn src w = do {
     k \<leftarrow> knotes w kn;
     if \<not> is_file k \<and> has_flag (flags src) EV_CLEAR then
       let lwm = (\<lambda>e. if has_flag (fflags e) NOTE_LOWAT then int_of_data (data e) else 1);
           w = (if has_flag (kn_flags k) KNFL_SOCKET \<and> lwm src \<noteq> lwm (kev k)
                then fst (syscall (sys_set_rcvlowat K (fd_of (ident (kev k))) (lwm src)) w) else w)
       in Some (upd_kev kn (\<lambda>e. e\<lparr>fflags := fflags src, data := data src\<rparr>) w, 0)
     else Some (w, -1) }"

definition evfilt_read_knote_delete :: "'o kernel \<Rightarrow> addr \<Rightarrow> ('o, 'z) lw \<Rightarrow> (('o, 'z) lw \<times> int) option" where
  "evfilt_read_knote_delete K kn w = do {
     k \<leftarrow> knotes w kn;
     let w = (if has_flag (fflags (kev k)) NOTE_LOWAT \<and> has_flag (kn_flags k) KNFL_SOCKET
              then fst (syscall (sys_set_rcvlowat K (fd_of (ident (kev k))) 1) w) else w);
     if is_file k \<and> kn_read_eventfd k \<noteq> -1
     then file_knote_delete K (\<lambda>fd k. k\<lparr>kn_read_eventfd := fd\<rparr>) (kn_read_eventfd k) kn w
     else epoll_update K EPOLL_CTL_DEL kn EPOLLIN True w }"

definition evfilt_read_knote_enable :: "'o kernel \<Rightarrow> addr \<Rightarrow> ('o, 'z) lw \<Rightarrow> (('o, 'z) lw \<times> int) option" where
  "evfilt_read_knote_enable K kn w = do {
     k \<leftarrow> knotes w kn;
     if is_file k then file_knote_enable K (kn_read_eventfd k) kn w
     else epoll_update K EPOLL_CTL_ADD kn (epoll_events k) False w }"

definition evfilt_read_knote_disable :: "'o kernel \<Rightarrow> addr \<Rightarrow> ('o, 'z) lw \<Rightarrow> (('o, 'z) lw \<times> int) option" where
  "evfilt_read_knote_disable K kn w = do {
     k \<leftarrow> knotes w kn;
     if is_file k then file_knote_disable K (kn_read_eventfd k) kn w
     else epoll_update K EPOLL_CTL_DEL kn EPOLLIN False w }"

definition evfilt_read_ops :: "'o kernel \<Rightarrow> (('o, 'z) lw) filter_ops" where
  "evfilt_read_ops K =
     \<lparr>kf_copyout = \<lambda>_ _ _ _. None,
      kn_create = evfilt_read_knote_create K,
      kn_modify = evfilt_read_knote_modify K,
      kn_delete = evfilt_read_knote_delete K,
      kn_enable = evfilt_read_knote_enable K,
      kn_disable = evfilt_read_knote_disable K\<rparr>"

text \<open>The error of a descriptor, and the flags an epoll event turns into.\<close>

definition copyout_error :: "'o kernel \<Rightarrow> lknote \<Rightarrow> kevent \<Rightarrow> ('o, 'z) lw \<Rightarrow> ('o, 'z) lw \<times> kevent" where
  "copyout_error K k dst w =
     (let (w, e) =
        (if has_flag (kn_flags k) KNFL_SOCKET then
           let (w, ret, serr) = syscall_val (sys_so_error K (fd_of (ident (kev k)))) w
           in (w, if ret < 0 then errno w else serr)
         else (w, EIO))
      in (w, dst\<lparr>fflags := word_of_int e, flags := set_flag EV_EOF (flags dst)\<rparr>))"

definition evfilt_read_copyout_file ::
  "'o kernel \<Rightarrow> addr \<Rightarrow> lknote \<Rightarrow> ('o, 'z) lw \<Rightarrow> (('o, 'z) lw \<times> int \<times> kevent list) option" where
  "evfilt_read_copyout_file K kn k w =
     (let (w, off) = get_eof_offset K (fd_of (ident (kev k))) w;
          dst = (kev k)\<lparr>data := word_of_int off\<rparr>
      in if data dst = 0 then
           let (w, rv) = syscall (sys_epoll_ctl K (kn_epollfd k) EPOLL_CTL_DEL (kn_read_eventfd k) 0 None) w
           in if rv < 0 then Some (w, -1, [])
              else Some (upd_knote kn (\<lambda>k. k\<lparr>kn_registered := 0\<rparr>) w, 1, [dst\<lparr>kfilter := 0\<rparr>])
         else Some (w, 1, [dst]))"

definition evfilt_read_copyout ::
  "'o kernel \<Rightarrow> nat \<Rightarrow> addr option \<Rightarrow> u32 \<Rightarrow> ('o, 'z) lw \<Rightarrow> (('o, 'z) lw \<times> int \<times> kevent list) option" where
  "evfilt_read_copyout K nevents src ev w = do {
     kn \<leftarrow> src;
     k \<leftarrow> knotes w kn;
     if is_file k then evfilt_read_copyout_file K kn k w
     else do {
       let dst = (if has_flag ev EPOLLRDHUP \<or> has_flag ev EPOLLHUP
                  then (kev k)\<lparr>flags := set_flag EV_EOF (flags (kev k))\<rparr> else kev k);
       let (w, dst) = (if has_flag ev EPOLLERR then copyout_error K k dst w else (w, dst));
       let (w, dst) =
         (if has_flag (kn_flags k) KNFL_SOCKET_PASSIVE then (w, dst\<lparr>data := 1\<rparr>)
          else
            let (w, rv, i) = syscall_val (sys_siocinq K (fd_of (ident (kev k)))) w in
            if rv < 0 then (w, dst\<lparr>data := 0\<rparr>)
            else
              let dst = dst\<lparr>data := word_of_int i\<rparr>
              in (w, if data dst = 0 \<and> has_flag (kn_flags k) KNFL_SOCKET_STREAM
                     then dst\<lparr>flags := set_flag EV_EOF (flags dst)\<rparr> else dst));
       (w, rv) \<leftarrow> knote_copyout_flag_actions (evfilt_read_ops K) 0 kn w;
       if rv < 0 then Some (w, -1, []) else Some (w, 1, [dst]) } }"

definition evfilt_read :: "'o kernel \<Rightarrow> (('o, 'z) lw) filter_ops" where
  "evfilt_read K = (evfilt_read_ops K)\<lparr>kf_copyout := evfilt_read_copyout K\<rparr>"

subsection \<open>EVFILT_WRITE\<close>

definition evfilt_write_knote_create :: "'o kernel \<Rightarrow> addr \<Rightarrow> ('o, 'z) lw \<Rightarrow> (('o, 'z) lw \<times> int) option" where
  "evfilt_write_knote_create K kn w = do {
     (w, rv) \<leftarrow> linux_get_descriptor_type K kn w;
     if rv < 0 then Some (w, -1)
     else do {
       k \<leftarrow> knotes w kn;
       let et = (if has_flag (flags (kev k)) EV_CLEAR then EPOLLET else 0);
       if is_file k then
         file_knote_create K (\<lambda>fd k. k\<lparr>kn_write_eventfd := fd\<rparr>) kn
           (upd_knote kn (\<lambda>k. k\<lparr>epoll_events := EPOLLIN OR EPOLLRDHUP OR et\<rparr>) w)
       else
         epoll_update K EPOLL_CTL_ADD kn (EPOLLOUT OR et) False
           (upd_knote kn (\<lambda>k. k\<lparr>epoll_events := EPOLLOUT OR et\<rparr>) w) } }"

definition evfilt_write_knote_modify ::
  "'o kernel \<Rightarrow> addr \<Rightarrow> kevent \<Rightarrow> ('o, 'z) lw \<Rightarrow> (('o, 'z) lw \<times> int) option" where
  "evfilt_write_knote_modify K kn src w = do {
     k \<leftarrow> knotes w kn;
     if \<not> is_file k \<and> has_flag (flags src) EV_CLEAR
     then Some (upd_kev kn (\<lambda>e. e\<lparr>fflags := fflags src, data := data src\<rparr>) w, 0)
     else Some (w, -1) }"

definition evfilt_write_knote_delete :: "'o kernel \<Rightarrow> addr \<Rightarrow> ('o, 'z) lw \<Rightarrow> (('o, 'z) lw \<times> int) option" where
  "evfilt_write_knote_delete K kn w = do {
     k \<leftarrow> knotes w kn;
     let w = (if has_flag (fflags (kev k)) NOTE_LOWAT \<and> has_flag (kn_flags k) KNFL_SOCKET
              then fst (syscall (sys_set_sndlowat K (fd_of (ident (kev k))) 1) w) else w);
     if is_file k \<and> kn_write_eventfd k \<noteq> -1
     then file_knote_delete K (\<lambda>fd k. k\<lparr>kn_write_eventfd := fd\<rparr>) (kn_write_eventfd k) kn w
     else epoll_update K EPOLL_CTL_DEL kn EPOLLOUT True w }"

definition evfilt_write_knote_enable :: "'o kernel \<Rightarrow> addr \<Rightarrow> ('o, 'z) lw \<Rightarrow> (('o, 'z) lw \<times> int) option" where
  "evfilt_write_knote_enable K kn w = do {
     k \<leftarrow> knotes w kn;
     if is_file k then file_knote_enable K (kn_write_eventfd k) kn w
     else epoll_update K EPOLL_CTL_ADD kn (epoll_events k) False w }"

definition evfilt_write_knote_disable :: "'o kernel \<Rightarrow> addr \<Rightarrow> ('o, 'z) lw \<Rightarrow> (('o, 'z) lw \<times> int) option" where
  "evfilt_write_knote_disable K kn w = do {
     k \<leftarrow> knotes w kn;
     if is_file k then file_knote_disable K (kn_write_eventfd k) kn w
     else epoll_update K EPOLL_CTL_DEL kn EPOLLOUT False w }"

definition evfilt_write_ops :: "'o kernel \<Rightarrow> (('o, 'z) lw) filter_ops" where
  "evfilt_write_ops K =
     \<lparr>kf_copyout = \<lambda>_ _ _ _. None,
      kn_create = evfilt_write_knote_create K,
      kn_modify = evfilt_write_knote_modify K,
      kn_delete = evfilt_write_knote_delete K,
      kn_enable = evfilt_write_knote_enable K,
      kn_disable = evfilt_write_knote_disable K\<rparr>"

text \<open>The free space in the write buffer.  \<^verbatim>\<open>ioctl(SIOCOUTQ)\<close> stores an \<^verbatim>\<open>int\<close> in the low
  half of the data field and leaves the high half.\<close>

definition write_space :: "'o kernel \<Rightarrow> lknote \<Rightarrow> kevent \<Rightarrow> ('o, 'z) lw \<Rightarrow> ('o, 'z) lw \<times> kevent" where
  "write_space K k dst w =
     (let fd = fd_of (ident dst) in
      if has_flag (kn_flags k) KNFL_PIPE then
        let (w, pipe_sz) = syscall (sys_pipe_sz K fd) w in
        if pipe_sz < 0 then (w, dst\<lparr>data := 0\<rparr>)
        else
          let (w, rv, pending) = syscall_val (sys_fionread K fd) w in
          if rv < 0 then (w, dst\<lparr>data := 0\<rparr>)
          else (w, dst\<lparr>data := word_of_int (max 0 (pipe_sz - pending))\<rparr>)
      else
        let (w, rv, v) = syscall_val (sys_siocoutq K fd) w in
        if rv < 0 then (w, dst\<lparr>data := 0\<rparr>)
        else (w, dst\<lparr>data := push_bit 32 (drop_bit 32 (data dst)) OR take_bit 32 (word_of_int v)\<rparr>))"

definition evfilt_write_copyout ::
  "'o kernel \<Rightarrow> nat \<Rightarrow> addr option \<Rightarrow> u32 \<Rightarrow> ('o, 'z) lw \<Rightarrow> (('o, 'z) lw \<times> int \<times> kevent list) option" where
  "evfilt_write_copyout K nevents src ev w = do {
     kn \<leftarrow> src;
     k \<leftarrow> knotes w kn;
     let (w, dst) =
       (if is_file k then (w, kev k)
        else
          let dst = (if has_flag ev EPOLLHUP then (kev k)\<lparr>flags := set_flag EV_EOF (flags (kev k))\<rparr> else kev k);
              (w, dst) = (if has_flag ev EPOLLERR then copyout_error K k dst w else (w, dst))
          in if has_flag (flags dst) EV_EOF then (w, dst) else write_space K k dst w);
     (w, rv) \<leftarrow> knote_copyout_flag_actions (evfilt_write_ops K) 1 kn w;
     if rv < 0 then Some (w, -1, []) else Some (w, 1, [dst]) }"

definition evfilt_write :: "'o kernel \<Rightarrow> (('o, 'z) lw) filter_ops" where
  "evfilt_write K = (evfilt_write_ops K)\<lparr>kf_copyout := evfilt_write_copyout K\<rparr>"

subsection \<open>Regular files\<close>

text \<open>Reading a regular file.  Before the end of the file the event carries the
  exact number of bytes left, which is positive.  At or past the end the surrogate
  eventfd is taken out of the epoll set and the entry written has filter 0, which
  makes the caller drop it.  In both cases the knote stays, whatever its flags: a
  one-shot knote on a regular file is neither deleted nor disabled here.\<close>

theorem file_read_copyout:
  assumes kn: "knotes w kn = Some k" "is_file k"
    and pos: "sys_lseek_cur K (fd_of (ident (kev k))) (os w) = (s1, pos, e1)" "0 \<le> pos"
    and stat: "sys_fstat K (fd_of (ident (kev k))) s1 = (s2, 0, e2, sb)" "0 \<le> st_size sb" "st_size sb < 2 ^ 63"
  shows "if pos < st_size sb then
      evfilt_read_copyout K n (Some kn) ev w =
        Some (w\<lparr>os := s2\<rparr>, 1, [(kev k)\<lparr>data := word_of_int (st_size sb - pos)\<rparr>]) \<and>
      sint (word_of_int (st_size sb - pos) :: u64) = st_size sb - pos
    else \<exists>w' rv evs. evfilt_read_copyout K n (Some kn) ev w = Some (w', rv, evs) \<and>
      (case sys_epoll_ctl K (kn_epollfd k) EPOLL_CTL_DEL (kn_read_eventfd k) 0 None s2 of (s3, r, e3) \<Rightarrow>
         if r < 0 then rv = -1 \<and> evs = [] \<and> knotes w' kn = Some k
         else rv = 1 \<and> map kfilter evs = [0] \<and> knotes w' kn = Some (k\<lparr>kn_registered := 0\<rparr>))"
proof -
  have off: "get_eof_offset K (fd_of (ident (kev k))) w = (w\<lparr>os := s2\<rparr>, if st_size sb \<le> pos then 0 else st_size sb - pos)"
    using pos stat by (simp add: get_eof_offset_def syscall_def syscall_val_def)
  have small: "sint (word_of_int (st_size sb - pos) :: u64) = st_size sb - pos" if "pos < st_size sb"
    by (rule sint_of_int_small) (use that pos(2) stat(2,3) in auto)
  show ?thesis
  proof (cases "pos < st_size sb")
    case True
    then have "(word_of_int (st_size sb - pos) :: u64) \<noteq> 0" using small [OF True] by force
    with True small show ?thesis
      by (simp add: evfilt_read_copyout_def evfilt_read_copyout_file_def kn off del: of_int_diff)
  next
    case False
    then show ?thesis
      by (simp add: evfilt_read_copyout_def evfilt_read_copyout_file_def kn off syscall_def split: prod.split)
  qed
qed

end
