(* ===== verification/Linux_Read_Inv.thy ===== *)
theory Linux_Read_Inv
  imports Linux_Read
begin

text \<open>
  EVFILT_READ and EVFILT_WRITE on Linux meet their contract.  Their knotes have
  an ident below \<open>2 ^ 31\<close>, so that the descriptor is the ident.
\<close>

subsection \<open>Setting up a new knote\<close>

text \<open>Steps on a knote that no fd_state points to yet: its type and its events may change.\<close>

definition prep :: "'o kernel \<Rightarrow> (nat \<times> u64) list \<Rightarrow> nat \<Rightarrow> addr \<Rightarrow> ('o, 'z) lw \<Rightarrow> ('o, 'z) lw \<Rightarrow> bool" where
  "prep K I fi kn w0 w \<longleftrightarrow>
     op_frame fi kn False w0 w \<and> linux_inv K I w \<and> fdss w = fdss w0 \<and>
     (\<exists>v b ev. view w0 kn = Some v \<and> v_fds v = None \<and> v_slot v = int fi \<and>
        view w = (view w0)(kn \<mapsto> v\<lparr>v_file := b, v_events := ev\<rparr>))"

lemma prep_start:
  assumes "linux_inv K I w" "view w kn = Some v" "v_fds v = None" "v_slot v = int fi"
  shows "prep K I fi kn w w"
proof -
  have "v\<lparr>v_file := v_file v, v_events := v_events v\<rparr> = v" by simp
  then show ?thesis using assms unfolding prep_def by (metis fun_upd_triv op_frame_refl)
qed

lemma prep_invisible:
  assumes "prep K I fi kn w0 w" "op_frame fi kn False w w'" "view w' = view w" "fdss w' = fdss w"
    "udatas w' = udatas w" "kq_fd_st w' = kq_fd_st w" "ud_deferred_free w' = ud_deferred_free w"
    "kq_inflight w' = kq_inflight w"
  shows "prep K I fi kn w0 w'"
proof -
  have "linux_inv K I w'"
    using linux_inv_cong [OF assms(3-8)] assms(1,2) by (simp add: prep_def op_frame_def)
  then show ?thesis using assms op_frame_trans unfolding prep_def by metis
qed

lemma prep_syscall: "prep K I fi kn w0 w \<Longrightarrow> syscall f w = (w', rv) \<Longrightarrow> prep K I fi kn w0 w'"
  by (rule prep_invisible [OF _ syscall_fields(1-7)])

lemma prep_syscall_val: "prep K I fi kn w0 w \<Longrightarrow> syscall_val f w = (w', rv, v) \<Longrightarrow> prep K I fi kn w0 w'"
  by (rule prep_invisible [OF _ syscall_val_fields])

lemma prep_errno: "prep K I fi kn w0 w \<Longrightarrow> prep K I fi kn w0 (w\<lparr>errno := e\<rparr>)"
  by (rule prep_invisible) (auto simp: view_def)

lemma prep_fst: "prep K I fi kn w0 w \<Longrightarrow> prep K I fi kn w0 (fst (syscall f w))"
  by (rule prep_syscall [of K I fi kn w0 w f _ "snd (syscall f w)"]) simp_all

lemma prepD:
  assumes "prep K I fi kn w0 w"
  obtains k where "knotes w kn = Some k" "inv_filt (kfilter (kev k)) = int fi" "kn_fds k = None" "linux_inv K I w"
    "view w kn = Some (lk_view k)" "fdss w = fdss w0" "reach K I fi kn w w" "lfree kn w"
proof -
  obtain v where v: "view w kn = Some v" "v_fds v = None" "v_slot v = int fi" "linux_inv K I w" "fdss w = fdss w0"
    using assms by (auto simp: prep_def)
  then obtain k where k: "knotes w kn = Some k" "v = lk_view k" by (auto simp: view_def)
  show ?thesis
    using that [of k] k v reach_start [OF v(4) k(1)] fds_lfree [OF v(4,1,2)] by (simp add: lk_view_def)
qed

text \<open>Retagging the knote.\<close>

lemma prep_upd:
  assumes p: "prep K I fi kn w0 w" and k: "knotes w kn = Some k"
    and core: "kn_core (g k) = kn_core k" "kn_fds (g k) = kn_fds k" "kn_udata (g k) = kn_udata k"
    and ok: "fi \<le> 1 \<Longrightarrow> \<not> is_file (g k) \<Longrightarrow> epoll_events (g k) \<noteq> 0 \<Longrightarrow>
      ident (kev k) < 2 ^ 31 \<and> EV_EPOLLINOUT (epoll_events (g k)) = slot_event (int fi)"
  shows "prep K I fi kn w0 (upd_knote kn g w)"
proof -
  have d: "inv_filt (kfilter (kev k)) = int fi" "kn_fds k = None" "linux_inv K I w" "view w kn = Some (lk_view k)"
    using prepD [OF p] k by (metis option.inject)+
  let ?w = "upd_knote kn g w"
  have gk: "lk_view (g k) = (lk_view k)\<lparr>v_file := is_file (g k), v_events := epoll_events (g k)\<rparr>"
    using core by (auto simp: lk_view_def kn_core_def)
  have view': "view ?w = (view w)(kn \<mapsto> lk_view (g k))" using k by (rule view_upd_knote)
  have same: "fdss ?w = fdss w" "udatas ?w = udatas w" "kq_fd_st ?w = kq_fd_st w" "ud_deferred_free ?w = ud_deferred_free w"
    "calloc_ok ?w = calloc_ok w" "next_addr ?w = next_addr w" "kq_inflight ?w = kq_inflight w" by (simp_all add: upd_knote_def)
  have "kn_ok (fdss ?w) (udatas ?w) a z" if z: "view ?w a = Some z" for a z
  proof (cases "a = kn")
    case True
    have "kn_ok (fdss w) (udatas w) kn (lk_view k)" using d by (simp add: linux_inv_def)
    then show ?thesis
      using z True d(1,2) ok core unfolding view' same gk
      by (auto simp: kn_ok_def lk_view_def kn_core_def)
  next
    case False
    then show ?thesis using z d(3) by (simp add: view' same linux_inv_def)
  qed
  moreover have "fds_ok ?w f s" if "fdss ?w f = Some s" for f s
  proof -
    have "fds_ok w f s" using that d(3) by (simp add: same linux_inv_def)
    moreover have "slot_ok (view w) f s fj \<Longrightarrow> slot_ok (view ?w) f s fj" for fj
      using d(2,4) by (auto simp: slot_ok_def view' lk_view_def)
    ultimately show ?thesis by (simp add: fds_ok_def same)
  qed
  moreover have "queue_stale ?w" "tree_ok ?w" using d(3) by (simp_all add: linux_inv_def queue_stale_def tree_ok_def same)
  ultimately have inv: "linux_inv K I ?w" using d(3) by (simp add: linux_inv_def same)
  have "op_frame fi kn False w ?w" by (rule op_frame_upd_knote) (use k core in simp)
  then have "op_frame fi kn False w0 ?w" using p op_frame_trans unfolding prep_def by blast
  moreover have "\<exists>v b ev. view w0 kn = Some v \<and> v_fds v = None \<and> v_slot v = int fi \<and> view ?w = (view w0)(kn \<mapsto> v\<lparr>v_file := b, v_events := ev\<rparr>)"
  proof -
    obtain v b ev where v: "view w0 kn = Some v" "v_fds v = None" "v_slot v = int fi" "view w = (view w0)(kn \<mapsto> v\<lparr>v_file := b, v_events := ev\<rparr>)"
      using p by (auto simp: prep_def)
    then have "lk_view k = v\<lparr>v_file := b, v_events := ev\<rparr>" using d(4) by simp
    then have "view ?w = (view w0)(kn \<mapsto> v\<lparr>v_file := is_file (g k), v_events := epoll_events (g k)\<rparr>)"
      using v(4) unfolding view' gk by simp
    then show ?thesis using v by blast
  qed
  ultimately show ?thesis using inv p same(1) by (simp add: prep_def)
qed

lemma prep_set_flag:
  assumes p: "prep K I fi kn w0 w" and f: "f AND KNFL_KNOTE_DELETED = 0"
  shows "prep K I fi kn w0 (set_kn_flag kn f w)"
proof -
  obtain k where k: "knotes w kn = Some k" "inv_filt (kfilter (kev k)) = int fi" "linux_inv K I w" "view w kn = Some (lk_view k)"
    using prepD [OF p] by metis
  have "kn_ok (fdss w) (udatas w) kn (lk_view k)" using k by (simp add: linux_inv_def)
  then have ok: "fi \<le> 1 \<Longrightarrow> \<not> is_file k \<Longrightarrow> epoll_events k \<noteq> 0 \<Longrightarrow>
      ident (kev k) < 2 ^ 31 \<and> EV_EPOLLINOUT (epoll_events k) = slot_event (int fi)"
    using k(2) unfolding kn_ok_def lk_view_def by (cases "fi = 0"; cases "fi = 1") (auto simp: is_file_def)
  have mono: "is_file k \<Longrightarrow> is_file (k\<lparr>kn_flags := set_flag f (kn_flags k)\<rparr>)" by (simp add: is_file_def has_flag_set_mono)
  show ?thesis
    unfolding set_kn_flag_def
  proof (rule prep_upd [OF p k(1)])
    show "kn_core (k\<lparr>kn_flags := set_flag f (kn_flags k)\<rparr>) = kn_core k"
      using f by (simp add: kn_core_def has_flag_set_other)
  qed (use ok mono in auto)
qed

lemma passive_test_ok: "prep K I fi kn w0 w \<Longrightarrow> prep K I fi kn w0 (fst (passive_test kn f w))"
proof -
  assume p: "prep K I fi kn w0 w"
  have d: "KNFL_SOCKET_PASSIVE AND KNFL_KNOTE_DELETED = 0" by (simp add: KNFL_SOCKET_PASSIVE_def KNFL_KNOTE_DELETED_def)
  show ?thesis
  proof (cases "syscall_val f w")
    case (fields w' r v)
    with prep_syscall_val [OF p fields] show ?thesis by (simp add: passive_test_def prep_set_flag [OF _ d])
  qed
qed

lemma socket_type_ok:
  assumes p: "prep K I fi kn w0 w"
  shows "prep K I fi kn w0 (fst (socket_type K kn fd w))"
proof (cases "syscall_val (sys_so_type K fd) w")
  case (fields w' r t)
  have p': "prep K I fi kn w0 w'" by (rule prep_syscall_val [OF p fields])
  show ?thesis
  proof (cases "sock_flag t")
    case None
    then show ?thesis using fields p' prep_errno [OF p'] by (simp add: socket_type_def)
  next
    case (Some f)
    have "f AND KNFL_KNOTE_DELETED = 0" using Some by (cases t) (auto simp: sock_flag_def flag_defs)
    then have "prep K I fi kn w0 (fst (passive_test kn (sys_so_acceptconn K fd) (set_kn_flag kn f w')))"
      using passive_test_ok [OF prep_set_flag [OF p']] by blast
    from this passive_test_ok [OF this, of "sys_so_get_filter K fd"] show ?thesis
      using fields Some p' by (simp add: socket_type_def case_prod_unfold Let_def)
  qed
qed

lemma desc_type_ok:
  assumes p: "prep K I fi kn w0 w"
  shows "\<exists>w' rv. linux_get_descriptor_type K kn w = Some (w', rv) \<and> prep K I fi kn w0 w'"
proof -
  obtain k where k: "knotes w kn = Some k" using prepD [OF p] by blast
  let ?fd = "fd_of (ident (kev k))"
  show ?thesis
  proof (cases "syscall_val (sys_fstat K ?fd) w")
    case (fields w' r sb)
    have p': "prep K I fi kn w0 w'" by (rule prep_syscall_val [OF p fields])
    have d: "KNFL_FILE AND KNFL_KNOTE_DELETED = 0" "KNFL_PIPE AND KNFL_KNOTE_DELETED = 0" "KNFL_BLOCKDEV AND KNFL_KNOTE_DELETED = 0"
      "KNFL_CHARDEV AND KNFL_KNOTE_DELETED = 0" "KNFL_SOCKET AND KNFL_KNOTE_DELETED = 0" "KNFL_SOCKET_PASSIVE AND KNFL_KNOTE_DELETED = 0"
      by (simp_all add: flag_defs)
    obtain w2 rv where "socket_type K kn ?fd w' = (w2, rv)" by (meson surj_pair)
    moreover from this have "prep K I fi kn w0 w2" using socket_type_ok [OF p', of ?fd] by simp
    ultimately show ?thesis
      using k fields p' prep_set_flag [OF p' d(1)] prep_set_flag [OF p' d(2)] prep_set_flag [OF p' d(3)] prep_set_flag [OF p' d(4)]
        prep_set_flag [OF prep_set_flag [OF p' d(5)] d(6)] prep_errno [OF p']
      by (cases "r < 0"; cases "st_mode sb") (simp_all add: linux_get_descriptor_type_def)
  qed
qed

subsection \<open>Regular files\<close>

lemma quiet_read [simp]:
  "quiet (kn_read_eventfd_update f)" "quiet (kn_write_eventfd_update f)" "quiet (kn_registered_update f)" "quiet (kn_epollfd_update f)"
  by (simp_all add: quiet_def kn_core_def lk_view_def is_file_def)

text \<open>A callback that leaves every fd_state alone.\<close>

definition okf :: "'o kernel \<Rightarrow> (nat \<times> u64) list \<Rightarrow> nat \<Rightarrow> addr \<Rightarrow> ('o, 'z) lw \<Rightarrow> (('o, 'z) lw \<times> int) option \<Rightarrow> bool" where
  "okf K I fi kn w0 m \<longleftrightarrow>
     (\<exists>w rv. m = Some (w, rv) \<and> op_frame fi kn False w0 w \<and> linux_inv K I w \<and> fdss w = fdss w0 \<and> rv \<le> 0)"

lemma okr_okf: "okr K I fi kn w0 (\<lambda>rv. rv \<le> 0) m \<Longrightarrow> okf K I fi kn w0 m"
  by (auto simp: okr_def okf_def reach_def)

lemma okf_prep: "prep K I fi kn w0 w \<Longrightarrow> okf K I fi kn w m \<Longrightarrow> okf K I fi kn w0 m"
  unfolding okf_def prep_def using op_frame_trans by fastforce

lemma okr_if_syscall:
  assumes "reach K I fi kn w0 w" "\<And>w' rv. reach K I fi kn w0 w' \<Longrightarrow> okr K I fi kn w0 P (F w' rv)"
  shows "okr K I fi kn w0 P (case if c then syscall f w else (w, x) of (w', rv) \<Rightarrow> F w' rv)"
  using assms(2) [OF assms(1)] okr_syscall [where F = F and P = P and f = f, OF assms] by simp

lemma file_delete_ok:
  assumes "reach K I fi kn w0 w" "\<And>x. quiet (upd x)"
  shows "okr K I fi kn w0 (\<lambda>rv. rv \<le> 0) (file_knote_delete K upd evfd kn w)"
  unfolding file_knote_delete_def using assms by (intro okr_if_syscall okr_intros reach_intros) simp_all

lemma file_enable_ok: "reach K I fi kn w0 w \<Longrightarrow> okr K I fi kn w0 (\<lambda>rv. rv \<le> 0) (file_knote_enable K evfd kn w)"
  unfolding file_knote_enable_def by (intro okr_intros reach_intros) simp_all

lemma file_disable_ok: "reach K I fi kn w0 w \<Longrightarrow> okr K I fi kn w0 (\<lambda>rv. rv \<le> 0) (file_knote_disable K evfd kn w)"
  unfolding file_knote_disable_def by (intro okr_intros reach_intros) simp_all

lemma file_create_ok:
  assumes p: "prep K I fi kn w0 w" and k: "knotes w kn = Some k" "is_file k" and q: "\<And>x. quiet (upd x)"
  shows "okf K I fi kn w0 (file_knote_create K upd kn w)"
proof -
  let ?g = "\<lambda>k. if has_flag (flags (kev k)) EV_ONESHOT \<or> has_flag (flags (kev k)) EV_DISPATCH
       then k\<lparr>epoll_events := set_flag EPOLLONESHOT (epoll_events k)\<rparr> else k"
  define w1 where "w1 = upd_knote kn ?g w"
  have p1: "prep K I fi kn w0 w1"
    unfolding w1_def by (rule prep_upd [OF p k(1)]) (use k(2) in \<open>auto simp: kn_core_def is_file_def\<close>)
  obtain k1 where "reach K I fi kn w1 w1" using prepD [OF p1] by metis
  then have "okr K I fi kn w1 (\<lambda>rv. rv \<le> 0) (file_knote_create K upd kn w)"
    unfolding file_knote_create_def w1_def [symmetric] using q by (intro okr_intros reach_intros) simp_all
  then show ?thesis using okf_prep [OF p1 okr_okf] by blast
qed

subsection \<open>One knote for each filter and descriptor\<close>

lemma fd_of_small:
  assumes "i < 2 ^ 31"
  shows "fd_of i = uint i"
proof -
  have i: "uint i < 2 ^ 31" using assms by (simp add: word_less_def)
  have "uint (ucast i :: 32 word) = uint i mod 2 ^ 32" by (simp add: unsigned_ucast_eq take_bit_eq_mod)
  also have "\<dots> = uint i" using i by (intro mod_pos_pos_trivial) simp_all
  finally have u: "uint (ucast i :: 32 word) = uint i" .
  have "sint (ucast i :: 32 word) = signed_take_bit 31 (uint i)" by (simp add: sint_uint u)
  also have "\<dots> = uint i" using i uint_ge_0 [of i] by (intro signed_take_bit_int_eq_self) linarith+
  finally show ?thesis by (simp add: fd_of_def)
qed

lemma soleI:
  assumes c: "core_inv D {} w" "D \<subseteq> {kn}" and inv: "linux_inv K I w" and v: "view w kn = Some v" "v_slot v = int fi" "fi \<le> 1"
    and i: "v_ident v < 2 ^ 31" and uniq: "\<And>a. (v_ident v, a) \<in> set (kf_index (filt_at w fi)) \<Longrightarrow> a = kn"
  shows "sole kn w"
  unfolding sole_def
proof (intro allI impI, elim conjE)
  fix v' a z f
  assume "view w kn = Some v'" and z: "view w a = Some z" "v_fds z = Some f" "v_slot z = v_slot v'" "fd_of (v_ident z) = fd_of (v_ident v')"
  then have z': "v_slot z = int fi" "fd_of (v_ident z) = fd_of (v_ident v)" using v by simp_all
  have ok: "kn_ok (fdss w) (udatas w) a z" using inv z(1) by (simp add: linux_inv_def)
  then obtain s where s: "fdss w f = Some s" "slot_knote (int fi) s = Some a" "\<not> v_file z" using z(2) z'(1) by (auto simp: kn_ok_def)
  have "fds_ok w f s" using inv s(1) by (simp add: linux_inv_def)
  then have "v_events z \<noteq> 0" using s(2) slot_knote_range [OF s(2)] z(1) by (auto simp: fds_ok_def slot_ok_def)
  then have "v_ident z < 2 ^ 31" using ok s(3) z'(1) v(3) by (auto simp: kn_ok_def)
  then have same: "v_ident z = v_ident v" using fd_of_small [of "v_ident z"] fd_of_small [OF i] z'(2) by (simp add: word_uint_eq_iff)
  obtain k where k: "knotes w a = Some k" "z = lk_view k" using z(1) by (auto simp: view_def)
  show "a = kn"
  proof (rule ccontr)
    assume "a \<noteq> kn"
    then obtain fj where fj: "fj < EVFILT_SYSCOUNT" "a \<in> linked w fj" using c k(1) unfolding core_inv_def by blast
    then obtain j where j: "(j, a) \<in> set (kf_index (filt_at w fj))" by (auto simp: linked_def)
    from core_inv_linked_knote [OF c(1) fj(1) j] obtain k' where "knotes w a = Some k'" "ident (kev k') = j" "inv_filt (kfilter (kev k')) = int fj" .
    then have "j = v_ident z" "fj = fi" using k z'(1) by (simp_all add: lk_view_def)
    with j same uniq \<open>a \<noteq> kn\<close> show False by metis
  qed
qed

text \<open>The obligations of a filter of the multiplexer.\<close>

definition keeps :: "'o kernel \<Rightarrow> (nat \<times> u64) list \<Rightarrow> nat \<Rightarrow> addr \<Rightarrow> ('o, 'z) lw \<Rightarrow> (('o, 'z) lw \<Rightarrow> int \<Rightarrow> bool) \<Rightarrow> (('o, 'z) lw \<times> int) option \<Rightarrow> bool" where
  "keeps K I fi kn w P m \<longleftrightarrow>
     (\<exists>w' rv. m = Some (w', rv) \<and> op_frame fi kn False w w' \<and> linux_inv K I w' \<and> rv \<le> 0 \<and> P w' rv)"

definition ready :: "'o kernel \<Rightarrow> (nat \<times> u64) list \<Rightarrow> nat \<Rightarrow> addr \<Rightarrow> ('o, 'z) lw \<Rightarrow> lknote \<Rightarrow> bool" where
  "ready K I fi kn w k \<longleftrightarrow>
     linux_inv K I w \<and> knotes w kn = Some k \<and> inv_filt (kfilter (kev k)) = int fi \<and> ident (kev k) < 2 ^ 31 \<and> sole kn w"

lemma mux_contract:
  assumes fi: "fi \<le> 1"
    and create: "\<And>kn w k. ready K I fi kn w k \<Longrightarrow> lfree kn w \<Longrightarrow> keeps K I fi kn w (\<lambda>w' rv. rv < 0 \<longrightarrow> lfree kn w') (kn_create ops kn w)"
    and modify: "\<And>kn w k src. ready K I fi kn w k \<Longrightarrow> keeps K I fi kn w (\<lambda>_ _. True) (kn_modify ops kn src w)"
    and delete: "\<And>kn w k. ready K I fi kn w k \<Longrightarrow> keeps K I fi kn w (\<lambda>w' rv. lfree kn w') (kn_delete ops kn w)"
    and enable: "\<And>kn w k. ready K I fi kn w k \<Longrightarrow> keeps K I fi kn w (\<lambda>_ _. True) (kn_enable ops kn w)"
    and disable: "\<And>kn w k. ready K I fi kn w k \<Longrightarrow> keeps K I fi kn w (\<lambda>_ _. True) (kn_disable ops kn w)"
  shows "filter_contract (linux_inv K I) lfree lknote_zero ops fi (\<lambda>i. i < 2 ^ 31)"
proof -
  have slot: "fi < EVFILT_SYSCOUNT" using fi by (simp add: EVFILT_SYSCOUNT_def)
  have detached: "ready K I fi kn w k"
    if "core_inv {kn} {} w" "linux_inv K I w" "knotes w kn = Some k" "inv_filt (kfilter (kev k)) = int fi" "ident (kev k) < 2 ^ 31"
      "knote_lookup fi (ident (kev k)) w = None" for kn w k
  proof -
    have "(ident (kev k), a) \<notin> set (kf_index (filt_at w fi))" for a
      using that(6) core_inv_lookup [OF that(1) slot, of "ident (kev k)" a] by simp
    then have "sole kn w"
      by (intro soleI [OF that(1) _ that(2), where v = "lk_view k"])
        (use that(3-) fi in \<open>auto simp: view_def lk_view_def\<close>)
    then show ?thesis using that by (simp add: ready_def)
  qed
  have linked: "\<exists>k. ready K I fi kn w k"
    if wf: "core_wf w" and inv: "linux_inv K I w" and ix: "(i, kn) \<in> set (kf_index (filt_at w fi))" and i: "i < 2 ^ 31" for kn w i
  proof -
    obtain k where k: "knotes w kn = Some k" "ident (kev k) = i" "inv_filt (kfilter (kev k)) = int fi"
      using core_inv_linked_knote [OF wf slot ix] by metis
    have "a = kn" if "(i, a) \<in> set (kf_index (filt_at w fi))" for a
      using that ix core_inv_lookup [OF wf slot] by (metis option.inject)
    then have "sole kn w"
      by (intro soleI [OF wf _ inv, where v = "lk_view k"]) (use k i fi in \<open>auto simp: view_def lk_view_def\<close>)
    then show ?thesis using inv i k by (auto simp: ready_def)
  qed
  show ?thesis
  proof (unfold_locales, goal_cases)
    case (2 kn w k)
    then show ?case using create [OF detached [OF 2(1,2,4,5,6,7)] 2(3)] op_frame_mono unfolding keeps_def by blast
  next
    case (3 w src kn)
    then show ?case using linked [OF 3(1,2,3)] modify op_frame_mono unfolding keeps_def by blast
  next
    case (4 kn w k)
    then show ?case using delete [OF detached [OF 4(1,2,3,4,5,6)]] unfolding keeps_def by blast
  next
    case (5 w i kn)
    then show ?case using linked [OF 5] enable op_frame_mono unfolding keeps_def by blast
  next
    case (6 w i kn)
    then show ?case using linked [OF 6] disable op_frame_mono unfolding keeps_def by blast
  qed (rule slot)
qed

subsection \<open>The callbacks\<close>

lemma ready_mux: "ready K I fi kn w k \<Longrightarrow> fi \<le> 1 \<Longrightarrow> mux K I fi kn w (lk_view k)"
  by (auto simp: ready_def mux_def view_def lk_view_def)

lemma ready_reach: "ready K I fi kn w k \<Longrightarrow> reach K I fi kn w w"
  using reach_start by (auto simp: ready_def)

lemma ready_file:
  assumes "ready K I fi kn w k" "is_file k"
  shows "lfree kn w"
proof (rule fds_lfree [where v = "lk_view k"])
  show "linux_inv K I w" "view w kn = Some (lk_view k)" using assms by (simp_all add: ready_def view_def)
  then have "kn_ok (fdss w) (udatas w) kn (lk_view k)" by (simp add: linux_inv_def)
  then show "v_fds (lk_view k) = None" using assms(2) by (cases "kn_fds k") (auto simp: kn_ok_def lk_view_def)
qed

lemma lfree_keep: "lfree kn w \<Longrightarrow> fdss w' = fdss w \<Longrightarrow> lfree kn w'"
  by (simp add: lfree_def)

lemma upd_res_keeps:
  assumes "upd_res K I fi kn w v P m" "\<And>w' rv x. P rv x \<Longrightarrow> (x = None \<Longrightarrow> lfree kn w') \<Longrightarrow> Q w' rv"
  shows "keeps K I fi kn w Q m"
proof -
  obtain w' rv x where r: "m = Some (w', rv)" "mux K I fi kn w' (v\<lparr>v_fds := x\<rparr>)" "op_frame fi kn False w w'" "rv \<in> {0, -1}" "P rv x"
    using assms(1) by (auto simp: upd_res_def)
  have "x = None \<Longrightarrow> lfree kn w'" using fds_lfree [OF muxD(1,2) [OF r(2)]] r(2) by simp
  then show ?thesis using r muxD(1) [OF r(2)] assms(2) [OF r(5)] by (auto simp: keeps_def)
qed

lemma okr_keeps:
  "okr K I fi kn w (\<lambda>rv. rv \<le> 0) m \<Longrightarrow> (\<And>w' rv. fdss w' = fdss w \<Longrightarrow> Q w' rv) \<Longrightarrow> keeps K I fi kn w Q m"
  by (auto simp: okr_def keeps_def reach_def)

lemma okf_keeps:
  "okf K I fi kn w m \<Longrightarrow> (\<And>w' rv. fdss w' = fdss w \<Longrightarrow> Q w' rv) \<Longrightarrow> keeps K I fi kn w Q m"
  by (auto simp: okf_def keeps_def)

text \<open>Enabling with the stored events; a knote that was never armed has none.\<close>

lemma update_enable_ok:
  assumes r: "ready K I fi kn w k" "fi \<le> 1" "\<not> is_file k"
  shows "keeps K I fi kn w (\<lambda>_ _. True) (epoll_update K EPOLL_CTL_ADD kn (epoll_events k) False w)"
proof -
  note m = ready_mux [OF r(1,2)]
  have k: "knotes w kn = Some k" using r by (simp add: ready_def)
  show ?thesis
  proof (cases "epoll_events k = 0")
    case False
    then have "v_events (lk_view k) \<noteq> 0" "\<not> v_file (lk_view k)" "EV_EPOLLINOUT (epoll_events k) = slot_event (int fi)"
      using muxD(3,4,6) [OF m] r(3) by (auto simp: kn_ok_def lk_view_def)
    from upd_res_keeps [OF update_add_ok [OF m this]] show ?thesis by simp
  next
    case True
    have "\<exists>fds have. epoll_fd_state None kn False w = Some (fds, have) \<and> EV_EPOLLINOUT have = have"
    proof (cases "find_fds None k w")
      case None
      then show ?thesis using epoll_fd_state_none [OF k] by (simp add: epollinout)
    next
      case (Some f)
      obtain s where s: "fdss w f = Some s" "fds_ok w f s" using find_fds_ok [OF m k Some] by metis
      show ?thesis using epoll_fd_state_found [OF k Some s] by (simp add: fds_events_def epollinout)
    qed
    then have "epoll_update K EPOLL_CTL_ADD kn (epoll_events k) False w = Some (w, 0)"
      using k True by (auto simp: epoll_update_def epoll_update_want_def)
    then show ?thesis using r by (simp add: keeps_def ready_def)
  qed
qed

lemma update_disable_ok:
  assumes "ready K I fi kn w k" "fi \<le> 1"
  shows "keeps K I fi kn w (\<lambda>_ _. True) (epoll_update K EPOLL_CTL_DEL kn (slot_event (int fi)) False w)"
  by (rule upd_res_keeps [OF update_del_ok [OF ready_mux [OF assms]]]) simp

lemma ready_syscall:
  assumes "ready K I fi kn w k" "syscall f w = (w', rv)"
  shows "ready K I fi kn w' k" "fdss w' = fdss w" "op_frame fi kn False w w'"
proof -
  note c = syscall_fields [OF assms(2)]
  show "fdss w' = fdss w" "op_frame fi kn False w w'" using c by simp_all
  have "calloc_ok w' = calloc_ok w" "next_addr w \<le> next_addr w'" using c(1) [of fi kn False] by (simp_all add: op_frame_def)
  then have "linux_inv K I w'" using linux_inv_cong [OF c(2-7)] assms(1) by (simp add: ready_def)
  then show "ready K I fi kn w' k" using assms(1) c(2,8) by (simp add: ready_def sole_def)
qed

lemma keeps_from: "op_frame fi kn False w w1 \<Longrightarrow> keeps K I fi kn w1 P m \<Longrightarrow> keeps K I fi kn w P m"
  unfolding keeps_def using op_frame_trans by blast

text \<open>An optional system call before the rest.\<close>

lemma keeps_opt_syscall:
  assumes "ready K I fi kn w k" "\<And>w'. ready K I fi kn w' k \<Longrightarrow> fdss w' = fdss w \<Longrightarrow> keeps K I fi kn w' P (F w')"
  shows "keeps K I fi kn w P (F (if c then fst (syscall f w) else w))"
proof (cases c)
  case True
  obtain w' rv where w': "syscall f w = (w', rv)" by (meson surj_pair)
  note r = ready_syscall [OF assms(1) w']
  show ?thesis using keeps_from [OF r(3) assms(2) [OF r(1,2)]] True w' by simp
next
  case False
  then show ?thesis using assms(2) [OF assms(1)] by simp
qed

lemma delete_rest_ok:
  assumes r: "ready K I fi kn w k" "fi \<le> 1" and q: "\<And>x. quiet (upd x)"
  shows "keeps K I fi kn w (\<lambda>w' _. lfree kn w')
    (if is_file k \<and> evfd \<noteq> -1 then file_knote_delete K upd evfd kn w
     else epoll_update K EPOLL_CTL_DEL kn (slot_event (int fi)) True w)"
proof (cases "is_file k \<and> evfd \<noteq> -1")
  case False
  have "keeps K I fi kn w (\<lambda>w' _. lfree kn w') (epoll_update K EPOLL_CTL_DEL kn (slot_event (int fi)) True w)"
    using update_del_ok [OF ready_mux [OF r], of True] by (rule upd_res_keeps) blast
  then show ?thesis unfolding if_not_P [OF False] .
next
  case True
  then have "lfree kn w" using ready_file [OF r(1)] by blast
  then have "keeps K I fi kn w (\<lambda>w' _. lfree kn w') (file_knote_delete K upd evfd kn w)"
    by (intro okr_keeps [OF file_delete_ok [OF ready_reach [OF r(1)] q]]) (rule lfree_keep)
  then show ?thesis unfolding if_P [OF True] .
qed

lemma modify_rest_ok:
  assumes "ready K I fi kn w k"
  shows "keeps K I fi kn w (\<lambda>_ _. True) (Some (upd_kev kn (\<lambda>e. e\<lparr>fflags := a, data := b\<rparr>) w, 0))"
  by (rule okr_keeps) (use ready_reach [OF assms] in \<open>auto intro!: okr_intros reach_intros\<close>)

lemma keeps_refuse: "ready K I fi kn w k \<Longrightarrow> keeps K I fi kn w (\<lambda>_ _. True) (Some (w, -1))"
  by (simp add: keeps_def ready_def)

lemma ready_prep: "ready K I fi kn w k \<Longrightarrow> lfree kn w \<Longrightarrow> prep K I fi kn w w"
  using prep_start [of K I w kn "lk_view k" fi] lfree_fds [of K I w kn "lk_view k"] by (auto simp: ready_def view_def lk_view_def)

lemma prep_ready:
  assumes "ready K I fi kn w0 k0" "prep K I fi kn w0 w"
  obtains k where "ready K I fi kn w k" "lfree kn w" "op_frame fi kn False w0 w"
proof -
  obtain v b ev where v: "view w0 kn = Some v" "view w = (view w0)(kn \<mapsto> v\<lparr>v_file := b, v_events := ev\<rparr>)"
    using assms(2) by (auto simp: prep_def)
  have "sole kn w" using assms(1) v unfolding ready_def sole_def by (auto split: if_splits)
  moreover obtain k where k: "knotes w kn = Some k" "inv_filt (kfilter (kev k)) = int fi" "linux_inv K I w" "lfree kn w" "view w kn = Some (lk_view k)"
    using prepD [OF assms(2)] by metis
  moreover have "ident (kev k) = ident (kev k0)" using k(5) v assms(1) by (auto simp: ready_def view_def lk_view_def)
  ultimately show ?thesis using that assms by (simp add: ready_def prep_def)
qed

text \<open>The end of a creation, when the type of the descriptor is known.\<close>

lemma create_rest_ok:
  assumes r: "ready K I fi kn w0 k0" "fi \<le> 1" and p: "prep K I fi kn w0 w" and k: "knotes w kn = Some k" "\<not> is_file k"
    and ev: "epoll_events k = ev" "ev \<noteq> 0" "EV_EPOLLINOUT ev = slot_event (int fi)"
  shows "keeps K I fi kn w0 (\<lambda>w' rv. rv < 0 \<longrightarrow> lfree kn w') (epoll_update K EPOLL_CTL_ADD kn ev False w)"
proof -
  obtain k' where k': "ready K I fi kn w k'" "lfree kn w" "op_frame fi kn False w0 w" using prep_ready [OF r(1) p] .
  then have "k' = k" using k(1) by (simp add: ready_def)
  note m = ready_mux [OF k'(1) r(2), unfolded this]
  have "v_fds (lk_view k) = None" using lfree_fds [OF muxD(1) [OF m] k'(2) muxD(2) [OF m]] .
  then have "keeps K I fi kn w (\<lambda>w' rv. rv < 0 \<longrightarrow> lfree kn w') (epoll_update K EPOLL_CTL_ADD kn ev False w)"
    by (intro upd_res_keeps [OF update_add_ok [OF m]]) (use ev k(2) in \<open>auto simp: lk_view_def\<close>)
  then show ?thesis by (rule keeps_from [OF k'(3)])
qed

lemma create_file_ok:
  assumes r: "ready K I fi kn w0 k0" "lfree kn w0" and p: "prep K I fi kn w0 w" and k: "knotes w kn = Some k" "is_file k" and q: "\<And>x. quiet (upd x)"
  shows "keeps K I fi kn w0 (\<lambda>w' rv. rv < 0 \<longrightarrow> lfree kn w') (file_knote_create K upd kn w)"
  by (rule okf_keeps [OF file_create_ok [OF p k q]]) (intro impI lfree_keep [OF r(2)])

lemma keeps_prep_fail:
  assumes "ready K I fi kn w0 k0" "prep K I fi kn w0 w"
  shows "keeps K I fi kn w0 (\<lambda>w' rv. rv < 0 \<longrightarrow> lfree kn w') (Some (w, -1))"
  using prep_ready [OF assms] by (auto simp: keeps_def ready_def)

lemma read_create_ok:
  assumes r: "ready K I 0 kn w k" and free: "lfree kn w"
  shows "keeps K I 0 kn w (\<lambda>w' rv. rv < 0 \<longrightarrow> lfree kn w') (evfilt_read_knote_create K kn w)"
proof -
  obtain w1 rv where w1: "linux_get_descriptor_type K kn w = Some (w1, rv)" "prep K I 0 kn w w1"
    using desc_type_ok [OF ready_prep [OF r free]] by blast
  obtain k1 where k1: "knotes w1 kn = Some k1" using prepD [OF w1(2)] by metis
  let ?ev = "\<lambda>k :: lknote. EPOLLIN OR EPOLLRDHUP OR (if has_flag (flags (kev k)) EV_CLEAR then EPOLLET else 0)"
  have ev: "EV_EPOLLINOUT (?ev k) = EPOLLIN" "?ev k \<noteq> 0" for k by (simp_all add: EV_EPOLLINOUT_def flag_defs)
  let ?g = "\<lambda>k. k\<lparr>epoll_events := ?ev k\<rparr>"
  define w2 where "w2 = upd_knote kn ?g w1"
  obtain k0 where k0: "ready K I 0 kn w1 k0" using prep_ready [OF r w1(2)] .
  have p2: "prep K I 0 kn w w2"
    unfolding w2_def by (rule prep_upd [OF w1(2) k1]) (use ev k0 k1 in \<open>auto simp: kn_core_def ready_def\<close>)
  have k2: "knotes w2 kn = Some (?g k1)" using k1 by (simp add: w2_def)
  let ?k = "?g k1"
  let ?w3 = "if has_flag (fflags (kev ?k)) NOTE_LOWAT \<and> \<not> is_file ?k
     then fst (syscall (sys_set_rcvlowat K (fd_of (ident (kev ?k))) (int_of_data (data (kev ?k)))) w2) else w2"
  have p3: "prep K I 0 kn w ?w3" using p2 prep_fst [OF p2] by simp
  have k3: "knotes ?w3 kn = Some ?k" using k2 by (auto simp: syscall_def split: prod.split)
  have "evfilt_read_knote_create K kn w = (if rv < 0 then Some (w1, -1)
      else if is_file ?k then file_knote_create K (\<lambda>fd k. k\<lparr>kn_read_eventfd := fd\<rparr>) kn ?w3
      else epoll_update K EPOLL_CTL_ADD kn (?ev k1) False ?w3)"
    using w1(1) k2 by (simp add: evfilt_read_knote_create_def w2_def [symmetric] Let_def)
  then show ?thesis
    using keeps_prep_fail [OF r w1(2)] create_file_ok [OF r free p3 k3, of "\<lambda>fd k. k\<lparr>kn_read_eventfd := fd\<rparr>"]
      create_rest_ok [OF r _ p3 k3, of "?ev k1"] ev
    by (cases "rv < 0"; cases "is_file ?k") simp_all
qed

lemma write_create_ok:
  assumes r: "ready K I 1 kn w k" and free: "lfree kn w"
  shows "keeps K I 1 kn w (\<lambda>w' rv. rv < 0 \<longrightarrow> lfree kn w') (evfilt_write_knote_create K kn w)"
proof -
  obtain w1 rv where w1: "linux_get_descriptor_type K kn w = Some (w1, rv)" "prep K I 1 kn w w1"
    using desc_type_ok [OF ready_prep [OF r free]] by blast
  obtain k1 where k1: "knotes w1 kn = Some k1" using prepD [OF w1(2)] by metis
  define et where "et = (if has_flag (flags (kev k1)) EV_CLEAR then EPOLLET else 0)"
  have ev: "EV_EPOLLINOUT (EPOLLOUT OR et) = EPOLLOUT" "EPOLLOUT OR et \<noteq> 0" by (simp_all add: EV_EPOLLINOUT_def flag_defs et_def)
  obtain k0 where k0: "ready K I 1 kn w1 k0" using prep_ready [OF r w1(2)] .
  have p: "prep K I 1 kn w (upd_knote kn (\<lambda>k. k\<lparr>epoll_events := x\<rparr>) w1)" if "is_file k1 \<or> x = EPOLLOUT OR et" for x
    by (rule prep_upd [OF w1(2) k1]) (use that ev k0 k1 in \<open>auto simp: kn_core_def ready_def is_file_def\<close>)
  have k2: "knotes (upd_knote kn (\<lambda>k. k\<lparr>epoll_events := x\<rparr>) w1) kn = Some (k1\<lparr>epoll_events := x\<rparr>)"
    "is_file (k1\<lparr>epoll_events := x\<rparr>) = is_file k1" for x using k1 by (simp_all add: is_file_def)
  have "evfilt_write_knote_create K kn w = (if rv < 0 then Some (w1, -1)
      else if is_file k1 then file_knote_create K (\<lambda>fd k. k\<lparr>kn_write_eventfd := fd\<rparr>) kn
        (upd_knote kn (\<lambda>k. k\<lparr>epoll_events := EPOLLIN OR EPOLLRDHUP OR et\<rparr>) w1)
      else epoll_update K EPOLL_CTL_ADD kn (EPOLLOUT OR et) False (upd_knote kn (\<lambda>k. k\<lparr>epoll_events := EPOLLOUT OR et\<rparr>) w1))"
    using w1(1) k1 by (simp add: evfilt_write_knote_create_def et_def Let_def)
  then show ?thesis
    using keeps_prep_fail [OF r w1(2)] create_file_ok [OF r free p k2(1), of _ "\<lambda>fd k. k\<lparr>kn_write_eventfd := fd\<rparr>"]
      create_rest_ok [OF r _ p k2(1), of "EPOLLOUT OR et" "EPOLLOUT OR et"] ev k2(2)
    by (cases "rv < 0"; cases "is_file k1") simp_all
qed

lemma read_contract: "filter_contract (linux_inv K I) lfree lknote_zero (evfilt_read K) 0 (\<lambda>i. i < 2 ^ 31)"
proof (rule mux_contract, goal_cases)
  case (3 kn w k src)
  have k: "knotes w kn = Some k" using 3 by (simp add: ready_def)
  have "keeps K I 0 kn w (\<lambda>_ _. True) (evfilt_read_knote_modify K kn src w)"
  proof (cases "\<not> is_file k \<and> has_flag (flags src) EV_CLEAR")
    case True
    show ?thesis
      using k True keeps_opt_syscall [OF 3 modify_rest_ok [where k = k and a = "fflags src" and b = "data src"]]
      by (simp add: evfilt_read_knote_modify_def Let_def)
  next
    case False
    then show ?thesis using k keeps_refuse [OF 3] by (auto simp: evfilt_read_knote_modify_def)
  qed
  then show ?case by (simp add: evfilt_read_def evfilt_read_ops_def)
next
  case (4 kn w k)
  have k: "knotes w kn = Some k" using 4 by (simp add: ready_def)
  have "keeps K I 0 kn w (\<lambda>w' _. lfree kn w') (evfilt_read_knote_delete K kn w)"
  proof -
    let ?w = "if has_flag (fflags (kev k)) NOTE_LOWAT \<and> has_flag (kn_flags k) KNFL_SOCKET
      then fst (syscall (sys_set_rcvlowat K (fd_of (ident (kev k))) 1) w) else w"
    have eq: "evfilt_read_knote_delete K kn w = (if is_file k \<and> kn_read_eventfd k \<noteq> -1
        then file_knote_delete K (\<lambda>fd k. k\<lparr>kn_read_eventfd := fd\<rparr>) (kn_read_eventfd k) kn ?w
        else epoll_update K EPOLL_CTL_DEL kn (slot_event (int 0)) True ?w)"
      using k by (simp add: evfilt_read_knote_delete_def Let_def)
    show ?thesis
      unfolding eq by (rule keeps_opt_syscall [OF 4], rule delete_rest_ok) simp_all
  qed
  then show ?case by (simp add: evfilt_read_def evfilt_read_ops_def)
next
  case (5 kn w k)
  then have k: "knotes w kn = Some k" by (simp add: ready_def)
  show ?case
    using k update_enable_ok [OF 5] okr_keeps [OF file_enable_ok [OF ready_reach [OF 5]]]
    by (cases "is_file k") (simp_all add: evfilt_read_def evfilt_read_ops_def evfilt_read_knote_enable_def)
next
  case (6 kn w k)
  then have k: "knotes w kn = Some k" by (simp add: ready_def)
  show ?case
    using k update_disable_ok [OF 6] okr_keeps [OF file_disable_ok [OF ready_reach [OF 6]]]
    by (cases "is_file k") (simp_all add: evfilt_read_def evfilt_read_ops_def evfilt_read_knote_disable_def)
qed (simp_all add: evfilt_read_def evfilt_read_ops_def read_create_ok)

lemma write_contract: "filter_contract (linux_inv K I) lfree lknote_zero (evfilt_write K) 1 (\<lambda>i. i < 2 ^ 31)"
proof (rule mux_contract, goal_cases)
  case (3 kn w k src)
  then have k: "knotes w kn = Some k" by (simp add: ready_def)
  have "keeps K I 1 kn w (\<lambda>_ _. True) (evfilt_write_knote_modify K kn src w)"
    using k 3 modify_rest_ok [OF 3] keeps_refuse [OF 3] by (auto simp: evfilt_write_knote_modify_def)
  then show ?case by (simp add: evfilt_write_def evfilt_write_ops_def)
next
  case (4 kn w k)
  have k: "knotes w kn = Some k" using 4 by (simp add: ready_def)
  have "keeps K I 1 kn w (\<lambda>w' _. lfree kn w') (evfilt_write_knote_delete K kn w)"
  proof -
    let ?w = "if has_flag (fflags (kev k)) NOTE_LOWAT \<and> has_flag (kn_flags k) KNFL_SOCKET
      then fst (syscall (sys_set_sndlowat K (fd_of (ident (kev k))) 1) w) else w"
    have eq: "evfilt_write_knote_delete K kn w = (if is_file k \<and> kn_write_eventfd k \<noteq> -1
        then file_knote_delete K (\<lambda>fd k. k\<lparr>kn_write_eventfd := fd\<rparr>) (kn_write_eventfd k) kn ?w
        else epoll_update K EPOLL_CTL_DEL kn (slot_event (int 1)) True ?w)"
      using k by (simp add: evfilt_write_knote_delete_def Let_def)
    show ?thesis
      unfolding eq by (rule keeps_opt_syscall [OF 4], rule delete_rest_ok) simp_all
  qed
  then show ?case by (simp add: evfilt_write_def evfilt_write_ops_def)
next
  case (5 kn w k)
  then have k: "knotes w kn = Some k" by (simp add: ready_def)
  show ?case
    using k update_enable_ok [OF 5] okr_keeps [OF file_enable_ok [OF ready_reach [OF 5]]]
    by (cases "is_file k") (simp_all add: evfilt_write_def evfilt_write_ops_def evfilt_write_knote_enable_def)
next
  case (6 kn w k)
  then have k: "knotes w kn = Some k" by (simp add: ready_def)
  show ?case
    using k update_disable_ok [OF 6] okr_keeps [OF file_disable_ok [OF ready_reach [OF 6]]]
    by (cases "is_file k") (simp_all add: evfilt_write_def evfilt_write_ops_def evfilt_write_knote_disable_def)
qed (simp_all add: evfilt_write_def evfilt_write_ops_def write_create_ok [unfolded One_nat_def])

end
