(* ===== verification/Linux_User.thy ===== *)
theory Linux_User
  imports Linux_Inv
begin

text \<open>
  EVFILT_USER on Linux (\<^verbatim>\<open>linux/user.c\<close>).  Each knote owns an eventfd: raising it
  makes the knote ready, and the waiter that drains it delivers the event.
\<close>

definition eventfd_raise :: "'o kernel \<Rightarrow> int \<Rightarrow> ('o, 'z) lw \<Rightarrow> ('o, 'z) lw \<times> int" where
  "eventfd_raise K evfd w =
     (let (w, n) = syscall (sys_write8 K evfd) w in
      if n < 0 then
        if errno w = EAGAIN then (w, 0)
        else if errno w = EINTR then (w, - EINTR)
        else (w, -1)
      else (w, 0))"

definition eventfd_lower :: "'o kernel \<Rightarrow> int \<Rightarrow> ('o, 'z) lw \<Rightarrow> ('o, 'z) lw \<times> int" where
  "eventfd_lower K evfd w =
     (let (w, n, cur) = syscall_val (sys_read8 K evfd) w in
      if n < 0 then
        if errno w = EAGAIN then (w, 0)
        else if errno w = EINTR then (w, - EINTR)
        else (w, -1)
      else if n \<noteq> 8 then (w, -1)
      else (w, 1))"

definition linux_evfilt_user_knote_enable :: "'o kernel \<Rightarrow> addr \<Rightarrow> ('o, 'z) lw \<Rightarrow> (('o, 'z) lw \<times> int) option" where
  "linux_evfilt_user_knote_enable K kn w = do {
     k \<leftarrow> knotes w kn;
     let (w, rv) = syscall (sys_epoll_ctl K (epollfd w) EPOLL_CTL_ADD (kn_user_eventfd k) EPOLLIN (kn_udata k)) w;
     Some (w, if rv < 0 then -1 else 0) }"

definition linux_evfilt_user_knote_disable :: "'o kernel \<Rightarrow> addr \<Rightarrow> ('o, 'z) lw \<Rightarrow> (('o, 'z) lw \<times> int) option" where
  "linux_evfilt_user_knote_disable K kn w = do {
     k \<leftarrow> knotes w kn;
     let (w, rv) = syscall (sys_epoll_ctl K (epollfd w) EPOLL_CTL_DEL (kn_user_eventfd k) 0 None) w;
     Some (w, if rv < 0 then -1 else 0) }"

definition linux_evfilt_user_knote_create :: "'o kernel \<Rightarrow> addr \<Rightarrow> ('o, 'z) lw \<Rightarrow> (('o, 'z) lw \<times> int) option" where
  "linux_evfilt_user_knote_create K kn w = do {
     k \<leftarrow> knotes w kn;
     let (w, evfd) = syscall (sys_eventfd K) w;
     if evfd < 0 then
       let (w, _) = syscall (sys_close K evfd) w
       in Some (upd_knote kn (\<lambda>k. k\<lparr>kn_user_eventfd := -1\<rparr>) w, -1)
     else do {
       let w = upd_knote kn (\<lambda>k. k\<lparr>kn_user_eventfd := evfd\<rparr>) w;
       let w = KN_UDATA_ALLOC kn w;
       if KNOTE_ENABLED k then do {
         (w, rv) \<leftarrow> linux_evfilt_user_knote_enable K kn w;
         if rv < 0 then do { w \<leftarrow> KN_UDATA_FREE kn w; Some (w, rv) }
         else Some (w, rv) }
       else Some (w, 0) } }"

definition linux_evfilt_user_knote_modify ::
  "'o kernel \<Rightarrow> addr \<Rightarrow> kevent \<Rightarrow> ('o, 'z) lw \<Rightarrow> (('o, 'z) lw \<times> int) option" where
  "linux_evfilt_user_knote_modify K kn src w = do {
     k \<leftarrow> knotes w kn;
     let ffctrl = fflags src AND NOTE_FFCTRLMASK;
     let ff = fflags src AND NOTE_FFLAGSMASK;
     if ffctrl \<notin> {NOTE_FFNOP, NOTE_FFAND, NOTE_FFOR, NOTE_FFCOPY} then Some (w\<lparr>errno := EINVAL\<rparr>, -1)
     else do {
       let g = (\<lambda>x. if ffctrl = NOTE_FFAND then x AND ff
                    else if ffctrl = NOTE_FFOR then x OR ff
                    else if ffctrl = NOTE_FFCOPY then ff
                    else x);
       let w = upd_kev kn (\<lambda>e. e\<lparr>fflags := g (fflags e)\<rparr>) w;
       if KNOTE_ENABLED k \<and> has_flag (fflags src) NOTE_TRIGGER then
         let w = upd_kev kn (\<lambda>e. e\<lparr>fflags := set_flag NOTE_TRIGGER (fflags e)\<rparr>) w;
             (w, rv) = eventfd_raise K (kn_user_eventfd k) w
         in Some (w, if rv < 0 then -1 else 0)
       else Some (w, 0) } }"

definition linux_evfilt_user_knote_delete :: "'o kernel \<Rightarrow> addr \<Rightarrow> ('o, 'z) lw \<Rightarrow> (('o, 'z) lw \<times> int) option" where
  "linux_evfilt_user_knote_delete K kn w = do {
     k \<leftarrow> knotes w kn;
     (w, _) \<leftarrow> (if KNOTE_ENABLED k then linux_evfilt_user_knote_disable K kn w else Some (w, 0));
     w \<leftarrow> KN_UDATA_DEFER_FREE kn w;
     let (w, rv) = syscall (sys_close K (kn_user_eventfd k)) w;
     if rv < 0 then Some (w, -1)
     else Some (upd_knote kn (\<lambda>k. k\<lparr>kn_user_eventfd := -1\<rparr>) w, 0) }"

text \<open>The callbacks other than the copyout, which calls them through the filter.\<close>

definition evfilt_user_ops :: "'o kernel \<Rightarrow> (('o, 'z) lw) filter_ops" where
  "evfilt_user_ops K =
     \<lparr>kf_copyout = \<lambda>_ _ _ _. None,
      kn_create = linux_evfilt_user_knote_create K,
      kn_modify = linux_evfilt_user_knote_modify K,
      kn_delete = linux_evfilt_user_knote_delete K,
      kn_enable = linux_evfilt_user_knote_enable K,
      kn_disable = linux_evfilt_user_knote_disable K\<rparr>"

definition linux_evfilt_user_copyout ::
  "'o kernel \<Rightarrow> nat \<Rightarrow> addr option \<Rightarrow> u32 \<Rightarrow> ('o, 'z) lw \<Rightarrow> (('o, 'z) lw \<times> int \<times> kevent list) option" where
  "linux_evfilt_user_copyout K nevents src ev w = do {
     kn \<leftarrow> src;
     k \<leftarrow> knotes w kn;
     let dst = (kev k)\<lparr>fflags := clear_flag NOTE_TRIGGER (clear_flag NOTE_FFCTRLMASK (fflags (kev k)))\<rparr>;
     let drop = (\<lambda>e. e\<lparr>fflags := clear_flag NOTE_TRIGGER (fflags e)\<rparr>);
     let w = (if has_flag (flags (kev k)) EV_CLEAR then upd_kev kn drop w else w);
     let (w, rv) = (if has_flag (flags (kev k)) (EV_DISPATCH OR EV_CLEAR OR EV_ONESHOT)
                    then eventfd_lower K (kn_user_eventfd k) w else (w, 1));
     if rv < 0 then Some (w, -1, [])
     else if rv = 0 then Some (w, 0, [])
     else do {
       let w = (if has_flag (flags (kev k)) EV_DISPATCH then upd_kev kn drop w else w);
       (w, rv) \<leftarrow> knote_copyout_flag_actions (evfilt_user_ops K) 10 kn w;
       if rv < 0 then Some (w, -1, []) else Some (w, 1, [dst]) } }"

definition evfilt_user :: "'o kernel \<Rightarrow> (('o, 'z) lw) filter_ops" where
  "evfilt_user K = (evfilt_user_ops K)\<lparr>kf_copyout := linux_evfilt_user_copyout K\<rparr>"

subsection \<open>The filter meets its contract\<close>

lemma quiet_user [simp]: "quiet (kn_user_eventfd_update f)"
  by (simp add: quiet_def kn_core_def lk_view_def is_file_def)

lemma user_enable_ok:
  "reach K I fi kn w0 w \<Longrightarrow> okr K I fi kn w0 (\<lambda>_. True) (linux_evfilt_user_knote_enable K kn w)"
  unfolding linux_evfilt_user_knote_enable_def by (intro okr_intros) auto

lemma user_disable_ok:
  "reach K I fi kn w0 w \<Longrightarrow> okr K I fi kn w0 (\<lambda>_. True) (linux_evfilt_user_knote_disable K kn w)"
  unfolding linux_evfilt_user_knote_disable_def by (intro okr_intros) auto

lemma user_create_ok:
  "reach K I fi kn w0 w \<Longrightarrow> okr K I fi kn w0 (\<lambda>_. True) (linux_evfilt_user_knote_create K kn w)"
  unfolding linux_evfilt_user_knote_create_def
  by (intro okr_intros okr_bind [OF user_enable_ok] reach_intros) simp_all

lemma user_delete_ok:
  "reach K I fi kn w0 w \<Longrightarrow> okr K I fi kn w0 (\<lambda>rv. rv \<le> 0) (linux_evfilt_user_knote_delete K kn w)"
  unfolding linux_evfilt_user_knote_delete_def
  by (intro okr_intros okr_bind [where Q = "\<lambda>_. True"] user_disable_ok reach_intros) simp_all

lemma eventfd_raise_ok: "reach K I fi kn w0 w \<Longrightarrow> reach K I fi kn w0 (fst (eventfd_raise K fd w))"
  using reach_fst [of K I fi kn w0 w "sys_write8 K fd"] by (simp add: eventfd_raise_def case_prod_unfold Let_def)

lemma user_modify_ok:
  assumes "reach K I fi kn w0 w"
  shows "okr K I fi kn w0 (\<lambda>_. True) (linux_evfilt_user_knote_modify K kn src w)"
  unfolding linux_evfilt_user_knote_modify_def case_prod_unfold
  by (intro okr_intros eventfd_raise_ok reach_intros) (simp_all add: assms)

lemma user_contract: "filter_contract (linux_inv K I) lfree lknote_zero (evfilt_user K) 10 (\<lambda>_. True)"
  by (rule okr_contract)
    (simp_all add: evfilt_user_def evfilt_user_ops_def EVFILT_SYSCOUNT_def
      user_create_ok user_modify_ok user_delete_ok user_enable_ok user_disable_ok)

subsection \<open>Behaviour\<close>

text \<open>What the control bits of a change do to the user flags of an event.\<close>

definition user_fflags :: "u32 \<Rightarrow> u32 \<Rightarrow> u32" where
  "user_fflags new old =
     (let ff = new AND NOTE_FFLAGSMASK in
      if new AND NOTE_FFCTRLMASK = NOTE_FFAND then old AND ff
      else if new AND NOTE_FFCTRLMASK = NOTE_FFOR then old OR ff
      else if new AND NOTE_FFCTRLMASK = NOTE_FFCOPY then ff
      else old)"

text \<open>Two bits have four values: the error branch of the source is dead.\<close>

lemma ffctrl_cases: "x AND NOTE_FFCTRLMASK \<in> {NOTE_FFNOP, NOTE_FFAND, NOTE_FFOR, NOTE_FFCOPY}"
proof -
  have m: "(0xc0000000 :: u32) = NOT (mask 30)" by (simp add: mask_eq_exp_minus_1)
  have e: "x AND NOTE_FFCTRLMASK = push_bit 30 (drop_bit 30 x)"
    unfolding NOTE_FFCTRLMASK_def m by (rule bit_word_eqI) (auto simp: bit_simps)
  have "unat (drop_bit 30 x) = unat x div 2 ^ 30" by (simp add: drop_bit_eq_div unat_div)
  also have "\<dots> < 4" using unsigned_less [of x, where ?'a = nat] by (simp add: less_mult_imp_div_less)
  finally have "unat (drop_bit 30 x) \<in> {0, 1, 2, 3}" by auto
  then have "drop_bit 30 x \<in> {0, 1, 2, 3}"
    by (auto simp: unat_eq_zero dest: arg_cong [where f = "of_nat :: nat \<Rightarrow> u32"])
  then show ?thesis unfolding e by (auto simp: flag_defs push_bit_eq_mult)
qed

text \<open>Modifying a user event.  The change never fails for its flags: the user
  flags become what the control bits say, and a trigger on an enabled event sets
  NOTE_TRIGGER and raises the eventfd, whose failure alone makes the change fail.
  Nothing else of the knote changes.\<close>

theorem user_modify_effect:
  fixes src :: kevent
  assumes "knotes w kn = Some k"
  defines "trig \<equiv> KNOTE_ENABLED k \<and> has_flag (fflags src) NOTE_TRIGGER"
  shows "\<exists>w' rv. linux_evfilt_user_knote_modify K kn src w = Some (w', rv) \<and>
    knotes w' kn = Some (k\<lparr>kev := (kev k)\<lparr>fflags :=
      (if trig then set_flag NOTE_TRIGGER (user_fflags (fflags src) (fflags (kev k)))
       else user_fflags (fflags src) (fflags (kev k)))\<rparr>\<rparr>) \<and>
    (rv = (if trig \<and> snd (eventfd_raise K (kn_user_eventfd k) w) < 0 then -1 else 0))"
proof -
  let ?g = "\<lambda>e. e\<lparr>fflags := user_fflags (fflags src) (fflags e)\<rparr>"
  let ?t = "\<lambda>e. e\<lparr>fflags := set_flag NOTE_TRIGGER (fflags e)\<rparr>"
  let ?w2 = "upd_kev kn ?t (upd_kev kn ?g w)"
  have m: "linux_evfilt_user_knote_modify K kn src w =
      (if trig then Some (fst (eventfd_raise K (kn_user_eventfd k) ?w2),
                          if snd (eventfd_raise K (kn_user_eventfd k) ?w2) < 0 then -1 else 0)
       else Some (upd_kev kn ?g w, 0))"
    unfolding linux_evfilt_user_knote_modify_def trig_def assms(1) Option.bind.simps Let_def
    using ffctrl_cases [of "fflags src"] by (simp add: user_fflags_def Let_def case_prod_unfold)
  have raise: "knotes (fst (eventfd_raise K fd v)) = knotes v" for fd v
    by (auto simp: eventfd_raise_def syscall_def split: prod.splits)
  have rv: "snd (eventfd_raise K fd ?w2) = snd (eventfd_raise K fd w)" for fd
    by (auto simp: eventfd_raise_def syscall_def upd_kev_def upd_knote_def split: prod.splits)
  show ?thesis
    using assms(1) by (cases trig) (simp_all add: m raise rv, simp_all add: upd_kev_def)
qed

end
