(* ===== verification/Linux_Timer.thy ===== *)
theory Linux_Timer
  imports Linux_Inv
begin

text \<open>
  EVFILT_TIMER on Linux (\<^verbatim>\<open>linux/timer.c\<close>): a timerfd for each enabled knote.
  Disabling a timer closes its timerfd and enabling it creates a new one.
\<close>

definition NOTE_TIMER_MASK :: u32 where [flag_defs]: "NOTE_TIMER_MASK = 0x0007"

text \<open>C division and remainder truncate towards zero.\<close>

definition cdiv :: "int \<Rightarrow> int \<Rightarrow> int" where
  "cdiv a b = sgn a * sgn b * (\<bar>a\<bar> div \<bar>b\<bar>)"

definition cmod :: "int \<Rightarrow> int \<Rightarrow> int" where
  "cmod a b = a - cdiv a b * b"

text \<open>The conversion of a period or a deadline in the unit the flags name.\<close>

definition timedata_sec_nsec :: "int \<Rightarrow> u32 \<Rightarrow> int \<times> int" where
  "timedata_sec_nsec src fl =
     (let u = fl AND NOTE_TIMER_MASK in
      if u = NOTE_USECONDS then (cdiv src 1000000, cmod src 1000000 * 1000)
      else if u = NOTE_NSECONDS then (cdiv src 1000000000, cmod src 1000000000)
      else if u = NOTE_SECONDS then (src, 0)
      else (cdiv src 1000, cmod src 1000 * 1000000))"

definition convert_timedata_to_itimerspec :: "int \<Rightarrow> u32 \<Rightarrow> bool \<Rightarrow> itimerspec" where
  "convert_timedata_to_itimerspec src fl oneshot =
     (let t = timedata_sec_nsec src fl
      in \<lparr>it_interval = (if oneshot \<or> has_flag fl NOTE_ABSOLUTE then (0, 0) else t), it_value = t\<rparr>)"

definition timer_events :: "u16 \<Rightarrow> u32" where
  "timer_events fl =
     EPOLLIN OR EPOLLET OR (if has_flag fl (EV_ONESHOT OR EV_DISPATCH) then EPOLLONESHOT else 0)"

definition evfilt_timer_knote_create :: "'o kernel \<Rightarrow> addr \<Rightarrow> ('o, 'z) lw \<Rightarrow> (('o, 'z) lw \<times> int) option" where
  "evfilt_timer_knote_create K kn w = do {
     let w = upd_kev kn (\<lambda>e. e\<lparr>flags := set_flag EV_CLEAR (flags e)\<rparr>) w;
     k \<leftarrow> knotes w kn;
     let absolute = has_flag (fflags (kev k)) NOTE_ABSOLUTE;
     let (w, tfd) = syscall (sys_timerfd_create K absolute) w;
     if tfd < 0 then Some (w, -1)
     else do {
       let ts = convert_timedata_to_itimerspec (sint (data (kev k))) (fflags (kev k)) (has_flag (flags (kev k)) EV_ONESHOT);
       let (w, rv) = syscall (sys_timerfd_settime K tfd absolute ts) w;
       if rv < 0 then
         let (w, _) = syscall (sys_close K tfd) w in Some (w, -1)
       else do {
         let w = KN_UDATA_ALLOC kn w;
         k \<leftarrow> knotes w kn;
         let (w, rv) = syscall (sys_epoll_ctl K (epollfd w) EPOLL_CTL_ADD tfd (timer_events (flags (kev k))) (kn_udata k)) w;
         if rv < 0 then do {
           let (w, _) = syscall (sys_close K tfd) w;
           w \<leftarrow> KN_UDATA_FREE kn w;
           Some (w, -1) }
         else Some (upd_knote kn (\<lambda>k. k\<lparr>kn_timer_timerfd := tfd\<rparr>) w, 0) } } }"

text \<open>The replacement of the timerfd when a modification changes the clock; a
  negative result is the early return.\<close>

definition timer_change_clock ::
  "'o kernel \<Rightarrow> addr \<Rightarrow> kevent \<Rightarrow> ('o, 'z) lw \<Rightarrow> (('o, 'z) lw \<times> int) option" where
  "timer_change_clock K kn src w = do {
     k \<leftarrow> knotes w kn;
     let (w, newfd) = syscall (sys_timerfd_create K (has_flag (fflags src) NOTE_ABSOLUTE)) w;
     if newfd < 0 then Some (w, -1)
     else do {
       let (w, _) = syscall (sys_epoll_ctl K (epollfd w) EPOLL_CTL_DEL (kn_timer_timerfd k) 0 None) w;
       let (w, _) = syscall (sys_close K (kn_timer_timerfd k)) w;
       let (w, rv) = syscall (sys_epoll_ctl K (epollfd w) EPOLL_CTL_ADD newfd (timer_events (flags src)) (kn_udata k)) w;
       if rv < 0 then
         let (w, _) = syscall (sys_close K newfd) w in Some (w, -1)
       else Some (upd_knote kn (\<lambda>k. k\<lparr>kn_timer_timerfd := newfd\<rparr>) w, 0) } }"

definition evfilt_timer_knote_modify ::
  "'o kernel \<Rightarrow> addr \<Rightarrow> kevent \<Rightarrow> ('o, 'z) lw \<Rightarrow> (('o, 'z) lw \<times> int) option" where
  "evfilt_timer_knote_modify K kn src w = do {
     k \<leftarrow> knotes w kn;
     let clk_changed = has_flag (fflags src XOR fflags (kev k)) NOTE_ABSOLUTE;
     (w, rv) \<leftarrow> (if clk_changed then timer_change_clock K kn src w else Some (w, 0));
     if rv < 0 then Some (w, -1)
     else do {
       k \<leftarrow> knotes w kn;
       let ts = convert_timedata_to_itimerspec (sint (data src)) (fflags src) (has_flag (flags src) EV_ONESHOT);
       let (w, rv) = syscall (sys_timerfd_settime K (kn_timer_timerfd k) (has_flag (fflags src) NOTE_ABSOLUTE) ts) w;
       if rv < 0 then Some (w, -1)
       else Some (upd_kev kn (\<lambda>e. e\<lparr>flags := flags src OR EV_CLEAR OR (flags e AND EV_RECEIPT),
                                       fflags := fflags src, data := data src\<rparr>) w, 0) } }"

definition evfilt_timer_knote_delete :: "'o kernel \<Rightarrow> addr \<Rightarrow> ('o, 'z) lw \<Rightarrow> (('o, 'z) lw \<times> int) option" where
  "evfilt_timer_knote_delete K kn w = do {
     k \<leftarrow> knotes w kn;
     if kn_timer_timerfd k = -1 then Some (w, 0)
     else do {
       let (w, r1) = syscall (sys_epoll_ctl K (epollfd w) EPOLL_CTL_DEL (kn_timer_timerfd k) 0 None) w;
       w \<leftarrow> KN_UDATA_DEFER_FREE kn w;
       let (w, r2) = syscall (sys_close K (kn_timer_timerfd k)) w;
       Some (upd_knote kn (\<lambda>k. k\<lparr>kn_timer_timerfd := -1\<rparr>) w, if r1 < 0 \<or> r2 < 0 then -1 else 0) } }"

definition evfilt_timer_knote_enable :: "'o kernel \<Rightarrow> addr \<Rightarrow> ('o, 'z) lw \<Rightarrow> (('o, 'z) lw \<times> int) option" where
  "evfilt_timer_knote_enable K kn w = evfilt_timer_knote_create K kn w"

definition evfilt_timer_knote_disable :: "'o kernel \<Rightarrow> addr \<Rightarrow> ('o, 'z) lw \<Rightarrow> (('o, 'z) lw \<times> int) option" where
  "evfilt_timer_knote_disable K kn w = evfilt_timer_knote_delete K kn w"

definition evfilt_timer_ops :: "'o kernel \<Rightarrow> (('o, 'z) lw) filter_ops" where
  "evfilt_timer_ops K =
     \<lparr>kf_copyout = \<lambda>_ _ _ _. None,
      kn_create = evfilt_timer_knote_create K,
      kn_modify = evfilt_timer_knote_modify K,
      kn_delete = evfilt_timer_knote_delete K,
      kn_enable = evfilt_timer_knote_enable K,
      kn_disable = evfilt_timer_knote_disable K\<rparr>"

definition evfilt_timer_copyout ::
  "'o kernel \<Rightarrow> nat \<Rightarrow> addr option \<Rightarrow> u32 \<Rightarrow> ('o, 'z) lw \<Rightarrow> (('o, 'z) lw \<times> int \<times> kevent list) option" where
  "evfilt_timer_copyout K nevents src ev w = do {
     kn \<leftarrow> src;
     k \<leftarrow> knotes w kn;
     let dst = (if has_flag ev EPOLLERR then (kev k)\<lparr>fflags := 1\<rparr> else kev k);
     let (w, n, expired) = syscall_val (sys_read8 K (kn_timer_timerfd k)) w;
     if n < 0 \<and> errno w = EAGAIN then Some (w, 0, [])
     else do {
       let dst = dst\<lparr>data := (if n \<noteq> 8 then 1 else expired)\<rparr>;
       (w, rv) \<leftarrow> knote_copyout_flag_actions (evfilt_timer_ops K) 6 kn w;
       if rv < 0 then Some (w, -1, []) else Some (w, 1, [dst]) } }"

definition evfilt_timer :: "'o kernel \<Rightarrow> (('o, 'z) lw) filter_ops" where
  "evfilt_timer K = (evfilt_timer_ops K)\<lparr>kf_copyout := evfilt_timer_copyout K\<rparr>"

subsection \<open>The filter meets its contract\<close>

lemma quiet_timer [simp]: "quiet (kn_timer_timerfd_update f)"
  by (simp add: quiet_def kn_core_def lk_view_def is_file_def)

lemma timer_create_ok:
  "reach K I fi kn w0 w \<Longrightarrow> okr K I fi kn w0 (\<lambda>_. True) (evfilt_timer_knote_create K kn w)"
  unfolding evfilt_timer_knote_create_def
  by (intro okr_intros reach_intros) simp_all

lemma timer_change_clock_ok:
  "reach K I fi kn w0 w \<Longrightarrow> okr K I fi kn w0 (\<lambda>_. True) (timer_change_clock K kn src w)"
  unfolding timer_change_clock_def
  by (intro okr_intros reach_intros) simp_all

lemma timer_modify_ok:
  "reach K I fi kn w0 w \<Longrightarrow> okr K I fi kn w0 (\<lambda>_. True) (evfilt_timer_knote_modify K kn src w)"
  unfolding evfilt_timer_knote_modify_def
  by (intro okr_intros okr_bind [where Q = "\<lambda>_. True"] timer_change_clock_ok reach_intros) simp_all

lemma timer_delete_ok:
  "reach K I fi kn w0 w \<Longrightarrow> okr K I fi kn w0 (\<lambda>rv. rv \<le> 0) (evfilt_timer_knote_delete K kn w)"
  unfolding evfilt_timer_knote_delete_def
  by (intro okr_intros reach_intros) simp_all

lemma timer_contract: "filter_contract (linux_inv K I) lfree lknote_zero (evfilt_timer K) 6 (\<lambda>_. True)"
  by (rule okr_contract)
    (simp_all add: evfilt_timer_def evfilt_timer_ops_def EVFILT_SYSCOUNT_def evfilt_timer_knote_enable_def
      evfilt_timer_knote_disable_def timer_create_ok timer_modify_ok timer_delete_ok okr_mono [OF timer_delete_ok])

subsection \<open>The conversion is exact\<close>

text \<open>The length of the unit in nanoseconds.\<close>

definition timer_unit :: "u32 \<Rightarrow> int" where
  "timer_unit fl =
     (let u = fl AND NOTE_TIMER_MASK in
      if u = NOTE_USECONDS then 1000 else if u = NOTE_NSECONDS then 1
      else if u = NOTE_SECONDS then 1000000000 else 1000000)"

lemma cdiv_nonneg [simp]: "0 \<le> a \<Longrightarrow> 0 < b \<Longrightarrow> cdiv a b = a div b"
  by (cases "a = 0") (simp_all add: cdiv_def)

lemma cmod_bounds:
  assumes "0 < b"
  shows "\<bar>cmod a b\<bar> < b" "0 \<le> a \<Longrightarrow> 0 \<le> cmod a b" "cdiv a b * b + cmod a b = a"
proof -
  have "cmod a b = sgn a * (\<bar>a\<bar> mod b)"
    using assms by (cases a "0 :: int" rule: linorder_cases)
      (simp_all add: cmod_def cdiv_def minus_mod_eq_div_mult [symmetric])
  then show "\<bar>cmod a b\<bar> < b" "0 \<le> a \<Longrightarrow> 0 \<le> cmod a b" using assms by (simp_all add: abs_mult sgn_if)
  show "cdiv a b * b + cmod a b = a" by (simp add: cmod_def)
qed

text \<open>C37: the period of a timer.  Whatever unit the flags select, seconds and
  nanoseconds add up to the requested time, the nanoseconds are less than a
  second, and both are non-negative when the request is; the timer repeats with
  the same period unless it is one-shot or absolute, and then it does not repeat.\<close>

theorem timer_conversion_exact:
  fixes src :: int and fl :: u32 and oneshot :: bool
  defines "ts \<equiv> convert_timedata_to_itimerspec src fl oneshot"
  shows "fst (it_value ts) * 1000000000 + snd (it_value ts) = src * timer_unit fl \<and>
    \<bar>snd (it_value ts)\<bar> < 1000000000 \<and>
    (0 \<le> src \<longrightarrow> 0 \<le> fst (it_value ts) \<and> 0 \<le> snd (it_value ts)) \<and>
    it_interval ts = (if oneshot \<or> has_flag fl NOTE_ABSOLUTE then (0, 0) else it_value ts)"
proof -
  have split: "cdiv src b * (b * c) + cmod src b * c = src * c" if "0 < b" for b c
    using cmod_bounds(3) [OF that, of src] by (metis mult.assoc distrib_right)
  have small: "\<bar>cmod src b * c\<bar> < b * c" if "0 < b" "0 < c" for b c
    using cmod_bounds(1) [OF that(1), of src] that by (simp add: abs_mult)
  have nn: "0 \<le> src \<Longrightarrow> 0 \<le> cdiv src b" if "0 < b" for b using that by (simp add: pos_imp_zdiv_nonneg_iff)
  show ?thesis
    using split [of 1000000 1000] split [of 1000000000 1] split [of 1000 1000000]
      small [of 1000000 1000] small [of 1000000000 1] small [of 1000 1000000]
      nn [of 1000000] nn [of 1000000000] nn [of 1000]
      cmod_bounds(2) [of 1000000 src] cmod_bounds(2) [of 1000000000 src] cmod_bounds(2) [of 1000 src]
    unfolding ts_def convert_timedata_to_itimerspec_def timedata_sec_nsec_def timer_unit_def Let_def
    by (auto simp del: cdiv_nonneg)
qed

theorem timer_conversion_exact_witness:
  "it_value (convert_timedata_to_itimerspec 1500 0 False) = (1, 500000000) \<and>
   fst (it_value (convert_timedata_to_itimerspec 1500 0 False)) * 1000000000
     + snd (it_value (convert_timedata_to_itimerspec 1500 0 False)) = 1500 * timer_unit 0"
  using timer_conversion_exact [of 1500 0 False]
  by (simp add: convert_timedata_to_itimerspec_def timedata_sec_nsec_def Let_def cmod_def NOTE_USECONDS_def
    NOTE_NSECONDS_def NOTE_SECONDS_def)

end
