(* ===== verification/Linux_Vnode.thy ===== *)
theory Linux_Vnode
  imports Linux_Inv
begin

text \<open>
  EVFILT_VNODE on Linux (\<^verbatim>\<open>linux/vnode.c\<close>): an inotify descriptor with one watch for
  each enabled knote.  The events are drained and merged, and the notes are
  derived from the merged mask and from the change of size and link count.
\<close>

definition IN_MODIFY :: u32 where [flag_defs]: "IN_MODIFY = 0x2"
definition IN_ATTRIB :: u32 where [flag_defs]: "IN_ATTRIB = 0x4"
definition IN_CLOSE_WRITE :: u32 where [flag_defs]: "IN_CLOSE_WRITE = 0x8"
definition IN_CLOSE_NOWRITE :: u32 where [flag_defs]: "IN_CLOSE_NOWRITE = 0x10"
definition IN_CLOSE :: u32 where [flag_defs]: "IN_CLOSE = 0x18"
definition IN_MOVED_FROM :: u32 where [flag_defs]: "IN_MOVED_FROM = 0x40"
definition IN_MOVED_TO :: u32 where [flag_defs]: "IN_MOVED_TO = 0x80"
definition IN_CREATE :: u32 where [flag_defs]: "IN_CREATE = 0x100"
definition IN_DELETE :: u32 where [flag_defs]: "IN_DELETE = 0x200"
definition IN_DELETE_SELF :: u32 where [flag_defs]: "IN_DELETE_SELF = 0x400"
definition IN_MOVE_SELF :: u32 where [flag_defs]: "IN_MOVE_SELF = 0x800"
definition IN_IGNORED :: u32 where [flag_defs]: "IN_IGNORED = 0x8000"
definition IN_ONESHOT :: u32 where [flag_defs]: "IN_ONESHOT = 0x80000000"

subsection \<open>Masks\<close>

definition mask_if :: "u32 \<Rightarrow> u32 \<Rightarrow> u32 \<Rightarrow> u32" where
  "mask_if ff note m = (if has_flag ff note then m else 0)"

text \<open>The part of the mask that registration and modification share, and the two
  masks: only registration looks at NOTE_TRUNCATE.\<close>

definition inotify_base_mask :: "u32 \<Rightarrow> u32" where
  "inotify_base_mask ff =
     IN_CLOSE OR mask_if ff NOTE_DELETE (IN_ATTRIB OR IN_DELETE_SELF) OR
     mask_if ff NOTE_WRITE (IN_MODIFY OR IN_ATTRIB OR IN_CREATE OR IN_DELETE OR IN_MOVED_FROM OR IN_MOVED_TO) OR
     mask_if ff NOTE_EXTEND (IN_MODIFY OR IN_ATTRIB) OR
     mask_if ff NOTE_ATTRIB IN_ATTRIB OR
     mask_if ff NOTE_LINK (IN_ATTRIB OR IN_CREATE OR IN_DELETE) OR
     mask_if ff NOTE_RENAME IN_MOVE_SELF"

definition oneshot_mask :: "u16 \<Rightarrow> u32" where
  "oneshot_mask fl = (if has_flag fl EV_ONESHOT then IN_ONESHOT else 0)"

definition add_watch_mask :: "u32 \<Rightarrow> u16 \<Rightarrow> u32" where
  "add_watch_mask ff fl =
     inotify_base_mask ff OR mask_if ff NOTE_TRUNCATE (IN_MODIFY OR IN_ATTRIB) OR oneshot_mask fl"

definition modify_watch_mask :: "u32 \<Rightarrow> u16 \<Rightarrow> u32" where
  "modify_watch_mask ff fl = inotify_base_mask ff OR oneshot_mask fl"

subsection \<open>Callbacks\<close>

text \<open>After a failure: the watch, the descriptor and the udata are released.\<close>

definition add_watch_errout ::
  "'o kernel \<Rightarrow> int \<Rightarrow> addr \<Rightarrow> ('o, 'z) lw \<Rightarrow> (('o, 'z) lw \<times> int) option" where
  "add_watch_errout K ifd kn w = do {
     k \<leftarrow> knotes w kn;
     let (w, _) = syscall (sys_inotify_rm_watch K ifd (sint (data (kev k)))) w;
     let w = upd_knote kn (\<lambda>k. k\<lparr>kn_vnode_inotifyfd := -1\<rparr>) w;
     let (w, _) = syscall (sys_close K ifd) w;
     w \<leftarrow> KN_UDATA_FREE kn w;
     Some (w, -1) }"

definition add_watch :: "'o kernel \<Rightarrow> addr \<Rightarrow> ('o, 'z) lw \<Rightarrow> (('o, 'z) lw \<times> int) option" where
  "add_watch K kn w = do {
     k \<leftarrow> knotes w kn;
     let (w, rv, path) = syscall_val (sys_readlink_fd K (fd_of (ident (kev k)))) w;
     if rv < 0 then Some (w, -1)
     else do {
       let msk = add_watch_mask (fflags (kev k)) (flags (kev k));
       let (w, ifd) = syscall (sys_inotify_init K) w;
       if ifd < 0 then Some (w, -1)
       else do {
         let (w, wd) = syscall (sys_inotify_add_watch K ifd path msk) w;
         let w = upd_kev kn (\<lambda>e. e\<lparr>data := word_of_int wd\<rparr>) w;
         if wd < 0 then add_watch_errout K ifd kn w
         else do {
           let w = KN_UDATA_ALLOC kn w;
           k \<leftarrow> knotes w kn;
           let (w, rv) = syscall (sys_epoll_ctl K (epollfd w) EPOLL_CTL_ADD ifd EPOLLIN (kn_udata k)) w;
           if rv < 0 then add_watch_errout K ifd kn w
           else Some (upd_knote kn (\<lambda>k. k\<lparr>kn_vnode_inotifyfd := ifd\<rparr>) w, 0) } } } }"

definition delete_watch :: "'o kernel \<Rightarrow> addr \<Rightarrow> ('o, 'z) lw \<Rightarrow> (('o, 'z) lw \<times> int) option" where
  "delete_watch K kn w = do {
     k \<leftarrow> knotes w kn;
     let ifd = kn_vnode_inotifyfd k;
     if ifd < 0 then Some (w, 0)
     else do {
       let (w, rv) = syscall (sys_epoll_ctl K (epollfd w) EPOLL_CTL_DEL ifd 0 None) w;
       if rv < 0 then Some (w, -1)
       else do {
         w \<leftarrow> KN_UDATA_DEFER_FREE kn w;
         let (w, _) = syscall (sys_close K ifd) w;
         Some (upd_knote kn (\<lambda>k. k\<lparr>kn_vnode_inotifyfd := -1\<rparr>) w, 0) } } }"

definition evfilt_vnode_knote_create :: "'o kernel \<Rightarrow> addr \<Rightarrow> ('o, 'z) lw \<Rightarrow> (('o, 'z) lw \<times> int) option" where
  "evfilt_vnode_knote_create K kn w = do {
     k \<leftarrow> knotes w kn;
     let (w, rv, sb) = syscall_val (sys_fstat K (fd_of (ident (kev k)))) w;
     if rv < 0 then Some (w, -1)
     else do {
       let w = upd_knote kn (\<lambda>k. k\<lparr>kn_vnode_nlink := st_nlink sb, kn_vnode_size := st_size sb\<rparr>) w;
       add_watch K kn (upd_kev kn (\<lambda>e. e\<lparr>data := -1\<rparr>) w) } }"

definition evfilt_vnode_knote_modify ::
  "'o kernel \<Rightarrow> addr \<Rightarrow> kevent \<Rightarrow> ('o, 'z) lw \<Rightarrow> (('o, 'z) lw \<times> int) option" where
  "evfilt_vnode_knote_modify K kn src w = do {
     k \<leftarrow> knotes w kn;
     if kn_vnode_inotifyfd k < 0 then Some (upd_kev kn (\<lambda>e. e\<lparr>fflags := fflags src\<rparr>) w, 0)
     else do {
       let (w, rv, path) = syscall_val (sys_readlink_fd K (fd_of (ident (kev k)))) w;
       if rv < 0 then Some (w, -1)
       else
         let msk = modify_watch_mask (fflags src) (flags (kev k));
             (w, wd) = syscall (sys_inotify_add_watch K (kn_vnode_inotifyfd k) path msk) w
         in if wd < 0 then Some (w, -1)
            else Some (upd_kev kn (\<lambda>e. e\<lparr>fflags := fflags src, data := word_of_int wd\<rparr>) w, 0) } }"

definition evfilt_vnode_knote_delete :: "'o kernel \<Rightarrow> addr \<Rightarrow> ('o, 'z) lw \<Rightarrow> (('o, 'z) lw \<times> int) option" where
  "evfilt_vnode_knote_delete K kn w = delete_watch K kn w"

definition evfilt_vnode_knote_enable :: "'o kernel \<Rightarrow> addr \<Rightarrow> ('o, 'z) lw \<Rightarrow> (('o, 'z) lw \<times> int) option" where
  "evfilt_vnode_knote_enable K kn w = add_watch K kn w"

definition evfilt_vnode_knote_disable :: "'o kernel \<Rightarrow> addr \<Rightarrow> ('o, 'z) lw \<Rightarrow> (('o, 'z) lw \<times> int) option" where
  "evfilt_vnode_knote_disable K kn w = delete_watch K kn w"

definition evfilt_vnode_ops :: "'o kernel \<Rightarrow> (('o, 'z) lw) filter_ops" where
  "evfilt_vnode_ops K =
     \<lparr>kf_copyout = \<lambda>_ _ _ _. None,
      kn_create = evfilt_vnode_knote_create K,
      kn_modify = evfilt_vnode_knote_modify K,
      kn_delete = evfilt_vnode_knote_delete K,
      kn_enable = evfilt_vnode_knote_enable K,
      kn_disable = evfilt_vnode_knote_disable K\<rparr>"

subsection \<open>Events\<close>

text \<open>Sizes of \<^verbatim>\<open>struct inotify_event\<close> and of the buffer (with NAME_MAX 255).\<close>

definition inotify_event_size :: nat where "inotify_event_size = 16"
definition vnode_buf_size :: nat where "vnode_buf_size = 272"

text \<open>Both loops end only when the kernel says so, hence the partial functions:
  no result means that the call does not return.  The event is its mask.\<close>

partial_function (option) get_one_event ::
  "'o kernel \<Rightarrow> nat \<Rightarrow> int \<Rightarrow> nat \<Rightarrow> ('o, 'z) lw \<Rightarrow> (('o, 'z) lw \<times> int \<times> u32) option" where
  "get_one_event K len inofd want w =
     (if len < want then Some (w, -1, 0)
      else case syscall_val (sys_inotify_read K inofd want) w of (w, n, m) \<Rightarrow>
        if n < 0 then
          if errno w = EINVAL then get_one_event K len inofd (want + inotify_event_size) w
          else if errno w = EINTR then get_one_event K len inofd want w
          else if errno w = EAGAIN then Some (w, 0, 0)
          else Some (w, -1, 0)
        else Some (w, 1, m))"

partial_function (option) drain_events ::
  "'o kernel \<Rightarrow> int \<Rightarrow> u32 \<Rightarrow> ('o, 'z) lw \<Rightarrow> (('o, 'z) lw \<times> int \<times> u32) option" where
  "drain_events K inofd merged w =
     Option.bind (get_one_event K vnode_buf_size inofd inotify_event_size w) (\<lambda>(w, rv, m).
       if rv < 0 then Some (w, -1, merged)
       else if rv = 0 then Some (w, 0, merged)
       else if has_flag m IN_IGNORED then drain_events K inofd merged w
       else drain_events K inofd (merged OR (m AND NOT (IN_CLOSE_WRITE OR IN_CLOSE_NOWRITE))) w)"

declare get_one_event.simps [code] drain_events.simps [code]

text \<open>The notes that follow from the merged mask and the new stat, out of those the
  knote asks for.\<close>

definition stat_notes :: "u32 \<Rightarrow> lknote \<Rightarrow> stat \<Rightarrow> u32" where
  "stat_notes ff k sb =
     (if st_nlink sb = 0 \<and> has_flag ff NOTE_DELETE then NOTE_DELETE else 0) OR
     (if st_nlink sb \<noteq> kn_vnode_nlink k \<and> has_flag ff NOTE_LINK then NOTE_LINK else 0) OR
     (if st_size sb < kn_vnode_size k \<and> has_flag ff NOTE_TRUNCATE then NOTE_TRUNCATE else 0) OR
     (if st_size sb > kn_vnode_size k \<and> has_flag ff (NOTE_EXTEND OR NOTE_WRITE) then NOTE_EXTEND else 0)"

definition mask_notes :: "u32 \<Rightarrow> u32 \<Rightarrow> u32" where
  "mask_notes ff m =
     (if has_flag m (IN_MODIFY OR IN_CREATE OR IN_DELETE OR IN_MOVED_FROM OR IN_MOVED_TO) \<and> has_flag ff NOTE_WRITE
      then NOTE_WRITE else 0) OR
     (if has_flag m IN_ATTRIB \<and> has_flag ff NOTE_ATTRIB then NOTE_ATTRIB else 0) OR
     (if has_flag m IN_MOVE_SELF \<and> has_flag ff NOTE_RENAME then NOTE_RENAME else 0) OR
     (if has_flag m IN_DELETE_SELF \<and> has_flag ff NOTE_DELETE then NOTE_DELETE else 0)"

definition vnode_stat_notes ::
  "'o kernel \<Rightarrow> addr \<Rightarrow> lknote \<Rightarrow> u32 \<Rightarrow> ('o, 'z) lw \<Rightarrow> ('o, 'z) lw \<times> u32" where
  "vnode_stat_notes K kn k merged w =
     (let ff = fflags (kev k);
          (w, rv, sb) = syscall_val (sys_fstat K (fd_of (ident (kev k)))) w
      in if rv < 0 \<and> errno w = ENOENT then (w, if has_flag ff NOTE_DELETE then NOTE_DELETE else 0)
         else if has_flag merged (IN_ATTRIB OR IN_MODIFY OR IN_CREATE OR IN_DELETE) then
           (upd_knote kn (\<lambda>k. k\<lparr>kn_vnode_nlink := st_nlink sb, kn_vnode_size := st_size sb\<rparr>) w, stat_notes ff k sb)
         else (w, 0))"

definition evfilt_vnode_copyout ::
  "'o kernel \<Rightarrow> nat \<Rightarrow> addr option \<Rightarrow> u32 \<Rightarrow> ('o, 'z) lw \<Rightarrow> (('o, 'z) lw \<times> int \<times> kevent list) option" where
  "evfilt_vnode_copyout K nevents src ev w = do {
     kn \<leftarrow> src;
     k \<leftarrow> knotes w kn;
     (w, rv, merged) \<leftarrow> drain_events K (kn_vnode_inotifyfd k) 0 w;
     if rv < 0 then Some (w, -1, [])
     else if merged = 0 then Some (w, 0, [])
     else do {
       let (w, notes) = vnode_stat_notes K kn k merged w;
       let dst = (kev k)\<lparr>data := 0, fflags := notes OR mask_notes (fflags (kev k)) merged\<rparr>;
       if fflags dst = 0 then Some (w, 0, [])
       else do {
         (w, rv) \<leftarrow> knote_copyout_flag_actions (evfilt_vnode_ops K) 3 kn w;
         if rv < 0 then Some (w, -1, []) else Some (w, 1, [dst]) } } }"

definition evfilt_vnode :: "'o kernel \<Rightarrow> (('o, 'z) lw) filter_ops" where
  "evfilt_vnode K = (evfilt_vnode_ops K)\<lparr>kf_copyout := evfilt_vnode_copyout K\<rparr>"

subsection \<open>The filter meets its contract\<close>

lemma quiet_vnode [simp]:
  "quiet (kn_vnode_inotifyfd_update f)" "quiet (\<lambda>k. k\<lparr>kn_vnode_nlink := n, kn_vnode_size := z\<rparr>)"
  by (simp_all add: quiet_def kn_core_def lk_view_def is_file_def)

lemma add_watch_errout_ok:
  "reach K I fi kn w0 w \<Longrightarrow> okr K I fi kn w0 (\<lambda>_. True) (add_watch_errout K ifd kn w)"
  unfolding add_watch_errout_def by (intro okr_intros reach_intros) simp_all

lemma add_watch_ok: "reach K I fi kn w0 w \<Longrightarrow> okr K I fi kn w0 (\<lambda>_. True) (add_watch K kn w)"
  unfolding add_watch_def by (intro okr_intros add_watch_errout_ok reach_intros) simp_all

lemma delete_watch_ok: "reach K I fi kn w0 w \<Longrightarrow> okr K I fi kn w0 (\<lambda>rv. rv \<le> 0) (delete_watch K kn w)"
  unfolding delete_watch_def by (intro okr_intros reach_intros) simp_all

lemma vnode_create_ok:
  "reach K I fi kn w0 w \<Longrightarrow> okr K I fi kn w0 (\<lambda>_. True) (evfilt_vnode_knote_create K kn w)"
  unfolding evfilt_vnode_knote_create_def by (intro okr_intros add_watch_ok reach_intros) simp_all

lemma vnode_modify_ok:
  "reach K I fi kn w0 w \<Longrightarrow> okr K I fi kn w0 (\<lambda>_. True) (evfilt_vnode_knote_modify K kn src w)"
  unfolding evfilt_vnode_knote_modify_def by (intro okr_intros reach_intros) simp_all

lemma vnode_contract: "filter_contract (linux_inv K I) lfree lknote_zero (evfilt_vnode K) 3 (\<lambda>_. True)"
  by (rule okr_contract)
    (simp_all add: evfilt_vnode_def evfilt_vnode_ops_def EVFILT_SYSCOUNT_def evfilt_vnode_knote_enable_def
      evfilt_vnode_knote_disable_def evfilt_vnode_knote_delete_def vnode_create_ok vnode_modify_ok add_watch_ok
      delete_watch_ok okr_mono [OF delete_watch_ok])

subsection \<open>Behaviour\<close>

lemma notes_bits:
  "NOTE_DELETE = 2 ^ 0" "NOTE_WRITE = 2 ^ 1" "NOTE_EXTEND = 2 ^ 2" "NOTE_ATTRIB = 2 ^ 3" "NOTE_LINK = 2 ^ 4"
  "NOTE_RENAME = 2 ^ 5" "NOTE_TRUNCATE = 2 ^ 7"
  by (simp_all add: flag_defs)

lemma note_requested:
  assumes "N \<in> {NOTE_DELETE, NOTE_WRITE, NOTE_EXTEND, NOTE_ATTRIB, NOTE_LINK, NOTE_RENAME, NOTE_TRUNCATE}"
  shows "has_flag ff N \<Longrightarrow> clear_flag ff N = 0"
  using assms clear_one_bit(1) unfolding notes_bits by blast

lemma mask_notes_requested: "clear_flag ff (mask_notes ff m) = 0"
  by (simp add: mask_notes_def clear_flag_or note_requested)

lemma stat_notes_requested:
  "clear_flag ff (stat_notes ff k sb) \<in> (if has_flag ff NOTE_WRITE then {0, NOTE_EXTEND} else {0})"
  using clear_one_bit(2) [of ff 2] unfolding stat_notes_def clear_flag_or has_flag_or notes_bits(3) [symmetric]
  by (auto simp: note_requested)

text \<open>Only what was asked for.  An event of EVFILT_VNODE carries at least one note,
  and every note in it is one the knote asks for, except that NOTE_WRITE alone
  also brings NOTE_EXTEND; the identity of the event and its user data are those
  of the knote.\<close>

theorem vnode_notes_requested:
  assumes "knotes w kn = Some k" "evfilt_vnode_copyout K n (Some kn) ev w = Some (w', rv, evs)"
  shows "length evs \<le> 1 \<and> (\<forall>e \<in> set evs. fflags e \<noteq> 0 \<and>
    clear_flag (fflags (kev k)) (fflags e) \<in> (if has_flag (fflags (kev k)) NOTE_WRITE then {0, NOTE_EXTEND} else {0}) \<and>
    ident e = ident (kev k) \<and> kfilter e = kfilter (kev k) \<and> flags e = flags (kev k) \<and> udata e = udata (kev k))"
proof -
  let ?ff = "fflags (kev k)"
  let ?ok = "\<lambda>x. clear_flag ?ff x \<in> (if has_flag ?ff NOTE_WRITE then {0, NOTE_EXTEND} else {0})"
  have or: "?ok (n OR mask_notes ?ff m)" if "?ok n" for n m
    using that by (simp add: clear_flag_or mask_notes_requested)
  obtain w1 r m where d: "drain_events K (kn_vnode_inotifyfd k) 0 w = Some (w1, r, m)"
    using assms by (auto simp: evfilt_vnode_copyout_def bind_eq_Some_conv)
  obtain w2 ns where n: "vnode_stat_notes K kn k m w1 = (w2, ns)" by force
  have "?ok ns"
  proof -
    have "ns = 0 \<or> has_flag ?ff NOTE_DELETE \<and> ns = NOTE_DELETE \<or> (\<exists>sb. ns = stat_notes ?ff k sb)"
      using n by (auto simp: vnode_stat_notes_def Let_def split: prod.splits if_splits)
    then show ?thesis using stat_notes_requested [of ?ff k] by (elim disjE exE conjE) (simp_all add: note_requested)
  qed
  note ok = or [OF this, of m]
  have "evfilt_vnode_copyout K n (Some kn) ev w =
    (if r < 0 then Some (w1, -1, []) else if m = 0 then Some (w1, 0, [])
     else if ns OR mask_notes ?ff m = 0 then Some (w2, 0, [])
     else Option.bind (knote_copyout_flag_actions (evfilt_vnode_ops K) 3 kn w2) (\<lambda>(w, rv).
       if rv < 0 then Some (w, -1, []) else Some (w, 1, [(kev k)\<lparr>data := 0, fflags := ns OR mask_notes ?ff m\<rparr>])))"
    unfolding evfilt_vnode_copyout_def using assms(1) by (simp add: d n Let_def)
  with assms(2) have "evs = [] \<or> ns OR mask_notes ?ff m \<noteq> 0 \<and> evs = [(kev k)\<lparr>data := 0, fflags := ns OR mask_notes ?ff m\<rparr>]"
    by (auto simp: bind_eq_Some_conv split: if_splits prod.splits)
  then show ?thesis using ok by (elim disjE conjE) simp_all
qed

text \<open>The loop that grows the buffer ends: each EINVAL adds the size of an event, until
  the buffer is too small.\<close>

lemma get_one_event_returns:
  assumes law: "\<And>want s s' n e m. sys_inotify_read K fd want s = (s', n, e, m) \<Longrightarrow>
      (0 \<le> n \<longrightarrow> queued s' < queued s) \<and> (n < 0 \<longrightarrow> e \<noteq> EINTR \<and> queued s' \<le> queued s)"
  shows "\<exists>w' rv m. get_one_event K len fd want w = Some (w', rv, m) \<and> (rv > 0 \<longrightarrow> (queued (os w') :: nat) < queued (os w))"
proof (induction "len + inotify_event_size - want" arbitrary: want w rule: less_induct)
  case less
  obtain s' n e m where r: "sys_inotify_read K fd want (os w) = (s', n, e, m)" by (cases rule: prod_cases4)
  let ?w = "w\<lparr>os := s', errno := (if n < 0 then e else errno w)\<rparr>"
  have s: "syscall_val (sys_inotify_read K fd want) w = (?w, n, m)" by (simp add: syscall_val_def r)
  note u = get_one_event.simps [of K len fd want w, unfolded s prod.case]
  consider (small) "len < want" | (grow) "\<not> len < want" "n < 0" "e = EINVAL" | (final) "\<not> len < want" "n < 0 \<longrightarrow> e \<noteq> EINVAL"
    by blast
  then show ?case
  proof cases
    case small
    then show ?thesis by (simp add: u)
  next
    case grow
    then have "len + inotify_event_size - (want + inotify_event_size) < len + inotify_event_size - want"
      by (simp add: inotify_event_size_def)
    from less [OF this, of ?w] obtain w' rv m' where
      "get_one_event K len fd (want + inotify_event_size) ?w = Some (w', rv, m')" "rv > 0 \<longrightarrow> queued (os w') < queued s'" by auto
    then show ?thesis using law [OF r] grow by (auto simp: u)
  next
    case final
    then show ?thesis using law [OF r] by (cases "n < 0") (auto simp: u)
  qed
qed

text \<open>C39: the loop over the pending inotify events ends.  As long as a read on a
  nonblocking inotify descriptor does not report EINTR and every successful read
  takes an event off the queue, draining a knote's watch returns.\<close>

theorem vnode_drain_returns:
  fixes queued :: "'o \<Rightarrow> nat" and K :: "'o kernel" and w :: "('o, 'z) lw"
  assumes law: "\<And>want s s' n e m. sys_inotify_read K fd want s = (s', n, e, m) \<Longrightarrow>
      (0 \<le> n \<longrightarrow> queued s' < queued s) \<and> (n < 0 \<longrightarrow> e \<noteq> EINTR \<and> queued s' \<le> queued s)"
  shows "\<exists>w' rv m. drain_events K fd merged w = Some (w', rv, m)"
proof (induction "queued (os w)" arbitrary: w merged rule: less_induct)
  case less
  obtain w1 rv m where g: "get_one_event K vnode_buf_size fd inotify_event_size w = Some (w1, rv, m)"
      "rv > 0 \<longrightarrow> queued (os w1) < queued (os w)"
    using get_one_event_returns [of K fd queued vnode_buf_size inotify_event_size w] law by blast
  show ?case
    using less g unfolding drain_events.simps [of K fd merged w] by auto
qed

end
