(* ===== verification/Linux_Proc.thy ===== *)
theory Linux_Proc
  imports Linux_Inv
begin

text \<open>
  EVFILT_PROC on Linux (\<^verbatim>\<open>linux/proc.c\<close>): a pidfd for each knote that asks for
  NOTE_EXIT.  A knote without notes is registered but not armed; its procfd
  is -1.
\<close>

text \<open>The C conversion to \<^verbatim>\<open>pid_t\<close>.\<close>

definition pid_of :: "u64 \<Rightarrow> int" where
  "pid_of i = sint (ucast i :: 32 word)"

definition evfilt_proc_knote_enable :: "'o kernel \<Rightarrow> addr \<Rightarrow> ('o, 'z) lw \<Rightarrow> (('o, 'z) lw \<times> int) option" where
  "evfilt_proc_knote_enable K kn w = do {
     k \<leftarrow> knotes w kn;
     let (w, rv) = syscall (sys_epoll_ctl K (epollfd w) EPOLL_CTL_ADD (kn_proc_procfd k) EPOLLIN (kn_udata k)) w;
     Some (w, if rv < 0 then -1 else 0) }"

definition evfilt_proc_knote_disable :: "'o kernel \<Rightarrow> addr \<Rightarrow> ('o, 'z) lw \<Rightarrow> (('o, 'z) lw \<times> int) option" where
  "evfilt_proc_knote_disable K kn w = do {
     k \<leftarrow> knotes w kn;
     if kn_proc_procfd k < 0 then Some (w, 0)
     else
       let (w, rv) = syscall (sys_epoll_ctl K (epollfd w) EPOLL_CTL_DEL (kn_proc_procfd k) 0 None) w
       in Some (w, if rv < 0 then -1 else 0) }"

definition proc_arm_error :: "'o kernel \<Rightarrow> int \<Rightarrow> addr \<Rightarrow> ('o, 'z) lw \<Rightarrow> (('o, 'z) lw \<times> int) option" where
  "proc_arm_error K pfd kn w =
     (let (w, _) = syscall (sys_close K pfd) w
      in Some (upd_knote kn (\<lambda>k. k\<lparr>kn_proc_procfd := -1\<rparr>) w, -1))"

definition linux_proc_arm :: "'o kernel \<Rightarrow> addr \<Rightarrow> ('o, 'z) lw \<Rightarrow> (('o, 'z) lw \<times> int) option" where
  "linux_proc_arm K kn w = do {
     k \<leftarrow> knotes w kn;
     let (w, pfd) = syscall (sys_pidfd_open K (pid_of (ident (kev k)))) w;
     if pfd < 0 then Some (w, -1)
     else do {
       let (w, rv) = syscall (sys_set_cloexec K pfd) w;
       if rv < 0 then proc_arm_error K pfd kn w
       else do {
         let w = KN_UDATA_ALLOC kn (upd_knote kn (\<lambda>k. k\<lparr>kn_proc_procfd := pfd\<rparr>) w);
         k \<leftarrow> knotes w kn;
         if kn_udata k = None then proc_arm_error K pfd kn w
         else do {
           (w, rv) \<leftarrow> evfilt_proc_knote_enable K kn w;
           if rv < 0 then do {
             w \<leftarrow> KN_UDATA_FREE kn w;
             proc_arm_error K pfd kn w }
           else Some (w, 0) } } } }"

definition linux_proc_disarm :: "'o kernel \<Rightarrow> addr \<Rightarrow> ('o, 'z) lw \<Rightarrow> ('o, 'z) lw option" where
  "linux_proc_disarm K kn w = do {
     k \<leftarrow> knotes w kn;
     if kn_proc_procfd k < 0 then Some w
     else do {
       (w, _) \<leftarrow> (if KNOTE_ENABLED k then evfilt_proc_knote_disable K kn w else Some (w, 0));
       w \<leftarrow> KN_UDATA_DEFER_FREE kn w;
       let (w, _) = syscall (sys_close K (kn_proc_procfd k)) w;
       Some (upd_knote kn (\<lambda>k. k\<lparr>kn_proc_procfd := -1\<rparr>) w) } }"

definition evfilt_proc_knote_create :: "'o kernel \<Rightarrow> addr \<Rightarrow> ('o, 'z) lw \<Rightarrow> (('o, 'z) lw \<times> int) option" where
  "evfilt_proc_knote_create K kn w = do {
     k \<leftarrow> knotes w kn;
     if \<not> has_flag (fflags (kev k)) NOTE_EXIT
     then Some (upd_knote kn (\<lambda>k. k\<lparr>kn_proc_procfd := -1\<rparr>) w, 0)
     else do {
       (w, rv) \<leftarrow> linux_proc_arm K kn w;
       if rv < 0 then Some (w, -1)
       else Some (upd_kev kn (\<lambda>e. e\<lparr>flags := set_flag EV_CLEAR (set_flag EV_ONESHOT (flags e))\<rparr>) w, 0) } }"

definition proc_preserve :: u16 where "proc_preserve = EV_ONESHOT OR EV_CLEAR OR EV_RECEIPT"

definition evfilt_proc_knote_modify ::
  "'o kernel \<Rightarrow> addr \<Rightarrow> kevent \<Rightarrow> ('o, 'z) lw \<Rightarrow> (('o, 'z) lw \<times> int) option" where
  "evfilt_proc_knote_modify K kn src w = do {
     k \<leftarrow> knotes w kn;
     let was_armed = (kn_proc_procfd k \<ge> 0);
     let want_armed = has_flag (fflags src) NOTE_EXIT;
     let w = upd_kev kn (\<lambda>e. e\<lparr>flags := (flags src AND NOT proc_preserve) OR (flags e AND proc_preserve),
                                 fflags := fflags src\<rparr>) w;
     if want_armed \<and> \<not> was_armed then do {
       (w, rv) \<leftarrow> linux_proc_arm K kn w;
       if rv < 0 then Some (w, -1)
       else Some (upd_kev kn (\<lambda>e. e\<lparr>flags := flags e OR EV_ONESHOT OR EV_CLEAR\<rparr>) w, 0) }
     else if \<not> want_armed \<and> was_armed then do {
       w \<leftarrow> linux_proc_disarm K kn w;
       Some (w, 0) }
     else Some (w, 0) }"

definition evfilt_proc_knote_delete :: "'o kernel \<Rightarrow> addr \<Rightarrow> ('o, 'z) lw \<Rightarrow> (('o, 'z) lw \<times> int) option" where
  "evfilt_proc_knote_delete K kn w = do {
     w \<leftarrow> linux_proc_disarm K kn w;
     Some (w, 0) }"

definition evfilt_proc_ops :: "'o kernel \<Rightarrow> (('o, 'z) lw) filter_ops" where
  "evfilt_proc_ops K =
     \<lparr>kf_copyout = \<lambda>_ _ _ _. None,
      kn_create = evfilt_proc_knote_create K,
      kn_modify = evfilt_proc_knote_modify K,
      kn_delete = evfilt_proc_knote_delete K,
      kn_enable = evfilt_proc_knote_enable K,
      kn_disable = evfilt_proc_knote_disable K\<rparr>"

text \<open>The wait status of a dead child; no result for the other codes.\<close>

definition proc_status :: "siginfo \<Rightarrow> u32 option" where
  "proc_status info = (case si_code info of
     CLD_EXITED \<Rightarrow> Some (push_bit 8 (si_status info))
   | CLD_DUMPED \<Rightarrow> Some (0x80 OR (si_status info AND 0x7f))
   | CLD_KILLED \<Rightarrow> Some (si_status info AND 0x7f)
   | CLD_OTHER \<Rightarrow> None)"

definition evfilt_proc_copyout ::
  "'o kernel \<Rightarrow> nat \<Rightarrow> addr option \<Rightarrow> u32 \<Rightarrow> ('o, 'z) lw \<Rightarrow> (('o, 'z) lw \<times> int \<times> kevent list) option" where
  "evfilt_proc_copyout K nevents src ev w = do {
     kn \<leftarrow> src;
     k \<leftarrow> knotes w kn;
     if KNOTE_DISABLED k then Some (w, 0, [])
     else do {
       let pid = pid_of (ident (kev k));
       let (w, rv, info) = syscall_val (sys_waitid K pid True) w;
       if rv < 0 then Some (w, -1, [])
       else do {
         let (w, rv, info) = (if si_pid info = 0 then syscall_val (sys_waitid K pid False) w else (w, rv, info));
         if rv < 0 then Some (w, -1, [])
         else case proc_status info of
           None \<Rightarrow> Some (w, 0, [])
         | Some status \<Rightarrow> do {
             let dst = (kev k)\<lparr>data := ucast status, flags := set_flag EV_EOF (flags (kev k))\<rparr>;
             (w, rv) \<leftarrow> knote_copyout_flag_actions (evfilt_proc_ops K) 4 kn w;
             if rv < 0 then Some (w, -1, []) else Some (w, 1, [dst]) } } } }"

definition evfilt_proc :: "'o kernel \<Rightarrow> (('o, 'z) lw) filter_ops" where
  "evfilt_proc K = (evfilt_proc_ops K)\<lparr>kf_copyout := evfilt_proc_copyout K\<rparr>"

subsection \<open>The filter meets its contract\<close>

lemma quiet_proc [simp]: "quiet (kn_proc_procfd_update f)"
  by (simp add: quiet_def kn_core_def lk_view_def is_file_def)

lemma proc_enable_ok:
  "reach K I fi kn w0 w \<Longrightarrow> okr K I fi kn w0 (\<lambda>_. True) (evfilt_proc_knote_enable K kn w)"
  unfolding evfilt_proc_knote_enable_def by (intro okr_intros) simp_all

lemma proc_disable_ok:
  "reach K I fi kn w0 w \<Longrightarrow> okr K I fi kn w0 (\<lambda>_. True) (evfilt_proc_knote_disable K kn w)"
  unfolding evfilt_proc_knote_disable_def by (intro okr_intros) simp_all

lemma proc_arm_error_ok:
  "reach K I fi kn w0 w \<Longrightarrow> okr K I fi kn w0 (\<lambda>_. True) (proc_arm_error K pfd kn w)"
  unfolding proc_arm_error_def by (intro okr_intros reach_intros) simp_all

lemma linux_proc_arm_ok: "reach K I fi kn w0 w \<Longrightarrow> okr K I fi kn w0 (\<lambda>_. True) (linux_proc_arm K kn w)"
  unfolding linux_proc_arm_def
  by (intro okr_intros okr_bind [OF proc_enable_ok] proc_arm_error_ok reach_intros) simp_all

lemma linux_proc_disarm_ok:
  assumes "reach K I fi kn w0 w"
  shows "okr K I fi kn w0 (\<lambda>rv. rv \<le> 0) (Option.bind (linux_proc_disarm K kn w) (\<lambda>w. Some (w, 0)))"
  using assms unfolding linux_proc_disarm_def
  by (simp add: Let_def bind_assoc if_distrib [of "\<lambda>m. Option.bind m _"] case_prod_unfold cong: if_cong)
    (intro okr_intros okr_bind [where Q = "\<lambda>_. True", unfolded case_prod_unfold] proc_disable_ok reach_intros | simp)+

lemma proc_create_ok:
  "reach K I fi kn w0 w \<Longrightarrow> okr K I fi kn w0 (\<lambda>_. True) (evfilt_proc_knote_create K kn w)"
  unfolding evfilt_proc_knote_create_def
  by (intro okr_intros okr_bind [OF linux_proc_arm_ok] reach_intros) simp_all

lemma proc_modify_ok:
  "reach K I fi kn w0 w \<Longrightarrow> okr K I fi kn w0 (\<lambda>_. True) (evfilt_proc_knote_modify K kn src w)"
  unfolding evfilt_proc_knote_modify_def
  by (intro okr_intros okr_bind [OF linux_proc_arm_ok] okr_mono [OF linux_proc_disarm_ok] reach_intros) simp_all

lemma proc_contract: "filter_contract (linux_inv K I) lfree lknote_zero (evfilt_proc K) 4 (\<lambda>_. True)"
  by (rule okr_contract)
    (simp_all add: evfilt_proc_def evfilt_proc_ops_def EVFILT_SYSCOUNT_def evfilt_proc_knote_delete_def
      proc_create_ok proc_modify_ok linux_proc_disarm_ok proc_enable_ok proc_disable_ok)

subsection \<open>The wait status\<close>

text \<open>The macros of \<^verbatim>\<open>sys/wait.h\<close> with which the caller takes the status apart.\<close>

definition WTERMSIG :: "u32 \<Rightarrow> u32" where "WTERMSIG s = s AND 0x7f"
definition WIFEXITED :: "u32 \<Rightarrow> bool" where "WIFEXITED s \<longleftrightarrow> WTERMSIG s = 0"
definition WEXITSTATUS :: "u32 \<Rightarrow> u32" where "WEXITSTATUS s = drop_bit 8 s AND 0xff"
definition WIFSIGNALED :: "u32 \<Rightarrow> bool" where "WIFSIGNALED s \<longleftrightarrow> WTERMSIG s \<noteq> 0 \<and> WTERMSIG s \<noteq> 0x7f"
definition WCOREDUMP :: "u32 \<Rightarrow> bool" where "WCOREDUMP s \<longleftrightarrow> has_flag s 0x80"

lemma exit_bits:
  assumes "x < (256 :: u32)"
  shows "push_bit 8 x AND 0x7f = 0" "drop_bit 8 (push_bit 8 x) AND 0xff = x"
proof -
  have "x AND mask 8 = x" using assms by (intro less_mask_eq) simp
  then have small: "n < 8" if "bit x n" for n using that by (metis bit_and_iff bit_mask_iff)
  have k: "(0x7f :: u32) = mask 7" "(0xff :: u32) = mask 8" by (simp_all add: mask_eq_exp_minus_1)
  show "push_bit 8 x AND 0x7f = 0" unfolding k by (rule bit_word_eqI) (auto simp: bit_simps)
  show "drop_bit 8 (push_bit 8 x) AND 0xff = x" unfolding k
    by (rule bit_word_eqI) (auto simp: bit_simps dest: small)
qed

lemma signal_bits:
  assumes "x < (128 :: u32)"
  shows "x AND 0x7f = x" "x AND 0x80 = 0"
proof -
  have "x AND mask 7 = x" using assms by (intro less_mask_eq) simp
  then show x: "x AND 0x7f = x" by (simp add: mask_eq_exp_minus_1)
  then have "x AND 0x80 = x AND (0x7f AND 0x80)" by (metis and.assoc)
  then show "x AND 0x80 = 0" by simp
qed

text \<open>C38: the status that EVFILT_PROC reports is a wait status: the macros of the C
  library recover how the process ended, with its exit status or the signal that
  killed it, from what waitid said.\<close>

theorem proc_status_roundtrip:
  assumes "si_code info = CLD_EXITED \<Longrightarrow> si_status info < 256"
    and "si_code info \<noteq> CLD_EXITED \<Longrightarrow> 0 < si_status info \<and> si_status info < 127"
  shows "case proc_status info of
      None \<Rightarrow> si_code info = CLD_OTHER
    | Some s \<Rightarrow>
        (WIFEXITED s \<longleftrightarrow> si_code info = CLD_EXITED) \<and> (WIFSIGNALED s \<longleftrightarrow> si_code info \<in> {CLD_KILLED, CLD_DUMPED}) \<and>
        (WIFEXITED s \<longrightarrow> WEXITSTATUS s = si_status info) \<and>
        (WIFSIGNALED s \<longrightarrow> WTERMSIG s = si_status info \<and> (WCOREDUMP s \<longleftrightarrow> si_code info = CLD_DUMPED))"
proof -
  let ?x = "si_status info"
  have sig: "?x AND 0x7f = ?x \<and> (0x80 OR ?x) AND 0x7f = ?x \<and> ?x AND 0x80 = 0 \<and> (0x80 OR ?x) AND 0x80 = 0x80"
    if "si_code info \<noteq> CLD_EXITED"
  proof -
    have "?x < 128" using assms(2) [OF that] by (rule order.strict_trans [OF conjunct2]) simp
    then show ?thesis using signal_bits by (simp add: bit.conj_disj_distrib2)
  qed
  show ?thesis
    using assms exit_bits [of ?x] sig
    by (cases "si_code info")
      (auto simp: proc_status_def WIFEXITED_def WEXITSTATUS_def WIFSIGNALED_def WTERMSIG_def WCOREDUMP_def has_flag_def)
qed

theorem proc_status_roundtrip_witness:
  "proc_status \<lparr>si_pid = 7, si_code = CLD_DUMPED, si_status = 11\<rparr> = Some 0x8b \<and> WTERMSIG 0x8b = 11 \<and> WCOREDUMP 0x8b"
  using proc_status_roundtrip [of "\<lparr>si_pid = 7, si_code = CLD_DUMPED, si_status = 11\<rparr>"]
  by (simp add: proc_status_def WTERMSIG_def WCOREDUMP_def WIFSIGNALED_def has_flag_def)

end
