(* ===== verification/Linux_Backend.thy ===== *)
theory Linux_Backend
  imports Linux_Read_Inv Linux_User Linux_Timer Linux_Vnode Linux_Proc
begin

text \<open>
  The Linux backend as a whole: the filters in their slots, the platform hooks
  of kevent(), and the interpretation of the interface \<open>backend\<close> of the common
  code.  A small executable kernel serves the concrete runs.
\<close>

subsection \<open>The filters\<close>

text \<open>The slot of EVFILT_SIGNAL and those that the Linux build registers as
  \<open>EVFILT_NOTIMPL\<close> are not used by this table.\<close>

definition linux_vt :: "'o kernel \<Rightarrow> (('o, 'z) lw) lkq_build \<Rightarrow> nat \<Rightarrow> (('o, 'z) lw) filter_ops" where
  "linux_vt K B fi =
     (if fi = 0 then evfilt_read K
      else if fi = 1 then evfilt_write K
      else if fi = 3 then evfilt_vnode K
      else if fi = 4 then evfilt_proc K
      else if fi = 6 then evfilt_timer K
      else if fi = 10 then evfilt_user K
      else evfilt_libkqueue B)"

definition linux_impl :: "nat \<Rightarrow> bool" where
  "linux_impl fi \<longleftrightarrow> fi \<in> {0, 1, 3, 4, 6, 10, 11}"

text \<open>Descriptors are ints: EVFILT_READ and EVFILT_WRITE are specified for idents
  below \<open>2 ^ 31\<close>.\<close>

definition linux_adm :: "nat \<Rightarrow> u64 \<Rightarrow> bool" where
  "linux_adm fi i \<longleftrightarrow> (fi \<le> 1 \<longrightarrow> i < 2 ^ 31)"

lemma linux_contract:
  assumes "set_file_poll_interval B = None" "linux_impl fi"
  shows "filter_contract (linux_inv K I) lfree lknote_zero (linux_vt K B fi) fi (linux_adm fi)"
proof -
  have "linux_adm 0 = (\<lambda>i. i < 2 ^ 31)" "linux_adm 1 = (\<lambda>i. i < 2 ^ 31)" "1 < fi \<Longrightarrow> linux_adm fi = (\<lambda>_. True)"
    by (auto simp: linux_adm_def fun_eq_iff)
  then show ?thesis
    using assms read_contract [of K I] write_contract [of K I] vnode_contract [of K I] proc_contract [of K I]
      timer_contract [of K I] user_contract [of K I] lbs.libkqueue_contract [OF assms(1), of K I]
    by (auto simp: linux_impl_def linux_vt_def)
qed

text \<open>The build of the library has no hook for the poll interval on Linux.\<close>

interpretation lkb: backend "linux_inv K I" lfree lknote_zero "linux_vt K B"
  "\<lambda>fi. set_file_poll_interval B = None \<and> linux_impl fi" linux_adm for K I B
  by (rule backend.intro [OF lbs.backend_state_axioms backend_axioms.intro]) (use linux_contract in blast)

text \<open>What the common code and the backend maintain together.\<close>

definition linux_wf :: "'o kernel \<Rightarrow> (('o, 'z) lw) lkq_build \<Rightarrow> ('o, 'z) lw \<Rightarrow> bool" where
  "linux_wf K B w \<longleftrightarrow>
     core_wf w \<and> linux_inv K (kq_inflight w) w \<and> impl_ok (\<lambda>fi. set_file_poll_interval B = None \<and> linux_impl fi) linux_adm w"

subsection \<open>A concrete kernel\<close>

text \<open>The kernel of the concrete runs: descriptors count up from 10, everything
  that is asked for succeeds, and the interest list holds each descriptor once,
  with its events and its udata pointer.\<close>

record sim_os =
  sim_next :: int
  sim_interest :: "(int \<times> u32 \<times> addr option) list"

definition sim_ctl :: "epoll_op \<Rightarrow> int \<Rightarrow> u32 \<Rightarrow> addr option \<Rightarrow> sim_os sys" where
  "sim_ctl op fd ev u s =
     (let known = fd \<in> fst ` set (sim_interest s); rest = filter (\<lambda>e. fst e \<noteq> fd) (sim_interest s) in
      case op of
        EPOLL_CTL_ADD \<Rightarrow> if known then (s, -1, EEXIST) else (s\<lparr>sim_interest := (fd, ev, u) # rest\<rparr>, 0, 0)
      | EPOLL_CTL_MOD \<Rightarrow> if known then (s\<lparr>sim_interest := (fd, ev, u) # rest\<rparr>, 0, 0) else (s, -1, ENOENT)
      | EPOLL_CTL_DEL \<Rightarrow> if known then (s\<lparr>sim_interest := rest\<rparr>, 0, 0) else (s, -1, ENOENT))"

definition sim_fd :: "sim_os sys" where
  "sim_fd s = (s\<lparr>sim_next := sim_next s + 1\<rparr>, sim_next s, 0)"

definition sim_close :: "int \<Rightarrow> sim_os sys" where
  "sim_close fd s =
     (if fd < 0 then (s, -1, EBADF)
      else (s\<lparr>sim_interest := filter (\<lambda>e. fst e \<noteq> fd) (sim_interest s)\<rparr>, 0, 0))"

definition sim_kernel :: "sim_os kernel" where
  "sim_kernel =
     \<lparr>sys_epoll_ctl = \<lambda>_. sim_ctl, sys_eventfd = sim_fd, sys_write8 = \<lambda>_ s. (s, 8, 0), sys_read8 = \<lambda>_ s. (s, 8, 0, 1),
      sys_close = sim_close, sys_fstat = \<lambda>_ s. (s, 0, 0, \<lparr>st_mode = S_IFIFO, st_nlink = 1, st_size = 0\<rparr>),
      sys_lseek_cur = \<lambda>_ s. (s, 0, 0), sys_so_type = \<lambda>_ s. (s, 0, 0, SOCK_STREAM), sys_so_acceptconn = \<lambda>_ s. (s, 0, 0, 0),
      sys_so_get_filter = \<lambda>_ s. (s, 0, 0, 0), sys_so_error = \<lambda>_ s. (s, 0, 0, 0), sys_set_rcvlowat = \<lambda>_ _ s. (s, 0, 0),
      sys_set_sndlowat = \<lambda>_ _ s. (s, 0, 0), sys_siocinq = \<lambda>_ s. (s, 0, 0, 1), sys_siocoutq = \<lambda>_ s. (s, 0, 0, 0),
      sys_pipe_sz = \<lambda>_ s. (s, 65536, 0), sys_fionread = \<lambda>_ s. (s, 0, 0, 0), sys_timerfd_create = \<lambda>_. sim_fd,
      sys_timerfd_settime = \<lambda>_ _ _ s. (s, 0, 0), sys_inotify_init = sim_fd, sys_inotify_add_watch = \<lambda>_ _ _ s. (s, 1, 0),
      sys_inotify_rm_watch = \<lambda>_ _ s. (s, 0, 0), sys_inotify_read = \<lambda>_ _ s. (s, -1, EAGAIN, 0),
      sys_readlink_fd = \<lambda>_ s. (s, 2, 0, ''/f''), sys_pidfd_open = \<lambda>_. sim_fd, sys_set_cloexec = \<lambda>_ s. (s, 0, 0),
      sys_waitid = \<lambda>_ _ s. (s, 0, 0, \<lparr>si_pid = 1, si_code = CLD_EXITED, si_status = 0\<rparr>),
      sys_ppoll = \<lambda>_ _ s. (s, of_bool (sim_interest s \<noteq> []), 0),
      sys_epoll_wait = \<lambda>_ n _ s. (let evs = take n (map snd (sim_interest s)) in (s, int (length evs), 0, evs)),
      sys_epoll_create = sim_fd, sys_pipe = \<lambda>s. (s\<lparr>sim_next := sim_next s + 2\<rparr>, 0, 0, (sim_next s, sim_next s + 1)),
      sys_set_nonblock = \<lambda>_ s. (s, 0, 0), sys_read_pipe = \<lambda>_ s. (s, -1, EAGAIN), sys_write_pipe = \<lambda>_ s. (s, 1, 0)\<rparr>"

lemma sim_ctl_law: "ctl_law sim_kernel"
  by (auto simp: ctl_law_def sim_kernel_def sim_ctl_def Let_def split: epoll_op.split)

definition sim_filters :: "filter_t list" where
  "sim_filters = map (\<lambda>fi. filter_zero\<lparr>kf_id := word_of_int (- int fi - 1), kf_copyout_set := linux_impl fi\<rparr>) [0..<12]"

definition sim_world :: "sim_os lworld" where
  "sim_world = lworld_empty sim_filters \<lparr>sim_next = 10, sim_interest = []\<rparr>"

definition sim_build :: "(sim_os lworld) lkq_build" where
  "sim_build =
     \<lparr>version_string = 0x1000, version_major = 2, version_minor = 6, version_patch = 3,
      version_release = None, set_file_poll_interval = None, dbg_default = None, dbg_stderr = 0\<rparr>"

lemma lworld_empty_inv: "ctl_law K \<Longrightarrow> linux_inv K [] (lworld_empty fs s)"
  by (simp add: linux_inv_def lworld_empty_def queue_stale_def tree_ok_def idx_ok_def view_def)

lemma sim_world_wf: "linux_wf sim_kernel sim_build sim_world"
  unfolding linux_wf_def
proof (intro conjI)
  show "core_wf sim_world"
    by (rule core_wf_empty) (auto simp: sim_world_def lworld_empty_def sim_filters_def filter_zero_def EVFILT_SYSCOUNT_def)
  show "linux_inv sim_kernel (kq_inflight sim_world) sim_world"
    using lworld_empty_inv [OF sim_ctl_law] by (simp add: sim_world_def) (simp add: lworld_empty_def)
  have "\<forall>fi \<in> set [0 ..< 12]. word_of_int (- int fi - 1) \<noteq> (0 :: u16)" by code_simp
  then show "impl_ok (\<lambda>fi. set_file_poll_interval sim_build = None \<and> linux_impl fi) linux_adm sim_world"
    by (simp add: impl_ok_def impl_set_def sim_world_def lworld_empty_def sim_filters_def sim_build_def filter_zero_def EVFILT_SYSCOUNT_def
      del: of_int_diff of_int_minus)
qed

subsection \<open>Properties\<close>

lemma linux_inv_callers: "linux_inv K I w \<Longrightarrow> kq_inflight w = I"
  by (simp add: linux_inv_def)

lemma linux_copyin_ok:
  assumes "linux_wf K B w" "\<forall>c \<in> set cs. adm_change linux_adm c"
  shows "\<exists>w' rv out. kevent_copyin (linux_vt K B) lknote_zero cs n w = Some (w', rv, out) \<and>
    linux_wf K B w' \<and> kq_inflight w' = kq_inflight w \<and> length out \<le> n \<and> (rv = -1 \<or> rv = int (length out))"
proof -
  obtain w' rv out where w': "kevent_copyin (linux_vt K B) lknote_zero cs n w = Some (w', rv, out)"
      "core_wf w'" "linux_inv K (kq_inflight w) w'"
      "impl_ok (\<lambda>fi. set_file_poll_interval B = None \<and> linux_impl fi) linux_adm w'"
      "length out \<le> n" "rv = -1 \<or> rv = int (length out)"
    using lkb.copyin_ok [where K = K and I = "kq_inflight w" and B = B and w = w and cs = cs and n = n] assms
    unfolding linux_wf_def by blast
  then show ?thesis using linux_inv_callers [OF w'(3)] by (simp add: linux_wf_def)
qed



end
