(* ===== verification/Linux_Platform.thy ===== *)
theory Linux_Platform
  imports Linux_Backend
begin

text \<open>
  The platform hooks of the Linux backend (\<^verbatim>\<open>linux/platform.c\<close>): waiting in
  epoll_wait, copying events out of the thread-local buffer, the eventfd of a
  filter, and the set-up and tear-down of the backend's part of a kqueue.
  \<open>linux_hooks\<close> are the hooks that \<open>kevent_run\<close> goes through on Linux, so
  \<open>linux_kevent\<close> is the whole call.
\<close>

subsection \<open>Waiting\<close>

text \<open>A timespec is a pair of seconds and nanoseconds.  The timeout of epoll_wait is
  an int of milliseconds; the conversion is done in long and then truncated.\<close>

definition epoll_timeout :: "(int \<times> int) option \<Rightarrow> int" where
  "epoll_timeout ts =
     (case ts of
        None \<Rightarrow> -1
      | Some (sec, nsec) \<Rightarrow> sint (word_of_int (1000 * sec + cdiv nsec 1000000) :: 32 word))"

definition linux_kevent_wait_hires :: "'o kernel \<Rightarrow> int \<times> int \<Rightarrow> ('o, 'z) lw \<Rightarrow> ('o, 'z) lw \<times> int" where
  "linux_kevent_wait_hires K ts w =
     (let (w, n) = syscall (sys_ppoll K (epollfd w) ts) w in (w, if n < 0 then -1 else n))"

definition needs_hires :: "(int \<times> int) option \<Rightarrow> bool" where
  "needs_hires ts = (case ts of None \<Rightarrow> False | Some (sec, nsec) \<Rightarrow> cmod nsec 1000000 \<noteq> 0)"

definition epoll_wait_tls :: "'o kernel \<Rightarrow> nat \<Rightarrow> nat \<Rightarrow> int \<Rightarrow> ('o, 'z) lw \<Rightarrow> ('o, 'z) lw \<times> int" where
  "epoll_wait_tls K t nevents timeout w =
     (let (w, n, evs) = syscall_val (sys_epoll_wait K (epollfd w) nevents timeout) w in
      if n < 0 then (w, -1) else (w\<lparr>tls_events := (tls_events w)(t := evs)\<rparr>, n))"

definition linux_kevent_wait ::
  "'o kernel \<Rightarrow> nat \<Rightarrow> (int \<times> int) option \<Rightarrow> nat \<Rightarrow> ('o, 'z) lw \<Rightarrow> ('o, 'z) lw \<times> int" where
  "linux_kevent_wait K t ts nevents w =
     (if needs_hires ts then
        let (w, nret) = linux_kevent_wait_hires K (the ts) w in
        if nret \<le> 0 then (w, nret) else epoll_wait_tls K t nevents 0 w
      else epoll_wait_tls K t nevents (epoll_timeout ts) w)"

subsection \<open>Copying events out\<close>

text \<open>\<open>ndebug\<close> tells whether assertions are compiled out.  A failing copyout is
  asserted not to happen; a release build stops copying there.\<close>

definition linux_kevent_copyout_ev ::
  "bool \<Rightarrow> (nat \<Rightarrow> (('o, 'z) lw) filter_ops) \<Rightarrow> nat \<Rightarrow> u32 \<Rightarrow> nat \<Rightarrow> addr option \<Rightarrow> ('o, 'z) lw
    \<Rightarrow> (('o, 'z) lw \<times> int \<times> kevent list) option" where
  "linux_kevent_copyout_ev ndebug vt room ev fi kn w = do {
     (w, rv, evs) \<leftarrow> kf_copyout (vt fi) room kn ev w;
     if rv < 0 then if ndebug then Some (w, rv, []) else None
     else if evs \<noteq> [] \<and> kfilter (hd evs) = 0 then Some (w, 0, [])
     else Some (w, rv, evs) }"

definition knote_slot :: "lknote \<Rightarrow> nat" where
  "knote_slot k = nat (inv_filt (kfilter (kev k)))"

text \<open>The dispatch to one knote.  The flag tells whether the loop goes on: it ends
  when the event list is full or a copyout failed.\<close>

definition copyout_knote ::
  "bool \<Rightarrow> (nat \<Rightarrow> (('o, 'z) lw) filter_ops) \<Rightarrow> nat \<Rightarrow> u32 \<Rightarrow> addr \<Rightarrow> kevent list \<Rightarrow> ('o, 'z) lw
    \<Rightarrow> (('o, 'z) lw \<times> bool \<times> kevent list) option" where
  "copyout_knote ndebug vt n ev kn out w =
     (if n \<le> length out then Some (w, False, out)
      else do {
        k \<leftarrow> knotes w kn;
        (w, rv, evs) \<leftarrow> linux_kevent_copyout_ev ndebug vt (n - length out) ev (knote_slot k) (Some kn) w;
        if rv < 0 then Some (w, False, out) else Some (w, True, out @ evs) })"

definition copyout_fd_state ::
  "bool \<Rightarrow> (nat \<Rightarrow> (('o, 'z) lw) filter_ops) \<Rightarrow> nat \<Rightarrow> u32 \<Rightarrow> addr \<Rightarrow> kevent list \<Rightarrow> ('o, 'z) lw
    \<Rightarrow> (('o, 'z) lw \<times> bool \<times> kevent list) option" where
  "copyout_fd_state ndebug vt n ev f out w = do {
     s \<leftarrow> fdss w f;
     (w, go, out) \<leftarrow>
       (case fds_read s of
          Some kn \<Rightarrow>
            if has_flag ev (EPOLLIN OR EPOLLHUP OR EPOLLRDHUP OR EPOLLERR) then copyout_knote ndebug vt n ev kn out w
            else Some (w, True, out)
        | None \<Rightarrow> Some (w, True, out));
     if \<not> go then Some (w, False, out)
     else case fds_write s of
       Some kn \<Rightarrow>
         if has_flag ev (EPOLLOUT OR EPOLLHUP OR EPOLLERR) then copyout_knote ndebug vt n ev kn out w
         else Some (w, True, out)
     | None \<Rightarrow> Some (w, True, out) }"

text \<open>The eventfd of a filter has no check for room.\<close>

definition copyout_eventfd ::
  "bool \<Rightarrow> (nat \<Rightarrow> (('o, 'z) lw) filter_ops) \<Rightarrow> nat \<Rightarrow> u32 \<Rightarrow> nat \<Rightarrow> kevent list \<Rightarrow> ('o, 'z) lw
    \<Rightarrow> (('o, 'z) lw \<times> bool \<times> kevent list) option" where
  "copyout_eventfd ndebug vt n ev fi out w = do {
     (w, rv, evs) \<leftarrow> linux_kevent_copyout_ev ndebug vt (n - length out) ev fi None w;
     if rv < 0 then Some (w, False, out) else Some (w, True, out @ evs) }"

text \<open>The wake pipe is read until a read delivers nothing.\<close>

partial_function (option) drain_wake_pipe :: "'o kernel \<Rightarrow> ('o, 'z) lw \<Rightarrow> ('o, 'z) lw option" where
  "drain_wake_pipe K w =
     (let (w, n) = syscall (sys_read_pipe K (fst (pipefd w))) w in
      if n > 0 then drain_wake_pipe K w else Some w)"

declare drain_wake_pipe.simps [code]

definition copyout_dispatch ::
  "bool \<Rightarrow> (nat \<Rightarrow> (('o, 'z) lw) filter_ops) \<Rightarrow> nat \<Rightarrow> u32 \<Rightarrow> udata_ref \<Rightarrow> kevent list \<Rightarrow> ('o, 'z) lw
    \<Rightarrow> (('o, 'z) lw \<times> bool \<times> kevent list) option" where
  "copyout_dispatch ndebug vt n ev r out w = (case r of
     EPOLL_UDATA_KNOTE kn \<Rightarrow> copyout_knote ndebug vt n ev kn out w
   | EPOLL_UDATA_FD_STATE f \<Rightarrow> copyout_fd_state ndebug vt n ev f out w
   | EPOLL_UDATA_EVENT_FD fi \<Rightarrow> copyout_eventfd ndebug vt n ev fi out w
   | EPOLL_UDATA_KQ_WAKE \<Rightarrow> None)"

fun linux_copyout_loop ::
  "bool \<Rightarrow> 'o kernel \<Rightarrow> (nat \<Rightarrow> (('o, 'z) lw) filter_ops) \<Rightarrow> nat \<Rightarrow> (u32 \<times> addr option) list \<Rightarrow> kevent list
    \<Rightarrow> ('o, 'z) lw \<Rightarrow> (('o, 'z) lw \<times> int \<times> kevent list) option" where
  "linux_copyout_loop ndebug K vt n [] out w = Some (w, int (length out), out)"
| "linux_copyout_loop ndebug K vt n ((ev, None) # evs) out w = linux_copyout_loop ndebug K vt n evs out w"
| "linux_copyout_loop ndebug K vt n ((ev, Some u) # evs) out w = do {
     ud \<leftarrow> udatas w u;
     if ud_stale ud then linux_copyout_loop ndebug K vt n evs out w
     else if ud_ref ud = EPOLL_UDATA_KQ_WAKE then do {
       w \<leftarrow> drain_wake_pipe K w;
       Some (w\<lparr>errno := EBADF\<rparr>, -1, out) }
     else do {
       (w, go, out) \<leftarrow> copyout_dispatch ndebug vt n ev (ud_ref ud) out w;
       if go then linux_copyout_loop ndebug K vt n evs out w else Some (w, int (length out), out) } }"

definition linux_kevent_copyout ::
  "bool \<Rightarrow> 'o kernel \<Rightarrow> (nat \<Rightarrow> (('o, 'z) lw) filter_ops) \<Rightarrow> nat \<Rightarrow> int \<Rightarrow> nat \<Rightarrow> ('o, 'z) lw
    \<Rightarrow> (('o, 'z) lw \<times> int \<times> kevent list) option" where
  "linux_kevent_copyout ndebug K vt t nready nevents w =
     linux_copyout_loop ndebug K vt nevents (take (nat nready) (tls_events w t)) [] w"

subsection \<open>The call\<close>

definition linux_hooks ::
  "bool \<Rightarrow> 'o kernel \<Rightarrow> (nat \<Rightarrow> (('o, 'z) lw) filter_ops) \<Rightarrow> nat \<Rightarrow> (int \<times> int) option \<Rightarrow> (('o, 'z) lw) kevent_hooks" where
  "linux_hooks ndebug K vt t ts =
     \<lparr>hk_enter = linux_kevent_enter t, hk_exit = linux_kevent_exit t,
      hk_wait = \<lambda>n w. Some (linux_kevent_wait K t ts n w), hk_copyout = linux_kevent_copyout ndebug K vt t\<rparr>"

definition linux_kevent ::
  "bool \<Rightarrow> 'o kernel \<Rightarrow> (('o, 'z) lw) lkq_build \<Rightarrow> nat \<Rightarrow> (int \<times> int) option \<Rightarrow> kevent list \<Rightarrow> nat \<Rightarrow> ('o, 'z) lw
    \<Rightarrow> (('o, 'z) lw \<times> int \<times> kevent list) option" where
  "linux_kevent ndebug K B t ts changes nevents w =
     kevent_run (linux_hooks ndebug K (linux_vt K B) t ts) (linux_vt K B) lknote_zero changes nevents w"

subsection \<open>The eventfd of a filter\<close>

definition linux_eventfd_init :: "'o kernel \<Rightarrow> nat \<Rightarrow> ('o, 'z) lw \<Rightarrow> ('o, 'z) lw \<times> int" where
  "linux_eventfd_init K fi w =
     (let (w, evfd) = syscall (sys_eventfd K) w in
      if evfd < 0 then (w, -1) else (upd_filt fi (\<lambda>f. f\<lparr>kf_efd := evfd\<rparr>) w, 0))"

definition linux_eventfd_descriptor :: "nat \<Rightarrow> ('o, 'z) lw \<Rightarrow> int" where
  "linux_eventfd_descriptor fi w = kf_efd (kq_filt w ! fi)"

definition linux_eventfd_close :: "'o kernel \<Rightarrow> nat \<Rightarrow> ('o, 'z) lw \<Rightarrow> ('o, 'z) lw" where
  "linux_eventfd_close K fi w =
     (let (w, _) = syscall (sys_close K (kf_efd (kq_filt w ! fi))) w
      in upd_filt fi (\<lambda>f. f\<lparr>kf_efd := -1\<rparr>) w)"

definition linux_eventfd_register :: "'o kernel \<Rightarrow> nat \<Rightarrow> ('o, 'z) lw \<Rightarrow> ('o, 'z) lw \<times> int" where
  "linux_eventfd_register K fi w =
     (let w = EVENTFD_UDATA_ALLOC fi w;
          (w, rv) = syscall (sys_epoll_ctl K (epollfd w) EPOLL_CTL_ADD (linux_eventfd_descriptor fi w) EPOLLIN (efd_udata w fi)) w
      in if rv < 0 then (EVENTFD_UDATA_FREE fi w, -1) else (w, 0))"

definition linux_eventfd_unregister :: "'o kernel \<Rightarrow> nat \<Rightarrow> ('o, 'z) lw \<Rightarrow> ('o, 'z) lw option" where
  "linux_eventfd_unregister K fi w =
     (let (w, _) = syscall (sys_epoll_ctl K (epollfd w) EPOLL_CTL_DEL (linux_eventfd_descriptor fi w) 0 None) w
      in EVENTFD_UDATA_DEFER_FREE fi w)"

definition linux_eventfd_raise :: "'o kernel \<Rightarrow> nat \<Rightarrow> ('o, 'z) lw \<Rightarrow> ('o, 'z) lw \<times> int" where
  "linux_eventfd_raise K fi w =
     (let (w, n) = syscall (sys_write8 K (kf_efd (kq_filt w ! fi))) w in
      if n < 0 then
        if errno w = EAGAIN then (w, 0)
        else if errno w = EINTR then (w, - EINTR)
        else (w, -1)
      else (w, 0))"

definition linux_eventfd_lower :: "'o kernel \<Rightarrow> nat \<Rightarrow> ('o, 'z) lw \<Rightarrow> ('o, 'z) lw \<times> int" where
  "linux_eventfd_lower K fi w =
     (let (w, n, cur) = syscall_val (sys_read8 K (kf_efd (kq_filt w ! fi))) w in
      if n < 0 then
        if errno w = EAGAIN then (w, 0)
        else if errno w = EINTR then (w, - EINTR)
        else (w, -1)
      else if n \<noteq> 8 then (w, -1)
      else (w, 0))"

subsection \<open>Set-up and tear-down\<close>

text \<open>The process-wide state of the close detection: the epoll descriptor of the
  monitoring thread, its drain eventfd, and the thread's id.\<close>

record 'o mworld = "'o lworld" +
  monitoring_epfd :: int
  monitoring_drain_efd :: int
  monitoring_tid :: int

definition kqueue_init_error :: "'o kernel \<Rightarrow> 'o mworld \<Rightarrow> 'o mworld \<times> int" where
  "kqueue_init_error K w =
     (let (w, _) = syscall (sys_close K (epollfd w)) w;
          w = w\<lparr>epollfd := -1\<rparr>;
          (w, _) = syscall (sys_close K (fst (pipefd w))) w;
          w = w\<lparr>pipefd := (-1, snd (pipefd w))\<rparr>;
          (w, _) = syscall (sys_close K (snd (pipefd w))) w
      in (w\<lparr>pipefd := (fst (pipefd w), -1)\<rparr>, -1))"

text \<open>The lazy creation of the close-detection epoll set.\<close>

definition monitoring_setup :: "'o kernel \<Rightarrow> 'o mworld \<Rightarrow> 'o mworld \<times> int" where
  "monitoring_setup K w =
     (if monitoring_epfd w \<ge> 0 then (w, 0)
      else
        let (w, ep) = syscall (sys_epoll_create K) w; w = w\<lparr>monitoring_epfd := ep\<rparr> in
        if ep < 0 then (w, -1)
        else
          let (w, efd) = syscall (sys_eventfd K) w; w = w\<lparr>monitoring_drain_efd := efd\<rparr> in
          if efd < 0 then
            let (w, _) = syscall (sys_close K ep) w in (w\<lparr>monitoring_epfd := -1\<rparr>, -1)
          else
            let (w, rv) = syscall (sys_epoll_ctl K ep EPOLL_CTL_ADD efd EPOLLIN None) w in
            if rv < 0 then
              let (w, _) = syscall (sys_close K efd) w;
                  (w, _) = syscall (sys_close K ep) w
              in (w\<lparr>monitoring_drain_efd := -1, monitoring_epfd := -1\<rparr>, -1)
            else (w, 0))"

text \<open>\<open>start_thread\<close> creates the monitoring thread and yields its id, or fails.  The
  data pointers of the close-detection set name kqueues and the drain eventfd,
  not udata objects.\<close>

definition monitoring_watch :: "'o kernel \<Rightarrow> 'o sys \<Rightarrow> 'o mworld \<Rightarrow> 'o mworld \<times> int" where
  "monitoring_watch K start_thread w =
     (let (w, rv) = syscall (sys_epoll_ctl K (monitoring_epfd w) EPOLL_CTL_ADD (fst (pipefd w)) (EPOLLHUP OR EPOLLONESHOT) None) w in
      if rv < 0 then (w, -1)
      else if monitoring_tid w = 0 then
        let (w, tid) = syscall start_thread w in
        if tid \<le> 0 then (w, -1) else (w\<lparr>monitoring_tid := tid\<rparr>, 0)
      else (w, 0))"

definition linux_kqueue_init ::
  "'o kernel \<Rightarrow> 'o sys \<Rightarrow> ('o mworld \<Rightarrow> ('o mworld \<times> int) option) \<Rightarrow> 'o mworld \<Rightarrow> ('o mworld \<times> int) option" where
  "linux_kqueue_init K start_thread register_all w = do {
     let w = w\<lparr>kq_next_epoch := 0, kq_inflight := [], ud_deferred_free := []\<rparr>;
     let (w, ep) = syscall (sys_epoll_create K) w;
     let w = w\<lparr>epollfd := ep\<rparr>;
     if ep < 0 then Some (w, -1)
     else do {
       let (w, rv, fds) = syscall_val (sys_pipe K) w;
       if rv \<noteq> 0 then
         let (w, _) = syscall (sys_close K ep) w in Some (w\<lparr>epollfd := -1\<rparr>, -1)
       else do {
         let w = w\<lparr>pipefd := fds\<rparr>;
         (w, rv) \<leftarrow> register_all w;
         if rv < 0 then Some (kqueue_init_error K w)
         else do {
           let (w, r0) = syscall (sys_set_nonblock K (fst (pipefd w))) w;
           let (w, r1) = (if r0 < 0 then (w, r0) else syscall (sys_set_nonblock K (snd (pipefd w))) w);
           if r1 < 0 then Some (kqueue_init_error K w)
           else do {
             let w = w\<lparr>kq_id := snd (pipefd w)\<rparr>;
             let (w, u) = epoll_udata_alloc EPOLL_UDATA_KQ_WAKE w;
             let w = w\<lparr>kq_wake_udata := u\<rparr>;
             if u = None then Some (kqueue_init_error K w)
             else do {
               let (w, rv) = syscall (sys_epoll_ctl K (epollfd w) EPOLL_CTL_ADD (fst (pipefd w)) (EPOLLIN OR EPOLLHUP) u) w;
               if rv < 0 then Some (kqueue_init_error K ((free_udata u w)\<lparr>kq_wake_udata := None\<rparr>))
               else do {
                 let (w, rv) = monitoring_setup K w;
                 let (w, rv) = (if rv < 0 then (w, rv) else monitoring_watch K start_thread w);
                 if rv < 0 then Some (kqueue_init_error K w) else Some (w, 0) } } } } } } }"

definition linux_kqueue_interrupt :: "'o kernel \<Rightarrow> ('o, 'z) lw \<Rightarrow> ('o, 'z) lw" where
  "linux_kqueue_interrupt K w =
     (if snd (pipefd w) < 0 then w else fst (syscall (sys_write_pipe K (snd (pipefd w))) w))"

text \<open>Freeing the queued udata objects one after the other.\<close>

fun free_deferred :: "addr list \<Rightarrow> ('o, 'z) lw \<Rightarrow> ('o, 'z) lw option" where
  "free_deferred [] w = Some (w\<lparr>ud_deferred_free := []\<rparr>)"
| "free_deferred (u # us) w = do {
     _ \<leftarrow> udatas w u;
     free_deferred us (w\<lparr>udatas := (udatas w)(u := None)\<rparr>) }"

partial_function (option) drain_pipe :: "'o kernel \<Rightarrow> int \<Rightarrow> 'o mworld \<Rightarrow> 'o mworld option" where
  "drain_pipe K fd w =
     (let (w, n) = syscall (sys_read_pipe K fd) w in if n > 0 then drain_pipe K fd w else Some w)"

declare drain_pipe.simps [code]

definition linux_kqueue_free :: "'o kernel \<Rightarrow> 'o mworld \<Rightarrow> 'o mworld option" where
  "linux_kqueue_free K w = do {
     let w = (if epollfd w > 0 then (fst (syscall (sys_close K (epollfd w)) w))\<lparr>epollfd := -1\<rparr> else w);
     let (w, ret) = syscall (sys_read_pipe K (fst (pipefd w))) w;
     w \<leftarrow> (if ret = -1 \<and> errno w = EAGAIN then
             Some ((fst (syscall (sys_close K (snd (pipefd w))) w))\<lparr>pipefd := (fst (pipefd w), -1)\<rparr>)
           else if ret > 0 then drain_pipe K (fst (pipefd w)) w
           else Some w);
     let w = (if fst (pipefd w) > 0 then
                let w = (if monitoring_epfd w \<ge> 0
                         then fst (syscall (sys_epoll_ctl K (monitoring_epfd w) EPOLL_CTL_DEL (fst (pipefd w)) 0 None) w)
                         else w)
                in (fst (syscall (sys_close K (fst (pipefd w))) w))\<lparr>pipefd := (-1, snd (pipefd w))\<rparr>
              else w);
     if kq_inflight w \<noteq> [] then None
     else do {
       w \<leftarrow> free_deferred (ud_deferred_free w) w;
       Some ((free_udata (kq_wake_udata w) w)\<lparr>kq_wake_udata := None\<rparr>) } }"

subsection \<open>Waiting and copying out\<close>

text \<open>The timeout of epoll_wait.  Up to 2147482 seconds (some 24 days) the conversion
  of a timespec to milliseconds is exact; above the range of an int it is
  truncated: a wait of 2147484 seconds becomes a negative number, which means to
  wait without a limit, and one of 4294968 seconds ends after 704 milliseconds.\<close>

theorem epoll_timeout_range:
  "(\<forall>sec nsec. 0 \<le> sec \<and> sec \<le> 2147482 \<and> 0 \<le> nsec \<and> nsec < 1000000000 \<longrightarrow>
      epoll_timeout (Some (sec, nsec)) = 1000 * sec + nsec div 1000000) \<and>
   epoll_timeout (Some (2147484, 0)) < 0 \<and> epoll_timeout (Some (4294968, 0)) = 704"
proof (intro conjI allI impI)
  fix sec nsec :: int
  assume a: "0 \<le> sec \<and> sec \<le> 2147482 \<and> 0 \<le> nsec \<and> nsec < 1000000000"
  let ?ms = "1000 * sec + nsec div 1000000"
  have "0 \<le> nsec div 1000000" "nsec div 1000000 < 1000" using a by auto
  then have r: "0 \<le> ?ms" "?ms < 2 ^ 31" using a by auto
  have "sint (word_of_int ?ms :: 32 word) = ?ms"
    by (rule sint_of_int_small) (use r in auto)
  then show "epoll_timeout (Some (sec, nsec)) = ?ms" using a by (simp add: epoll_timeout_def)
qed (simp_all add: epoll_timeout_def)

theorem epoll_timeout_range_witness: "epoll_timeout (Some (1, 500000000)) = 1500"
  using epoll_timeout_range [THEN conjunct1, rule_format, of 1 500000000] by simp

subsection \<open>The size of the result\<close>

text \<open>Every filter of the table copies out at most one event for a knote, and returns
  the number of events; without a knote it delivers none.\<close>

definition single :: "nat \<Rightarrow> (('o, 'z) lw \<times> int \<times> kevent list) option \<Rightarrow> bool" where
  "single room m \<longleftrightarrow>
     (case m of None \<Rightarrow> True
      | Some (w, rv, evs) \<Rightarrow> length evs \<le> room \<and> (0 \<le> rv \<longrightarrow> rv = int (length evs)))"

lemma single_simps [simp]:
  "single n None" "single n (Some (w, rv, evs)) \<longleftrightarrow> length evs \<le> n \<and> (0 \<le> rv \<longrightarrow> rv = int (length evs))"
  by (simp_all add: single_def)

lemma single_bind: "(\<And>x. m = Some x \<Longrightarrow> single n (f x)) \<Longrightarrow> single n (Option.bind m f)"
  by (cases m) auto

lemma single_if: "(c \<Longrightarrow> single n a) \<Longrightarrow> (\<not> c \<Longrightarrow> single n b) \<Longrightarrow> single n (if c then a else b)"
  by simp

lemma single_prod: "(\<And>a b. x = (a, b) \<Longrightarrow> single n (f a b)) \<Longrightarrow> single n (case x of (a, b) \<Rightarrow> f a b)"
  by (cases x) simp

lemma single_option: "single n a \<Longrightarrow> (\<And>y. x = Some y \<Longrightarrow> single n (b y)) \<Longrightarrow> single n (case x of None \<Rightarrow> a | Some y \<Rightarrow> b y)"
  by (cases x) auto

lemmas single_intros = single_bind single_if single_prod single_option

lemma copyout_single:
  assumes "kn \<noteq> None \<Longrightarrow> 0 < n"
  shows "single n (kf_copyout (linux_vt K B fi) n kn ev w)"
proof (cases kn)
  case None
  then show ?thesis
    by (simp add: linux_vt_def evfilt_read_def evfilt_write_def evfilt_vnode_def evfilt_proc_def evfilt_timer_def
      evfilt_user_def evfilt_read_copyout_def evfilt_write_copyout_def evfilt_vnode_copyout_def evfilt_proc_copyout_def
      evfilt_timer_copyout_def linux_evfilt_user_copyout_def common_libkqueue_knote_copyout_def)
next
  case (Some a)
  then have n: "Suc 0 \<le> n" using assms by simp
  have "single n (evfilt_read_copyout K n kn ev w)" "single n (evfilt_write_copyout K n kn ev w)"
    "single n (evfilt_vnode_copyout K n kn ev w)" "single n (evfilt_proc_copyout K n kn ev w)"
    "single n (evfilt_timer_copyout K n kn ev w)" "single n (linux_evfilt_user_copyout K n kn ev w)"
    unfolding evfilt_read_copyout_def evfilt_read_copyout_file_def evfilt_write_copyout_def evfilt_vnode_copyout_def
      evfilt_proc_copyout_def evfilt_timer_copyout_def linux_evfilt_user_copyout_def Let_def
    by (intro single_intros; use n in simp)+
  then show ?thesis
    by (simp add: linux_vt_def evfilt_read_def evfilt_write_def evfilt_vnode_def evfilt_proc_def evfilt_timer_def
      evfilt_user_def common_libkqueue_knote_copyout_def)
qed

lemma copyout_ev_room:
  assumes "linux_kevent_copyout_ev nd (linux_vt K B) room ev fi kn w = Some (w', rv, evs)" "kn \<noteq> None \<Longrightarrow> 0 < room"
  shows "length evs \<le> room"
proof -
  have "single room (kf_copyout (linux_vt K B fi) room kn ev w)" by (rule copyout_single) (rule assms(2))
  then show ?thesis
    using assms(1) by (auto simp: linux_kevent_copyout_ev_def bind_eq_Some_conv split: if_splits)
qed

definition fits :: "nat \<Rightarrow> (('o, 'z) lw \<times> 'a \<times> kevent list) option \<Rightarrow> bool" where
  "fits n m \<longleftrightarrow> (case m of None \<Rightarrow> True | Some (w, x, out) \<Rightarrow> length out \<le> n)"

lemma fits_simps [simp]: "fits n None" "fits n (Some (w, x, out)) \<longleftrightarrow> length out \<le> n"
  by (simp_all add: fits_def)

lemma fits_bind:
  assumes "fits n m" "\<And>w x out. length out \<le> n \<Longrightarrow> fits n (f (w, x, out))"
  shows "fits n (Option.bind m f)"
  using assms by (cases m) auto

lemma copyout_ev_fits:
  assumes "length out \<le> n" "kn \<noteq> None \<Longrightarrow> length out < n"
  shows "fits n (do {
    (w, rv, evs) \<leftarrow> linux_kevent_copyout_ev nd (linux_vt K B) (n - length out) ev fi kn w;
    if rv < 0 then Some (w, False, out) else Some (w, True, out @ evs) })"
proof (cases "linux_kevent_copyout_ev nd (linux_vt K B) (n - length out) ev fi kn w")
  case (Some x)
  obtain w' rv evs where x: "x = (w', rv, evs)" by (cases x)
  have "length evs \<le> n - length out"
    by (rule copyout_ev_room [OF Some [unfolded x]]) (use assms in simp)
  then show ?thesis using assms(1) Some x by auto
qed simp

lemma copyout_knote_fits: "length out \<le> n \<Longrightarrow> fits n (copyout_knote nd (linux_vt K B) n ev kn out w)"
  by (cases "knotes w kn") (auto simp: copyout_knote_def intro!: copyout_ev_fits)

lemma copyout_dispatch_fits:
  assumes "length out \<le> n"
  shows "fits n (copyout_dispatch nd (linux_vt K B) n ev r out w)"
proof (cases r)
  case (EPOLL_UDATA_FD_STATE f)
  show ?thesis
  proof (cases "fdss w f")
    case (Some s)
    show ?thesis
      unfolding copyout_dispatch_def EPOLL_UDATA_FD_STATE copyout_fd_state_def Some udata_ref.case Option.bind.simps
      by (rule fits_bind) (use assms copyout_knote_fits in \<open>auto split: option.split\<close>)
  qed (simp add: copyout_dispatch_def EPOLL_UDATA_FD_STATE copyout_fd_state_def)
next
  case (EPOLL_UDATA_EVENT_FD fi)
  show ?thesis
    unfolding copyout_dispatch_def EPOLL_UDATA_EVENT_FD copyout_eventfd_def udata_ref.case
    by (rule copyout_ev_fits) (use assms in auto)
qed (simp_all add: copyout_dispatch_def copyout_knote_fits assms)

lemma copyout_loop_fits:
  assumes "linux_copyout_loop nd K (linux_vt K B) n evs out w = Some (w', rv, out')" "length out \<le> n"
  shows "length out' \<le> n \<and> (rv = -1 \<or> rv = int (length out'))"
  using assms
proof (induction evs arbitrary: out w)
  case (Cons e evs)
  obtain ev p where e: "e = (ev, p)" by force
  show ?case
  proof (cases p)
    case (Some u)
    then obtain ud where ud: "udatas w u = Some ud" using Cons.prems e by (auto simp: bind_eq_Some_conv)
    obtain m where m: "copyout_dispatch nd (linux_vt K B) n ev (ud_ref ud) out w = m" "fits n m"
      using copyout_dispatch_fits [OF Cons.prems(2)] by blast
    show ?thesis
      using Cons m ud unfolding e Some
      by (cases m) (auto simp: bind_eq_Some_conv split: if_splits)
  qed (use Cons e in auto)
qed auto

lemma wait_result: "linux_kevent_wait K t ts n w = (w', rv) \<Longrightarrow> -1 \<le> rv"
  by (auto simp: linux_kevent_wait_def linux_kevent_wait_hires_def epoll_wait_tls_def Let_def split: if_splits prod.splits)

lemma linux_collect_bounds:
  assumes "kevent_collect (linux_hooks nd K (linux_vt K B) t ts) n out w = Some (w', rv, out')" "length out \<le> n"
  shows "length out' \<le> n \<and> -1 \<le> rv \<and> rv \<le> int (length out')"
  using assms
  by (auto simp: kevent_collect_def linux_hooks_def linux_kevent_copyout_def bind_eq_Some_conv
      split: if_splits prod.splits dest!: copyout_loop_fits dest: wait_result)

lemma kevent_run_cases:
  assumes "kevent_run hk vt kz cs n w = Some (w', rv, out)"
  obtains w1 r1 o1 w2 where
    "(if cs \<noteq> [] then kevent_copyin vt kz cs n (hk_enter hk w) else Some (hk_enter hk w, 0, [])) = Some (w1, r1, o1)"
    "(if r1 < 0 then Some (w1, r1, o1) else kevent_collect hk n o1 w1) = Some (w2, rv, out)"
    "hk_exit hk w2 = Some w'"
proof -
  let ?c = "if cs \<noteq> [] then kevent_copyin vt kz cs n (hk_enter hk w) else Some (hk_enter hk w, 0, [])"
  obtain w1 r1 o1 where c: "?c = Some (w1, r1, o1)"
    using assms by (cases ?c) (auto simp: kevent_run_def)
  let ?e = "if r1 < 0 then Some (w1, r1, o1) else kevent_collect hk n o1 w1"
  have e: "Option.bind ?e (\<lambda>(w, rv, out). Option.bind (hk_exit hk w) (\<lambda>w. Some (w, rv, out))) = Some (w', rv, out)"
    using assms unfolding kevent_run_def Let_def c by simp
  then obtain w2 where "?e = Some (w2, rv, out)" "hk_exit hk w2 = Some w'"
    by (cases ?e) (auto simp only: Option.bind.simps prod.case bind_eq_Some_conv option.inject prod.inject option.distinct)
  then show thesis using c that by blast
qed


end
