(* ===== verification/Linux_Runs.thy ===== *)
theory Linux_Runs
  imports Linux_Platform
begin

text \<open>
  Properties of whole calls of kevent() on Linux, and concrete runs of the model on
  the small kernel of \<open>Linux_Backend\<close>: what a change does to the knotes, the tear-down
  of a kqueue's filters, and a sequence of calls that ends in a read of freed
  memory.
\<close>

subsection \<open>Concrete states\<close>

text \<open>The world of the concrete kernel after a change list, and after a whole call that
  does not block.\<close>

definition sim_changes :: "kevent list \<Rightarrow> sim_os lworld" where
  "sim_changes cs =
     (case kevent_copyin (linux_vt sim_kernel sim_build) lknote_zero cs 0 sim_world of
        Some (w, _, _) \<Rightarrow> w | None \<Rightarrow> sim_world)"

definition sim_call :: "kevent list \<Rightarrow> nat \<Rightarrow> sim_os lworld \<Rightarrow> (sim_os lworld \<times> int \<times> kevent list) option" where
  "sim_call cs n w = linux_kevent False sim_kernel sim_build 1 (Some (0, 0)) cs n w"

lemma sim_changes_wf:
  assumes "\<forall>c \<in> set cs. adm_change linux_adm c"
  shows "linux_wf sim_kernel sim_build (sim_changes cs)"
proof -
  obtain w' rv out where "kevent_copyin (linux_vt sim_kernel sim_build) lknote_zero cs 0 sim_world = Some (w', rv, out)"
      "linux_wf sim_kernel sim_build w'"
    using linux_copyin_ok [OF sim_world_wf assms, of 0] by blast
  then show ?thesis by (simp add: sim_changes_def)
qed

lemma sim_lookup: "kf_copyout_set (kq_filt w ! 0) \<Longrightarrow> filter_lookup EVFILT_READ w = (w, Some 0)"
  by (simp add: filter_lookup_Some inv_filt_def EVFILT_READ_def EVFILT_SYSCOUNT_def)

subsection \<open>What a change does\<close>



text \<open>C26: deleting.  On Linux an EV_DELETE for a descriptor with a knote runs to the end;
  whether or not it reports an error, the knote is out of the index and its memory is
  released.\<close>

theorem linux_delete_removes:
  assumes "linux_wf K B w" "adm_change linux_adm src" "filter_lookup (kfilter src) w = (w, Some fi)"
    and "knote_lookup fi (ident src) w = Some kn" "has_flag (flags src) EV_DELETE"
    and "\<not> (has_flag (flags src) EV_DISPATCH \<and> has_flag (flags src) EV_ONESHOT)"
  shows "\<exists>w' rv. kevent_copyin_one (linux_vt K B) lknote_zero src w = Some (w', rv, Some kn) \<and> rv \<le> 0 \<and>
    knote_lookup fi (ident src) w' = None \<and> knotes w' kn = None"
  using lkb.copyin_delete_effect [where K = K and I = "kq_inflight w" and B = B and w = w and src = src and fi = fi and kn = kn] assms
  unfolding linux_wf_def by blast

theorem linux_delete_removes_witness:
  "\<exists>w' rv. kevent_copyin_one (linux_vt sim_kernel sim_build) lknote_zero (EV_SET 5 EVFILT_READ EV_DELETE 0 0 0)
      (sim_changes [EV_SET 5 EVFILT_READ EV_ADD 0 0 0]) = Some (w', rv, Some 1) \<and> rv \<le> 0 \<and>
    knote_lookup 0 5 w' = None \<and> knotes w' 1 = None"
proof -
  let ?w = "sim_changes [EV_SET 5 EVFILT_READ EV_ADD 0 0 0]"
  have "kf_copyout_set (kq_filt ?w ! 0)" "knote_lookup 0 5 ?w = Some 1"
    "has_flag EV_DELETE EV_DELETE" "\<not> has_flag EV_DELETE EV_DISPATCH"
    by code_simp+
  moreover have "linux_wf sim_kernel sim_build ?w"
    by (rule sim_changes_wf) (simp add: adm_change_def linux_adm_def)
  ultimately show ?thesis
    using linux_delete_removes [of sim_kernel sim_build ?w "EV_SET 5 EVFILT_READ EV_DELETE 0 0 0" 0 1]
    by (simp add: sim_lookup adm_change_def linux_adm_def EV_SET_def)
qed

text \<open>C27: tearing the filters down.  Unregistering all filters runs to the end on Linux without touching freed memory
  and leaves no knote allocated: none leaks.\<close>

theorem linux_unregister_all_frees:
  assumes "linux_wf K B w"
  shows "\<exists>w'. filter_unregister_all (linux_vt K B) (\<lambda>_. None) None w = Some w' \<and>
    linux_inv K (kq_inflight w) w' \<and> knotes w' = Map.empty \<and> kq_knote_count w' = 0"
  using lkb.unregister_all_ok [where K = K and I = "kq_inflight w" and B = B and w = w] assms unfolding linux_wf_def by blast

theorem linux_unregister_all_frees_witness:
  "\<exists>w'. filter_unregister_all (linux_vt sim_kernel sim_build) (\<lambda>_. None) None
      (sim_changes [EV_SET 5 EVFILT_READ EV_ADD 0 0 0, EV_SET 1 EVFILT_TIMER EV_ADD 0 100 0]) = Some w' \<and>
    knotes w' = Map.empty \<and> kq_knote_count w' = 0"
proof -
  have "linux_wf sim_kernel sim_build (sim_changes [EV_SET 5 EVFILT_READ EV_ADD 0 0 0, EV_SET 1 EVFILT_TIMER EV_ADD 0 100 0])"
    by (rule sim_changes_wf) (simp add: adm_change_def linux_adm_def)
  then show ?thesis using linux_unregister_all_frees by blast
qed

subsection \<open>A use after free\<close>


subsection \<open>Further concrete runs\<close>

text \<open>A kernel whose inotify descriptors deliver one event for every descriptor number
  handed out so far.\<close>

definition sim_queue_kernel :: "sim_os kernel" where
  "sim_queue_kernel = sim_kernel\<lparr>sys_inotify_read := \<lambda>_ _ s.
     if sim_next s > 0 then (s\<lparr>sim_next := sim_next s - 1\<rparr>, 16, 0, IN_ATTRIB) else (s, -1, EAGAIN, 0)\<rparr>"

definition sim_file_kernel :: "sim_os kernel" where
  "sim_file_kernel = sim_kernel\<lparr>sys_fstat := \<lambda>_ s. (s, 0, 0, \<lparr>st_mode = S_IFREG, st_nlink = 1, st_size = 10\<rparr>)\<rparr>"

definition sim_file :: "sim_os lworld" where
  "sim_file =
     (case kevent_copyin (linux_vt sim_file_kernel sim_build) lknote_zero [EV_SET 5 EVFILT_READ EV_ADD 0 0 0] 0 sim_world of
        Some (w, _, _) \<Rightarrow> w | None \<Rightarrow> sim_world)"

lemma live: "\<not> Option.is_none x \<Longrightarrow> x = Some (the x)"
  by (simp add: Option.is_none_def)


theorem filter_register_lookup_witness:
  "\<exists>w'. filter_register None \<lparr>fd_id = EVFILT_USER, fd_callbacks = True, fd_ops = evfilt_user sim_kernel, fd_init = None,
      fd_destroy = None, fd_libkqueue_init = None, fd_libkqueue_fork = None, fd_libkqueue_free = None\<rparr> sim_world = Some (w', 0) \<and>
    filter_lookup EVFILT_USER w' = (w', Some 10) \<and> knote_lookup 10 1 w' = None"
proof -
  let ?f = "\<lparr>fd_id = EVFILT_USER, fd_callbacks = True, fd_ops = evfilt_user sim_kernel, fd_init = None,
      fd_destroy = None, fd_libkqueue_init = None, fd_libkqueue_fork = None, fd_libkqueue_free = None\<rparr>"
  have "EVFILT_USER \<noteq> 0" "inv_filt EVFILT_USER = 10" "length (kq_filt sim_world) = EVFILT_SYSCOUNT" "int EVFILT_SYSCOUNT > 10"
    by code_simp+
  then show ?thesis using filter_register_lookup [of ?f sim_world 1] by auto
qed

theorem kevent_timeout_drops_receipts_witness:
  "\<exists>w3 out. kevent_run (linux_hooks False sim_kernel (linux_vt sim_kernel sim_build) 1 (Some (0, 0)))
      (linux_vt sim_kernel sim_build) lknote_zero [EV_SET 5 EVFILT_READ EV_DELETE 0 0 0] 2 sim_world = Some (w3, 0, out) \<and>
    length out = 1"
proof -
  let ?hk = "linux_hooks False sim_kernel (linux_vt sim_kernel sim_build) 1 (Some (0, 0))"
  let ?cs = "[EV_SET 5 EVFILT_READ EV_DELETE 0 0 0]"
  let ?c = "kevent_copyin (linux_vt sim_kernel sim_build) lknote_zero ?cs 2 (hk_enter ?hk sim_world)"
  define w1 where "w1 = fst (the ?c)"
  define w2 where "w2 = fst (the (hk_wait ?hk 2 w1))"
  define out where "out = snd (snd (the ?c))"
  have "\<not> Option.is_none ?c" "fst (snd (the ?c)) = 1" "length (snd (snd (the ?c))) = 1"
    "\<not> Option.is_none (hk_wait ?hk 2 (fst (the ?c)))" "snd (the (hk_wait ?hk 2 (fst (the ?c)))) = 0"
    "\<not> Option.is_none (hk_exit ?hk (fst (the (hk_wait ?hk 2 (fst (the ?c))))))"
    by code_simp+
  then have "?c = Some (w1, int (length out), out)" "hk_wait ?hk 2 w1 = Some (w2, 0)" "hk_exit ?hk w2 = Some (the (hk_exit ?hk w2))"
      "length out = 1"
    unfolding w1_def w2_def out_def by (auto simp: Option.is_none_def prod_eq_iff)
  then show ?thesis
    using kevent_timeout_drops_receipts [of ?cs "linux_vt sim_kernel sim_build" lknote_zero 2 ?hk sim_world w1 out w2] by auto
qed

theorem user_modify_effect_witness:
  "\<exists>k w' rv. knotes (sim_changes [EV_SET 7 EVFILT_USER (EV_ADD OR EV_CLEAR) 0 0 0]) 1 = Some k \<and>
    linux_evfilt_user_knote_modify sim_kernel 1 (EV_SET 7 EVFILT_USER 0 NOTE_TRIGGER 0 0)
      (sim_changes [EV_SET 7 EVFILT_USER (EV_ADD OR EV_CLEAR) 0 0 0]) = Some (w', rv) \<and>
    map_option (\<lambda>k. fflags (kev k)) (knotes w' 1) = Some (set_flag NOTE_TRIGGER (user_fflags NOTE_TRIGGER (fflags (kev k))))"
proof -
  let ?w = "sim_changes [EV_SET 7 EVFILT_USER (EV_ADD OR EV_CLEAR) 0 0 0]"
  have "\<not> Option.is_none (knotes ?w 1)" "KNOTE_ENABLED (the (knotes ?w 1))" "has_flag NOTE_TRIGGER NOTE_TRIGGER"
    by code_simp+
  then show ?thesis
    using user_modify_effect [OF live, of ?w 1 sim_kernel "EV_SET 7 EVFILT_USER 0 NOTE_TRIGGER 0 0"] live [of "knotes ?w 1"]
    by (auto simp: EV_SET_def)
qed

theorem vnode_drain_returns_witness:
  "\<exists>w' rv m. drain_events sim_queue_kernel 10 0 sim_world = Some (w', rv, m)"
  by (rule vnode_drain_returns [where queued = "\<lambda>s. nat (sim_next s)"])
    (auto simp: sim_queue_kernel_def EAGAIN_def EINTR_def split: if_splits)

theorem vnode_notes_requested_witness:
  "\<exists>k w' rv evs. knotes (sim_changes [EV_SET 5 EVFILT_VNODE EV_ADD NOTE_ATTRIB 0 0]) 1 = Some k \<and>
    evfilt_vnode_copyout sim_queue_kernel 1 (Some 1) 0 (sim_changes [EV_SET 5 EVFILT_VNODE EV_ADD NOTE_ATTRIB 0 0]) = Some (w', rv, evs) \<and>
    length evs = 1 \<and> clear_flag NOTE_ATTRIB (fflags (hd evs)) = 0"
proof -
  let ?w = "sim_changes [EV_SET 5 EVFILT_VNODE EV_ADD NOTE_ATTRIB 0 0]"
  let ?r = "evfilt_vnode_copyout sim_queue_kernel 1 (Some 1) 0 ?w"
  have r: "\<not> Option.is_none (knotes ?w 1)" "\<not> Option.is_none ?r" "length (snd (snd (the ?r))) = 1"
    "fflags (kev (the (knotes ?w 1))) = NOTE_ATTRIB" "\<not> has_flag NOTE_ATTRIB NOTE_WRITE"
    by code_simp+
  obtain w' rv evs where x: "?r = Some (w', rv, evs)" "length evs = 1" using r by (cases ?r) auto
  have "\<forall>e \<in> set evs. clear_flag NOTE_ATTRIB (fflags e) = 0"
    using vnode_notes_requested [OF live [OF r(1)] x(1)] r(4,5) by simp
  then have "clear_flag NOTE_ATTRIB (fflags (hd evs)) = 0" using x(2) by (cases evs) auto
  then show ?thesis using live [OF r(1)] x by blast
qed

theorem file_read_copyout_witness:
  "\<exists>k. knotes sim_file 1 = Some k \<and> evfilt_read_copyout sim_file_kernel 1 (Some 1) 0 sim_file =
    Some (sim_file, 1, [(kev k)\<lparr>data := 10\<rparr>])"
proof -
  have r: "\<not> Option.is_none (knotes sim_file 1)" "has_flag (kn_flags (the (knotes sim_file 1))) KNFL_FILE" by code_simp+
  then have "is_file (the (knotes sim_file 1))" by (simp add: is_file_def)
  from file_read_copyout [OF live [OF r(1)] this, of sim_file_kernel "os sim_file" 0 0 "os sim_file" 0
      "\<lparr>st_mode = S_IFREG, st_nlink = 1, st_size = 10\<rparr>" 1 0]
  have "evfilt_read_copyout sim_file_kernel 1 (Some 1) 0 sim_file = Some (sim_file, 1, [(kev (the (knotes sim_file 1)))\<lparr>data := 10\<rparr>])"
    by (simp add: sim_file_kernel_def sim_kernel_def)
  then show ?thesis using live [OF r(1)] by blast
qed

end
