(* ===== verification/Kq_Map.thy ===== *)
theory Kq_Map
  imports Prelude
begin

text \<open>
  The map from kqueue descriptors to kqueue objects (\<^verbatim>\<open>common/map.c\<close>): a
  zero-filled array of pointers updated by compare-and-swap.  The interface
  its clients rely on is the locale \<open>fd_map\<close>; it is interpreted on the
  definitions that translate the C functions.

  A pointer is a 64-bit word with 0 for NULL, an index is a C int, the length
  is a size_t.  The array is a function from slots to words; an access at or
  past \<open>map_len\<close> is outside the allocation.
\<close>

subsection \<open>Model\<close>

record kqmap =
  map_len :: u64
  map_data :: "nat \<Rightarrow> u64"

definition NULL :: u64 where "NULL = 0"

definition map_new :: "u64 \<Rightarrow> bool \<Rightarrow> bool \<Rightarrow> kqmap option" where
  "map_new n calloc_ok mmap_ok =
     (if \<not> calloc_ok then None
      else if \<not> mmap_ok then None
      else Some \<lparr>map_len = n, map_data = (\<lambda>_. NULL)\<rparr>)"

definition MAP_IDX_OOB :: "kqmap \<Rightarrow> 32 word \<Rightarrow> bool" where
  "MAP_IDX_OOB m idx \<longleftrightarrow> sint idx < 0 \<or> nat (sint idx) \<ge> unat (map_len m)"

text \<open>The slot an index that is not negative names.\<close>

definition slot :: "32 word \<Rightarrow> nat" where
  "slot idx = nat (sint idx)"

definition atomic_ptr_cas :: "kqmap \<Rightarrow> nat \<Rightarrow> u64 \<Rightarrow> u64 \<Rightarrow> kqmap \<times> bool" where
  "atomic_ptr_cas m i old new =
     (if map_data m i = old then (m\<lparr>map_data := (map_data m)(i := new)\<rparr>, True)
      else (m, False))"

definition map_insert :: "kqmap \<Rightarrow> 32 word \<Rightarrow> u64 \<Rightarrow> kqmap \<times> int" where
  "map_insert m idx ptr =
     (if MAP_IDX_OOB m idx then (m, -1)
      else let (m', ok) = atomic_ptr_cas m (slot idx) NULL ptr
           in if ok then (m', 0) else (m', -1))"

definition map_remove :: "kqmap \<Rightarrow> 32 word \<Rightarrow> u64 \<Rightarrow> kqmap \<times> int" where
  "map_remove m idx ptr =
     (if MAP_IDX_OOB m idx then (m, -1)
      else let (m', ok) = atomic_ptr_cas m (slot idx) ptr NULL
           in if ok then (m', 0) else (m', -1))"

text \<open>\<open>map_replace\<close> has its own bounds check; the result None is an access
  outside the array.\<close>

definition map_replace :: "kqmap \<Rightarrow> 32 word \<Rightarrow> u64 \<Rightarrow> u64 \<Rightarrow> (kqmap \<times> int) option" where
  "map_replace m idx oldp newp =
     (if sint idx < 0 \<or> sint idx > sint (ucast (map_len m) :: 32 word) then Some (m, -1)
      else if slot idx \<ge> unat (map_len m) then None
      else let (m', ok) = atomic_ptr_cas m (slot idx) oldp newp
           in if ok then Some (m', 0) else Some (m', -1))"

definition map_lookup :: "kqmap \<Rightarrow> 32 word \<Rightarrow> u64" where
  "map_lookup m idx = (if MAP_IDX_OOB m idx then NULL else map_data m (slot idx))"

definition map_delete :: "kqmap \<Rightarrow> 32 word \<Rightarrow> kqmap \<times> u64" where
  "map_delete m idx =
     (if MAP_IDX_OOB m idx then (m, -1)
      else (m\<lparr>map_data := (map_data m)(slot idx := NULL)\<rparr>, map_data m (slot idx)))"

lemmas map_op_defs = map_insert_def map_remove_def map_lookup_def map_delete_def
  atomic_ptr_cas_def

subsection \<open>The interface\<close>

text \<open>What the callers of the map rely on.  \<open>ok\<close> says that an index is inside
  the array, \<open>abs\<close> is the partial function the array stands for.\<close>

locale fd_map =
  fixes abs :: "'m \<Rightarrow> 'i \<Rightarrow> 'p option"
    and ok :: "'m \<Rightarrow> 'i \<Rightarrow> bool"
    and null :: 'p
    and ins :: "'m \<Rightarrow> 'i \<Rightarrow> 'p \<Rightarrow> 'm \<times> int"
    and rem :: "'m \<Rightarrow> 'i \<Rightarrow> 'p \<Rightarrow> 'm \<times> int"
    and look :: "'m \<Rightarrow> 'i \<Rightarrow> 'p"
    and del :: "'m \<Rightarrow> 'i \<Rightarrow> 'm \<times> 'p"
  assumes look_abs: "look m i = (case abs m i of None \<Rightarrow> null | Some p \<Rightarrow> p)"
    and abs_null: "abs m i \<noteq> Some null"
    and ins_new: "ok m i \<Longrightarrow> abs m i = None \<Longrightarrow> p \<noteq> null \<Longrightarrow>
      snd (ins m i p) = 0 \<and> abs (fst (ins m i p)) = (abs m)(i \<mapsto> p)"
    and ins_full: "abs m i \<noteq> None \<or> \<not> ok m i \<Longrightarrow> ins m i p = (m, -1)"
    and rem_own: "ok m i \<Longrightarrow> abs m i = Some p \<Longrightarrow>
      snd (rem m i p) = 0 \<and> abs (fst (rem m i p)) = (abs m)(i := None)"
    and rem_other: "p \<noteq> null \<Longrightarrow> abs m i \<noteq> Some p \<or> \<not> ok m i \<Longrightarrow> rem m i p = (m, -1)"
    and del_ok: "ok m i \<Longrightarrow> snd (del m i) = look m i \<and> abs (fst (del m i)) = (abs m)(i := None)"
    and ok_ins: "ok (fst (ins m i p)) = ok m"
    and ok_rem: "ok (fst (rem m i p)) = ok m"
    and ok_del: "ok (fst (del m i)) = ok m"
begin

lemma look_ins:
  assumes "ok m i" "abs m i = None" "p \<noteq> null"
  shows "look (fst (ins m i p)) j = (if j = i then p else look m j)"
  using ins_new [OF assms] by (simp add: look_abs)

lemma ins_then_rem:
  assumes "ok m i" "abs m i = None" "p \<noteq> null"
  shows "abs (fst (rem (fst (ins m i p)) i p)) = abs m"
proof -
  let ?m = "fst (ins m i p)"
  have a: "abs ?m = (abs m)(i \<mapsto> p)" and o: "ok ?m i"
    using ins_new [OF assms] assms ok_ins by auto
  then have "abs (fst (rem ?m i p)) = (abs ?m)(i := None)"
    using rem_own [of ?m i p] by simp
  also have "\<dots> = abs m" using a assms by (simp add: fun_upd_idem)
  finally show ?thesis .
qed

lemma second_insert_refused:
  assumes "ok m i" "abs m i = None" "p \<noteq> null"
  shows "ins (fst (ins m i p)) i q = (fst (ins m i p), -1)"
  using ins_new [OF assms] by (intro ins_full) simp

lemma rem_needs_owner:
  assumes "ok m i" "abs m i = Some p" "q \<noteq> p" "q \<noteq> null"
  shows "rem m i q = (m, -1) \<and> look m i = p"
  using assms by (simp add: rem_other look_abs)

lemma look_del:
  assumes "ok m i"
  shows "look (fst (del m i)) j = (if j = i then null else look m j)"
  using del_ok [OF assms] by (simp add: look_abs)

end

subsection \<open>The array implements the interface\<close>

definition map_abs :: "kqmap \<Rightarrow> 32 word \<Rightarrow> u64 option" where
  "map_abs m idx = (if map_lookup m idx = NULL then None else Some (map_lookup m idx))"

lemma slot_eq_unat: "\<not> MAP_IDX_OOB m i \<Longrightarrow> slot i = unat i"
  unfolding MAP_IDX_OOB_def slot_def by (rule nat_sint_eq_unat) linarith

lemma slot_inj: "\<not> MAP_IDX_OOB m i \<Longrightarrow> \<not> MAP_IDX_OOB m j \<Longrightarrow> slot i = slot j \<Longrightarrow> i = j"
  by (simp only: slot_eq_unat) (rule unsigned_word_eqI)

lemma MAP_IDX_OOB_upd [simp]: "MAP_IDX_OOB (m\<lparr>map_data := d\<rparr>) = MAP_IDX_OOB m"
  by (rule ext) (simp add: MAP_IDX_OOB_def)

lemma map_abs_eq:
  "map_abs m i = (if MAP_IDX_OOB m i \<or> map_data m (slot i) = NULL then None
                  else Some (map_data m (slot i)))"
  by (simp add: map_abs_def map_lookup_def)

lemma map_abs_upd:
  "\<not> MAP_IDX_OOB m i \<Longrightarrow>
   map_abs (m\<lparr>map_data := (map_data m)(slot i := p)\<rparr>) =
     (map_abs m)(i := (if p = NULL then None else Some p))"
  by (rule ext) (auto simp: map_abs_eq dest: slot_inj)

interpretation kqm: fd_map map_abs "\<lambda>m i. \<not> MAP_IDX_OOB m i" NULL
  map_insert map_remove map_lookup map_delete
proof (unfold_locales, goal_cases)
  case (1 m i)
  show ?case by (simp add: map_abs_def)
next
  case (2 m i)
  show ?case by (simp add: map_abs_eq)
next
  case (3 m i p)
  then have "map_data m (slot i) = NULL" by (simp add: map_abs_eq split: if_splits)
  with 3 show ?case by (simp add: map_insert_def atomic_ptr_cas_def map_abs_upd)
next
  case (4 m i p)
  then have "MAP_IDX_OOB m i \<or> map_data m (slot i) \<noteq> NULL" by (simp add: map_abs_eq split: if_splits)
  then show ?case by (auto simp: map_insert_def atomic_ptr_cas_def)
next
  case (5 m i p)
  then have "map_data m (slot i) = p" by (simp add: map_abs_eq split: if_splits)
  with 5 show ?case by (simp add: map_remove_def atomic_ptr_cas_def map_abs_upd)
next
  case (6 p m i)
  then have "MAP_IDX_OOB m i \<or> map_data m (slot i) \<noteq> p" by (auto simp: map_abs_eq split: if_splits)
  then show ?case by (auto simp: map_remove_def atomic_ptr_cas_def)
next
  case (7 m i)
  then show ?case by (simp add: map_delete_def map_abs_upd) (simp add: map_lookup_def)
qed (simp_all add: map_insert_def map_remove_def map_delete_def atomic_ptr_cas_def)

subsection \<open>Properties\<close>

lemma map_abs_oob: "MAP_IDX_OOB m i \<Longrightarrow> map_abs m i = None"
  by (simp add: map_abs_eq)

lemma map_insert_abs:
  "map_abs (fst (map_insert m i p)) =
     (if \<not> MAP_IDX_OOB m i \<and> map_abs m i = None \<and> p \<noteq> NULL then (map_abs m)(i \<mapsto> p) else map_abs m)"
proof (cases "p = NULL")
  case True
  then show ?thesis
    by (auto simp: map_insert_def atomic_ptr_cas_def map_abs_upd fun_eq_iff map_abs_eq)
next
  case False
  then show ?thesis using kqm.ins_new [of m i p] kqm.ins_full [of m i p] by fastforce
qed

lemma map_remove_abs:
  "map_abs (fst (map_remove m i p)) =
     (if map_abs m i = Some p then (map_abs m)(i := None) else map_abs m)"
proof (cases "p = NULL")
  case True
  then show ?thesis
    by (auto simp: map_remove_def atomic_ptr_cas_def map_abs_upd fun_eq_iff map_abs_eq)
next
  case False
  then show ?thesis
    using kqm.rem_own [of m i p] kqm.rem_other [of p m i] map_abs_oob [of m i] by fastforce
qed

text \<open>C18: the array of \<^verbatim>\<open>map.c\<close> implements a partial function from descriptors to
  kqueues.  \<open>map_insert\<close> adds a binding exactly when the index is in range and
  free, \<open>map_remove\<close> removes it exactly when the stored pointer is the one
  given, \<open>map_delete\<close> removes it and returns the old pointer, and
  \<open>map_lookup\<close> reads it; an index out of range never changes the map.\<close>

theorem map_refines_partial_function:
  "map_abs (fst (map_insert m i p)) =
     (if \<not> MAP_IDX_OOB m i \<and> map_abs m i = None \<and> p \<noteq> NULL then (map_abs m)(i \<mapsto> p) else map_abs m) \<and>
   snd (map_insert m i p) = (if \<not> MAP_IDX_OOB m i \<and> map_abs m i = None then 0 else -1) \<and>
   map_abs (fst (map_remove m i p)) =
     (if map_abs m i = Some p then (map_abs m)(i := None) else map_abs m) \<and>
   (map_abs m i = Some p \<longleftrightarrow> p \<noteq> NULL \<and> snd (map_remove m i p) = 0) \<and>
   map_abs (fst (map_delete m i)) = (map_abs m)(i := None) \<and>
   snd (map_delete m i) = (if MAP_IDX_OOB m i then -1 else map_lookup m i) \<and>
   map_lookup m j = (case map_abs m j of None \<Rightarrow> NULL | Some q \<Rightarrow> q)"
proof (intro conjI)
  show "snd (map_insert m i p) = (if \<not> MAP_IDX_OOB m i \<and> map_abs m i = None then 0 else -1)"
    by (simp add: map_insert_def atomic_ptr_cas_def map_abs_eq)
  show "(map_abs m i = Some p) = (p \<noteq> NULL \<and> snd (map_remove m i p) = 0)"
    by (auto simp: map_remove_def atomic_ptr_cas_def map_abs_eq)
  show "map_abs (fst (map_delete m i)) = (map_abs m)(i := None)"
    by (cases "MAP_IDX_OOB m i") (auto simp: map_delete_def map_abs_upd map_abs_oob fun_eq_iff)
  show "map_lookup m j = (case map_abs m j of None \<Rightarrow> NULL | Some q \<Rightarrow> q)"
    by (rule kqm.look_abs)
  show "snd (map_delete m i) = (if MAP_IDX_OOB m i then -1 else map_lookup m i)"
    by (simp add: map_delete_def map_lookup_def)
qed (rule map_insert_abs map_remove_abs)+

text \<open>C21: the bounds check of \<open>map_replace\<close> is not the one of the other
  operations.  At the index equal to the length it lets the access through,
  one past the end of the array, and on a map of \<open>2 ^ 32 - 1\<close> slots (an
  unlimited descriptor limit) it refuses every index.\<close>

theorem map_replace_bounds:
  "(0 \<le> sint idx \<and> unat (map_len m) = nat (sint idx) \<longrightarrow>
      MAP_IDX_OOB m idx \<and> map_replace m idx p q = None) \<and>
   map_replace \<lparr>map_len = 0xffffffff, map_data = d\<rparr> idx p q =
     Some (\<lparr>map_len = 0xffffffff, map_data = d\<rparr>, -1)"
proof (rule conjI, rule impI)
  assume a: "0 \<le> sint idx \<and> unat (map_len m) = nat (sint idx)"
  then have "unat (map_len m) = unat idx"
    by (simp add: nat_sint_eq_unat)
  then have "(ucast (map_len m) :: 32 word) = idx"
    by (rule ucast_eq_of_unat_eq)
  then show "MAP_IDX_OOB m idx \<and> map_replace m idx p q = None"
    using a by (simp add: MAP_IDX_OOB_def map_replace_def slot_def)
next
  have "sint (ucast (0xffffffff :: u64) :: 32 word) = -1" by simp
  moreover have "sint idx < 0 \<or> - 1 < sint idx" by arith
  ultimately show "map_replace \<lparr>map_len = 0xffffffff, map_data = d\<rparr> idx p q =
      Some (\<lparr>map_len = 0xffffffff, map_data = d\<rparr>, -1)"
    by (simp only: map_replace_def kqmap.simps if_True)
qed

theorem map_replace_bounds_witness:
  "map_replace \<lparr>map_len = 8, map_data = (\<lambda>_. NULL)\<rparr> 8 NULL 5 = None"
  using map_replace_bounds [THEN conjunct1, rule_format,
      of 8 "\<lparr>map_len = 8, map_data = (\<lambda>_. NULL)\<rparr>" NULL 5]
  by simp

end
