(* ===== verification/Kqueue_Life.thy ===== *)
theory Kqueue_Life
  imports Kq_Map
begin

text \<open>
  The life cycle of kqueues (\<^verbatim>\<open>common/kqueue.c\<close>, and the entry and exit of
  \<^verbatim>\<open>kevent\<close> in \<^verbatim>\<open>common/kevent.c\<close>): creation, the map from descriptors, eviction
  of a stale kqueue whose descriptor number is reused, destruction, and its
  deferral while callers are inside kevent().  The backend is a table of
  operations on the platform part of a kqueue (\<open>'q\<close>) and on the state the
  kqueues share (\<open>'s\<close>, the operating system); what the life cycle relies on is
  the locale \<open>kqueue_backend\<close>.  The threads of the application and the thread
  that frees closed kqueues are the steps of \<open>life_step\<close>.
\<close>

subsection \<open>Model\<close>

record 'q kq =
  kq_ident :: "32 word"
  kq_freeing :: bool
  kq_body :: 'q

record ('q, 's) kqworld =
  kqs :: "u64 \<Rightarrow> 'q kq option"
  gmap :: kqmap
  kq_list :: "u64 list"
  kq_cnt :: u32
  shared :: 's
  g_errno :: int

record ('q, 's) kqueue_vtable =
  vt_zero :: 'q
  vt_init :: "'q \<Rightarrow> 's \<Rightarrow> ('q \<times> 's \<times> int \<times> 32 word) option"
  vt_unregister :: "'q \<Rightarrow> 's \<Rightarrow> ('q \<times> 's) option"
  vt_free :: "'q \<Rightarrow> 's \<Rightarrow> ('q \<times> 's) option"
  vt_interrupt :: "('q \<Rightarrow> 's \<Rightarrow> 'q \<times> 's) option"
  vt_enter :: "nat \<Rightarrow> 'q \<Rightarrow> 'q"
  vt_exit :: "nat \<Rightarrow> 'q \<Rightarrow> 'q option"
  vt_inflight :: "'q \<Rightarrow> nat list"
  vt_close_async :: bool

text \<open>The limit on descriptors: None when getrlimit fails, \<open>Some None\<close> for
  RLIM_INFINITY.\<close>

definition get_fd_limit :: "nat option option \<Rightarrow> u32" where
  "get_fd_limit rlim_max =
     (case rlim_max of
        None \<Rightarrow> 65536
      | Some None \<Rightarrow> 2 ^ 20
      | Some (Some n) \<Rightarrow> if n > 2 ^ 20 then 2 ^ 20 else of_nat n)"

definition get_fd_used :: "(nat \<Rightarrow> bool) \<Rightarrow> nat option option \<Rightarrow> nat" where
  "get_fd_used is_open rlim_max = length (filter is_open [0 ..< unat (get_fd_limit rlim_max)])"

text \<open>The map is created with one slot per possible descriptor; without it the process
  aborts.\<close>

definition libkqueue_init_map :: "nat option option \<Rightarrow> bool \<Rightarrow> bool \<Rightarrow> kqmap option" where
  "libkqueue_init_map rlim_max calloc_ok mmap_ok = map_new (ucast (get_fd_limit rlim_max)) calloc_ok mmap_ok"

text \<open>A build without debugging: the hook of the backend, the map, the hooks of the
  filters.\<close>

definition libkqueue_init ::
  "('w \<Rightarrow> 'w) option \<Rightarrow> ('w \<Rightarrow> 'w) \<Rightarrow> nat option option \<Rightarrow> bool \<Rightarrow> bool \<Rightarrow> 'w \<Rightarrow> (kqmap \<times> 'w) option" where
  "libkqueue_init platform_init filter_init rlim_max calloc_ok mmap_ok w = do {
     let w = (case platform_init of None \<Rightarrow> w | Some g \<Rightarrow> g w);
     m \<leftarrow> libkqueue_init_map rlim_max calloc_ok mmap_ok;
     Some (m, filter_init w) }"

definition kqueue_lookup :: "32 word \<Rightarrow> ('q, 's) kqworld \<Rightarrow> u64" where
  "kqueue_lookup fd w = map_lookup (gmap w) fd"

text \<open>The end of \<open>kqueue_free\<close> and of \<open>kqueue_complete_deferred_free\<close>: the filters, the
  platform part, and the memory of the kqueue itself.\<close>

definition kqueue_teardown :: "('q, 's) kqueue_vtable \<Rightarrow> u64 \<Rightarrow> ('q, 's) kqworld \<Rightarrow> ('q, 's) kqworld option" where
  "kqueue_teardown vt p w = do {
     k \<leftarrow> kqs w p;
     (q, s) \<leftarrow> vt_unregister vt (kq_body k) (shared w);
     (q, s) \<leftarrow> vt_free vt q s;
     Some (w\<lparr>kqs := (kqs w)(p := None), shared := s\<rparr>) }"

text \<open>The first half of \<open>kqueue_free\<close>, up to taking the lock of the kqueue.\<close>

definition kqueue_free_unlink :: "u64 \<Rightarrow> ('q, 's) kqworld \<Rightarrow> ('q, 's) kqworld option" where
  "kqueue_free_unlink p w = do {
     k \<leftarrow> kqs w p;
     if p \<in> set (kq_list w)
     then Some (w\<lparr>kq_cnt := kq_cnt w - 1, kq_list := filter (\<lambda>q. q \<noteq> p) (kq_list w),
                  gmap := fst (map_remove (gmap w) (kq_ident k) p)\<rparr>)
     else None }"

definition kqueue_free_locked :: "('q, 's) kqueue_vtable \<Rightarrow> u64 \<Rightarrow> ('q, 's) kqworld \<Rightarrow> ('q, 's) kqworld option" where
  "kqueue_free_locked vt p w = do {
     k \<leftarrow> kqs w p;
     if vt_inflight vt (kq_body k) \<noteq> [] then do {
       let (q, s) = (case vt_interrupt vt of None \<Rightarrow> (kq_body k, shared w) | Some f \<Rightarrow> f (kq_body k) (shared w));
       Some (w\<lparr>kqs := (kqs w)(p \<mapsto> k\<lparr>kq_freeing := True, kq_body := q\<rparr>), shared := s\<rparr>) }
     else kqueue_teardown vt p w }"

definition kqueue_free :: "('q, 's) kqueue_vtable \<Rightarrow> u64 \<Rightarrow> ('q, 's) kqworld \<Rightarrow> ('q, 's) kqworld option" where
  "kqueue_free vt p w = Option.bind (kqueue_free_unlink p w) (kqueue_free_locked vt p)"

definition kqueue_complete_deferred_free ::
  "('q, 's) kqueue_vtable \<Rightarrow> u64 \<Rightarrow> ('q, 's) kqworld \<Rightarrow> ('q, 's) kqworld option" where
  "kqueue_complete_deferred_free vt p w = kqueue_teardown vt p w"

definition kqueue_free_by_id ::
  "('q, 's) kqueue_vtable \<Rightarrow> 32 word \<Rightarrow> ('q, 's) kqworld \<Rightarrow> ('q, 's) kqworld option" where
  "kqueue_free_by_id vt fd w =
     (let (m, p) = map_delete (gmap w) fd; w = w\<lparr>gmap := m\<rparr> in
      if p = NULL then Some w
      else if vt_close_async vt then Some w
      else kqueue_free vt p w)"

text \<open>\<open>mem\<close> is what calloc returns.\<close>

definition kqueue ::
  "('q, 's) kqueue_vtable \<Rightarrow> u64 option \<Rightarrow> ('q, 's) kqworld \<Rightarrow> (('q, 's) kqworld \<times> 32 word) option" where
  "kqueue vt mem w =
     (case mem of
        None \<Rightarrow> Some (w, -1)
      | Some p \<Rightarrow> do {
          (q, s, rv, fd) \<leftarrow> vt_init vt (vt_zero vt) (shared w);
          let w = w\<lparr>shared := s\<rparr>;
          if rv < 0 then Some (w, -1)
          else do {
            let w = w\<lparr>kqs := (kqs w)(p \<mapsto> \<lparr>kq_ident = fd, kq_freeing = False, kq_body = q\<rparr>)\<rparr>;
            w \<leftarrow> kqueue_free_by_id vt fd w;
            let (m, r) = map_insert (gmap w) fd p;
            let w = w\<lparr>gmap := m\<rparr>;
            if r < 0 then do {
              (q, s) \<leftarrow> vt_unregister vt q (shared w);
              Some (w\<lparr>kqs := (kqs w)(p := None), shared := s\<rparr>, -1) }
            else Some (w\<lparr>kq_list := p # kq_list w, kq_cnt := kq_cnt w + 1\<rparr>, fd) } })"

text \<open>What \<^verbatim>\<open>kevent\<close> does around its work: the lookup and the entry, under the global
  mutex and the mutex of the kqueue, and the exit, which completes a deferred
  destruction when the caller is the last one inside.\<close>

definition kevent_begin ::
  "('q, 's) kqueue_vtable \<Rightarrow> nat \<Rightarrow> 32 word \<Rightarrow> ('q, 's) kqworld \<Rightarrow> (('q, 's) kqworld \<times> u64 option) option" where
  "kevent_begin vt t fd w =
     (let p = kqueue_lookup fd w in
      if p = NULL then Some (w\<lparr>g_errno := ENOENT\<rparr>, None)
      else do {
        k \<leftarrow> kqs w p;
        Some (w\<lparr>kqs := (kqs w)(p \<mapsto> k\<lparr>kq_body := vt_enter vt t (kq_body k)\<rparr>)\<rparr>, Some p) })"

definition kevent_end ::
  "('q, 's) kqueue_vtable \<Rightarrow> nat \<Rightarrow> u64 \<Rightarrow> ('q, 's) kqworld \<Rightarrow> ('q, 's) kqworld option" where
  "kevent_end vt t p w = do {
     k \<leftarrow> kqs w p;
     q \<leftarrow> vt_exit vt t (kq_body k);
     let w = w\<lparr>kqs := (kqs w)(p \<mapsto> k\<lparr>kq_body := q\<rparr>)\<rparr>;
     if kq_freeing k \<and> vt_inflight vt q = [] then kqueue_complete_deferred_free vt p w else Some w }"

text \<open>The handlers around fork.  \<open>kq_mtx\<close> tells whether the global mutex is held; taking
  it twice or releasing it when free is a fault.\<close>

record fork_state =
  fork_cleanup :: bool
  fork_cleanup_active :: bool
  in_child :: bool
  kq_mtx :: bool

definition lock_kq_mtx :: "fork_state \<Rightarrow> fork_state option" where
  "lock_kq_mtx f = (if kq_mtx f then None else Some (f\<lparr>kq_mtx := True\<rparr>))"

definition unlock_kq_mtx :: "fork_state \<Rightarrow> fork_state option" where
  "unlock_kq_mtx f = (if kq_mtx f then Some (f\<lparr>kq_mtx := False\<rparr>) else None)"

definition libkqueue_pre_fork :: "fork_state \<Rightarrow> fork_state option" where
  "libkqueue_pre_fork f =
     (let f = f\<lparr>fork_cleanup_active := fork_cleanup f\<rparr> in
      if \<not> fork_cleanup_active f then Some f else lock_kq_mtx f)"

definition libkqueue_parent_fork :: "fork_state \<Rightarrow> fork_state option" where
  "libkqueue_parent_fork f = (if \<not> fork_cleanup_active f then Some f else unlock_kq_mtx f)"

text \<open>\<open>filter_fork\<close> and \<open>platform_fork\<close> are the cleanups of the filters and of the
  backend.\<close>

definition libkqueue_child_fork ::
  "('w \<Rightarrow> 'w) \<Rightarrow> ('w \<Rightarrow> 'w) option \<Rightarrow> fork_state \<Rightarrow> 'w \<Rightarrow> (fork_state \<times> 'w) option" where
  "libkqueue_child_fork filter_fork platform_fork f w =
     (let f = f\<lparr>in_child := True\<rparr> in
      if \<not> fork_cleanup_active f then Some (f, w)
      else do {
        let w = filter_fork w;
        let w = (case platform_fork of None \<Rightarrow> w | Some g \<Rightarrow> g w);
        f \<leftarrow> unlock_kq_mtx f;
        Some (f, w) })"

definition libkqueue_free :: "('w \<Rightarrow> 'w) \<Rightarrow> ('w \<Rightarrow> 'w) option \<Rightarrow> fork_state \<Rightarrow> 'w \<Rightarrow> 'w" where
  "libkqueue_free filter_free platform_free f w =
     (if in_child f then w
      else let w = filter_free w in case platform_free of None \<Rightarrow> w | Some g \<Rightarrow> g w)"

subsection \<open>Interleaved threads\<close>

text \<open>The process as seen by the life cycle of a backend with asynchronous close
  detection.  \<open>opn\<close> holds the kqueues whose descriptor the application has not
  closed; \<open>armed\<close> those whose close-detection pipe is watched and has not been
  reported; \<open>batch\<close> the reports the monitoring thread has taken out of
  epoll_wait; \<open>reaping\<close> the kqueue it has unlinked and whose mutex it waits for,
  holding the global mutex; \<open>callers\<close> the kqueue each call of kevent() works on.\<close>

record ('q, 's) life =
  gw :: "('q, 's) kqworld"
  opn :: "u64 set"
  armed :: "u64 set"
  batch :: "u64 list"
  reaping :: "u64 option"
  callers :: "nat \<Rightarrow> u64 option"

text \<open>The kernel does not hand out a descriptor number that is open, and calloc does
  not return memory that is in use.  The operating system may change at any time
  (the step \<open>outside\<close>).\<close>

inductive life_step ::
  "('q, 's) kqueue_vtable \<Rightarrow> (nat \<Rightarrow> 'q \<Rightarrow> 's \<Rightarrow> 'q \<Rightarrow> 's \<Rightarrow> bool) \<Rightarrow> ('q, 's) life \<Rightarrow> ('q, 's) life \<Rightarrow> bool"
  for vt work where
  create: "reaping l = None \<Longrightarrow> kqs (gw l) p = None \<Longrightarrow> p \<noteq> NULL \<Longrightarrow> p \<noteq> -1 \<Longrightarrow>
    kqueue vt (Some p) (gw l) = Some (w, fd) \<Longrightarrow> p \<in> set (kq_list w) \<Longrightarrow>
    \<forall>q \<in> opn l. \<forall>k. kqs (gw l) q = Some k \<longrightarrow> kq_ident k \<noteq> fd \<Longrightarrow>
    life_step vt work l (l\<lparr>gw := w, opn := insert p (opn l), armed := insert p (armed l)\<rparr>)"
| create_failed: "reaping l = None \<Longrightarrow> kqs (gw l) p = None \<Longrightarrow> p \<noteq> NULL \<Longrightarrow> p \<noteq> -1 \<Longrightarrow>
    kqueue vt (Some p) (gw l) = Some (w, fd) \<Longrightarrow> p \<notin> set (kq_list w) \<Longrightarrow>
    life_step vt work l (l\<lparr>gw := w\<rparr>)"
| close: "life_step vt work l (l\<lparr>opn := opn l - {p}\<rparr>)"
| begin_call: "reaping l = None \<Longrightarrow> callers l t = None \<Longrightarrow> kevent_begin vt t fd (gw l) = Some (w, r) \<Longrightarrow>
    life_step vt work l (l\<lparr>gw := w, callers := (callers l)(t := r)\<rparr>)"
| work: "callers l t = Some p \<Longrightarrow> kqs (gw l) p = Some k \<Longrightarrow> work t (kq_body k) (shared (gw l)) q s \<Longrightarrow>
    life_step vt work l (l\<lparr>gw := (gw l)\<lparr>kqs := (kqs (gw l))(p \<mapsto> k\<lparr>kq_body := q\<rparr>), shared := s\<rparr>\<rparr>)"
| end_call: "callers l t = Some p \<Longrightarrow> kevent_end vt t p (gw l) = Some w \<Longrightarrow>
    life_step vt work l (l\<lparr>gw := w, callers := (callers l)(t := None)\<rparr>)"
| wait: "batch l = [] \<Longrightarrow> distinct ps \<Longrightarrow> set ps \<subseteq> armed l - opn l \<Longrightarrow>
    life_step vt work l (l\<lparr>armed := armed l - set ps, batch := ps\<rparr>)"
| unlink: "batch l = p # ps \<Longrightarrow> reaping l = None \<Longrightarrow> kqueue_free_unlink p (gw l) = Some w \<Longrightarrow>
    life_step vt work l (l\<lparr>gw := w, batch := ps, reaping := Some p\<rparr>)"
| reap: "reaping l = Some p \<Longrightarrow> kqueue_free_locked vt p (gw l) = Some w \<Longrightarrow>
    life_step vt work l (l\<lparr>gw := w, reaping := None\<rparr>)"
| outside: "life_step vt work l (l\<lparr>gw := (gw l)\<lparr>shared := s\<rparr>\<rparr>)"

inductive_cases life_stepE: "life_step vt work l l'"

text \<open>The state after the library is initialised.\<close>

definition life_start :: "kqmap \<Rightarrow> 's \<Rightarrow> ('q, 's) life" where
  "life_start m s =
     \<lparr>gw = \<lparr>kqs = Map.empty, gmap = m, kq_list = [], kq_cnt = 0, shared = s, g_errno = 0\<rparr>,
      opn = {}, armed = {}, batch = [], reaping = None, callers = Map.empty\<rparr>"

text \<open>No operation that some thread may start now faults: the entry of any call, the
  exit of every call inside, and each step of the monitoring thread.\<close>

definition life_safe :: "('q, 's) kqueue_vtable \<Rightarrow> ('q, 's) life \<Rightarrow> bool" where
  "life_safe vt l \<longleftrightarrow>
     (\<forall>p. kqs (gw l) p = None \<and> p \<noteq> NULL \<longrightarrow> kqueue vt (Some p) (gw l) \<noteq> None) \<and>
     (\<forall>t fd. kevent_begin vt t fd (gw l) \<noteq> None) \<and>
     (\<forall>t p. callers l t = Some p \<longrightarrow> kqs (gw l) p \<noteq> None \<and> kevent_end vt t p (gw l) \<noteq> None) \<and>
     (\<forall>p ps. batch l = p # ps \<longrightarrow> kqueue_free_unlink p (gw l) \<noteq> None) \<and>
     (\<forall>p. reaping l = Some p \<longrightarrow> kqueue_free_locked vt p (gw l) \<noteq> None)"

subsection \<open>The invariant\<close>

text \<open>Where the kqueues are: every allocated one is listed, or being reaped, or waits for
  its last caller; only one of the last kind is marked for freeing.\<close>

definition cell_ok ::
  "('q, 's) kqueue_vtable \<Rightarrow> ('q \<Rightarrow> bool) \<Rightarrow> bool \<Rightarrow> bool \<Rightarrow> 'q kq option \<Rightarrow> bool" where
  "cell_ok vt qinv listed reaped x \<longleftrightarrow>
     (case x of
        None \<Rightarrow> \<not> listed \<and> \<not> reaped
      | Some k \<Rightarrow> qinv (kq_body k) \<and> \<not> (listed \<and> reaped) \<and>
          (if listed \<or> reaped then \<not> kq_freeing k else kq_freeing k \<and> vt_inflight vt (kq_body k) \<noteq> []))"

definition heap_inv ::
  "('q, 's) kqueue_vtable \<Rightarrow> ('q \<Rightarrow> bool) \<Rightarrow> (u64 \<Rightarrow> 'q kq option) \<Rightarrow> u64 set \<Rightarrow> u64 option \<Rightarrow> bool" where
  "heap_inv vt qinv ks ls r \<longleftrightarrow> ks NULL = None \<and> (\<forall>p. cell_ok vt qinv (p \<in> ls) (r = Some p) (ks p))"

text \<open>The descriptor map names listed kqueues by their own descriptor, and an open kqueue
  is found under it.\<close>

definition map_inv :: "(32 word \<Rightarrow> u64 option) \<Rightarrow> (u64 \<Rightarrow> 32 word option) \<Rightarrow> u64 set \<Rightarrow> u64 set \<Rightarrow> bool" where
  "map_inv m ids ls os \<longleftrightarrow>
     (\<forall>fd p. m fd = Some p \<longrightarrow> p \<in> ls \<and> ids p = Some fd) \<and>
     (\<forall>p fd. p \<in> os \<longrightarrow> ids p = Some fd \<longrightarrow> m fd = Some p)"

text \<open>A call of kevent() is inside the kqueue it has looked up, and nowhere else.\<close>

definition caller_inv ::
  "('q, 's) kqueue_vtable \<Rightarrow> (u64 \<Rightarrow> 'q kq option) \<Rightarrow> (nat \<Rightarrow> u64 option) \<Rightarrow> bool" where
  "caller_inv vt ks cs \<longleftrightarrow>
     (\<forall>t p. cs t = Some p \<longleftrightarrow> (\<exists>k. ks p = Some k \<and> t \<in> set (vt_inflight vt (kq_body k))))"

text \<open>The list of kqueues: the counter counts it, and each of its members is either
  watched for its close or reported and not yet handled.\<close>

definition watch_inv :: "u64 list \<Rightarrow> u32 \<Rightarrow> u64 set \<Rightarrow> u64 list \<Rightarrow> u64 set \<Rightarrow> bool" where
  "watch_inv ls c as bs os \<longleftrightarrow>
     distinct ls \<and> c = of_nat (length ls) \<and> set ls = as \<union> set bs \<and> as \<inter> set bs = {} \<and> distinct bs \<and> os \<subseteq> as"

definition idents :: "(u64 \<Rightarrow> 'q kq option) \<Rightarrow> u64 \<Rightarrow> 32 word option" where
  "idents ks p = map_option kq_ident (ks p)"

definition life_inv :: "('q, 's) kqueue_vtable \<Rightarrow> ('q \<Rightarrow> bool) \<Rightarrow> ('q, 's) life \<Rightarrow> bool" where
  "life_inv vt qinv l \<longleftrightarrow>
     heap_inv vt qinv (kqs (gw l)) (set (kq_list (gw l))) (reaping l) \<and>
     map_inv (map_abs (gmap (gw l))) (idents (kqs (gw l))) (set (kq_list (gw l))) (opn l) \<and>
     caller_inv vt (kqs (gw l)) (callers l) \<and>
     watch_inv (kq_list (gw l)) (kq_cnt (gw l)) (armed l) (batch l) (opn l)"

lemma life_start_inv: "map_abs m = Map.empty \<Longrightarrow> life_inv vt qinv (life_start m s)"
  by (simp add: life_start_def life_inv_def heap_inv_def cell_ok_def map_inv_def caller_inv_def watch_inv_def)

lemma watch_unlink:
  assumes "watch_inv ls c as (p # bs) os"
  shows "watch_inv (filter (\<lambda>q. q \<noteq> p) ls) (c - 1) as bs os" "p \<in> set ls"
proof -
  have d: "distinct ls" "p \<in> set ls" using assms by (auto simp: watch_inv_def)
  then have "filter (\<lambda>q. q \<noteq> p) ls = remove1 p ls" by (simp add: distinct_remove1_removeAll removeAll_filter_not_eq eq_commute)
  moreover have "length ls = Suc (length (remove1 p ls))" using d(2) by (simp add: length_remove1) (metis Suc_pred length_pos_if_in_set)
  ultimately show "watch_inv (filter (\<lambda>q. q \<noteq> p) ls) (c - 1) as bs os" "p \<in> set ls"
    using assms d by (auto simp: watch_inv_def)
qed

lemma heap_cell: "heap_inv vt qinv ks ls r \<Longrightarrow> cell_ok vt qinv (p \<in> ls) (r = Some p) (ks p)"
  by (simp add: heap_inv_def)

lemma heap_upd:
  assumes "heap_inv vt qinv ks ls r" "p \<noteq> NULL \<or> x = None" "cell_ok vt qinv (p \<in> ls') (r' = Some p) x"
    and "\<And>q. q \<noteq> p \<Longrightarrow> (q \<in> ls' \<longleftrightarrow> q \<in> ls) \<and> (r' = Some q \<longleftrightarrow> r = Some q)"
  shows "heap_inv vt qinv (ks(p := x)) ls' r'"
  unfolding heap_inv_def
proof (intro conjI allI)
  show "(ks(p := x)) NULL = None" using assms(1,2) by (auto simp: heap_inv_def)
  show "cell_ok vt qinv (q \<in> ls') (r' = Some q) ((ks(p := x)) q)" for q
    using assms(1,3) assms(4) [of q] by (cases "q = p") (simp_all add: heap_inv_def)
qed

lemma map_insert_inv:
  assumes inv: "map_inv m ids ls os" and p: "p \<notin> ls" "p \<notin> os" and fd: "\<forall>q \<in> os. ids q \<noteq> Some fd"
  shows "map_inv (m(fd \<mapsto> p)) (ids(p \<mapsto> fd)) (insert p ls) (insert p os)"
  unfolding map_inv_def
proof (intro conjI allI impI)
  fix fd' q
  assume m: "(m(fd \<mapsto> p)) fd' = Some q"
  have "q \<in> ls \<and> ids q = Some fd'" if "fd' \<noteq> fd" using m that inv by (simp add: map_inv_def)
  then have "q \<in> insert p ls \<and> (ids(p \<mapsto> fd)) q = Some fd'" using m p by (cases "fd' = fd") auto
  then show "q \<in> insert p ls" "(ids(p \<mapsto> fd)) q = Some fd'" by simp_all
next
  fix q fd'
  assume q: "q \<in> insert p os" "(ids(p \<mapsto> fd)) q = Some fd'"
  show "(m(fd \<mapsto> p)) fd' = Some q"
  proof (cases "q = p")
    case False
    then have q': "q \<in> os" "ids q = Some fd'" using q by simp_all
    then have "m fd' = Some q" using inv unfolding map_inv_def by blast
    moreover have "fd' \<noteq> fd" using q' fd by blast
    ultimately show ?thesis by simp
  qed (use q in simp)
qed

lemma idents_upd [simp]: "idents (ks(p \<mapsto> k)) = (idents ks)(p \<mapsto> kq_ident k)"
  by (auto simp: idents_def)

lemma idents_same [simp]: "ks p = Some k \<Longrightarrow> kq_ident k' = kq_ident k \<Longrightarrow> (idents ks)(p \<mapsto> kq_ident k') = idents ks"
  by (auto simp: idents_def)

lemma idents_del [simp]: "idents (ks(p := None)) = (idents ks)(p := None)"
  by (auto simp: idents_def)

lemma map_close: "map_inv m ids ls os \<Longrightarrow> os' \<subseteq> os \<Longrightarrow> map_inv m ids ls os'"
  unfolding map_inv_def by blast

lemma map_free:
  assumes inv: "map_inv m ids ls os" and p: "p \<notin> ls" "p \<notin> os"
  shows "map_inv m (ids(p := None)) ls os"
  unfolding map_inv_def
proof (intro conjI allI impI)
  fix fd q
  assume "m fd = Some q"
  then have q: "q \<in> ls" "ids q = Some fd" using inv unfolding map_inv_def by blast+
  then show "q \<in> ls" "(ids(p := None)) q = Some fd" using p(1) by auto
next
  fix q fd
  assume "q \<in> os" "(ids(p := None)) q = Some fd"
  then have "q \<in> os" "ids q = Some fd" using p(2) by (auto split: if_splits)
  then show "m fd = Some q" using inv unfolding map_inv_def by blast
qed

lemma map_unlink:
  assumes inv: "map_inv m ids ls os" and p: "p \<notin> os" "ids p = Some fd"
  shows "map_inv (if m fd = Some p then m(fd := None) else m) ids (ls - {p}) os"
proof -
  let ?m = "if m fd = Some p then m(fd := None) else m"
  have "ids p = Some fd'" if "m fd' = Some p" for fd' using inv that unfolding map_inv_def by blast
  then have u: "m fd' \<noteq> Some p" if "fd' \<noteq> fd" for fd' using p(2) that by auto
  have "?m fd' = Some q \<longleftrightarrow> m fd' = Some q \<and> q \<noteq> p" for fd' q
    using u [of fd'] by (cases "fd' = fd"; cases "q = p") simp_all
  then show ?thesis using inv p(1) unfolding map_inv_def by blast
qed

lemma caller_upd:
  assumes "caller_inv vt ks cs" "\<And>t q. q \<noteq> p \<Longrightarrow> cs' t = Some q \<longleftrightarrow> cs t = Some q"
    and "\<And>t. cs' t = Some p \<longleftrightarrow> (\<exists>k. x = Some k \<and> t \<in> set (vt_inflight vt (kq_body k)))"
  shows "caller_inv vt (ks(p := x)) cs'"
  unfolding caller_inv_def
proof (intro allI)
  fix t q
  show "cs' t = Some q \<longleftrightarrow> (\<exists>k'. (ks(p := x)) q = Some k' \<and> t \<in> set (vt_inflight vt (kq_body k')))"
    using assms by (cases "q = p") (simp_all add: caller_inv_def)
qed

lemma caller_at: "caller_inv vt ks cs \<Longrightarrow> ks p = Some k \<Longrightarrow> cs t = Some p \<longleftrightarrow> t \<in> set (vt_inflight vt (kq_body k))"
  by (simp add: caller_inv_def)

subsection \<open>What a backend promises\<close>

text \<open>\<open>qinv\<close> holds of the platform part of every kqueue, \<open>qdown\<close> after its filters are
  unregistered; \<open>work\<close> is what a caller does between entry and exit; \<open>env\<close> is what
  the backend in turn needs of its environment.\<close>

locale kqueue_backend =
  fixes vt :: "('q, 's) kqueue_vtable"
    and work :: "nat \<Rightarrow> 'q \<Rightarrow> 's \<Rightarrow> 'q \<Rightarrow> 's \<Rightarrow> bool"
    and qinv :: "'q \<Rightarrow> bool"
    and qdown :: "'q \<Rightarrow> bool"
    and env :: bool
  assumes init_ok: "env \<Longrightarrow> \<exists>q s' rv fd. vt_init vt (vt_zero vt) s = Some (q, s', rv, fd) \<and>
      (0 \<le> rv \<longrightarrow> qinv q \<and> vt_inflight vt q = [])"
    and unregister_ok: "qinv q \<Longrightarrow> \<exists>q' s'. vt_unregister vt q s = Some (q', s') \<and> qdown q' \<and> vt_inflight vt q' = vt_inflight vt q"
    and free_ok: "qdown q \<Longrightarrow> vt_inflight vt q = [] \<Longrightarrow> \<exists>q' s'. vt_free vt q s = Some (q', s')"
    and interrupt_ok: "qinv q \<Longrightarrow> vt_interrupt vt = Some f \<Longrightarrow> f q s = (q', s') \<Longrightarrow> qinv q' \<and> vt_inflight vt q' = vt_inflight vt q"
    and enter_ok: "qinv q \<Longrightarrow> t \<notin> set (vt_inflight vt q) \<Longrightarrow>
      qinv (vt_enter vt t q) \<and> set (vt_inflight vt (vt_enter vt t q)) = insert t (set (vt_inflight vt q))"
    and exit_ok: "qinv q \<Longrightarrow> t \<in> set (vt_inflight vt q) \<Longrightarrow>
      \<exists>q'. vt_exit vt t q = Some q' \<and> qinv q' \<and> set (vt_inflight vt q') = set (vt_inflight vt q) - {t}"
    and work_ok: "qinv q \<Longrightarrow> t \<in> set (vt_inflight vt q) \<Longrightarrow> work t q s q' s' \<Longrightarrow>
      qinv q' \<and> vt_inflight vt q' = vt_inflight vt q"
begin

lemma teardown_ok:
  assumes "kqs w p = Some k" "qinv (kq_body k)" "vt_inflight vt (kq_body k) = []"
  shows "\<exists>s. kqueue_teardown vt p w = Some (w\<lparr>kqs := (kqs w)(p := None), shared := s\<rparr>)"
proof -
  obtain q s where q: "vt_unregister vt (kq_body k) (shared w) = Some (q, s)" "qdown q" "vt_inflight vt q = []"
    using unregister_ok [OF assms(2), of "shared w"] assms(3) by auto
  obtain q' s' where "vt_free vt q s = Some (q', s')" using free_ok [OF q(2,3)] by blast
  then show ?thesis using assms(1) q(1) by (auto simp: kqueue_teardown_def)
qed

lemma free_locked_ok:
  assumes "kqs w p = Some k" "qinv (kq_body k)"
  shows "\<exists>s x. kqueue_free_locked vt p w = Some (w\<lparr>kqs := (kqs w)(p := x), shared := s\<rparr>) \<and>
    (if vt_inflight vt (kq_body k) = [] then x = None
     else \<exists>q. x = Some (k\<lparr>kq_freeing := True, kq_body := q\<rparr>) \<and> qinv q \<and> vt_inflight vt q = vt_inflight vt (kq_body k))"
proof (cases "vt_inflight vt (kq_body k) = []")
  case True
  then show ?thesis using teardown_ok [OF assms] assms(1) by (auto simp: kqueue_free_locked_def)
next
  case False
  obtain q s where q: "(case vt_interrupt vt of None \<Rightarrow> (kq_body k, shared w) | Some f \<Rightarrow> f (kq_body k) (shared w)) = (q, s)"
    by force
  then have "qinv q \<and> vt_inflight vt q = vt_inflight vt (kq_body k)"
    using interrupt_ok [OF assms(2)] assms(2) by (auto split: option.splits)
  then show ?thesis using False q assms(1) by (auto simp: kqueue_free_locked_def)
qed

lemma end_ok:
  assumes "kqs w p = Some k" "qinv (kq_body k)" "t \<in> set (vt_inflight vt (kq_body k))"
  shows "\<exists>s x. kevent_end vt t p w = Some (w\<lparr>kqs := (kqs w)(p := x), shared := s\<rparr>) \<and>
    (if kq_freeing k \<and> set (vt_inflight vt (kq_body k)) = {t} then x = None
     else \<exists>q. x = Some (k\<lparr>kq_body := q\<rparr>) \<and> qinv q \<and> set (vt_inflight vt q) = set (vt_inflight vt (kq_body k)) - {t})"
proof -
  obtain q where q: "vt_exit vt t (kq_body k) = Some q" "qinv q" "set (vt_inflight vt q) = set (vt_inflight vt (kq_body k)) - {t}"
    using exit_ok assms(2,3) by blast
  let ?w = "w\<lparr>kqs := (kqs w)(p \<mapsto> k\<lparr>kq_body := q\<rparr>)\<rparr>"
  have last: "vt_inflight vt q = [] \<longleftrightarrow> set (vt_inflight vt (kq_body k)) = {t}"
    using q(3) assms(3) unfolding set_empty [symmetric] by auto
  show ?thesis
  proof (cases "kq_freeing k \<and> vt_inflight vt q = []")
    case True
    then obtain s where "kqueue_teardown vt p ?w = Some (w\<lparr>kqs := (kqs w)(p := None), shared := s\<rparr>)"
      using teardown_ok [of ?w p "k\<lparr>kq_body := q\<rparr>"] q(2) by auto
    then have "kevent_end vt t p w = Some (w\<lparr>kqs := (kqs w)(p := None), shared := s\<rparr>)"
      using True q(1) assms(1) by (simp add: kevent_end_def kqueue_complete_deferred_free_def)
    then show ?thesis using True last by auto
  next
    case False
    then have "kevent_end vt t p w = Some (w\<lparr>kqs := (kqs w)(p \<mapsto> k\<lparr>kq_body := q\<rparr>), shared := shared w\<rparr>)"
      using q(1) assms(1) by (auto simp: kevent_end_def Let_def)
    then show ?thesis
      using False last q(2,3)
      by (intro exI [of _ "shared w"] exI [of _ "Some (k\<lparr>kq_body := q\<rparr>)"]) auto
  qed
qed

end

subsection \<open>Asynchronous close detection\<close>

lemma map_delete_abs: "map_abs (fst (map_delete m i)) = (map_abs m)(i := None)"
  by (cases "MAP_IDX_OOB m i") (auto simp: map_delete_def map_abs_upd map_abs_oob fun_eq_iff)

lemma evict_insert:
  assumes "p \<noteq> NULL" "map_insert (fst (map_delete m i)) i p = (m', r)"
  shows "if r < 0 then map_abs m' = map_abs m else map_abs m' = (map_abs m)(i \<mapsto> p)"
proof (cases "MAP_IDX_OOB m i")
  case True
  then have "map_delete m i = (m, -1)" "map_insert m i p = (m, -1)" by (simp_all add: map_delete_def map_insert_def)
  then show ?thesis using assms(2) by simp
next
  case False
  then have "\<not> MAP_IDX_OOB (fst (map_delete m i)) i" "map_abs (fst (map_delete m i)) i = None"
    by (simp_all add: map_delete_abs) (simp add: map_delete_def)
  from kqm.ins_new [OF this assms(1)] show ?thesis using assms(2) by (simp add: map_delete_abs)
qed

locale async_backend = kqueue_backend +
  assumes async: "vt_close_async vt"
begin

lemma evict: "kqueue_free_by_id vt fd w = Some (w\<lparr>gmap := fst (map_delete (gmap w) fd)\<rparr>)"
  by (simp add: kqueue_free_by_id_def async Let_def split: prod.split)

lemma kqueue_ok:
  assumes "p \<noteq> NULL" "kqs w p = None" env
  shows "\<exists>w' fd s m. kqueue vt (Some p) w = Some (w', fd) \<and>
    (w' = w\<lparr>gmap := m, shared := s\<rparr> \<and> map_abs m = map_abs (gmap w) \<or>
     (\<exists>q. w' = w\<lparr>kqs := (kqs w)(p \<mapsto> \<lparr>kq_ident = fd, kq_freeing = False, kq_body = q\<rparr>), gmap := m, shared := s,
        kq_list := p # kq_list w, kq_cnt := kq_cnt w + 1\<rparr> \<and>
      map_abs m = (map_abs (gmap w))(fd \<mapsto> p) \<and> qinv q \<and> vt_inflight vt q = []))"
proof -
  obtain q s rv fd where i: "vt_init vt (vt_zero vt) (shared w) = Some (q, s, rv, fd)"
      "0 \<le> rv \<longrightarrow> qinv q \<and> vt_inflight vt q = []"
    using init_ok [OF assms(3), of "shared w"] by blast
  obtain m r where m: "map_insert (fst (map_delete (gmap w) fd)) fd p = (m, r)" by force
  consider "rv < 0" | "0 \<le> rv" "r < 0" | "0 \<le> rv" "\<not> r < 0" by linarith
  then show ?thesis
  proof cases
    case 1
    then show ?thesis using i by (simp add: kqueue_def) (metis kqworld.surjective kqworld.update_convs(2))
  next
    case 2
    then obtain q' s' where u: "vt_unregister vt q s = Some (q', s')" using unregister_ok i(2) by blast
    have "(kqs w)(p := None) = kqs w" using assms(2) by auto
    then show ?thesis
      using 2 i m u evict_insert [OF assms(1) m] by (auto simp: kqueue_def evict)
  next
    case 3
    then have "kqueue vt (Some p) w = Some (w\<lparr>kqs := (kqs w)(p \<mapsto> \<lparr>kq_ident = fd, kq_freeing = False, kq_body = q\<rparr>),
        gmap := m, shared := s, kq_list := p # kq_list w, kq_cnt := kq_cnt w + 1\<rparr>, fd)"
      using i m by (simp add: kqueue_def evict)
    then show ?thesis using 3 i(2) evict_insert [OF assms(1) m] by (intro exI conjI) auto
  qed
qed

lemma create_inv:
  assumes inv: "life_inv vt qinv l" and r: "reaping l = None" and p: "kqs (gw l) p = None" "p \<noteq> NULL" env
    and k: "kqueue vt (Some p) (gw l) = Some (w, fd)" "p \<in> set (kq_list w)"
    and fresh: "\<forall>q \<in> opn l. \<forall>k. kqs (gw l) q = Some k \<longrightarrow> kq_ident k \<noteq> fd"
  shows "life_inv vt qinv (l\<lparr>gw := w, opn := insert p (opn l), armed := insert p (armed l)\<rparr>)"
proof -
  have nl: "p \<notin> set (kq_list (gw l))" using inv p(1) heap_cell [of vt qinv "kqs (gw l)" _ _ p] by (auto simp: life_inv_def cell_ok_def)
  then have nb: "p \<notin> armed l" "p \<notin> set (batch l)" "p \<notin> opn l" using inv by (auto simp: life_inv_def watch_inv_def)
  obtain q s m where w: "w = (gw l)\<lparr>kqs := (kqs (gw l))(p \<mapsto> \<lparr>kq_ident = fd, kq_freeing = False, kq_body = q\<rparr>),
        gmap := m, shared := s, kq_list := p # kq_list (gw l), kq_cnt := kq_cnt (gw l) + 1\<rparr>"
      and m: "map_abs m = (map_abs (gmap (gw l)))(fd \<mapsto> p)" and q: "qinv q" "vt_inflight vt q = []"
    using kqueue_ok [OF p(2,1,3)] k nl by auto
  have ws: "kqs w = (kqs (gw l))(p \<mapsto> \<lparr>kq_ident = fd, kq_freeing = False, kq_body = q\<rparr>)"
      "set (kq_list w) = insert p (set (kq_list (gw l)))" "gmap w = m"
    by (simp_all add: w)
  have "heap_inv vt qinv (kqs w) (set (kq_list w)) None"
    unfolding ws by (rule heap_upd [of vt qinv "kqs (gw l)" "set (kq_list (gw l))" None])
      (use inv r p q in \<open>auto simp: life_inv_def cell_ok_def\<close>)
  moreover have "\<forall>q \<in> opn l. idents (kqs (gw l)) q \<noteq> Some fd" using fresh by (auto simp: idents_def)
  then have "map_inv (map_abs (gmap w)) (idents (kqs w)) (set (kq_list w)) (insert p (opn l))"
    unfolding ws using inv nb(3) nl by (simp add: life_inv_def m map_insert_inv)
  moreover have "caller_inv vt (kqs w) (callers l)"
    unfolding ws by (rule caller_upd [of vt "kqs (gw l)" "callers l"])
      (use inv p q in \<open>simp_all add: life_inv_def caller_inv_def\<close>)
  moreover have "watch_inv (kq_list w) (kq_cnt w) (insert p (armed l)) (batch l) (insert p (opn l))"
    using inv nl nb unfolding w life_inv_def watch_inv_def by auto
  ultimately show ?thesis using r by (simp add: life_inv_def)
qed

lemma create_failed_inv:
  assumes inv: "life_inv vt qinv l" and p: "kqs (gw l) p = None" "p \<noteq> NULL" env
    and k: "kqueue vt (Some p) (gw l) = Some (w, fd)" "p \<notin> set (kq_list w)"
  shows "life_inv vt qinv (l\<lparr>gw := w\<rparr>)"
proof -
  obtain s m where "w = (gw l)\<lparr>gmap := m, shared := s\<rparr>" "map_abs m = map_abs (gmap (gw l))"
    using kqueue_ok [OF p(2,1,3)] k by auto
  then show ?thesis using inv by (simp add: life_inv_def)
qed

text \<open>A kqueue that stays, with the same descriptor, is replaced by another version of
  itself.\<close>

lemma replace_inv:
  assumes inv: "life_inv vt qinv l" and k: "kqs (gw l) p = Some k" "kq_ident k' = kq_ident k" "kq_freeing k' = kq_freeing k"
      "qinv (kq_body k')"
    and w: "kqs w = (kqs (gw l))(p \<mapsto> k')" "gmap w = gmap (gw l)" "kq_list w = kq_list (gw l)" "kq_cnt w = kq_cnt (gw l)"
    and c: "\<And>t q. q \<noteq> p \<Longrightarrow> cs t = Some q \<longleftrightarrow> callers l t = Some q"
      "\<And>t. cs t = Some p \<longleftrightarrow> t \<in> set (vt_inflight vt (kq_body k'))"
    and f: "kq_freeing k \<Longrightarrow> vt_inflight vt (kq_body k') \<noteq> []"
  shows "life_inv vt qinv (l\<lparr>gw := w, callers := cs\<rparr>)"
proof -
  have cell: "cell_ok vt qinv (p \<in> set (kq_list (gw l))) (reaping l = Some p) (Some k)" "p \<noteq> NULL"
    using inv k(1) heap_cell [of vt qinv "kqs (gw l)" _ _ p] by (auto simp: life_inv_def heap_inv_def)
  have "heap_inv vt qinv (kqs w) (set (kq_list w)) (reaping l)"
    unfolding w by (rule heap_upd [of vt qinv "kqs (gw l)" "set (kq_list (gw l))" "reaping l"])
      (use inv cell k f in \<open>auto simp: life_inv_def cell_ok_def\<close>)
  moreover have "caller_inv vt (kqs w) cs"
    unfolding w by (rule caller_upd [of vt "kqs (gw l)" "callers l"]) (use inv c in \<open>simp_all add: life_inv_def\<close>)
  moreover have "idents (kqs w) = idents (kqs (gw l))" using k(1,2) by (simp add: w)
  ultimately show ?thesis using inv w by (simp add: life_inv_def)
qed

text \<open>A kqueue that is neither listed nor the target of a call goes away.\<close>

lemma gone_inv:
  assumes inv: "life_inv vt qinv l" and p: "p \<notin> set (kq_list (gw l))"
    and w: "kqs w = (kqs (gw l))(p := None)" "gmap w = gmap (gw l)" "kq_list w = kq_list (gw l)" "kq_cnt w = kq_cnt (gw l)"
    and r: "r \<noteq> Some p" "\<And>q. q \<noteq> p \<Longrightarrow> r = Some q \<longleftrightarrow> reaping l = Some q"
    and c: "\<And>t. cs t \<noteq> Some p" "\<And>t q. q \<noteq> p \<Longrightarrow> cs t = Some q \<longleftrightarrow> callers l t = Some q"
  shows "life_inv vt qinv (l\<lparr>gw := w, callers := cs, reaping := r\<rparr>)"
proof -
  have po: "p \<notin> opn l" using inv p by (auto simp: life_inv_def watch_inv_def)
  have "heap_inv vt qinv (kqs w) (set (kq_list w)) r"
    unfolding w by (rule heap_upd [of vt qinv "kqs (gw l)" "set (kq_list (gw l))" "reaping l"])
      (use inv p r in \<open>auto simp: life_inv_def cell_ok_def\<close>)
  moreover have "caller_inv vt (kqs w) cs"
    unfolding w by (rule caller_upd [of vt "kqs (gw l)" "callers l"]) (use inv c in \<open>simp_all add: life_inv_def\<close>)
  moreover have "map_inv (map_abs (gmap (gw l))) (idents (kqs w)) (set (kq_list (gw l))) (opn l)"
    using inv p po by (simp add: life_inv_def w map_free)
  ultimately show ?thesis using inv w by (simp add: life_inv_def)
qed

lemma begin_ok:
  assumes inv: "life_inv vt qinv l"
  shows "\<exists>w r. kevent_begin vt t fd (gw l) = Some (w, r) \<and>
    (callers l t = None \<longrightarrow> life_inv vt qinv (l\<lparr>gw := w, callers := (callers l)(t := r)\<rparr>))"
proof (cases "map_abs (gmap (gw l)) fd")
  case None
  then have "kevent_begin vt t fd (gw l) = Some ((gw l)\<lparr>g_errno := ENOENT\<rparr>, None)"
    by (simp add: kevent_begin_def kqueue_lookup_def kqm.look_abs)
  then show ?thesis using inv by (auto simp: life_inv_def fun_upd_idem)
next
  case (Some p)
  then have l: "kqueue_lookup fd (gw l) = p" "p \<noteq> NULL"
    using kqm.abs_null [of "gmap (gw l)" fd] by (auto simp: kqueue_lookup_def kqm.look_abs)
  have "p \<in> set (kq_list (gw l))" using inv Some unfolding life_inv_def map_inv_def by blast
  then obtain k where k: "kqs (gw l) p = Some k" "qinv (kq_body k)" "\<not> kq_freeing k"
    using inv heap_cell [of vt qinv "kqs (gw l)" "set (kq_list (gw l))" "reaping l" p]
    by (auto simp: life_inv_def cell_ok_def split: option.splits)
  let ?k = "k\<lparr>kq_body := vt_enter vt t (kq_body k)\<rparr>"
  let ?w = "(gw l)\<lparr>kqs := (kqs (gw l))(p \<mapsto> ?k)\<rparr>"
  have at: "callers l t' = Some p \<longleftrightarrow> t' \<in> set (vt_inflight vt (kq_body k))" for t'
    using inv caller_at k(1) unfolding life_inv_def by blast
  have "life_inv vt qinv (l\<lparr>gw := ?w, callers := (callers l)(t := Some p)\<rparr>)" if t: "callers l t = None"
  proof (rule replace_inv [OF inv k(1)])
    have "t \<notin> set (vt_inflight vt (kq_body k))" using at [of t] t by simp
    note e = enter_ok [OF k(2) this]
    show "qinv (kq_body ?k)" using e by simp
    show "((callers l)(t := Some p)) t' = Some p \<longleftrightarrow> t' \<in> set (vt_inflight vt (kq_body ?k))" for t'
      using e at [of t'] by simp
    show "((callers l)(t := Some p)) t' = Some q \<longleftrightarrow> callers l t' = Some q" if "q \<noteq> p" for t' q
      using t that by simp
  qed (use k(3) in simp_all)
  then show ?thesis using l k by (simp add: kevent_begin_def)
qed

lemma caller_kq:
  assumes "life_inv vt qinv l" "callers l t = Some p"
  obtains k where "kqs (gw l) p = Some k" "qinv (kq_body k)" "t \<in> set (vt_inflight vt (kq_body k))"
proof -
  obtain k where k: "kqs (gw l) p = Some k" "t \<in> set (vt_inflight vt (kq_body k))"
    using assms unfolding life_inv_def caller_inv_def by blast
  then have "qinv (kq_body k)"
    using assms(1) heap_cell [of vt qinv "kqs (gw l)" "set (kq_list (gw l))" "reaping l" p]
    by (auto simp: life_inv_def cell_ok_def)
  with k that show thesis by blast
qed

lemma end_inv:
  assumes inv: "life_inv vt qinv l" and t: "callers l t = Some p"
  shows "\<exists>w. kevent_end vt t p (gw l) = Some w \<and> life_inv vt qinv (l\<lparr>gw := w, callers := (callers l)(t := None)\<rparr>)"
proof -
  obtain k where k: "kqs (gw l) p = Some k" "qinv (kq_body k)" "t \<in> set (vt_inflight vt (kq_body k))"
    using caller_kq [OF inv t] .
  have at: "callers l t' = Some p \<longleftrightarrow> t' \<in> set (vt_inflight vt (kq_body k))" for t'
    using inv caller_at k(1) unfolding life_inv_def by blast
  obtain s x where e: "kevent_end vt t p (gw l) = Some ((gw l)\<lparr>kqs := (kqs (gw l))(p := x), shared := s\<rparr>)"
      (is "_ = Some ?w")
    and x: "if kq_freeing k \<and> set (vt_inflight vt (kq_body k)) = {t} then x = None
      else \<exists>q. x = Some (k\<lparr>kq_body := q\<rparr>) \<and> qinv q \<and> set (vt_inflight vt q) = set (vt_inflight vt (kq_body k)) - {t}"
    using end_ok [OF k] by blast
  let ?cs = "(callers l)(t := None)"
  have cs: "?cs t' = Some q \<longleftrightarrow> callers l t' = Some q" if "q \<noteq> p" for t' q using t that by auto
  have "life_inv vt qinv (l\<lparr>gw := ?w, callers := ?cs\<rparr>)"
  proof (cases "kq_freeing k \<and> set (vt_inflight vt (kq_body k)) = {t}")
    case True
    then have np: "p \<notin> set (kq_list (gw l))" "reaping l \<noteq> Some p"
      using inv k(1) heap_cell [of vt qinv "kqs (gw l)" "set (kq_list (gw l))" "reaping l" p]
      by (auto simp: life_inv_def cell_ok_def split: if_splits)
    have "life_inv vt qinv (l\<lparr>gw := ?w, callers := ?cs, reaping := reaping l\<rparr>)"
      by (rule gone_inv [OF inv np(1)]) (use True x np at cs in auto)
    then show ?thesis by simp
  next
    case False
    then obtain q where q: "x = Some (k\<lparr>kq_body := q\<rparr>)" "qinv q" "set (vt_inflight vt q) = set (vt_inflight vt (kq_body k)) - {t}"
      using x unfolding if_not_P [OF False] by blast
    show ?thesis
    proof (rule replace_inv [OF inv k(1)])
      show "?cs t' = Some p \<longleftrightarrow> t' \<in> set (vt_inflight vt (kq_body (k\<lparr>kq_body := q\<rparr>)))" for t'
        using q(3) at [of t'] by simp
      show "vt_inflight vt (kq_body (k\<lparr>kq_body := q\<rparr>)) \<noteq> []" if "kq_freeing k"
      proof -
        have "set (vt_inflight vt (kq_body k)) \<noteq> {t}" using False that by blast
        then have "set (vt_inflight vt (kq_body k)) - {t} \<noteq> {}" using k(3) by auto
        then show ?thesis using q(3) by (cases "vt_inflight vt q") simp_all
      qed
    qed (use q cs in simp_all)
  qed
  then show ?thesis using e by blast
qed

lemma unlink_inv:
  assumes inv: "life_inv vt qinv l" and b: "batch l = p # ps" and r: "reaping l = None"
  shows "\<exists>w. kqueue_free_unlink p (gw l) = Some w \<and> life_inv vt qinv (l\<lparr>gw := w, batch := ps, reaping := Some p\<rparr>)"
proof -
  have wi: "watch_inv (kq_list (gw l)) (kq_cnt (gw l)) (armed l) (p # ps) (opn l)" using inv b by (simp add: life_inv_def)
  note u = watch_unlink [OF wi]
  have po: "p \<notin> opn l" using wi by (auto simp: watch_inv_def)
  have cell: "cell_ok vt qinv True False (kqs (gw l) p)"
    using inv u(2) r heap_cell [of vt qinv "kqs (gw l)" "set (kq_list (gw l))" "reaping l" p] by (simp add: life_inv_def)
  then obtain k where k: "kqs (gw l) p = Some k" by (cases "kqs (gw l) p") (simp_all add: cell_ok_def)
  let ?w = "(gw l)\<lparr>kq_cnt := kq_cnt (gw l) - 1, kq_list := filter (\<lambda>q. q \<noteq> p) (kq_list (gw l)),
                  gmap := fst (map_remove (gmap (gw l)) (kq_ident k) p)\<rparr>"
  have "kqs (gw l) = (kqs (gw l))(p := kqs (gw l) p)" by simp
  moreover have "heap_inv vt qinv ((kqs (gw l))(p := kqs (gw l) p)) (set (kq_list ?w)) (Some p)"
    by (rule heap_upd [of vt qinv "kqs (gw l)" "set (kq_list (gw l))" None])
      (use inv r cell in \<open>auto simp: life_inv_def cell_ok_def heap_inv_def split: option.splits\<close>)
  ultimately have "heap_inv vt qinv (kqs ?w) (set (kq_list ?w)) (Some p)" by simp
  moreover have "map_inv (map_abs (gmap ?w)) (idents (kqs ?w)) (set (kq_list ?w)) (opn l)"
    using map_unlink [of "map_abs (gmap (gw l))" "idents (kqs (gw l))" "set (kq_list (gw l))" "opn l" p "kq_ident k"] inv po k
    by (simp add: life_inv_def map_remove_abs idents_def set_diff_eq)
  ultimately have "life_inv vt qinv (l\<lparr>gw := ?w, batch := ps, reaping := Some p\<rparr>)"
    using inv u(1) by (simp add: life_inv_def)
  then show ?thesis using k u(2) by (simp add: kqueue_free_unlink_def)
qed

lemma reap_inv:
  assumes inv: "life_inv vt qinv l" and r: "reaping l = Some p"
  shows "\<exists>w. kqueue_free_locked vt p (gw l) = Some w \<and> life_inv vt qinv (l\<lparr>gw := w, reaping := None\<rparr>)"
proof -
  have cell: "cell_ok vt qinv (p \<in> set (kq_list (gw l))) True (kqs (gw l) p)" "kqs (gw l) NULL = None"
    using inv r heap_cell [of vt qinv "kqs (gw l)" "set (kq_list (gw l))" "reaping l" p] by (simp_all add: life_inv_def heap_inv_def)
  then obtain k where k: "kqs (gw l) p = Some k" "qinv (kq_body k)" "p \<notin> set (kq_list (gw l))"
    by (auto simp: cell_ok_def split: option.splits)
  have nn: "p \<noteq> NULL" using cell(2) k(1) by auto
  have at: "callers l t' = Some p \<longleftrightarrow> t' \<in> set (vt_inflight vt (kq_body k))" for t'
    using inv caller_at k(1) unfolding life_inv_def by blast
  obtain s x where e: "kqueue_free_locked vt p (gw l) = Some ((gw l)\<lparr>kqs := (kqs (gw l))(p := x), shared := s\<rparr>)"
      (is "_ = Some ?w")
    and x: "if vt_inflight vt (kq_body k) = [] then x = None
      else \<exists>q. x = Some (k\<lparr>kq_freeing := True, kq_body := q\<rparr>) \<and> qinv q \<and> vt_inflight vt q = vt_inflight vt (kq_body k)"
    using free_locked_ok [OF k(1,2)] by blast
  have "life_inv vt qinv (l\<lparr>gw := ?w, reaping := None\<rparr>)"
  proof (cases "vt_inflight vt (kq_body k) = []")
    case True
    have "life_inv vt qinv (l\<lparr>gw := ?w, callers := callers l, reaping := None\<rparr>)"
    proof (rule gone_inv [OF inv k(3)])
      show "callers l t \<noteq> Some p" for t using at [of t] True by simp
    qed (use True x r in simp_all)
    then show ?thesis by simp
  next
    case False
    then obtain q where q: "x = Some (k\<lparr>kq_freeing := True, kq_body := q\<rparr>)" "qinv q" "vt_inflight vt q = vt_inflight vt (kq_body k)"
      using x by auto
    have "heap_inv vt qinv (kqs ?w) (set (kq_list ?w)) None"
      unfolding kqworld.simps q(1)
      by (simp, rule heap_upd [of vt qinv "kqs (gw l)" "set (kq_list (gw l))" "reaping l"])
        (use inv r k nn q False in \<open>auto simp: life_inv_def cell_ok_def\<close>)
    moreover have "caller_inv vt (kqs ?w) (callers l)"
      by (simp, rule caller_upd [of vt "kqs (gw l)" "callers l"]) (use inv at q in \<open>simp_all add: life_inv_def\<close>)
    moreover have "idents (kqs ?w) = idents (kqs (gw l))" using k(1) by (simp add: q(1))
    ultimately show ?thesis using inv by (simp add: life_inv_def)
  qed
  then show ?thesis using e by blast
qed

lemma step_inv:
  assumes "life_step vt work l l'" "life_inv vt qinv l" env
  shows "life_inv vt qinv l'"
  using assms(1)
proof cases
  case (create p w fd)
  then show ?thesis using create_inv [OF assms(2)] assms(3) by simp
next
  case (create_failed p w fd)
  then show ?thesis using create_failed_inv [OF assms(2)] assms(3) by blast
next
  case (close p)
  then show ?thesis
    using assms(2) map_close [of "map_abs (gmap (gw l))" "idents (kqs (gw l))" "set (kq_list (gw l))" "opn l" "opn l - {p}"]
    by (auto simp: life_inv_def watch_inv_def)
next
  case (begin_call t fd w r)
  then show ?thesis using begin_ok [OF assms(2), of t fd] by auto
next
  case (work t p k q s)
  obtain k' where k': "kqs (gw l) p = Some k'" "qinv (kq_body k')" "t \<in> set (vt_inflight vt (kq_body k'))"
    using caller_kq [OF assms(2) work(2)] .
  then have "qinv q" "vt_inflight vt q = vt_inflight vt (kq_body k)"
    using work_ok [of "kq_body k" t] work by auto
  moreover have "callers l t' = Some p \<longleftrightarrow> t' \<in> set (vt_inflight vt (kq_body k))" for t'
    using assms(2) caller_at work(3) unfolding life_inv_def by blast
  moreover have "vt_inflight vt (kq_body k) \<noteq> []" using k' work(3) by auto
  ultimately have "life_inv vt qinv (l\<lparr>gw := (gw l)\<lparr>kqs := (kqs (gw l))(p \<mapsto> k\<lparr>kq_body := q\<rparr>), shared := s\<rparr>, callers := callers l\<rparr>)"
    by (intro replace_inv [OF assms(2) work(3), of "k\<lparr>kq_body := q\<rparr>"]) simp_all
  then show ?thesis using work(1) by simp
next
  case (end_call t p w)
  then show ?thesis using end_inv [OF assms(2)] by fastforce
next
  case (wait ps)
  then show ?thesis using assms(2) by (auto simp: life_inv_def watch_inv_def)
next
  case (unlink p ps w)
  then show ?thesis using unlink_inv [OF assms(2)] by fastforce
next
  case (reap p w)
  then show ?thesis using reap_inv [OF assms(2)] by fastforce
next
  case (outside s)
  then show ?thesis using assms(2) by (simp add: life_inv_def)
qed

lemma reachable_inv:
  assumes "(life_step vt work)\<^sup>*\<^sup>* (life_start m s) l" "map_abs m = Map.empty" env
  shows "life_inv vt qinv l"
  using assms(1)
proof induction
  case base
  show ?case using assms(2) by (rule life_start_inv)
next
  case (step y z)
  then show ?case using step_inv assms(3) by blast
qed

lemma inv_safe:
  assumes inv: "life_inv vt qinv l" and env
  shows "life_safe vt l"
  unfolding life_safe_def
proof (intro conjI allI impI)
  show "kqueue vt (Some p) (gw l) \<noteq> None" if "kqs (gw l) p = None \<and> p \<noteq> NULL" for p
    using kqueue_ok [of p "gw l"] that \<open>env\<close> by auto
  show "kevent_begin vt t fd (gw l) \<noteq> None" for t fd using begin_ok [OF inv, of t fd] by auto
  show "kqs (gw l) p \<noteq> None" if "callers l t = Some p" for t p using caller_kq [OF inv that] by (metis option.distinct(1))
  show "kevent_end vt t p (gw l) \<noteq> None" if "callers l t = Some p" for t p using end_inv [OF inv that] by auto
  show "kqueue_free_locked vt p (gw l) \<noteq> None" if "reaping l = Some p" for p using reap_inv [OF inv that] by auto
  show "kqueue_free_unlink p (gw l) \<noteq> None" if b: "batch l = p # ps" for p ps
  proof -
    have "p \<in> set (kq_list (gw l))" using inv b by (auto simp: life_inv_def watch_inv_def)
    moreover from this have "kqs (gw l) p \<noteq> None"
      using inv heap_cell [of vt qinv "kqs (gw l)" "set (kq_list (gw l))" "reaping l" p]
      by (cases "kqs (gw l) p") (simp_all add: life_inv_def cell_ok_def)
    ultimately show ?thesis by (auto simp: kqueue_free_unlink_def)
  qed
qed

lemma no_leak:
  assumes inv: "life_inv vt qinv l" and p: "p \<notin> armed l" "p \<notin> set (batch l)" "reaping l \<noteq> Some p" "\<And>t. callers l t \<noteq> Some p"
  shows "kqs (gw l) p = None"
proof (rule ccontr)
  assume "kqs (gw l) p \<noteq> None"
  then obtain k where k: "kqs (gw l) p = Some k" by blast
  have "p \<notin> set (kq_list (gw l))" using inv p by (auto simp: life_inv_def watch_inv_def)
  then have "vt_inflight vt (kq_body k) \<noteq> []"
    using inv k p(3) heap_cell [of vt qinv "kqs (gw l)" "set (kq_list (gw l))" "reaping l" p] by (auto simp: life_inv_def cell_ok_def)
  then obtain t where "t \<in> set (vt_inflight vt (kq_body k))" by (cases "vt_inflight vt (kq_body k)") auto
  then have "callers l t = Some p" using inv k caller_at unfolding life_inv_def by blast
  then show False using p(4) by blast
qed

lemma open_found:
  assumes "life_inv vt qinv l" "p \<in> opn l" "kqs (gw l) p = Some k"
  shows "kqueue_lookup (kq_ident k) (gw l) = p"
proof -
  have "idents (kqs (gw l)) p = Some (kq_ident k)" using assms(3) by (simp add: idents_def)
  then have "map_abs (gmap (gw l)) (kq_ident k) = Some p" using assms(1,2) unfolding life_inv_def map_inv_def by blast
  then show ?thesis by (simp add: kqueue_lookup_def kqm.look_abs)
qed

end

subsection \<open>Properties\<close>

text \<open>C32: the map of a process fits its limit.  After initialisation no descriptor is in
  use, and a descriptor has a slot exactly if it is below the hard limit on open
  files, which is cut off at 2^20 and taken to be 65536 when it cannot be read.\<close>

theorem init_map_range:
  assumes "libkqueue_init pi fi r c mm w = Some (m, w')"
  shows "map_abs m = Map.empty \<and>
    (\<not> MAP_IDX_OOB m fd \<longleftrightarrow> 0 \<le> sint fd \<and>
      nat (sint fd) < (case r of None \<Rightarrow> 65536 | Some None \<Rightarrow> 2 ^ 20 | Some (Some n) \<Rightarrow> min n (2 ^ 20)))"
proof -
  have m: "m = \<lparr>map_len = ucast (get_fd_limit r), map_data = (\<lambda>_. NULL)\<rparr>"
    using assms by (auto simp: libkqueue_init_def libkqueue_init_map_def map_new_def Let_def split: if_splits)
  have "unat (ucast (get_fd_limit r) :: u64) = unat (get_fd_limit r)" 
    using unsigned_less [where ?'a = nat, of "get_fd_limit r"] by (simp add: unsigned_ucast_eq take_bit_nat_eq_self_iff)
  moreover have "unat (get_fd_limit r) = (case r of None \<Rightarrow> 65536 | Some None \<Rightarrow> 2 ^ 20 | Some (Some n) \<Rightarrow> min n (2 ^ 20))"
    by (auto simp: get_fd_limit_def unat_of_nat take_bit_nat_eq_self split: option.split)
  ultimately show ?thesis by (auto simp: m MAP_IDX_OOB_def map_abs_def map_lookup_def fun_eq_iff)
qed

theorem init_map_range_witness:
  "\<exists>m. libkqueue_init None id (Some (Some 1024)) True True () = Some (m, ()) \<and> \<not> MAP_IDX_OOB m 1023 \<and> MAP_IDX_OOB m 1024"
proof -
  obtain m where m: "libkqueue_init None id (Some (Some 1024)) True True () = Some (m, ())"
    by (simp add: libkqueue_init_def libkqueue_init_map_def map_new_def)
  then show ?thesis using init_map_range [OF m, of 1023] init_map_range [OF m, of 1024] by simp
qed

text \<open>C29: the fork handlers keep the global mutex balanced.  From a free mutex the
  prepare handler succeeds; whatever becomes of the fork_cleanup setting in
  between, the parent's and the child's handler both succeed and leave the mutex
  free, and the child knows that it is one.\<close>

theorem fork_mutex_balance:
  "\<exists>f1. libkqueue_pre_fork (f\<lparr>kq_mtx := False\<rparr>) = Some f1 \<and>
     (\<forall>c. (\<exists>f2. libkqueue_parent_fork (f1\<lparr>fork_cleanup := c\<rparr>) = Some f2 \<and> \<not> kq_mtx f2) \<and>
          (\<exists>f3 w'. libkqueue_child_fork ff pf (f1\<lparr>fork_cleanup := c\<rparr>) w = Some (f3, w') \<and> \<not> kq_mtx f3 \<and> in_child f3))"
  by (auto simp: libkqueue_pre_fork_def libkqueue_parent_fork_def libkqueue_child_fork_def
      lock_kq_mtx_def unlock_kq_mtx_def Let_def)

text \<open>C28: a descriptor beyond the map.  On a backend without asynchronous close
  detection, kqueue() does not report an error when the descriptor it gets does
  not fit the map: evicting a stale kqueue from that slot takes the map's error
  value for a kqueue and frees it.\<close>

theorem kqueue_out_of_range_fault:
  assumes "\<not> vt_close_async vt" "vt_init vt (vt_zero vt) (shared w) = Some (q, s, rv, fd)" "0 \<le> rv"
    and "MAP_IDX_OOB (gmap w) fd" "kqs w (-1) = None" "p \<noteq> -1"
  shows "kqueue vt (Some p) w = None"
proof -
  have "map_delete (gmap w) fd = (gmap w, -1)" using assms(4) by (simp add: map_delete_def)
  moreover have "(-1 :: u64) \<noteq> NULL" by (simp add: NULL_def)
  ultimately show ?thesis
    using assms by (auto simp: kqueue_def kqueue_free_by_id_def kqueue_free_def kqueue_free_unlink_def)
qed

definition sim_sync_vtable :: "(unit, unit) kqueue_vtable" where
  "sim_sync_vtable =
     \<lparr>vt_zero = (), vt_init = \<lambda>q s. Some (q, s, 0, 70), vt_unregister = \<lambda>q s. Some (q, s), vt_free = \<lambda>q s. Some (q, s),
      vt_interrupt = None, vt_enter = \<lambda>_ q. q, vt_exit = \<lambda>_ q. Some q, vt_inflight = \<lambda>_. [], vt_close_async = False\<rparr>"

theorem kqueue_out_of_range_fault_witness:
  "kqueue sim_sync_vtable (Some 4096) (gw (life_start \<lparr>map_len = 64, map_data = \<lambda>_. NULL\<rparr> ())) = None"
proof (rule kqueue_out_of_range_fault [where q = "()" and s = "()" and rv = 0 and fd = 70])
  show "MAP_IDX_OOB (gmap (gw (life_start \<lparr>map_len = 64, map_data = \<lambda>_. NULL\<rparr> ()))) 70" by (simp add: life_start_def) code_simp
qed (simp_all add: sim_sync_vtable_def life_start_def)

end
