(* ===== verification/Linux_Life.thy ===== *)
theory Linux_Life
  imports Linux_Platform Kqueue_Life
begin

text \<open>
  The life cycle of kqueues on Linux: the operations of \<^verbatim>\<open>linux/platform.c\<close> as the
  table that \<open>Kqueue_Life\<close> works with, and the proof that they keep its promises.
  What the kqueues share is the operating system and the state of the
  close-detection thread; each kqueue has its own knotes, fd_state and udata
  objects.
\<close>

subsection \<open>The table\<close>

record 'o lshared =
  sh_os :: 'o
  sh_epfd :: int
  sh_drain_efd :: int
  sh_tid :: int

definition load :: "'o lshared \<Rightarrow> 'o mworld \<Rightarrow> 'o mworld" where
  "load s q = q\<lparr>os := sh_os s, monitoring_epfd := sh_epfd s, monitoring_drain_efd := sh_drain_efd s, monitoring_tid := sh_tid s\<rparr>"

definition store :: "'o mworld \<Rightarrow> 'o lshared" where
  "store w = \<lparr>sh_os = os w, sh_epfd = monitoring_epfd w, sh_drain_efd = monitoring_drain_efd w, sh_tid = monitoring_tid w\<rparr>"

text \<open>The zeroed memory of a new kqueue, over some state of the kernel.\<close>

definition kq_zero :: "'o \<Rightarrow> 'o mworld" where
  "kq_zero k =
     \<lparr>errno = 0, calloc_ok = (\<lambda>_. True), next_addr = 1, knotes = Map.empty,
      kq_filt = replicate EVFILT_SYSCOUNT filter_zero,
      kq_knote_count = 0, libkqueue_thread_safe = True, libkqueue_fork_cleanup = True,
      libkqueue_debug = False, libkqueue_debug_ident = 0, libkqueue_debug_func = 0,
      epollfd = 0, kq_fd_st = [], fdss = Map.empty, udatas = Map.empty, kq_wake_udata = None,
      efd_udata = (\<lambda>_. None), kq_next_epoch = 0, kq_inflight = [], ud_deferred_free = [],
      pipefd = (0, 0), kq_id = 0, tls_events = (\<lambda>_. []), os = k,
      monitoring_epfd = -1, monitoring_drain_efd = -1, monitoring_tid = 0\<rparr>"

text \<open>\<open>fs\<close> is the list of filters the build registers and \<open>start\<close> creates the monitoring
  thread.\<close>

definition linux_kqops ::
  "'o kernel \<Rightarrow> ('o mworld) lkq_build \<Rightarrow> ('o mworld) filter_def list \<Rightarrow> 'o sys \<Rightarrow> 'o \<Rightarrow> ('o mworld, 'o lshared) kqueue_vtable" where
  "linux_kqops K B fs start k0 =
     \<lparr>vt_zero = kq_zero k0,
      vt_init = \<lambda>q s. do {
        (w, rv) \<leftarrow> linux_kqueue_init K start (filter_register_all (linux_vt K B) (\<lambda>_. None) None None fs) (load s q);
        Some (w, store w, rv, word_of_int (kq_id w)) },
      vt_unregister = \<lambda>q s. do {
        w \<leftarrow> filter_unregister_all (linux_vt K B) (\<lambda>_. None) None (load s q);
        Some (w, store w) },
      vt_free = \<lambda>q s. do {
        w \<leftarrow> linux_kqueue_free K (load s q);
        Some (w, store w) },
      vt_interrupt = Some (\<lambda>q s. let w = linux_kqueue_interrupt K (load s q) in (w, store w)),
      vt_enter = linux_kevent_enter,
      vt_exit = linux_kevent_exit,
      vt_inflight = \<lambda>q. map fst (kq_inflight q),
      vt_close_async = True\<rparr>"

text \<open>What a call does between entry and exit, as far as it is covered here: process a
  change list of descriptors that are ints.\<close>

definition linux_work ::
  "'o kernel \<Rightarrow> ('o mworld) lkq_build \<Rightarrow> nat \<Rightarrow> 'o mworld \<Rightarrow> 'o lshared \<Rightarrow> 'o mworld \<Rightarrow> 'o lshared \<Rightarrow> bool" where
  "linux_work K B t q s q' s' \<longleftrightarrow>
     (\<exists>cs n rv out. (\<forall>c \<in> set cs. adm_change linux_adm c) \<and>
        kevent_copyin (linux_vt K B) lknote_zero cs n (load s q) = Some (q', rv, out) \<and> s' = store q')"

subsection \<open>What the environment promises\<close>

text \<open>The filters of the list have no initialiser and are implemented, and reading a
  nonblocking pipe takes bytes out of it until it is empty.\<close>

definition linux_env ::
  "'o kernel \<Rightarrow> ('o mworld) lkq_build \<Rightarrow> ('o mworld) filter_def list \<Rightarrow> ('o \<Rightarrow> nat) \<Rightarrow> bool" where
  "linux_env K B fs piped \<longleftrightarrow>
     ctl_law K \<and> set_file_poll_interval B = None \<and>
     (\<forall>f \<in> set fs. fd_id f \<noteq> 0 \<longrightarrow> fd_callbacks f \<and> fd_init f = None \<and>
        (unat (filter_offset (fd_id f)) < EVFILT_SYSCOUNT \<longrightarrow> linux_impl (unat (filter_offset (fd_id f))))) \<and>
     (\<forall>fd s s' n e. sys_read_pipe K fd s = (s', n, e) \<and> 0 < n \<longrightarrow> piped s' < piped s)"

definition linux_qinv ::
  "'o kernel \<Rightarrow> ('o mworld) lkq_build \<Rightarrow> ('o mworld) filter_def list \<Rightarrow> ('o \<Rightarrow> nat) \<Rightarrow> 'o mworld \<Rightarrow> bool" where
  "linux_qinv K B fs piped q \<longleftrightarrow> linux_env K B fs piped \<and> linux_wf K B q"

definition linux_qdown ::
  "'o kernel \<Rightarrow> ('o mworld) lkq_build \<Rightarrow> ('o mworld) filter_def list \<Rightarrow> ('o \<Rightarrow> nat) \<Rightarrow> 'o mworld \<Rightarrow> bool" where
  "linux_qdown K B fs piped q \<longleftrightarrow> linux_env K B fs piped \<and> queue_stale q"

subsection \<open>States that look alike\<close>

text \<open>The invariant sees neither the kernel nor errno nor the descriptors of a kqueue.\<close>

lemma linux_wf_cong:
  assumes "knotes w' = knotes w" "kq_filt w' = kq_filt w" "kq_knote_count w' = kq_knote_count w" "next_addr w' = next_addr w"
    "calloc_ok w' = calloc_ok w" "fdss w' = fdss w" "kq_fd_st w' = kq_fd_st w"
    and ud: "\<And>r x. udata_ok (udatas w) r x \<Longrightarrow> udata_ok (udatas w') r x" "queue_stale w'"
    and wf: "linux_wf K B w"
  shows "linux_wf K B w'"
proof -
  have view: "view w' = view w" using assms(1) by (simp add: view_def fun_eq_iff)
  have inv: "linux_inv K (kq_inflight w) w" using wf by (simp add: linux_wf_def)
  have "core_wf w'"
    using wf assms(1-4) by (simp add: linux_wf_def core_inv_def filt_inv_def entry_ok_def linked_def)
  moreover have "impl_ok (\<lambda>fi. set_file_poll_interval B = None \<and> linux_impl fi) linux_adm w'"
    using wf impl_ok_filt [OF assms(2)] by (simp add: linux_wf_def)
  moreover have "fds_ok w' f s" if "fdss w' f = Some s" for f s
  proof -
    have "fds_ok w f s" using inv that assms(6) by (simp add: linux_inv_def)
    then show ?thesis using ud(1) by (simp add: fds_ok_def view assms(4,7))
  qed
  moreover have "kn_ok (fdss w') (udatas w') a v" if "view w' a = Some v" for a v
  proof -
    have "kn_ok (fdss w) (udatas w) a v" using inv that view by (simp add: linux_inv_def)
    then show ?thesis using ud(1) by (simp add: kn_ok_def assms(6))
  qed
  moreover have "tree_ok w'" using inv assms(6,7) by (simp add: linux_inv_def tree_ok_def)
  ultimately show ?thesis using inv ud(2) assms(5) by (simp add: linux_wf_def linux_inv_def)
qed

lemma linux_wf_queue: "linux_wf K B w \<Longrightarrow> queue_stale w"
  by (simp add: linux_wf_def linux_inv_def)

lemma queue_stale_cong:
  "udatas w' = udatas w \<Longrightarrow> ud_deferred_free w' = ud_deferred_free w \<Longrightarrow> next_addr w' = next_addr w \<Longrightarrow> queue_stale w' = queue_stale w"
  by (simp add: queue_stale_def)

lemma linux_wf_outside:
  assumes "linux_wf K B w"
  shows "linux_wf K B (w\<lparr>os := k, errno := e, monitoring_epfd := a, monitoring_drain_efd := b, monitoring_tid := c\<rparr>)"
  by (rule linux_wf_cong [OF _ _ _ _ _ _ _ _ _ assms]) (use linux_wf_queue [OF assms] in \<open>simp_all add: queue_stale_def\<close>)

lemma load_errno: "load s q = q\<lparr>os := sh_os s, errno := errno q, monitoring_epfd := sh_epfd s, monitoring_drain_efd := sh_drain_efd s, monitoring_tid := sh_tid s\<rparr>"
  by (simp add: load_def)

lemma linux_wf_load: "linux_wf K B q \<Longrightarrow> linux_wf K B (load s q)"
  unfolding load_errno by (rule linux_wf_outside)

lemma load_fields [simp]:
  "kq_inflight (load s q) = kq_inflight q" "ud_deferred_free (load s q) = ud_deferred_free q" "udatas (load s q) = udatas q"
  "next_addr (load s q) = next_addr q"
  by (simp_all add: load_def)

subsection \<open>Entry and exit\<close>

lemma enter_wf:
  assumes wf: "linux_wf K B w"
  shows "linux_wf K B (linux_kevent_enter t w) \<and>
    set (map fst (kq_inflight (linux_kevent_enter t w))) = insert t (set (map fst (kq_inflight w)))"
proof -
  define w1 where "w1 = (if kq_next_epoch w = -1 then linux_kqueue_epoch_rebase w else w)"
  have same: "knotes w1 = knotes w" "kq_filt w1 = kq_filt w" "kq_knote_count w1 = kq_knote_count w" "next_addr w1 = next_addr w"
    "calloc_ok w1 = calloc_ok w" "fdss w1 = fdss w" "kq_fd_st w1 = kq_fd_st w" "ud_deferred_free w1 = ud_deferred_free w"
    "map fst (kq_inflight w1) = map fst (kq_inflight w)"
    by (simp_all add: w1_def linux_kqueue_epoch_rebase_def shift_epochs_def comp_def case_prod_beta)
  have key: "map_option (\<lambda>d. (ud_ref d, ud_stale d)) (udatas w1 u) = map_option (\<lambda>d. (ud_ref d, ud_stale d)) (udatas w u)" for u
    by (simp add: w1_def linux_kqueue_epoch_rebase_def shift_epochs_def option.map_comp comp_def)
  have kd: "\<exists>d'. udatas w1 u = Some d' \<and> ud_ref d' = ud_ref d \<and> ud_stale d' = ud_stale d" if "udatas w u = Some d" for u d
    using key [of u] that by (cases "udatas w1 u") auto
  have kn: "udatas w u \<noteq> None" if "udatas w1 u \<noteq> None" for u
    using key [of u] that by (cases "udatas w1 u"; cases "udatas w u") auto
  have q0: "queue_stale w" using linux_wf_queue [OF wf] .
  have q: "queue_stale w1"
    unfolding queue_stale_def same
  proof (intro conjI ballI)
    show "u < next_addr w" if "u \<in> dom (udatas w1)" for u using q0 kn that unfolding queue_stale_def by blast
    show "\<exists>d. udatas w1 u = Some d \<and> ud_stale d" if "u \<in> set (ud_deferred_free w)" for u
      using q0 kd that unfolding queue_stale_def by metis
    show "distinct (ud_deferred_free w)" using q0 by (simp add: queue_stale_def)
  qed
  have ok: "udata_ok (udatas w1) r x" if "udata_ok (udatas w) r x" for r x
    using that kd by (cases x) (fastforce simp: udata_ok_def)+
  have w1: "linux_wf K B w1" by (rule linux_wf_cong [OF same(1-7) ok q wf])
  have e: "linux_kevent_enter t w = w1\<lparr>kq_next_epoch := kq_next_epoch w1 + 1, kq_inflight := kq_inflight w1 @ [(t, kq_next_epoch w1 + 1)]\<rparr>"
    by (simp add: linux_kevent_enter_def w1_def Let_def)
  have "linux_wf K B (linux_kevent_enter t w)"
    unfolding e by (rule linux_wf_cong [OF _ _ _ _ _ _ _ _ _ w1]) (use q in \<open>simp_all add: queue_stale_def\<close>)
  moreover have "set (map fst (kq_inflight (linux_kevent_enter t w))) = insert t (set (map fst (kq_inflight w)))"
    unfolding e same(9) [symmetric] by auto
  ultimately show ?thesis by blast
qed

lemma sweep_loop_ok:
  assumes "distinct us" "\<forall>u \<in> set us. uds u \<noteq> None"
  shows "\<exists>us' uds'. sweep_loop e us uds = Some (us', uds') \<and> set us' \<subseteq> set us \<and> distinct us' \<and>
    (\<forall>u. uds' u = (if u \<in> set us \<and> u \<notin> set us' then None else uds u))"
  using assms
proof (induction us arbitrary: uds)
  case (Cons u us)
  obtain d where d: "uds u = Some d" using Cons.prems by auto
  show ?case
  proof (cases "case e of None \<Rightarrow> True | Some e \<Rightarrow> ud_boundary_epoch d < e")
    case True
    have "\<forall>v \<in> set us. (uds(u := None)) v \<noteq> None" "distinct us" using Cons.prems by auto
    from Cons.IH [OF this(2,1)] obtain us' uds' where i: "sweep_loop e us (uds(u := None)) = Some (us', uds')"
        "set us' \<subseteq> set us" "distinct us'" "\<forall>v. uds' v = (if v \<in> set us \<and> v \<notin> set us' then None else (uds(u := None)) v)"
      by blast
    moreover have "u \<notin> set us'" using i(2) Cons.prems(1) by auto
    ultimately show ?thesis using True d by (intro exI [of _ us'] exI [of _ uds']) auto
  next
    case False
    then show ?thesis using d Cons.prems(1) by auto
  qed
qed simp

lemma exit_wf:
  assumes wf: "linux_wf K B w" and t: "t \<in> set (map fst (kq_inflight w))"
  shows "\<exists>w'. linux_kevent_exit t w = Some w' \<and> linux_wf K B w' \<and>
    set (map fst (kq_inflight w')) = set (map fst (kq_inflight w)) - {t}"
proof -
  let ?c = "filter (\<lambda>p. fst p \<noteq> t) (kq_inflight w)"
  let ?w = "w\<lparr>kq_inflight := ?c\<rparr>"
  have q: "queue_stale w" by (rule linux_wf_queue [OF wf])
  have "distinct (ud_deferred_free w)" "\<forall>u \<in> set (ud_deferred_free w). udatas w u \<noteq> None"
    using q by (auto simp: queue_stale_def)
  from sweep_loop_ok [OF this, of "oldest_epoch ?w"]
  obtain us uds where s: "sweep_loop (oldest_epoch ?w) (ud_deferred_free w) (udatas w) = Some (us, uds)"
      "set us \<subseteq> set (ud_deferred_free w)" "distinct us"
      "\<forall>u. uds u = (if u \<in> set (ud_deferred_free w) \<and> u \<notin> set us then None else udatas w u)" by blast
  let ?w' = "?w\<lparr>ud_deferred_free := us, udatas := uds\<rparr>"
  have e: "linux_kevent_exit t w = Some ?w'"
    using t s(1) by (simp add: linux_kevent_exit_def linux_kqueue_sweep_deferred_def)
  have "linux_wf K B ?w'"
  proof (rule linux_wf_cong [OF _ _ _ _ _ _ _ _ _ wf])
    show "queue_stale ?w'"
      unfolding queue_stale_def
    proof (intro conjI ballI)
      show "u < next_addr ?w'" if "u \<in> dom (udatas ?w')" for u
      proof -
        have "uds u \<noteq> None" using that by auto
        then have "u \<in> dom (udatas w)" using s(4) by (metis domIff)
        then show ?thesis using q by (simp add: queue_stale_def)
      qed
      show "\<exists>d. udatas ?w' u = Some d \<and> ud_stale d" if "u \<in> set (ud_deferred_free ?w')" for u
        using that q s(2,4) unfolding queue_stale_def by auto
    qed (use s(3) in simp)
    show "udata_ok (udatas ?w') r x" if x: "udata_ok (udatas w) r x" for r x
    proof (cases x)
      case (Some u)
      then obtain d where d: "udatas w u = Some d" "ud_ref d = r" "\<not> ud_stale d" using x by (auto simp: udata_ok_def)
      then have "u \<notin> set (ud_deferred_free w)" using q unfolding queue_stale_def by fastforce
      then show ?thesis using d Some s(4) by (simp add: udata_ok_def)
    qed (simp add: udata_ok_def)
  qed simp_all
  moreover have "set (map fst ?c) = set (map fst (kq_inflight w)) - {t}" by auto
  ultimately show ?thesis using e by auto
qed

subsection \<open>Destruction\<close>

lemma free_deferred_ok:
  "distinct us \<Longrightarrow> \<forall>u \<in> set us. udatas w u \<noteq> None \<Longrightarrow> \<exists>w'. free_deferred us w = Some w'"
proof (induction us arbitrary: w)
  case (Cons u us)
  then have "\<forall>v \<in> set us. udatas (w\<lparr>udatas := (udatas w)(u := None)\<rparr>) v \<noteq> None" "distinct us" by auto
  with Cons.IH Cons.prems show ?case by auto
qed simp

lemma syscall_form: "\<exists>k e rv. syscall f w = (w\<lparr>os := k, errno := e\<rparr>, rv)"
proof -
  obtain k rv e where "f (os w) = (k, rv, e)" by (cases "f (os w)")
  then have "syscall f w = (w\<lparr>os := k, errno := (if rv < 0 then e else errno w)\<rparr>, rv)" by (simp add: syscall_def)
  then show ?thesis by blast
qed

lemma syscall_queue [simp]:
  "udatas (fst (syscall f w)) = udatas w" "ud_deferred_free (fst (syscall f w)) = ud_deferred_free w"
  "kq_inflight (fst (syscall f w)) = kq_inflight w"
  by (simp_all add: syscall_def split: prod.split)

lemma drain_pipe_ok:
  fixes piped :: "'o \<Rightarrow> nat"
  assumes law: "\<forall>fd s s' n e. sys_read_pipe K fd s = (s', n, e) \<and> 0 < n \<longrightarrow> piped s' < piped s"
  shows "\<exists>w'. drain_pipe K fd w = Some w' \<and> udatas w' = udatas w \<and> ud_deferred_free w' = ud_deferred_free w \<and>
    kq_inflight w' = kq_inflight w"
proof (induction "piped (os w)" arbitrary: w rule: less_induct)
  case less
  obtain w1 n where c: "syscall (sys_read_pipe K fd) w = (w1, n)" by force
  have same: "udatas w1 = udatas w" "ud_deferred_free w1 = ud_deferred_free w" "kq_inflight w1 = kq_inflight w"
    using syscall_queue [of "sys_read_pipe K fd" w] c by simp_all
  show ?case
  proof (cases "0 < n")
    case True
    obtain e where "sys_read_pipe K fd (os w) = (os w1, n, e)" using c by (auto simp: syscall_def split: prod.splits)
    then have "piped (os w1) < piped (os w)" using law True by blast
    from less [OF this] True c same show ?thesis by (auto simp: drain_pipe.simps [of K fd w])
  next
    case False
    then show ?thesis using c same by (simp add: drain_pipe.simps [of K fd w])
  qed
qed

lemma linux_free_ok:
  fixes piped :: "'o \<Rightarrow> nat"
  assumes law: "\<forall>fd s s' n e. sys_read_pipe K fd s = (s', n, e) \<and> 0 < n \<longrightarrow> piped s' < piped s"
    and q: "queue_stale w" "kq_inflight w = []"
  shows "\<exists>w'. linux_kqueue_free K w = Some w'"
proof -
  let ?ok = "\<lambda>w :: 'o mworld. distinct (ud_deferred_free w) \<and> (\<forall>u \<in> set (ud_deferred_free w). udatas w u \<noteq> None) \<and> kq_inflight w = []"
  define w1 where "w1 = (if epollfd w > 0 then (fst (syscall (sys_close K (epollfd w)) w))\<lparr>epollfd := -1\<rparr> else w)"
  have ok1: "?ok w1" using q by (auto simp: w1_def queue_stale_def)
  obtain w2 ret where c: "syscall (sys_read_pipe K (fst (pipefd w1))) w1 = (w2, ret)" by force
  have ok2: "?ok w2" using ok1 syscall_queue [of "sys_read_pipe K (fst (pipefd w1))" w1] c by simp
  let ?d = "if ret = -1 \<and> errno w2 = EAGAIN then
             Some ((fst (syscall (sys_close K (snd (pipefd w2))) w2))\<lparr>pipefd := (fst (pipefd w2), -1)\<rparr>)
           else if ret > 0 then drain_pipe K (fst (pipefd w2)) w2
           else Some w2"
  have "\<exists>w3. ?d = Some w3 \<and> ?ok w3"
    using ok2 drain_pipe_ok [OF law, of "fst (pipefd w2)" w2] by auto
  then obtain w3 where w3: "?d = Some w3" "?ok w3" by blast
  define w4 where "w4 = (if fst (pipefd w3) > 0 then
                let w = (if monitoring_epfd w3 \<ge> 0
                         then fst (syscall (sys_epoll_ctl K (monitoring_epfd w3) EPOLL_CTL_DEL (fst (pipefd w3)) 0 None) w3)
                         else w3)
                in (fst (syscall (sys_close K (fst (pipefd w))) w))\<lparr>pipefd := (-1, snd (pipefd w))\<rparr>
              else w3)"
  have ok4: "?ok w4" using w3(2) by (auto simp: w4_def Let_def)
  then obtain w5 where "free_deferred (ud_deferred_free w4) w4 = Some w5" using free_deferred_ok by blast
  then show ?thesis
    using ok4 w3(1) unfolding linux_kqueue_free_def w1_def [symmetric] c Let_def w4_def [unfolded Let_def, symmetric]
    by (auto simp: w4_def Let_def)
qed

lemma interrupt_wf:
  fixes w :: "'o mworld"
  assumes "linux_wf K B w"
  shows "linux_wf K B (linux_kqueue_interrupt K w) \<and> kq_inflight (linux_kqueue_interrupt K w) = kq_inflight w"
proof -
  obtain k e rv where "syscall (sys_write_pipe K (snd (pipefd w))) w = (w\<lparr>os := k, errno := e\<rparr>, rv)"
    using syscall_form [of "sys_write_pipe K (snd (pipefd w))" w] by blast
  then show ?thesis
    using assms linux_wf_outside [OF assms, where k = k and e = e and a = "monitoring_epfd w" and b = "monitoring_drain_efd w" and c = "monitoring_tid w"]
    by (simp add: linux_kqueue_interrupt_def)
qed

subsection \<open>Creation\<close>

text \<open>The slots of a kqueue without knotes.\<close>

definition slots_ok :: "filter_t list \<Rightarrow> bool" where
  "slots_ok fs \<longleftrightarrow>
     length fs = EVFILT_SYSCOUNT \<and>
     (\<forall>fi < EVFILT_SYSCOUNT. kf_index (fs ! fi) = [] \<and> kf_ready (fs ! fi) = [] \<and>
        (kf_copyout_set (fs ! fi) \<longrightarrow> linux_impl fi \<and> kf_id (fs ! fi) \<noteq> 0))"

lemma register_ok:
  assumes "fd_id f \<noteq> 0 \<Longrightarrow> fd_callbacks f \<and> fd_init f = None \<and>
      (unat (filter_offset (fd_id f)) < EVFILT_SYSCOUNT \<longrightarrow> linux_impl (unat (filter_offset (fd_id f))))"
    and "slots_ok (kq_filt w)"
  shows "\<exists>gs rv. filter_register None f w = Some (w\<lparr>kq_filt := gs\<rparr>, rv) \<and> slots_ok gs"
proof (cases "fd_id f = 0 \<or> unat (filter_offset (fd_id f)) \<ge> EVFILT_SYSCOUNT")
  case True
  then have "\<exists>rv. filter_register None f w = Some (w\<lparr>kq_filt := kq_filt w\<rparr>, rv)" by (auto simp: filter_register_def)
  then show ?thesis using assms(2) by blast
next
  case False
  let ?g = "filter_zero\<lparr>kf_id := fd_id f, kf_copyout_set := fd_callbacks f\<rparr>"
  let ?gs = "(kq_filt w)[unat (filter_offset (fd_id f)) := ?g]"
  have "filter_register None f w = Some (w\<lparr>kq_filt := ?gs\<rparr>, 0)"
    using False assms(1) by (simp add: filter_register_def upd_filt_def)
  moreover have "slots_ok ?gs"
    using False assms by (auto simp: slots_ok_def nth_list_update filter_zero_def)
  ultimately show ?thesis by blast
qed

lemma register_list_ok:
  assumes "\<forall>f \<in> set fs. fd_id f \<noteq> 0 \<longrightarrow> fd_callbacks f \<and> fd_init f = None \<and>
      (unat (filter_offset (fd_id f)) < EVFILT_SYSCOUNT \<longrightarrow> linux_impl (unat (filter_offset (fd_id f))))"
    and "slots_ok (kq_filt w)"
  shows "\<exists>gs rv. filter_register_list None fs w = Some (w\<lparr>kq_filt := gs\<rparr>, rv) \<and> slots_ok gs"
  using assms
proof (induction fs arbitrary: w)
  case Nil
  have "w = w\<lparr>kq_filt := kq_filt w\<rparr>" by simp
  then show ?case using Nil.prems(2) by (metis filter_register_list.simps(1))
next
  case (Cons f fs)
  obtain gs rv where f: "filter_register None f w = Some (w\<lparr>kq_filt := gs\<rparr>, rv)" "slots_ok gs"
    using register_ok [of f w] Cons.prems by auto
  obtain hs rv' where "filter_register_list None fs (w\<lparr>kq_filt := gs\<rparr>) = Some (w\<lparr>kq_filt := hs\<rparr>, rv')" "slots_ok hs"
    using Cons.IH [of "w\<lparr>kq_filt := gs\<rparr>"] Cons.prems(1) f(2) by auto
  then show ?case using f by auto
qed

lemma unregister_empty:
  "\<forall>i \<in> set is. kf_index (kq_filt w ! i) = [] \<Longrightarrow> filter_unregister_slots vt (\<lambda>_. None) None is w = Some w"
  by (induction "is") (auto simp: knote_delete_all_def)

lemma register_all_ok:
  assumes "\<forall>f \<in> set fs. fd_id f \<noteq> 0 \<longrightarrow> fd_callbacks f \<and> fd_init f = None \<and>
      (unat (filter_offset (fd_id f)) < EVFILT_SYSCOUNT \<longrightarrow> linux_impl (unat (filter_offset (fd_id f))))"
    and "slots_ok (kq_filt w)"
  shows "\<exists>gs rv. filter_register_all vt (\<lambda>_. None) None None fs w = Some (w\<lparr>kq_filt := gs\<rparr>, rv) \<and> (0 \<le> rv \<longrightarrow> slots_ok gs)"
proof -
  obtain gs rv where f: "filter_register_list None fs w = Some (w\<lparr>kq_filt := gs\<rparr>, rv)" "slots_ok gs"
    using register_list_ok [OF assms] by blast
  then have "filter_unregister_slots vt (\<lambda>_. None) None [0 ..< EVFILT_SYSCOUNT] (w\<lparr>kq_filt := gs\<rparr>) = Some (w\<lparr>kq_filt := gs\<rparr>)"
    by (intro unregister_empty) (simp add: slots_ok_def)
  then show ?thesis using f by (cases "rv = 0") (auto simp: filter_register_all_def filter_unregister_all_def)
qed

text \<open>A kqueue under construction has no knotes; what its creation does to the rest of
  it is followed by the rules below.\<close>

definition newborn :: "'o mworld \<Rightarrow> bool" where
  "newborn w \<longleftrightarrow>
     knotes w = Map.empty \<and> kq_knote_count w = 0 \<and> slots_ok (kq_filt w) \<and> fdss w = Map.empty \<and> kq_fd_st w = [] \<and>
     ud_deferred_free w = [] \<and> kq_inflight w = [] \<and> calloc_ok w = (\<lambda>_. True) \<and> (\<forall>u \<in> dom (udatas w). u < next_addr w)"

definition born :: "('o mworld \<times> int) option \<Rightarrow> bool" where
  "born m \<longleftrightarrow> (\<exists>w rv. m = Some (w, rv) \<and> (0 \<le> rv \<longrightarrow> newborn w))"

lemma newborn_wf:
  assumes "newborn w" "ctl_law K" "set_file_poll_interval B = None"
  shows "linux_wf K B w" "kq_inflight w = []"
proof -
  have s: "length (kq_filt w) = EVFILT_SYSCOUNT" "\<forall>fi < EVFILT_SYSCOUNT. kf_index (filt_at w fi) = [] \<and> kf_ready (filt_at w fi) = [] \<and>
      (kf_copyout_set (filt_at w fi) \<longrightarrow> linux_impl fi \<and> kf_id (filt_at w fi) \<noteq> 0)"
    using assms(1) by (auto simp: newborn_def slots_ok_def)
  have "core_wf w" by (rule core_wf_empty) (use assms(1) s in \<open>auto simp: newborn_def in_set_conv_nth\<close>)
  moreover have "linux_inv K [] w"
    using assms(1,2) by (auto simp: newborn_def linux_inv_def queue_stale_def tree_ok_def idx_ok_def view_def)
  moreover have "impl_ok (\<lambda>fi. set_file_poll_interval B = None \<and> linux_impl fi) linux_adm w"
    using s assms(3) by (auto simp: impl_ok_def impl_set_def)
  ultimately show "linux_wf K B w" "kq_inflight w = []" using assms(1) by (simp_all add: linux_wf_def newborn_def)
qed

lemma newborn_simps [simp]:
  "newborn (w\<lparr>epollfd := a\<rparr>) = newborn w" "newborn (w\<lparr>pipefd := b\<rparr>) = newborn w" "newborn (w\<lparr>kq_id := c\<rparr>) = newborn w"
  "newborn (w\<lparr>kq_wake_udata := d\<rparr>) = newborn w" "newborn (w\<lparr>monitoring_epfd := e\<rparr>) = newborn w"
  "newborn (w\<lparr>monitoring_drain_efd := f\<rparr>) = newborn w" "newborn (w\<lparr>monitoring_tid := g\<rparr>) = newborn w"
  "newborn (w\<lparr>os := k, errno := h\<rparr>) = newborn w"
  by (simp_all add: newborn_def)

lemma newborn_syscall_iff: "syscall f w = (w', rv) \<Longrightarrow> newborn w' = newborn w"
proof -
  assume "syscall f w = (w', rv)"
  moreover obtain k e rv' where "syscall f w = (w\<lparr>os := k, errno := e\<rparr>, rv')" using syscall_form [of f w] by blast
  ultimately show ?thesis by auto
qed

lemma newborn_syscall: "newborn w \<Longrightarrow> syscall f w = (w', rv) \<Longrightarrow> newborn w'"
  by (simp add: newborn_syscall_iff)

lemma newborn_syscall_val:
  assumes "newborn w" "syscall_val f w = (w', rv, v)"
  shows "newborn w'"
proof -
  obtain k n e x where "f (os w) = (k, n, e, x)" by (cases "f (os w)")
  then have "syscall_val f w = (w\<lparr>os := k, errno := (if n < 0 then e else errno w)\<rparr>, n, x)" by (simp add: syscall_val_def)
  then have "w' = w\<lparr>os := k, errno := (if n < 0 then e else errno w)\<rparr>" using assms(2) by (metis fst_conv)
  then show ?thesis using assms(1) newborn_simps(8) by metis
qed

lemma born_syscall:
  assumes "newborn w" "\<And>w' rv. newborn w' \<Longrightarrow> born (F w' rv)"
  shows "born (case syscall f w of (w', rv) \<Rightarrow> F w' rv)"
proof (cases "syscall f w")
  case (Pair w' rv)
  then show ?thesis using assms(2) [OF newborn_syscall [OF assms(1) Pair]] by simp
qed

lemma born_syscall_val:
  assumes "newborn w" "\<And>w' rv v. newborn w' \<Longrightarrow> born (F w' rv v)"
  shows "born (case syscall_val f w of (w', rv, v) \<Rightarrow> F w' rv v)"
proof (cases "syscall_val f w")
  case (fields w' rv v)
  then show ?thesis using assms(2) [OF newborn_syscall_val [OF assms(1) fields]] by simp
qed

lemma born_if_syscall:
  assumes "newborn w" "\<And>w' rv. newborn w' \<Longrightarrow> born (F w' rv)"
  shows "born (case (if c then (w, x) else syscall f w) of (w', rv) \<Rightarrow> F w' rv)"
  using assms born_syscall [OF assms] by simp

lemma born_error: "born (Some (kqueue_init_error K w))"
  by (simp add: born_def kqueue_init_error_def Let_def split: prod.split)

lemma born_if: "(c \<Longrightarrow> born a) \<Longrightarrow> (\<not> c \<Longrightarrow> born b) \<Longrightarrow> born (if c then a else b)"
  by simp

lemma newborn_setup: "newborn w \<Longrightarrow> monitoring_setup K w = (w', rv) \<Longrightarrow> newborn w'"
  by (auto simp: monitoring_setup_def Let_def split: if_splits prod.splits dest!: newborn_syscall_iff)

lemma newborn_watch: "newborn w \<Longrightarrow> monitoring_watch K st w = (w', rv) \<Longrightarrow> newborn w'"
  by (auto simp: monitoring_watch_def Let_def split: if_splits prod.splits dest!: newborn_syscall_iff)

lemma born_setup:
  assumes "newborn w" "\<And>w' rv. newborn w' \<Longrightarrow> born (F w' rv)"
  shows "born (case monitoring_setup K w of (w', rv) \<Rightarrow> F w' rv)"
proof (cases "monitoring_setup K w")
  case (Pair w' rv)
  then show ?thesis using assms(2) [OF newborn_setup [OF assms(1) Pair]] by simp
qed

lemma born_watch:
  assumes "newborn w" "\<And>w' rv. newborn w' \<Longrightarrow> born (F w' rv)"
  shows "born (case (if c then (w, x) else monitoring_watch K st w) of (w', rv) \<Rightarrow> F w' rv)"
proof (cases "monitoring_watch K st w")
  case (Pair w' rv)
  then show ?thesis using assms(2) [OF assms(1)] assms(2) [OF newborn_watch [OF assms(1) Pair]] by simp
qed

lemma born_alloc:
  assumes "newborn w" "\<And>w' u. newborn w' \<Longrightarrow> born (F w' u)"
  shows "born (case epoll_udata_alloc r w of (w', u) \<Rightarrow> F w' u)"
proof (cases "epoll_udata_alloc r w")
  case (Pair w' u)
  then have "newborn w'"
    using assms(1) by (auto simp: epoll_udata_alloc_def calloc_def newborn_def less_Suc_eq split: if_splits)
  then show ?thesis using assms(2) Pair by simp
qed

lemma born_register:
  assumes "linux_env K B fs piped" "newborn w" "\<And>w' rv. (0 \<le> rv \<Longrightarrow> newborn w') \<Longrightarrow> born (F w' rv)"
  shows "born (Option.bind (filter_register_all vt (\<lambda>_. None) None None fs w) (\<lambda>(w', rv). F w' rv))"
proof -
  obtain gs rv where "filter_register_all vt (\<lambda>_. None) None None fs w = Some (w\<lparr>kq_filt := gs\<rparr>, rv)" "0 \<le> rv \<longrightarrow> slots_ok gs"
    using register_all_ok [of fs w vt] assms(1,2) by (auto simp: linux_env_def newborn_def)
  then show ?thesis using assms(2) assms(3) [of rv "w\<lparr>kq_filt := gs\<rparr>"] by (simp add: newborn_def)
qed

lemma born_Some: "(0 \<le> rv \<Longrightarrow> newborn w) \<Longrightarrow> born (Some (w, rv))"
  by (simp add: born_def)

lemmas born_intros = born_syscall born_syscall_val born_if_syscall born_error born_if born_setup born_watch born_alloc born_Some

lemma newborn_zero: "newborn (load s (kq_zero k))"
  by (simp add: newborn_def load_def kq_zero_def slots_ok_def filter_zero_def)

lemma init_born:
  assumes "linux_env K B fs piped"
  shows "born (linux_kqueue_init K start (filter_register_all (linux_vt K B) (\<lambda>_. None) None None fs) (load s (kq_zero k)))"
proof -
  have n: "newborn ((load s (kq_zero k))\<lparr>kq_next_epoch := 0, kq_inflight := [], ud_deferred_free := []\<rparr>)"
    using newborn_zero [of s k] by (simp add: newborn_def)
  show ?thesis
    unfolding linux_kqueue_init_def Let_def
    by (intro born_intros born_register [OF assms]) (simp_all add: n)
qed

subsection \<open>The promises are kept\<close>

interpretation lkq: async_backend "linux_kqops K B fs start k0" "linux_work K B" "linux_qinv K B fs piped"
  "linux_qdown K B fs piped" "linux_env K B fs piped" for K B fs start k0 piped
proof (unfold_locales, goal_cases)
  case (1 s)
  obtain w rv where w: "linux_kqueue_init K start (filter_register_all (linux_vt K B) (\<lambda>_. None) None None fs) (load s (kq_zero k0)) = Some (w, rv)"
      "0 \<le> rv \<longrightarrow> newborn w"
    using init_born [OF 1] unfolding born_def by blast
  then show ?case
    using newborn_wf [of w K B] 1 by (auto simp: linux_kqops_def linux_qinv_def linux_env_def)
next
  case (2 q s)
  then have wf: "linux_wf K B (load s q)" using linux_wf_load [of K B q s] by (simp add: linux_qinv_def)
  then obtain w where w: "filter_unregister_all (linux_vt K B) (\<lambda>_. None) None (load s q) = Some w" "linux_inv K (kq_inflight q) w"
    using lkb.unregister_all_ok [where K = K and I = "kq_inflight q" and B = B and w = "load s q"] by (auto simp: linux_wf_def)
  then show ?case using 2 by (simp add: linux_kqops_def linux_qdown_def linux_qinv_def linux_inv_def)
next
  case (3 q s)
  then have "queue_stale (load s q)" "kq_inflight (load s q) = []" by (simp_all add: linux_qdown_def queue_stale_def linux_kqops_def)
  then show ?case using linux_free_ok [of K piped "load s q"] 3 by (auto simp: linux_kqops_def linux_qdown_def linux_env_def)
next
  case (4 q f s q' s')
  then have "linux_wf K B (load s q)" using linux_wf_load [of K B q s] by (simp add: linux_qinv_def)
  with interrupt_wf [OF this] 4 show ?case by (auto simp: linux_kqops_def linux_qinv_def Let_def)
next
  case (5 q t)
  then show ?case using enter_wf [of K B q t] by (simp add: linux_kqops_def linux_qinv_def)
next
  case (6 q t)
  then show ?case using exit_wf [of K B q t] by (auto simp: linux_kqops_def linux_qinv_def)
next
  case (7 q t s q' s')
  then obtain cs n rv out where c: "\<forall>c \<in> set cs. adm_change linux_adm c"
      "kevent_copyin (linux_vt K B) lknote_zero cs n (load s q) = Some (q', rv, out)"
    by (auto simp: linux_work_def)
  have "linux_wf K B (load s q)" using 7 linux_wf_load [of K B q s] by (simp add: linux_qinv_def)
  from linux_copyin_ok [OF this c(1), of n] c(2) 7 show ?case by (auto simp: linux_kqops_def linux_qinv_def)
next
  case 8
  show ?case by (simp add: linux_kqops_def)
qed

subsection \<open>Properties\<close>

text \<open>The states that the threads of a process can bring about on Linux.\<close>

definition linux_reachable ::
  "'o kernel \<Rightarrow> ('o mworld) lkq_build \<Rightarrow> ('o mworld) filter_def list \<Rightarrow> 'o sys \<Rightarrow> 'o \<Rightarrow> kqmap \<Rightarrow> 'o lshared
    \<Rightarrow> ('o mworld, 'o lshared) life \<Rightarrow> bool" where
  "linux_reachable K B fs start k0 m s l \<longleftrightarrow>
     (life_step (linux_kqops K B fs start k0) (linux_work K B))\<^sup>*\<^sup>* (life_start m s) l"

lemma linux_reachable_inv:
  assumes "linux_env K B fs piped" "map_abs m = Map.empty" "linux_reachable K B fs start k0 m s l"
  shows "life_inv (linux_kqops K B fs start k0) (linux_qinv K B fs piped) l"
  using lkq.reachable_inv [where K = K and B = B and fs = fs and piped = piped and start = start and ?k0.0 = k0] assms
  unfolding linux_reachable_def by blast

text \<open>C2: kqueues outlive their users.  However the calls of kqueue(), close() and kevent()
  (with change lists) and the steps of the monitoring thread interleave on Linux,
  no thread ever works on a freed kqueue or frees one twice: a call can always be
  entered, every call inside still has its kqueue and can be left, and each step
  of the monitoring thread succeeds.\<close>

theorem linux_life_safe:
  assumes "linux_env K B fs piped" "map_abs m = Map.empty" "linux_reachable K B fs start k0 m s l"
  shows "life_safe (linux_kqops K B fs start k0) l"
  using lkq.inv_safe [OF linux_reachable_inv [OF assms]] assms(1) by blast

text \<open>C3: nothing leaks and nothing is freed early.  When the monitoring thread has caught
  up with the closes, a kqueue that nobody works on is allocated exactly if its
  descriptor is open; so the last caller out completes a destruction that was put
  off.\<close>

theorem linux_life_no_leak:
  assumes "linux_env K B fs piped" "map_abs m = Map.empty" "linux_reachable K B fs start k0 m s l"
    and "armed l \<subseteq> opn l" "batch l = []" "reaping l = None" "\<forall>t. callers l t \<noteq> Some p"
  shows "kqs (gw l) p \<noteq> None \<longleftrightarrow> p \<in> opn l"
proof
  note inv = linux_reachable_inv [OF assms(1-3)]
  show "p \<in> opn l" if "kqs (gw l) p \<noteq> None"
    using lkq.no_leak [OF inv, of p] that assms(4-7) by auto
  assume "p \<in> opn l"
  then have "p \<in> set (kq_list (gw l))" using inv by (auto simp: life_inv_def watch_inv_def)
  then show "kqs (gw l) p \<noteq> None"
    using inv heap_cell [of "linux_kqops K B fs start k0" "linux_qinv K B fs piped" "kqs (gw l)" "set (kq_list (gw l))" "reaping l" p]
    by (cases "kqs (gw l) p") (auto simp: life_inv_def cell_ok_def)
qed

text \<open>C4: an open kqueue is found by its descriptor, even when the descriptor number was
  used before by a kqueue that is not freed yet.\<close>

theorem linux_open_found:
  assumes "linux_env K B fs piped" "map_abs m = Map.empty" "linux_reachable K B fs start k0 m s l" "p \<in> opn l"
  shows "\<exists>k. kqs (gw l) p = Some k \<and> \<not> kq_freeing k \<and> kqueue_lookup (kq_ident k) (gw l) = p"
proof -
  note inv = linux_reachable_inv [OF assms(1-3)]
  have "p \<in> set (kq_list (gw l))" using inv assms(4) by (auto simp: life_inv_def watch_inv_def)
  then obtain k where "kqs (gw l) p = Some k" "\<not> kq_freeing k"
    using inv heap_cell [of "linux_kqops K B fs start k0" "linux_qinv K B fs piped" "kqs (gw l)" "set (kq_list (gw l))" "reaping l" p]
    by (cases "kqs (gw l) p") (auto simp: life_inv_def cell_ok_def)
  then show ?thesis using lkq.open_found [OF inv assms(4)] by blast
qed

subsection \<open>A concrete life\<close>

text \<open>A kernel that keeps the interest lists of several epoll sets apart and whose eventfds
  are never readable.\<close>

definition sim_sets_kernel :: "sim_os kernel" where
  "sim_sets_kernel = sim_kernel\<lparr>sys_epoll_ctl := \<lambda>ep op fd. sim_ctl op (1000 * ep + fd), sys_read8 := \<lambda>_ s. (s, -1, EAGAIN, 0)\<rparr>"

definition sim_life_build :: "(sim_os mworld) lkq_build" where
  "sim_life_build =
     \<lparr>version_string = 0x1000, version_major = 2, version_minor = 6, version_patch = 3,
      version_release = None, set_file_poll_interval = None, dbg_default = None, dbg_stderr = 0\<rparr>"

definition sim_defs :: "(sim_os mworld) filter_def list" where
  "sim_defs =
     [\<lparr>fd_id = EVFILT_USER, fd_callbacks = True, fd_ops = linux_vt sim_sets_kernel sim_life_build 10, fd_init = None,
       fd_destroy = None, fd_libkqueue_init = None, fd_libkqueue_fork = None, fd_libkqueue_free = None\<rparr>]"

definition sim_boot :: sim_os where
  "sim_boot = \<lparr>sim_next = 10, sim_interest = []\<rparr>"

definition sim_start :: "sim_os sys" where
  "sim_start s = (s, 7, 0)"

definition sim_kqops :: "(sim_os mworld, sim_os lshared) kqueue_vtable" where
  "sim_kqops = linux_kqops sim_sets_kernel sim_life_build sim_defs sim_start sim_boot"

definition sim_map :: kqmap where
  "sim_map = \<lparr>map_len = 64, map_data = (\<lambda>_. NULL)\<rparr>"

definition sim_shared :: "sim_os lshared" where
  "sim_shared = \<lparr>sh_os = sim_boot, sh_epfd = -1, sh_drain_efd = -1, sh_tid = 0\<rparr>"

lemma sim_env: "linux_env sim_sets_kernel sim_life_build sim_defs (\<lambda>_. 0)"
proof -
  have "unat (filter_offset EVFILT_USER) = 10" by code_simp
  moreover have "sys_read_pipe sim_sets_kernel fd s = (s, -1, EAGAIN)" for fd s by (simp add: sim_sets_kernel_def sim_kernel_def)
  ultimately show ?thesis
    by (auto simp: linux_env_def sim_defs_def sim_life_build_def linux_impl_def
        ctl_law_def sim_sets_kernel_def sim_ctl_def Let_def split: epoll_op.split)
qed

lemma sim_map_empty: "map_abs sim_map = Map.empty"
  by (simp add: map_abs_def sim_map_def map_lookup_def fun_eq_iff)

text \<open>A kqueue is created (1), a call enters it (2); its descriptor is closed and the
  monitoring thread unlinks it (3) and puts its destruction off (4), which the
  call completes when it leaves (5).\<close>

definition sim_w1 :: "(sim_os mworld, sim_os lshared) kqworld" where
  "sim_w1 = fst (the (kqueue sim_kqops (Some 4096) (gw (life_start sim_map sim_shared))))"
definition sim_w2 :: "(sim_os mworld, sim_os lshared) kqworld" where
  "sim_w2 = fst (the (kevent_begin sim_kqops 1 12 sim_w1))"
definition sim_w3 :: "(sim_os mworld, sim_os lshared) kqworld" where
  "sim_w3 = the (kqueue_free_unlink 4096 sim_w2)"
definition sim_w4 :: "(sim_os mworld, sim_os lshared) kqworld" where
  "sim_w4 = the (kqueue_free_locked sim_kqops 4096 sim_w3)"
definition sim_w5 :: "(sim_os mworld, sim_os lshared) kqworld" where
  "sim_w5 = the (kevent_end sim_kqops 1 4096 sim_w4)"

definition sim_life ::
  "(sim_os mworld, sim_os lshared) kqworld \<Rightarrow> u64 set \<Rightarrow> (nat \<Rightarrow> u64 option) \<Rightarrow> (sim_os mworld, sim_os lshared) life" where
  "sim_life w open_kqs cs = \<lparr>gw = w, opn = open_kqs, armed = open_kqs, batch = [], reaping = None, callers = cs\<rparr>"

lemma sim_steps:
  "kqueue sim_kqops (Some 4096) (gw (life_start sim_map sim_shared)) = Some (sim_w1, 12)"
  "kevent_begin sim_kqops 1 12 sim_w1 = Some (sim_w2, Some 4096)"
  "kqueue_free_unlink 4096 sim_w2 = Some sim_w3"
  "kqueue_free_locked sim_kqops 4096 sim_w3 = Some sim_w4"
  "kevent_end sim_kqops 1 4096 sim_w4 = Some sim_w5"
proof -
  have "map_option snd (kqueue sim_kqops (Some 4096) (gw (life_start sim_map sim_shared))) = Some 12" by code_simp
  then show "kqueue sim_kqops (Some 4096) (gw (life_start sim_map sim_shared)) = Some (sim_w1, 12)" by (auto simp: sim_w1_def)
  have "map_option snd (kevent_begin sim_kqops 1 12 sim_w1) = Some (Some 4096)" by code_simp
  then show "kevent_begin sim_kqops 1 12 sim_w1 = Some (sim_w2, Some 4096)" by (auto simp: sim_w2_def)
  have "\<not> Option.is_none (kqueue_free_unlink 4096 sim_w2)" by code_simp
  then show "kqueue_free_unlink 4096 sim_w2 = Some sim_w3" by (auto simp: sim_w3_def Option.is_none_def)
  have "\<not> Option.is_none (kqueue_free_locked sim_kqops 4096 sim_w3)" by code_simp
  then show "kqueue_free_locked sim_kqops 4096 sim_w3 = Some sim_w4" by (auto simp: sim_w4_def Option.is_none_def)
  have "\<not> Option.is_none (kevent_end sim_kqops 1 4096 sim_w4)" by code_simp
  then show "kevent_end sim_kqops 1 4096 sim_w4 = Some sim_w5" by (auto simp: sim_w5_def Option.is_none_def)
qed

definition sim_reachable :: "(sim_os mworld, sim_os lshared) life \<Rightarrow> bool" where
  "sim_reachable = linux_reachable sim_sets_kernel sim_life_build sim_defs sim_start sim_boot sim_map sim_shared"

lemma sim_reachable_step:
  "sim_reachable l \<Longrightarrow> life_step sim_kqops (linux_work sim_sets_kernel sim_life_build) l l' \<Longrightarrow> sim_reachable l'"
  unfolding sim_reachable_def linux_reachable_def sim_kqops_def by (rule rtranclp.rtrancl_into_rtrancl)

lemma sim_created: "sim_reachable (sim_life sim_w1 {4096} Map.empty)"
proof (rule sim_reachable_step)
  show "sim_reachable (life_start sim_map sim_shared)" by (simp add: sim_reachable_def linux_reachable_def)
  have "kq_list sim_w1 = [4096]" by code_simp
  then show "life_step sim_kqops (linux_work sim_sets_kernel sim_life_build) (life_start sim_map sim_shared) (sim_life sim_w1 {4096} Map.empty)"
    using life_step.create [OF _ _ _ _ sim_steps(1), of "linux_work sim_sets_kernel sim_life_build"]
    by (simp add: life_start_def sim_life_def NULL_def)
qed

definition sim_waiting :: "u64 set \<Rightarrow> u64 list \<Rightarrow> u64 option \<Rightarrow> (sim_os mworld, sim_os lshared) kqworld \<Rightarrow> (sim_os mworld, sim_os lshared) life" where
  "sim_waiting a b r w = (sim_life w {} [1 \<mapsto> 4096])\<lparr>armed := a, batch := b, reaping := r\<rparr>"

lemma sim_closed: "sim_reachable (sim_waiting {4096} [] None sim_w2)"
proof -
  have "sim_reachable (sim_life sim_w2 {4096} [1 \<mapsto> 4096])"
    by (rule sim_reachable_step [OF sim_created])
      (use life_step.begin_call [of "sim_life sim_w1 {4096} Map.empty" 1] sim_steps(2) in \<open>force simp: sim_life_def\<close>)
  then show ?thesis
    by (rule sim_reachable_step)
      (use life_step.close [of _ _ "sim_life sim_w2 {4096} [1 \<mapsto> 4096]" 4096] in \<open>simp add: sim_life_def sim_waiting_def\<close>)
qed

lemma sim_reported: "sim_reachable (sim_waiting {} [4096] None sim_w2)"
  by (rule sim_reachable_step [OF sim_closed])
    (use life_step.wait [of "sim_waiting {4096} [] None sim_w2" "[4096]"] in \<open>simp add: sim_life_def sim_waiting_def\<close>)

lemma sim_put_off: "sim_reachable (sim_life sim_w4 {} [1 \<mapsto> 4096])"
proof -
  have "sim_reachable (sim_waiting {} [] (Some 4096) sim_w3)"
    by (rule sim_reachable_step [OF sim_reported])
      (use life_step.unlink [of "sim_waiting {} [4096] None sim_w2" 4096 "[]"] sim_steps(3) in \<open>simp add: sim_life_def sim_waiting_def\<close>)
  then show ?thesis
    by (rule sim_reachable_step)
      (use life_step.reap [of "sim_waiting {} [] (Some 4096) sim_w3" 4096] sim_steps(4) in \<open>simp add: sim_life_def sim_waiting_def\<close>)
qed

lemma sim_over: "sim_reachable (sim_life sim_w5 {} Map.empty)"
  by (rule sim_reachable_step [OF sim_put_off])
    (use life_step.end_call [of "sim_life sim_w4 {} [1 \<mapsto> 4096]" 1 4096] sim_steps(5) in \<open>simp add: sim_life_def\<close>)

theorem linux_life_safe_witness: "life_safe sim_kqops (sim_life sim_w4 {} [1 \<mapsto> 4096])"
  unfolding sim_kqops_def
  using linux_life_safe [OF sim_env sim_map_empty] sim_put_off unfolding sim_reachable_def by blast

theorem linux_life_no_leak_witness: "kqs sim_w5 4096 = None"
  using linux_life_no_leak [OF sim_env sim_map_empty sim_over [unfolded sim_reachable_def], of 4096]
  by (simp add: sim_life_def)

theorem linux_open_found_witness: "\<exists>k. kqs sim_w1 4096 = Some k \<and> \<not> kq_freeing k \<and> kqueue_lookup (kq_ident k) sim_w1 = 4096"
  using linux_open_found [OF sim_env sim_map_empty sim_created [unfolded sim_reachable_def], of 4096]
  by (simp add: sim_life_def)

end
