(* ===== verification/Linux_Monitor.thy ===== *)
theory Linux_Monitor
  imports Linux_Life
begin

text \<open>
  The thread that frees closed kqueues on Linux (\<^verbatim>\<open>monitoring_thread_loop\<close> and its
  cleanup), the flush other threads can ask of it, and what happens to the kqueues
  at fork and at exit (\<^verbatim>\<open>linux/platform.c\<close>).  What epoll_wait reports is an argument:
  a list of events for each call.  The main result is that a round of the thread is
  a sequence of steps of \<open>life_step\<close>.
\<close>

subsection \<open>Rounds of the thread\<close>

text \<open>The data pointer of an event names the drain eventfd or a kqueue.\<close>

datatype monitor_event = DrainEfd | Hup u64

fun hups :: "monitor_event list \<Rightarrow> u64 list" where
  "hups [] = []"
| "hups (DrainEfd # es) = hups es"
| "hups (Hup p # es) = p # hups es"

definition monitoring_thread_close_kq ::
  "('q, 's) kqueue_vtable \<Rightarrow> u64 \<Rightarrow> ('q, 's) kqworld \<Rightarrow> ('q, 's) kqworld option" where
  "monitoring_thread_close_kq vt p w = kqueue_free vt p w"

text \<open>The loop over the reported events; the flag tells whether a drain was asked for.\<close>

fun monitoring_events ::
  "('q, 's) kqueue_vtable \<Rightarrow> monitor_event list \<Rightarrow> ('q, 's) kqworld \<Rightarrow> (('q, 's) kqworld \<times> bool) option" where
  "monitoring_events vt [] w = Some (w, False)"
| "monitoring_events vt (DrainEfd # es) w = do { (w, _) \<leftarrow> monitoring_events vt es w; Some (w, True) }"
| "monitoring_events vt (Hup p # es) w = do { w \<leftarrow> monitoring_thread_close_kq vt p w; monitoring_events vt es w }"

text \<open>The sweep with a zero timeout: one list of events per call of epoll_wait, the
  first empty one (or an error) ends it.\<close>

fun monitoring_sweep ::
  "('q, 's) kqueue_vtable \<Rightarrow> monitor_event list list \<Rightarrow> ('q, 's) kqworld \<Rightarrow> ('q, 's) kqworld option" where
  "monitoring_sweep vt [] w = Some w"
| "monitoring_sweep vt (es # ess) w =
     (if es = [] then Some w else do { (w, _) \<leftarrow> monitoring_events vt es w; monitoring_sweep vt ess w })"

partial_function (option) clear_drain_efd :: "'o kernel \<Rightarrow> 'o lshared \<Rightarrow> 'o lshared option" where
  "clear_drain_efd K s =
     (case sys_read8 K (sh_drain_efd s) (sh_os s) of (k, n, _, _) \<Rightarrow>
        if 0 < n then clear_drain_efd K (s\<lparr>sh_os := k\<rparr>) else Some (s\<lparr>sh_os := k\<rparr>))"

text \<open>What a wake-up does under the global mutex, with the drain generation; the last
  component tells the thread to exit.\<close>

definition monitoring_round ::
  "('q, 'o lshared) kqueue_vtable \<Rightarrow> 'o kernel \<Rightarrow> monitor_event list \<Rightarrow> monitor_event list list
    \<Rightarrow> u64 \<Rightarrow> ('q, 'o lshared) kqworld \<Rightarrow> (u64 \<times> ('q, 'o lshared) kqworld \<times> bool) option" where
  "monitoring_round vt K es ess gen w = do {
     (w, drain_req) \<leftarrow> monitoring_events vt es w;
     (gen, w) \<leftarrow> (if drain_req then do {
         s \<leftarrow> clear_drain_efd K (shared w);
         w \<leftarrow> monitoring_sweep vt ess (w\<lparr>shared := s\<rparr>);
         Some (gen + 1, w) }
       else Some (gen, w));
     Some (gen, w, kq_cnt w = 0) }"

datatype thread_exit_state = SELF_CANCEL | CANCEL_LOCKED | CANCEL_UNLOCKED

text \<open>\<open>closed\<close> tells for which descriptors fcntl fails.\<close>

fun cleanup_kqueues ::
  "('q, 's) kqueue_vtable \<Rightarrow> (32 word \<Rightarrow> bool) \<Rightarrow> u64 list \<Rightarrow> ('q, 's) kqworld \<Rightarrow> ('q, 's) kqworld option" where
  "cleanup_kqueues vt closed [] w = Some w"
| "cleanup_kqueues vt closed (p # ps) w = do {
     k \<leftarrow> kqs w p;
     w \<leftarrow> (if closed (kq_ident k) then kqueue_free vt p w
       else Some (case vt_interrupt vt of None \<Rightarrow> w
         | Some f \<Rightarrow> let (q, s) = f (kq_body k) (shared w) in w\<lparr>kqs := (kqs w)(p \<mapsto> k\<lparr>kq_body := q\<rparr>), shared := s\<rparr>));
     cleanup_kqueues vt closed ps w }"

definition monitoring_thread_cleanup ::
  "('q, 'o lshared) kqueue_vtable \<Rightarrow> (32 word \<Rightarrow> bool) \<Rightarrow> thread_exit_state
    \<Rightarrow> ('q, 'o lshared) kqworld \<Rightarrow> ('q, 'o lshared) kqworld option" where
  "monitoring_thread_cleanup vt closed state w = do {
     w \<leftarrow> (if state = CANCEL_LOCKED \<or> state = CANCEL_UNLOCKED then cleanup_kqueues vt closed (kq_list w) w else Some w);
     Some (w\<lparr>shared := (shared w)\<lparr>sh_tid := 0\<rparr>\<rparr>) }"

text \<open>The loop over the answers of the blocking epoll_wait (None for an error), each with
  the answers of the sweep it may start.  The list ends where the thread blocks; the
  flag tells whether it has exited.  \<open>cancelled\<close> tells whether a cancellation is
  pending when it leaves the loop.\<close>

fun monitoring_thread_loop ::
  "('q, 'o lshared) kqueue_vtable \<Rightarrow> 'o kernel \<Rightarrow> (32 word \<Rightarrow> bool) \<Rightarrow> bool
    \<Rightarrow> (monitor_event list option \<times> monitor_event list list) list
    \<Rightarrow> u64 \<Rightarrow> ('q, 'o lshared) kqworld \<Rightarrow> (u64 \<times> ('q, 'o lshared) kqworld \<times> bool) option" where
  "monitoring_thread_loop vt K closed cancelled [] gen w = Some (gen, w, False)"
| "monitoring_thread_loop vt K closed cancelled ((None, _) # rs) gen w = monitoring_thread_loop vt K closed cancelled rs gen w"
| "monitoring_thread_loop vt K closed cancelled ((Some es, ess) # rs) gen w = do {
     (gen, w, done) \<leftarrow> monitoring_round vt K es ess gen w;
     if done then do {
       w \<leftarrow> monitoring_thread_cleanup vt closed (if cancelled then CANCEL_LOCKED else SELF_CANCEL) w;
       Some (gen, w, True) }
     else monitoring_thread_loop vt K closed cancelled rs gen w }"

text \<open>The flush: after its request the caller waits until the generation changes or the
  thread is gone.  The flag tells whether it has returned after the given answers.\<close>

fun drain_wait ::
  "('q, 'o lshared) kqueue_vtable \<Rightarrow> 'o kernel \<Rightarrow> u64 \<Rightarrow> (monitor_event list \<times> monitor_event list list) list
    \<Rightarrow> u64 \<Rightarrow> ('q, 'o lshared) kqworld \<Rightarrow> (u64 \<times> ('q, 'o lshared) kqworld \<times> bool) option" where
  "drain_wait vt K gen0 [] gen w = Some (gen, w, \<not> (gen = gen0 \<and> sh_tid (shared w) \<noteq> 0))"
| "drain_wait vt K gen0 ((es, ess) # rs) gen w =
     (if gen = gen0 \<and> sh_tid (shared w) \<noteq> 0 then do {
        (gen, w, done) \<leftarrow> monitoring_round vt K es ess gen w;
        w \<leftarrow> (if done then monitoring_thread_cleanup vt (\<lambda>_. False) SELF_CANCEL w else Some w);
        drain_wait vt K gen0 rs gen w }
      else Some (gen, w, True))"

definition libkqueue_drain_pending_close ::
  "('q, 'o lshared) kqueue_vtable \<Rightarrow> 'o kernel \<Rightarrow> (monitor_event list \<times> monitor_event list list) list
    \<Rightarrow> u64 \<Rightarrow> ('q, 'o lshared) kqworld \<Rightarrow> (u64 \<times> ('q, 'o lshared) kqworld \<times> bool) option" where
  "libkqueue_drain_pending_close vt K rs gen w =
     (if sh_tid (shared w) = 0 \<or> sh_drain_efd (shared w) < 0 then Some (gen, w, True)
      else let (k, _) = sys_write8 K (sh_drain_efd (shared w)) (sh_os (shared w)) in
        drain_wait vt K gen rs gen (w\<lparr>shared := (shared w)\<lparr>sh_os := k\<rparr>\<rparr>))"

subsection \<open>Fork and exit\<close>

definition close_shared :: "'o kernel \<Rightarrow> int \<Rightarrow> 'o lshared \<Rightarrow> 'o lshared" where
  "close_shared K fd s = s\<lparr>sh_os := fst (sys_close K fd (sh_os s))\<rparr>"

text \<open>In the child: the descriptors of one kqueue.\<close>

definition fork_kqueue :: "'o kernel \<Rightarrow> 'o mworld \<Rightarrow> 'o lshared \<Rightarrow> 'o mworld \<times> 'o lshared" where
  "fork_kqueue K q s =
     (let s = close_shared K (epollfd q) s;
          s = (if fst (pipefd q) > 0 then close_shared K (fst (pipefd q)) s else s);
          s = (if snd (pipefd q) > 0 then close_shared K (snd (pipefd q)) s else s)
      in (q\<lparr>epollfd := -1, pipefd := (-1, -1)\<rparr>, s))"

fun fork_kqueues :: "'o kernel \<Rightarrow> u64 list \<Rightarrow> ('o mworld, 'o lshared) kqworld \<Rightarrow> ('o mworld, 'o lshared) kqworld option" where
  "fork_kqueues K [] w = Some w"
| "fork_kqueues K (p # ps) w = do {
     k \<leftarrow> kqs w p;
     let (q, s) = fork_kqueue K (kq_body k) (shared w);
     fork_kqueues K ps (w\<lparr>kqs := (kqs w)(p \<mapsto> k\<lparr>kq_body := q\<rparr>), shared := s\<rparr>) }"

definition close_monitoring :: "'o kernel \<Rightarrow> 'o lshared \<Rightarrow> 'o lshared" where
  "close_monitoring K s =
     (let s = (if sh_epfd s \<ge> 0 then (close_shared K (sh_epfd s) s)\<lparr>sh_epfd := -1\<rparr> else s)
      in if sh_drain_efd s \<ge> 0 then (close_shared K (sh_drain_efd s) s)\<lparr>sh_drain_efd := -1\<rparr> else s)"

definition linux_libkqueue_fork ::
  "'o kernel \<Rightarrow> u64 \<Rightarrow> ('o mworld, 'o lshared) kqworld \<Rightarrow> (u64 \<times> ('o mworld, 'o lshared) kqworld) option" where
  "linux_libkqueue_fork K gen w = do {
     w \<leftarrow> fork_kqueues K (kq_list w) (w\<lparr>shared := (shared w)\<lparr>sh_tid := 0\<rparr>\<rparr>);
     Some (0, w\<lparr>shared := close_monitoring K (shared w)\<rparr>) }"

text \<open>At exit: the thread, if it runs, is cancelled where it waits and runs its cleanup
  before it is joined.\<close>

definition linux_libkqueue_free ::
  "('q, 'o lshared) kqueue_vtable \<Rightarrow> 'o kernel \<Rightarrow> (32 word \<Rightarrow> bool) \<Rightarrow> ('q, 'o lshared) kqworld
    \<Rightarrow> ('q, 'o lshared) kqworld option" where
  "linux_libkqueue_free vt K closed w = do {
     w \<leftarrow> (if sh_tid (shared w) \<noteq> 0 then monitoring_thread_cleanup vt closed CANCEL_UNLOCKED w else Some w);
     Some (w\<lparr>shared := close_monitoring K (shared w)\<rparr>) }"

subsection \<open>Rounds are steps\<close>

lemma free_locked_list:
  "kqueue_free_locked vt p w = Some w' \<Longrightarrow> kq_list w' = kq_list w \<and> (\<forall>q. q \<noteq> p \<longrightarrow> kqs w' q = kqs w q)"
  by (auto simp: kqueue_free_locked_def kqueue_teardown_def Let_def split: if_splits bind_splits prod.splits)

context async_backend
begin

lemma free_steps:
  assumes inv: "life_inv vt qinv l" and b: "batch l = p # ps" and r: "reaping l = None"
  shows "\<exists>w. kqueue_free vt p (gw l) = Some w \<and> (life_step vt work)\<^sup>*\<^sup>* l (l\<lparr>gw := w, batch := ps\<rparr>) \<and>
    life_inv vt qinv (l\<lparr>gw := w, batch := ps\<rparr>) \<and> kq_list w = filter (\<lambda>q. q \<noteq> p) (kq_list (gw l)) \<and>
    (\<forall>q. q \<noteq> p \<longrightarrow> kqs w q = kqs (gw l) q)"
proof -
  obtain w1 where w1: "kqueue_free_unlink p (gw l) = Some w1" "life_inv vt qinv (l\<lparr>gw := w1, batch := ps, reaping := Some p\<rparr>)"
    using unlink_inv [OF inv b r] by blast
  let ?l = "l\<lparr>gw := w1, batch := ps, reaping := Some p\<rparr>"
  obtain w where w: "kqueue_free_locked vt p w1 = Some w" "life_inv vt qinv (?l\<lparr>gw := w, reaping := None\<rparr>)"
    using reap_inv [OF w1(2), of p] by auto
  have e: "?l\<lparr>gw := w, reaping := None\<rparr> = l\<lparr>gw := w, batch := ps\<rparr>" using r by simp
  have "life_step vt work l ?l" by (rule life_step.unlink [OF b r w1(1)])
  moreover have "life_step vt work ?l (l\<lparr>gw := w, batch := ps\<rparr>)"
    using life_step.reap [of ?l p vt w work] w(1) unfolding e by simp
  ultimately have "(life_step vt work)\<^sup>*\<^sup>* l (l\<lparr>gw := w, batch := ps\<rparr>)" by (meson converse_rtranclp_into_rtranclp r_into_rtranclp)
  moreover have "kq_list w1 = filter (\<lambda>q. q \<noteq> p) (kq_list (gw l)) \<and> kqs w1 = kqs (gw l)"
    using w1(1) by (auto simp: kqueue_free_unlink_def split: bind_splits if_splits)
  ultimately show ?thesis
    using w w1(1) free_locked_list [OF w(1)] unfolding e by (simp add: kqueue_free_def)
qed

lemma events_steps:
  assumes "life_inv vt qinv l" "batch l = hups es" "reaping l = None"
  shows "\<exists>w. monitoring_events vt es (gw l) = Some (w, DrainEfd \<in> set es) \<and> (life_step vt work)\<^sup>*\<^sup>* l (l\<lparr>gw := w, batch := []\<rparr>) \<and>
    life_inv vt qinv (l\<lparr>gw := w, batch := []\<rparr>) \<and> kq_list w = filter (\<lambda>q. q \<notin> set (hups es)) (kq_list (gw l))"
  using assms
proof (induction es arbitrary: l rule: hups.induct)
  case (1 l)
  then have "l\<lparr>batch := []\<rparr> = l" by (cases l) simp
  then show ?case using 1(1) by (simp add: exI [of _ "gw l"])
next
  case (2 es)
  obtain w where "monitoring_events vt es (gw l) = Some (w, DrainEfd \<in> set es)" "(life_step vt work)\<^sup>*\<^sup>* l (l\<lparr>gw := w, batch := []\<rparr>)"
      "life_inv vt qinv (l\<lparr>gw := w, batch := []\<rparr>)" "kq_list w = filter (\<lambda>q. q \<notin> set (hups es)) (kq_list (gw l))"
    using 2 by auto
  then show ?case by auto
next
  case (3 p es)
  obtain w1 where w1: "kqueue_free vt p (gw l) = Some w1" "(life_step vt work)\<^sup>*\<^sup>* l (l\<lparr>gw := w1, batch := hups es\<rparr>)"
      "life_inv vt qinv (l\<lparr>gw := w1, batch := hups es\<rparr>)" "kq_list w1 = filter (\<lambda>q. q \<noteq> p) (kq_list (gw l))"
    using free_steps [of l p "hups es"] 3 by auto
  obtain w where w: "monitoring_events vt es w1 = Some (w, DrainEfd \<in> set es)"
      "(life_step vt work)\<^sup>*\<^sup>* (l\<lparr>gw := w1, batch := hups es\<rparr>) (l\<lparr>gw := w, batch := []\<rparr>)"
      "life_inv vt qinv (l\<lparr>gw := w, batch := []\<rparr>)" "kq_list w = filter (\<lambda>q. q \<notin> set (hups es)) (kq_list w1)"
    using "3.IH" [of "l\<lparr>gw := w1, batch := hups es\<rparr>"] w1(3) "3.prems" by auto
  have "(life_step vt work)\<^sup>*\<^sup>* l (l\<lparr>gw := w, batch := []\<rparr>)" using w1(2) w(2) by (rule rtranclp_trans)
  moreover have "kq_list w = filter (\<lambda>q. q \<notin> set (hups (Hup p # es))) (kq_list (gw l))"
    unfolding w(4) w1(4) by (simp add: conj_commute)
  ultimately show ?case using w(1,3) w1(1) by (auto simp: monitoring_thread_close_kq_def)
qed

text \<open>The kqueues a sweep reports.\<close>

lemma sweep_steps:
  assumes "life_inv vt qinv l" "batch l = []" "reaping l = None"
    and "distinct (concat (map hups ess))" "set (concat (map hups ess)) \<subseteq> armed l - opn l" "[] \<notin> set ess"
  shows "\<exists>w. monitoring_sweep vt ess (gw l) = Some w \<and>
    (life_step vt work)\<^sup>*\<^sup>* l (l\<lparr>gw := w, armed := armed l - set (concat (map hups ess))\<rparr>) \<and>
    life_inv vt qinv (l\<lparr>gw := w, armed := armed l - set (concat (map hups ess))\<rparr>) \<and>
    kq_list w = filter (\<lambda>q. q \<notin> set (concat (map hups ess))) (kq_list (gw l))"
  using assms
proof (induction ess arbitrary: l)
  case Nil
  then show ?case by simp
next
  case (Cons es ess)
  let ?l1 = "l\<lparr>armed := armed l - set (hups es), batch := hups es\<rparr>"
  have s1: "life_step vt work l ?l1"
    using Cons.prems by (intro life_step.wait) auto
  have i1: "life_inv vt qinv ?l1"
    using Cons.prems by (auto simp: life_inv_def watch_inv_def)
  obtain w1 where w1: "monitoring_events vt es (gw l) = Some (w1, DrainEfd \<in> set es)" "(life_step vt work)\<^sup>*\<^sup>* ?l1 (?l1\<lparr>gw := w1, batch := []\<rparr>)"
      "life_inv vt qinv (?l1\<lparr>gw := w1, batch := []\<rparr>)" "kq_list w1 = filter (\<lambda>q. q \<notin> set (hups es)) (kq_list (gw l))"
    using events_steps [OF i1, of es] Cons.prems by auto
  let ?l2 = "l\<lparr>gw := w1, armed := armed l - set (hups es)\<rparr>"
  have sub: "set (concat (map hups ess)) \<subseteq> armed ?l2 - opn ?l2" using Cons.prems(4,5) by auto
  have l2: "?l1\<lparr>gw := w1, batch := []\<rparr> = ?l2" using Cons.prems(2) by simp
  obtain w where w: "monitoring_sweep vt ess w1 = Some w"
      "(life_step vt work)\<^sup>*\<^sup>* ?l2 (?l2\<lparr>gw := w, armed := armed ?l2 - set (concat (map hups ess))\<rparr>)"
      "life_inv vt qinv (?l2\<lparr>gw := w, armed := armed ?l2 - set (concat (map hups ess))\<rparr>)"
      "kq_list w = filter (\<lambda>q. q \<notin> set (concat (map hups ess))) (kq_list w1)"
    using Cons.IH [of ?l2] sub w1(3) Cons.prems unfolding l2 by (auto simp del: set_concat)
  have l3: "?l2\<lparr>gw := w, armed := armed ?l2 - set (concat (map hups ess))\<rparr> =
      l\<lparr>gw := w, armed := armed l - set (concat (map hups (es # ess)))\<rparr>" by (auto intro: arg_cong [where f = "\<lambda>a. l\<lparr>gw := w, armed := a\<rparr>"])
  have "(life_step vt work)\<^sup>*\<^sup>* l (l\<lparr>gw := w, armed := armed l - set (concat (map hups (es # ess)))\<rparr>)"
    using s1 w1(2) w(2) unfolding l2 l3 by (meson converse_rtranclp_into_rtranclp rtranclp_trans)
  moreover have "kq_list w = filter (\<lambda>q. q \<notin> set (concat (map hups (es # ess)))) (kq_list (gw l))"
    unfolding w(4) w1(4) by (simp add: conj_commute)
  ultimately show ?case using w(1,3) w1(1) Cons.prems(6) unfolding l3 by auto
qed

lemma cleanup_ok:
  assumes "life_inv vt qinv l" "batch l = []" "reaping l = None" "distinct ps" "set ps \<subseteq> set (kq_list (gw l))"
    and "\<forall>p \<in> opn l. \<forall>fd. idents (kqs (gw l)) p = Some fd \<longrightarrow> \<not> closed fd"
  shows "\<exists>w. cleanup_kqueues vt closed ps (gw l) = Some w \<and> (\<exists>as. life_inv vt qinv (l\<lparr>gw := w, armed := as\<rparr>)) \<and>
    kq_list w = filter (\<lambda>p. \<not> (p \<in> set ps \<and> (\<exists>fd. idents (kqs (gw l)) p = Some fd \<and> closed fd))) (kq_list (gw l))"
  using assms
proof (induction ps arbitrary: l)
  case Nil
  have "l\<lparr>gw := gw l, armed := armed l\<rparr> = l" by simp
  then show ?case using Nil(1) by (auto intro!: exI [of _ "armed l"])
next
  case (Cons p ps)
  have pl: "p \<in> set (kq_list (gw l))" using Cons.prems by simp
  then obtain k where k: "kqs (gw l) p = Some k" "qinv (kq_body k)" "\<not> kq_freeing k"
    using Cons.prems(1) heap_cell [of vt qinv "kqs (gw l)" "set (kq_list (gw l))" "reaping l" p]
    by (cases "kqs (gw l) p") (auto simp: life_inv_def cell_ok_def)
  have id: "idents (kqs (gw l)) p = Some (kq_ident k)" using k(1) by (simp add: idents_def)
  show ?case
  proof (cases "closed (kq_ident k)")
    case True
    have po: "p \<notin> opn l" using Cons.prems(6) id True by blast
    let ?l1 = "l\<lparr>armed := armed l - {p}, batch := [p]\<rparr>"
    have i1: "life_inv vt qinv ?l1" using Cons.prems(1,2) pl po by (auto simp: life_inv_def watch_inv_def)
    obtain w1 where w1: "kqueue_free vt p (gw l) = Some w1" "life_inv vt qinv (?l1\<lparr>gw := w1, batch := []\<rparr>)"
        "kq_list w1 = filter (\<lambda>q. q \<noteq> p) (kq_list (gw l))" "\<forall>q. q \<noteq> p \<longrightarrow> kqs w1 q = kqs (gw l) q"
      using free_steps [OF i1, of p "[]"] Cons.prems(3) by auto
    let ?l2 = "?l1\<lparr>gw := w1, batch := []\<rparr>"
    have same: "q \<noteq> p \<Longrightarrow> idents (kqs w1) q = idents (kqs (gw l)) q" for q using w1(4) by (simp add: idents_def)
    have sub: "set ps \<subseteq> set (kq_list (gw ?l2))" using Cons.prems(4,5) w1(3) by auto
    have op: "\<forall>q \<in> opn ?l2. \<forall>fd. idents (kqs (gw ?l2)) q = Some fd \<longrightarrow> \<not> closed fd"
    proof
      fix q assume "q \<in> opn ?l2"
      then show "\<forall>fd. idents (kqs (gw ?l2)) q = Some fd \<longrightarrow> \<not> closed fd"
        using Cons.prems(6) po same [of q] by (cases "q = p") auto
    qed
    obtain w as where w: "cleanup_kqueues vt closed ps w1 = Some w" "life_inv vt qinv (?l2\<lparr>gw := w, armed := as\<rparr>)"
        "kq_list w = filter (\<lambda>q. \<not> (q \<in> set ps \<and> (\<exists>fd. idents (kqs w1) q = Some fd \<and> closed fd))) (kq_list w1)"
      using Cons.IH [OF w1(2) _ _ _ sub op] Cons.prems by auto
    have "?l2\<lparr>gw := w, armed := as\<rparr> = l\<lparr>gw := w, armed := as\<rparr>" using Cons.prems(2) by simp
    moreover have "kq_list w = filter (\<lambda>q. \<not> (q \<in> set (p # ps) \<and> (\<exists>fd. idents (kqs (gw l)) q = Some fd \<and> closed fd))) (kq_list (gw l))"
      unfolding w(3) w1(3) filter_filter
    proof (rule filter_cong [OF refl])
      show "(x \<noteq> p \<and> \<not> (x \<in> set ps \<and> (\<exists>fd. idents (kqs w1) x = Some fd \<and> closed fd))) =
          (\<not> (x \<in> set (p # ps) \<and> (\<exists>fd. idents (kqs (gw l)) x = Some fd \<and> closed fd)))" for x
        using id True same [of x] by (cases "x = p") auto
    qed
    ultimately show ?thesis using w(1,2) w1(1) k(1) True by auto
  next
    case False
    obtain q s where q: "(case vt_interrupt vt of None \<Rightarrow> (kq_body k, shared (gw l)) | Some f \<Rightarrow> f (kq_body k) (shared (gw l))) = (q, s)"
      by force
    then have qi: "qinv q" "vt_inflight vt q = vt_inflight vt (kq_body k)"
      using interrupt_ok [OF k(2)] k(2) by (auto split: option.splits)
    define w1 where "w1 = (gw l)\<lparr>kqs := (kqs (gw l))(p \<mapsto> k\<lparr>kq_body := q\<rparr>), shared := s\<rparr>"
    let ?l2 = "l\<lparr>gw := w1\<rparr>"
    have at: "callers l t = Some p \<longleftrightarrow> t \<in> set (vt_inflight vt (kq_body k))" for t
      using Cons.prems(1) caller_at k(1) unfolding life_inv_def by blast
    have "life_inv vt qinv (l\<lparr>gw := w1, callers := callers l\<rparr>)"
      by (rule replace_inv [OF Cons.prems(1) k(1), of "k\<lparr>kq_body := q\<rparr>"]) (use qi at k(3) in \<open>simp_all add: w1_def\<close>)
    then have i2: "life_inv vt qinv ?l2" by simp
    have same: "idents (kqs w1) = idents (kqs (gw l))" "kq_list w1 = kq_list (gw l)" using k(1) by (simp_all add: w1_def)
    have e: "(case vt_interrupt vt of None \<Rightarrow> gw l | Some f \<Rightarrow> let (q, s) = f (kq_body k) (shared (gw l)) in
        (gw l)\<lparr>kqs := (kqs (gw l))(p \<mapsto> k\<lparr>kq_body := q\<rparr>), shared := s\<rparr>) = w1"
      using q k(1) by (auto split: option.splits simp: w1_def intro!: kqworld.equality)
    obtain w as where w: "cleanup_kqueues vt closed ps w1 = Some w" "life_inv vt qinv (?l2\<lparr>gw := w, armed := as\<rparr>)"
        "kq_list w = filter (\<lambda>q. \<not> (q \<in> set ps \<and> (\<exists>fd. idents (kqs (gw l)) q = Some fd \<and> closed fd))) (kq_list (gw l))"
      using Cons.IH [OF i2] Cons.prems same by auto
    have "kq_list w = filter (\<lambda>q. \<not> (q \<in> set (p # ps) \<and> (\<exists>fd. idents (kqs (gw l)) q = Some fd \<and> closed fd))) (kq_list (gw l))"
      unfolding w(3) by (rule filter_cong) (use id False in auto)
    then show ?thesis using w(1,2) k(1) False e by auto
  qed
qed

end

subsection \<open>The thread on Linux\<close>

text \<open>Reading the nonblocking eventfd empties it: \<open>counted\<close> bounds how often a read can
  still succeed.\<close>

definition eventfd_law :: "'o kernel \<Rightarrow> ('o \<Rightarrow> nat) \<Rightarrow> bool" where
  "eventfd_law K counted \<longleftrightarrow> (\<forall>fd s s' n e v. sys_read8 K fd s = (s', n, e, v) \<and> 0 < n \<longrightarrow> counted s' < counted s)"

lemma clear_drain_efd_returns:
  assumes "eventfd_law K counted"
  shows "\<exists>k. clear_drain_efd K s = Some (s\<lparr>sh_os := k\<rparr>)"
proof (induction "counted (sh_os s)" arbitrary: s rule: less_induct)
  case less
  obtain k n e v where r: "sys_read8 K (sh_drain_efd s) (sh_os s) = (k, n, e, v)" by (metis prod_cases4)
  show ?case
  proof (cases "0 < n")
    case True
    then have "counted k < counted (sh_os s)" using assms r unfolding eventfd_law_def by blast
    then obtain k' where "clear_drain_efd K (s\<lparr>sh_os := k\<rparr>) = Some (s\<lparr>sh_os := k'\<rparr>)"
      using less [of "s\<lparr>sh_os := k\<rparr>"] by auto
    then show ?thesis using r True by (subst clear_drain_efd.simps) auto
  next
    case False
    then show ?thesis using r by (subst clear_drain_efd.simps) auto
  qed
qed

lemma linux_reachable_steps:
  "linux_reachable K B fs start k0 m s l \<Longrightarrow> (life_step (linux_kqops K B fs start k0) (linux_work K B))\<^sup>*\<^sup>* l l' \<Longrightarrow>
    linux_reachable K B fs start k0 m s l'"
  unfolding linux_reachable_def by (rule rtranclp_trans)

lemma linux_reachable_outside:
  "linux_reachable K B fs start k0 m s l \<Longrightarrow> linux_reachable K B fs start k0 m s (l\<lparr>gw := (gw l)\<lparr>shared := x\<rparr>\<rparr>)"
  by (erule linux_reachable_steps) (rule r_into_rtranclp, rule life_step.outside)

text \<open>What a round with these events takes out of the list.\<close>

definition swept :: "monitor_event list \<Rightarrow> monitor_event list list \<Rightarrow> u64 set" where
  "swept es ess = (if DrainEfd \<in> set es then set (concat (map hups ess)) else {})"

lemma linux_round:
  assumes env: "linux_env K B fs piped" "map_abs m = Map.empty" "eventfd_law K counted"
    and l: "linux_reachable K B fs start k0 m s l" "batch l = hups es" "reaping l = None"
    and ess: "distinct (concat (map hups ess))" "set (concat (map hups ess)) \<subseteq> armed l - opn l" "[] \<notin> set ess"
  shows "\<exists>w. monitoring_round (linux_kqops K B fs start k0) K es ess gen (gw l) =
      Some (if DrainEfd \<in> set es then gen + 1 else gen, w, kq_cnt w = 0) \<and>
    linux_reachable K B fs start k0 m s (l\<lparr>gw := w, armed := armed l - swept es ess, batch := []\<rparr>) \<and>
    kq_list w = filter (\<lambda>p. p \<notin> set (hups es) \<union> swept es ess) (kq_list (gw l))"
proof -
  let ?vt = "linux_kqops K B fs start k0"
  note inv = linux_reachable_inv [OF env(1,2)]
  obtain w1 where w1: "monitoring_events ?vt es (gw l) = Some (w1, DrainEfd \<in> set es)"
      "(life_step ?vt (linux_work K B))\<^sup>*\<^sup>* l (l\<lparr>gw := w1, batch := []\<rparr>)"
      "kq_list w1 = filter (\<lambda>q. q \<notin> set (hups es)) (kq_list (gw l))"
    using lkq.events_steps [OF inv [OF l(1)] l(2,3)] by blast
  have r1: "linux_reachable K B fs start k0 m s (l\<lparr>gw := w1, batch := []\<rparr>)" using linux_reachable_steps [OF l(1) w1(2)] .
  show ?thesis
  proof (cases "DrainEfd \<in> set es")
    case False
    then show ?thesis using w1 r1 by (simp add: monitoring_round_def swept_def)
  next
    case True
    obtain k where k: "clear_drain_efd K (shared w1) = Some ((shared w1)\<lparr>sh_os := k\<rparr>)"
      using clear_drain_efd_returns [OF env(3)] by blast
    define w2 where "w2 = w1\<lparr>shared := (shared w1)\<lparr>sh_os := k\<rparr>\<rparr>"
    have r2: "linux_reachable K B fs start k0 m s (l\<lparr>gw := w2, batch := []\<rparr>)"
    proof -
      let ?l1 = "l\<lparr>gw := w1, batch := []\<rparr>"
      have "?l1\<lparr>gw := (gw ?l1)\<lparr>shared := (shared w1)\<lparr>sh_os := k\<rparr>\<rparr>\<rparr> = l\<lparr>gw := w2, batch := []\<rparr>"
        by (cases l) (simp add: w2_def)
      then show ?thesis using linux_reachable_outside [OF r1, of "(shared w1)\<lparr>sh_os := k\<rparr>"] by (simp only:)
    qed
    obtain w where w: "monitoring_sweep ?vt ess w2 = Some w"
        "(life_step ?vt (linux_work K B))\<^sup>*\<^sup>* (l\<lparr>gw := w2, batch := []\<rparr>)
          ((l\<lparr>gw := w2, batch := []\<rparr>)\<lparr>gw := w, armed := armed l - set (concat (map hups ess))\<rparr>)"
        "kq_list w = filter (\<lambda>q. q \<notin> set (concat (map hups ess))) (kq_list w2)"
      using lkq.sweep_steps [OF inv [OF r2], of ess] ess l(3) by auto
    have "kq_list w = filter (\<lambda>p. p \<notin> set (hups es) \<union> swept es ess) (kq_list (gw l))"
      unfolding w(3) by (simp add: w2_def w1(3) swept_def True)
    moreover have "(l\<lparr>gw := w2, batch := []\<rparr>)\<lparr>gw := w, armed := armed l - set (concat (map hups ess))\<rparr> =
        l\<lparr>gw := w, armed := armed l - swept es ess, batch := []\<rparr>" using True by (cases l) (simp add: swept_def)
    moreover have "monitoring_round ?vt K es ess gen (gw l) = Some (gen + 1, w, kq_cnt w = 0)"
      using True w1(1) k w(1) by (simp add: monitoring_round_def w2_def)
    ultimately show ?thesis using True linux_reachable_steps [OF r2 w(2)] by auto
  qed
qed

lemma cleanup_self_cancel:
  "monitoring_thread_cleanup vt closed SELF_CANCEL w = Some (w\<lparr>shared := (shared w)\<lparr>sh_tid := 0\<rparr>\<rparr>)"
  by (simp add: monitoring_thread_cleanup_def)

lemma listed_allocated:
  assumes "life_inv vt qinv l" "p \<in> set (kq_list (gw l))"
  shows "kqs (gw l) p \<noteq> None"
  using assms heap_cell [of vt qinv "kqs (gw l)" "set (kq_list (gw l))" "reaping l" p]
  by (cases "kqs (gw l) p") (auto simp: life_inv_def cell_ok_def)

lemma open_listed: "life_inv vt qinv l \<Longrightarrow> p \<in> opn l \<Longrightarrow> p \<in> set (kq_list (gw l))"
  by (auto simp: life_inv_def watch_inv_def)

lemma close_monitoring_reset: "sh_epfd (close_monitoring K s) < 0 \<and> sh_drain_efd (close_monitoring K s) < 0"
  by (simp add: close_monitoring_def close_shared_def Let_def)

subsection \<open>Properties\<close>

text \<open>C5: the monitoring thread implements the step relation.  In every reachable state a
  wake-up of the thread, with whatever events were taken out of epoll_wait, runs to
  the end without touching freed memory, and it leads to a reachable state; it takes
  exactly the reported kqueues out of the list and acknowledges a drain request.\<close>

theorem linux_monitor_refines:
  assumes "linux_env K B fs piped" "map_abs m = Map.empty" "eventfd_law K counted"
    and "linux_reachable K B fs start k0 m s l" "batch l = hups es" "reaping l = None"
    and "distinct (concat (map hups ess))" "set (concat (map hups ess)) \<subseteq> armed l - opn l" "[] \<notin> set ess"
  shows "\<exists>w. monitoring_round (linux_kqops K B fs start k0) K es ess gen (gw l) =
      Some (if DrainEfd \<in> set es then gen + 1 else gen, w, kq_cnt w = 0) \<and>
    linux_reachable K B fs start k0 m s (l\<lparr>gw := w, armed := armed l - swept es ess, batch := []\<rparr>) \<and>
    kq_list w = filter (\<lambda>p. p \<notin> set (hups es) \<union> swept es ess) (kq_list (gw l))"
  by (rule linux_round [OF assms])

text \<open>C6: the flush returns and keeps its promise.  When the thread sees the request and
  epoll_wait reports every close that has happened, libkqueue_drain_pending_close
  returns, and by then every closed kqueue is freed unless a call still works on
  it.\<close>

theorem linux_drain_returns:
  assumes env: "linux_env K B fs piped" "map_abs m = Map.empty" "eventfd_law K counted"
    and l: "linux_reachable K B fs start k0 m s l" "batch l = []" "reaping l = None"
    and es: "DrainEfd \<in> set es" "[] \<notin> set ess" "distinct (hups es @ concat (map hups ess))"
      "set (hups es @ concat (map hups ess)) = armed l - opn l"
  shows "\<exists>gen' w. libkqueue_drain_pending_close (linux_kqops K B fs start k0) K [(es, ess)] gen (gw l) = Some (gen', w, True) \<and>
    (sh_tid (shared (gw l)) \<noteq> 0 \<and> 0 \<le> sh_drain_efd (shared (gw l)) \<longrightarrow>
      (\<forall>p. p \<notin> opn l \<and> (\<forall>t. callers l t \<noteq> Some p) \<longrightarrow> kqs w p = None))"
proof (cases "sh_tid (shared (gw l)) = 0 \<or> sh_drain_efd (shared (gw l)) < 0")
  case True
  then show ?thesis by (auto simp: libkqueue_drain_pending_close_def)
next
  case False
  let ?vt = "linux_kqops K B fs start k0"
  obtain k rv where k: "sys_write8 K (sh_drain_efd (shared (gw l))) (sh_os (shared (gw l))) = (k, rv)" by (metis surj_pair)
  define w1 where "w1 = (gw l)\<lparr>shared := (shared (gw l))\<lparr>sh_os := k\<rparr>\<rparr>"
  define l2 where "l2 = l\<lparr>gw := w1, armed := armed l - set (hups es), batch := hups es\<rparr>"
  have r1: "linux_reachable K B fs start k0 m s (l\<lparr>gw := w1\<rparr>)" unfolding w1_def by (rule linux_reachable_outside [OF l(1)])
  have "life_step ?vt (linux_work K B) (l\<lparr>gw := w1\<rparr>) l2"
    using life_step.wait [of "l\<lparr>gw := w1\<rparr>" "hups es" ?vt "linux_work K B"] l(2) es(3,4) by (auto simp: l2_def)
  then have r2: "linux_reachable K B fs start k0 m s l2" using linux_reachable_steps [OF r1] by blast
  have "set (concat (map hups ess)) \<subseteq> armed l2 - opn l2" using es(3,4) by (auto simp: l2_def)
  then obtain w where w: "monitoring_round ?vt K es ess gen w1 = Some (gen + 1, w, kq_cnt w = 0)"
      "linux_reachable K B fs start k0 m s (l2\<lparr>gw := w, armed := armed l2 - swept es ess, batch := []\<rparr>)"
    using linux_round [OF env r2, of es ess gen] es l(3) by (auto simp: l2_def)
  have "p \<notin> armed l2 - swept es ess" if "p \<notin> opn l" for p using es(1,4) that by (auto simp: l2_def swept_def)
  then have gone: "kqs w p = None" if "p \<notin> opn l" "\<forall>t. callers l t \<noteq> Some p" for p
    using lkq.no_leak [OF linux_reachable_inv [OF env(1,2) w(2)], of p] that l(3) by (simp add: l2_def)
  have "libkqueue_drain_pending_close ?vt K [(es, ess)] gen (gw l) =
      Some (gen + 1, if kq_cnt w = 0 then w\<lparr>shared := (shared w)\<lparr>sh_tid := 0\<rparr>\<rparr> else w, True)"
    using False k w(1) by (simp add: libkqueue_drain_pending_close_def w1_def cleanup_self_cancel)
  then show ?thesis using gone by auto
qed

text \<open>C30: exit.  The cleanup at exit runs to the end in every reachable state in which the
  thread waits; no kqueue is freed whose descriptor is open, every listed one
  whose descriptor number is closed is taken off the list, and the descriptors of
  the thread are given up.\<close>

theorem linux_exit_keeps_open:
  assumes env: "linux_env K B fs piped" "map_abs m = Map.empty"
    and l: "linux_reachable K B fs start k0 m s l" "batch l = []" "reaping l = None"
    and "\<forall>p \<in> opn l. \<forall>fd. idents (kqs (gw l)) p = Some fd \<longrightarrow> \<not> closed fd"
  shows "\<exists>w. linux_libkqueue_free (linux_kqops K B fs start k0) K closed (gw l) = Some w \<and>
    (\<forall>p \<in> opn l. p \<in> set (kq_list w) \<and> kqs w p \<noteq> None) \<and>
    (sh_tid (shared (gw l)) \<noteq> 0 \<longrightarrow> (\<forall>p fd. idents (kqs (gw l)) p = Some fd \<and> closed fd \<longrightarrow> p \<notin> set (kq_list w))) \<and>
    sh_epfd (shared w) < 0 \<and> sh_drain_efd (shared w) < 0"
proof -
  let ?vt = "linux_kqops K B fs start k0"
  note inv = linux_reachable_inv [OF env l(1)]
  have d: "distinct (kq_list (gw l))" using inv by (simp add: life_inv_def watch_inv_def)
  obtain w as where w: "cleanup_kqueues ?vt closed (kq_list (gw l)) (gw l) = Some w"
      "life_inv ?vt (linux_qinv K B fs piped) (l\<lparr>gw := w, armed := as\<rparr>)"
      "kq_list w = filter (\<lambda>p. \<not> (p \<in> set (kq_list (gw l)) \<and> (\<exists>fd. idents (kqs (gw l)) p = Some fd \<and> closed fd))) (kq_list (gw l))"
    using lkq.cleanup_ok [OF inv l(2,3) d subset_refl assms(6)] by blast
  have "p \<in> set (kq_list w) \<and> kqs w p \<noteq> None" if "p \<in> opn l" for p
    using open_listed [OF w(2), of p] listed_allocated [OF w(2), of p] that by simp
  moreover have "p \<in> set (kq_list (gw l)) \<and> kqs (gw l) p \<noteq> None" if "p \<in> opn l" for p
    using open_listed [OF inv that] listed_allocated [OF inv] by blast
  moreover have "p \<notin> set (kq_list w)" if "idents (kqs (gw l)) p = Some fd" "closed fd" for p fd
    unfolding w(3) using that by auto
  ultimately show ?thesis
    using w(1) close_monitoring_reset by (simp add: linux_libkqueue_free_def monitoring_thread_cleanup_def) blast
qed

lemma fork_kqueues_ok:
  assumes "\<forall>p \<in> set ps. kqs w p \<noteq> None"
  shows "\<exists>w'. fork_kqueues K ps w = Some w' \<and> kq_list w' = kq_list w \<and>
    sh_tid (shared w') = sh_tid (shared w) \<and>
    (\<forall>p. (kqs w' p = None \<longleftrightarrow> kqs w p = None) \<and> (p \<notin> set ps \<longrightarrow> kqs w' p = kqs w p)) \<and>
    (\<forall>p \<in> set ps. \<forall>k. kqs w' p = Some k \<longrightarrow> epollfd (kq_body k) = -1 \<and> pipefd (kq_body k) = (-1, -1))"
  using assms
proof (induction ps arbitrary: w)
  case (Cons p ps)
  then obtain k where k: "kqs w p = Some k" by auto
  obtain q x where q: "fork_kqueue K (kq_body k) (shared w) = (q, x)" by force
  then have fds: "epollfd q = -1" "pipefd q = (-1, -1)" "sh_tid x = sh_tid (shared w)"
    by (auto simp: fork_kqueue_def close_shared_def Let_def)
  define w1 where "w1 = w\<lparr>kqs := (kqs w)(p \<mapsto> k\<lparr>kq_body := q\<rparr>), shared := x\<rparr>"
  have w1: "kq_list w1 = kq_list w" "sh_tid (shared w1) = sh_tid (shared w)" "\<And>p'. kqs w1 p' = None \<longleftrightarrow> kqs w p' = None"
    "kqs w1 p = Some (k\<lparr>kq_body := q\<rparr>)" "\<And>p'. p' \<noteq> p \<Longrightarrow> kqs w1 p' = kqs w p'"
    using k fds(3) by (auto simp: w1_def)
  obtain w' where w': "fork_kqueues K ps w1 = Some w'" "kq_list w' = kq_list w1" "sh_tid (shared w') = sh_tid (shared w1)"
      "\<forall>p. (kqs w' p = None \<longleftrightarrow> kqs w1 p = None) \<and> (p \<notin> set ps \<longrightarrow> kqs w' p = kqs w1 p)"
      "\<forall>p \<in> set ps. \<forall>k. kqs w' p = Some k \<longrightarrow> epollfd (kq_body k) = -1 \<and> pipefd (kq_body k) = (-1, -1)"
    using Cons.IH [of w1] Cons.prems w1(3) by auto
  have "fork_kqueues K (p # ps) w = Some w'" using k q w'(1) by (simp add: w1_def)
  moreover have "epollfd (kq_body k') = -1 \<and> pipefd (kq_body k') = (-1, -1)" if "p' \<in> set (p # ps)" "kqs w' p' = Some k'" for p' k'
    using w'(4,5) w1(4) fds(1,2) that by (cases "p' \<in> set ps") auto
  ultimately show ?case using w'(2,3,4) w1(1,2,3,5) by (intro exI [of _ w']) auto
qed simp


subsection \<open>Concrete runs\<close>

lemma sim_eventfd_law: "eventfd_law sim_sets_kernel (\<lambda>_. 0)"
  by (simp add: eventfd_law_def sim_sets_kernel_def)

theorem linux_monitor_refines_witness:
  "\<exists>w. monitoring_round sim_kqops sim_sets_kernel [Hup 4096] [] 0 sim_w2 = Some (0, w, kq_cnt w = 0) \<and> kq_list w = []"
proof -
  have "kq_list sim_w2 = [4096]" by code_simp
  then show ?thesis
    using linux_monitor_refines [OF sim_env sim_map_empty sim_eventfd_law sim_reported [unfolded sim_reachable_def], of "[Hup 4096]" "[]" 0]
    by (auto simp: sim_waiting_def sim_life_def sim_kqops_def)
qed

theorem linux_drain_returns_witness:
  "\<exists>gen' w. libkqueue_drain_pending_close sim_kqops sim_sets_kernel [([DrainEfd, Hup 4096], [])] 0 sim_w2 = Some (gen', w, True)"
  using linux_drain_returns [OF sim_env sim_map_empty sim_eventfd_law sim_closed [unfolded sim_reachable_def], of "[DrainEfd, Hup 4096]" "[]" 0]
  by (auto simp: sim_waiting_def sim_life_def sim_kqops_def)

theorem linux_exit_keeps_open_witness:
  "\<exists>w. linux_libkqueue_free sim_kqops sim_sets_kernel (\<lambda>_. False) sim_w1 = Some w \<and> 4096 \<in> set (kq_list w) \<and> kqs w 4096 \<noteq> None"
  using linux_exit_keeps_open [OF sim_env sim_map_empty sim_created [unfolded sim_reachable_def], of "\<lambda>_. False"]
  by (auto simp: sim_life_def sim_kqops_def)


end
