(* ===== verification/Signal_Filter.thy ===== *)
theory Signal_Filter
  imports Kevent_Safe
begin

text \<open>
  EVFILT_SIGNAL: the dispatch machinery that all platforms share
  (\<^verbatim>\<open>common/evfilt_signal.h\<close>).  The model is the view of one kqueue.  The table of
  signals is global: \<open>sigtbl\<close> holds, for each signal, the filters that have a
  surrogate on it, where 0 is the filter of this kqueue and the other numbers are
  the filters of other kqueues.  The surrogates, the pending list and the knotes
  are those of this kqueue.  The platform layer and the eventfd operations of the
  backend are the record \<open>sig_hooks\<close> over an operating system state.  The callbacks
  are a table \<open>filter_ops\<close>, so that the common code of \<open>Knote\<close> and \<open>Kevent\<close> runs on
  them.
\<close>

subsection \<open>State\<close>

definition SIGNAL_MAX :: nat where
  "SIGNAL_MAX = 65"

definition SIGCHLD :: int where
  "SIGCHLD = 17"

record sig_link =
  kn_enabled :: "addr list"
  kn_disabled :: "addr list"

record sig_filter_state =
  sfs_links :: "nat \<Rightarrow> sig_link"
  sfs_pending :: "addr list"

record 'o sworld = "unit world" +
  sigtbl :: "nat \<Rightarrow> nat list"
  sfs :: "sig_filter_state option"
  sig_filter_count :: int
  sig_dispatch_thread_created :: bool
  sig_dispatch_started :: bool
  sig_pipe :: "int \<times> int"
  sig_os :: 'o

record 'o sig_hooks =
  hook_eventfd_init :: "'o \<Rightarrow> 'o \<times> int \<times> int"
  hook_eventfd_register :: "int \<Rightarrow> 'o \<Rightarrow> 'o \<times> int"
  hook_eventfd_unregister :: "int \<Rightarrow> 'o \<Rightarrow> 'o"
  hook_eventfd_close :: "int \<Rightarrow> 'o \<Rightarrow> 'o"
  hook_eventfd_raise :: "int \<Rightarrow> 'o \<Rightarrow> 'o"
  hook_eventfd_lower :: "int \<Rightarrow> 'o \<Rightarrow> 'o"
  hook_socketpair :: "'o \<Rightarrow> 'o \<times> int \<times> int \<times> int"
  hook_close :: "int \<Rightarrow> 'o \<Rightarrow> 'o"
  hook_thread_create :: "'o \<Rightarrow> 'o \<times> int"
  hook_platform_init :: "'o \<Rightarrow> 'o \<times> int"
  hook_platform_destroy :: "'o \<Rightarrow> 'o"
  hook_platform_add :: "nat \<Rightarrow> 'o \<Rightarrow> 'o \<times> int \<times> int"
  hook_platform_remove :: "nat \<Rightarrow> 'o \<Rightarrow> 'o \<times> int"
  hook_platform_reset :: "'o \<Rightarrow> 'o"
  have_pidfd_open :: bool

abbreviation sig_fi :: nat where
  "sig_fi \<equiv> 5"

type_synonym ('o, 'z) sw = "('o, 'z) sworld_scheme"

definition upd_os :: "('o \<Rightarrow> 'o) \<Rightarrow> ('o, 'z) sw \<Rightarrow> ('o, 'z) sw" where
  "upd_os f w = w\<lparr>sig_os := f (sig_os w)\<rparr>"

definition sig_efd :: "('o, 'z) sw \<Rightarrow> int" where
  "sig_efd w = kf_efd (kq_filt w ! sig_fi)"

text \<open>The cast \<^verbatim>\<open>(int) kn->kev.ident\<close>.\<close>

definition sig_num :: "u64 \<Rightarrow> int" where
  "sig_num i = sint (ucast i :: 32 word)"

definition sig_valid :: "int \<Rightarrow> bool" where
  "sig_valid s \<longleftrightarrow> 0 < s \<and> s < int SIGNAL_MAX"

definition sl_has_no_knotes :: "sig_link \<Rightarrow> bool" where
  "sl_has_no_knotes sl \<longleftrightarrow> kn_enabled sl = [] \<and> kn_disabled sl = []"

definition upd_link :: "nat \<Rightarrow> (sig_link \<Rightarrow> sig_link) \<Rightarrow> sig_filter_state \<Rightarrow> sig_filter_state" where
  "upd_link s f st = st\<lparr>sfs_links := (sfs_links st)(s := f (sfs_links st s))\<rparr>"

text \<open>Removal from whatever list the entry is on; nothing happens if it is on none.\<close>

definition unlink_entry :: "addr \<Rightarrow> sig_link \<Rightarrow> sig_link" where
  "unlink_entry kn sl = sl\<lparr>kn_enabled := removeAll kn (kn_enabled sl), kn_disabled := removeAll kn (kn_disabled sl)\<rparr>"

subsection \<open>Dispatch\<close>

text \<open>The loop over the enabled knotes of a surrogate: count, link to the pending list,
  and tell whether the filter must be woken.\<close>

fun bump_enabled :: "addr list \<Rightarrow> sig_filter_state \<Rightarrow> bool \<Rightarrow> ('o, 'z) sw \<Rightarrow> (('o, 'z) sw \<times> sig_filter_state \<times> bool) option" where
  "bump_enabled [] st wake w = Some (w, st, wake)"
| "bump_enabled (kn # kns) st wake w = do {
     k \<leftarrow> knotes w kn;
     let w = upd_knote kn (\<lambda>k. k\<lparr>kn_signal_count := kn_signal_count k + 1\<rparr>) w;
     if kn \<notin> set (sfs_pending st)
     then bump_enabled kns (st\<lparr>sfs_pending := kn # sfs_pending st\<rparr>) True w
     else bump_enabled kns st wake w }"

fun bump_disabled :: "addr list \<Rightarrow> ('o, 'z) sw \<Rightarrow> ('o, 'z) sw option" where
  "bump_disabled [] w = Some w"
| "bump_disabled (kn # kns) w = do {
     k \<leftarrow> knotes w kn;
     bump_disabled kns (upd_knote kn (\<lambda>k. k\<lparr>kn_signal_count := kn_signal_count k + 1\<rparr>) w) }"

definition sig_dispatch_link :: "'o sig_hooks \<Rightarrow> nat \<Rightarrow> ('o, 'z) sw \<Rightarrow> ('o, 'z) sw option" where
  "sig_dispatch_link H s w = do {
     st \<leftarrow> sfs w;
     (w, st', wake) \<leftarrow> bump_enabled (kn_enabled (sfs_links st s)) st False w;
     w \<leftarrow> bump_disabled (kn_disabled (sfs_links st s)) w;
     let w = w\<lparr>sfs := Some st'\<rparr>;
     Some (if wake then upd_os (hook_eventfd_raise H (sig_efd w)) w else w) }"

text \<open>Walking the surrogates of a signal; what happens at those of other kqueues is in
  their views.\<close>

definition sig_dispatch_handle :: "'o sig_hooks \<Rightarrow> int \<Rightarrow> ('o, 'z) sw \<Rightarrow> ('o, 'z) sw option" where
  "sig_dispatch_handle H sig w =
     (if \<not> sig_valid sig then Some w
      else if 0 \<in> set (sigtbl w (nat sig)) then sig_dispatch_link H (nat sig) w
      else Some w)"

fun sig_dispatch_all :: "'o sig_hooks \<Rightarrow> int list \<Rightarrow> ('o, 'z) sw \<Rightarrow> ('o, 'z) sw option" where
  "sig_dispatch_all H [] w = Some w"
| "sig_dispatch_all H (s # ss) w = do { w \<leftarrow> sig_dispatch_handle H s w; sig_dispatch_all H ss w }"

subsection \<open>The dispatch thread\<close>

definition close_sig_pipe :: "'o sig_hooks \<Rightarrow> ('o, 'z) sw \<Rightarrow> ('o, 'z) sw" where
  "close_sig_pipe H w =
     (let w = upd_os (hook_close H (fst (sig_pipe w))) w;
          w = upd_os (hook_close H (snd (sig_pipe w))) w
      in w\<lparr>sig_pipe := (-1, -1)\<rparr>)"

text \<open>The loop of the thread, over what its rounds see; the loop ends when a round returns
  zero or an error, and is still running if none of them did.\<close>

fun sig_dispatch_rounds ::
  "('r \<Rightarrow> ('o, 'z) sw \<Rightarrow> (('o, 'z) sw \<times> int) option) \<Rightarrow> 'r list \<Rightarrow> ('o, 'z) sw \<Rightarrow> (('o, 'z) sw \<times> bool) option" where
  "sig_dispatch_rounds wait [] w = Some (w, True)"
| "sig_dispatch_rounds wait (r # rs) w = do {
     (w, rv) \<leftarrow> wait r w;
     if rv \<le> 0 then Some (w, False) else sig_dispatch_rounds wait rs w }"

definition sig_dispatch_loop ::
  "('r \<Rightarrow> ('o, 'z) sw \<Rightarrow> (('o, 'z) sw \<times> int) option) \<Rightarrow> 'r list \<Rightarrow> ('o, 'z) sw \<Rightarrow> (('o, 'z) sw \<times> bool) option" where
  "sig_dispatch_loop wait rs w = sig_dispatch_rounds wait rs (w\<lparr>sig_dispatch_started := True\<rparr>)"

text \<open>\<^verbatim>\<open>sig_dispatch_start\<close> returns after the new thread has reported that it runs.\<close>

definition sig_dispatch_start :: "'o sig_hooks \<Rightarrow> ('o, 'z) sw \<Rightarrow> ('o, 'z) sw \<times> int" where
  "sig_dispatch_start H w =
     (let (os', rv, p0, p1) = hook_socketpair H (sig_os w); w = w\<lparr>sig_os := os'\<rparr> in
      if rv < 0 then (w, -1)
      else
        let w = w\<lparr>sig_pipe := (p0, p1)\<rparr>; (os', rv) = hook_platform_init H (sig_os w); w = w\<lparr>sig_os := os'\<rparr> in
        if rv < 0 then (close_sig_pipe H w, -1)
        else
          let (os', rv) = hook_thread_create H (sig_os w); w = w\<lparr>sig_os := os'\<rparr> in
          if rv \<noteq> 0 then (close_sig_pipe H (upd_os (hook_platform_destroy H) w), -1)
          else (w\<lparr>sig_dispatch_thread_created := True, sig_dispatch_started := True\<rparr>, 0))"

text \<open>\<^verbatim>\<open>sig_dispatch_stop\<close>; the join of the thread has no effect on this state.\<close>

definition sig_dispatch_stop :: "'o sig_hooks \<Rightarrow> ('o, 'z) sw \<Rightarrow> ('o, 'z) sw" where
  "sig_dispatch_stop H w =
     (let w = (if snd (sig_pipe w) \<ge> 0
               then (upd_os (hook_close H (snd (sig_pipe w))) w)\<lparr>sig_pipe := (fst (sig_pipe w), -1)\<rparr> else w);
          w = (if sig_dispatch_thread_created w then w\<lparr>sig_dispatch_thread_created := False\<rparr> else w);
          w = (if fst (sig_pipe w) \<ge> 0
               then (upd_os (hook_close H (fst (sig_pipe w))) w)\<lparr>sig_pipe := (-1, snd (sig_pipe w))\<rparr> else w);
          w = upd_os (hook_platform_destroy H) w
      in w\<lparr>sig_dispatch_started := False\<rparr>)"

definition evfilt_signal_reset_after_fork :: "'o sig_hooks \<Rightarrow> ('o, 'z) sw \<Rightarrow> ('o, 'z) sw" where
  "evfilt_signal_reset_after_fork H w =
     (let w = upd_os (hook_platform_reset H) w;
          w = w\<lparr>sig_dispatch_thread_created := False, sig_dispatch_started := False, sig_filter_count := 0\<rparr>;
          w = (if fst (sig_pipe w) \<ge> 0 then upd_os (hook_close H (fst (sig_pipe w))) w else w);
          w = (if snd (sig_pipe w) \<ge> 0 then upd_os (hook_close H (snd (sig_pipe w))) w else w)
      in w\<lparr>sig_pipe := (-1, -1)\<rparr>)"

subsection \<open>The filter\<close>

definition sig_link_zero :: sig_link where
  "sig_link_zero = \<lparr>kn_enabled = [], kn_disabled = []\<rparr>"

definition sig_drop_efd :: "'o sig_hooks \<Rightarrow> ('o, 'z) sw \<Rightarrow> ('o, 'z) sw" where
  "sig_drop_efd H w = upd_os (hook_eventfd_close H (sig_efd w)) (upd_os (hook_eventfd_unregister H (sig_efd w)) w)"

definition evfilt_signal_init :: "'o sig_hooks \<Rightarrow> ('o, 'z) sw \<Rightarrow> ('o, 'z) sw \<times> int" where
  "evfilt_signal_init H w =
     (let (os', rv, fd) = hook_eventfd_init H (sig_os w); w = w\<lparr>sig_os := os'\<rparr> in
      if rv < 0 then (w, -1)
      else
        let w = upd_filt sig_fi (\<lambda>f. f\<lparr>kf_efd := fd\<rparr>) w;
            (os', rv) = hook_eventfd_register H (sig_efd w) (sig_os w); w = w\<lparr>sig_os := os'\<rparr> in
        if rv < 0 then (upd_os (hook_eventfd_close H (sig_efd w)) w, -1)
        else
          let (w, p) = calloc w in
          if p = None then (sig_drop_efd H w, -1)
          else
            let w = w\<lparr>sfs := Some \<lparr>sfs_links = (\<lambda>_. sig_link_zero), sfs_pending = []\<rparr>\<rparr>;
                (w, rv) = (if sig_filter_count w = 0 then sig_dispatch_start H w else (w, 0)) in
            if rv < 0 then (sig_drop_efd H (w\<lparr>sfs := None\<rparr>), -1)
            else (w\<lparr>sig_filter_count := sig_filter_count w + 1\<rparr>, 0))"

definition evfilt_signal_destroy :: "'o sig_hooks \<Rightarrow> ('o, 'z) sw \<Rightarrow> ('o, 'z) sw" where
  "evfilt_signal_destroy H w =
     (let w = (if sfs w \<noteq> None
               then w\<lparr>sigtbl := \<lambda>s. if s < SIGNAL_MAX then removeAll 0 (sigtbl w s) else sigtbl w s, sfs := None\<rparr> else w);
          w = sig_drop_efd H w;
          w = w\<lparr>sig_filter_count := sig_filter_count w - 1\<rparr>
      in if sig_filter_count w = 0 then sig_dispatch_stop H w else w)"

text \<open>The surrogate of a knote; an index outside the array is a fault.\<close>

definition link_of :: "addr \<Rightarrow> ('o, 'z) sw \<Rightarrow> (nat \<times> sig_filter_state) option" where
  "link_of kn w = do {
     k \<leftarrow> knotes w kn;
     st \<leftarrow> sfs w;
     if 0 \<le> sig_num (ident (kev k)) \<and> sig_num (ident (kev k)) < int SIGNAL_MAX
     then Some (nat (sig_num (ident (kev k))), st) else None }"

definition insert_link :: "nat \<Rightarrow> ('o, 'z) sw \<Rightarrow> ('o, 'z) sw" where
  "insert_link s w = (if 0 \<in> set (sigtbl w s) then w else w\<lparr>sigtbl := (sigtbl w)(s := 0 # sigtbl w s)\<rparr>)"

definition remove_link :: "nat \<Rightarrow> ('o, 'z) sw \<Rightarrow> ('o, 'z) sw" where
  "remove_link s w = w\<lparr>sigtbl := (sigtbl w)(s := removeAll 0 (sigtbl w s))\<rparr>"

definition evfilt_signal_knote_create :: "'o sig_hooks \<Rightarrow> addr \<Rightarrow> ('o, 'z) sw \<Rightarrow> (('o, 'z) sw \<times> int) option" where
  "evfilt_signal_knote_create H kn w = do {
     k \<leftarrow> knotes w kn;
     let sig = sig_num (ident (kev k));
     if \<not> sig_valid sig then Some (w\<lparr>errno := EINVAL\<rparr>, -1)
     else if \<not> have_pidfd_open H \<and> sig = SIGCHLD then Some (w\<lparr>errno := EINVAL\<rparr>, -1)
     else do {
       let w = upd_knote kn (upd_flags (set_flag EV_CLEAR)) w;
       (s, st) \<leftarrow> link_of kn w;
       let first = (sigtbl w s = []);
       let w = insert_link s w;
       let st = upd_link s (\<lambda>sl. sl\<lparr>kn_enabled := kn # kn_enabled sl\<rparr>) st;
       let w = w\<lparr>sfs := Some st\<rparr>;
       if first then do {
         let (os', rv, e) = hook_platform_add H s (sig_os w);
         let w = w\<lparr>sig_os := os'\<rparr>;
         if rv \<noteq> 0 then do {
           let st = upd_link s (unlink_entry kn) st;
           let w = w\<lparr>sfs := Some st\<rparr>;
           let w = (if sl_has_no_knotes (sfs_links st s) then remove_link s w else w);
           Some (w\<lparr>errno := e\<rparr>, -1) }
         else Some (w, 0) }
       else Some (w, 0) } }"

definition evfilt_signal_knote_modify :: "addr \<Rightarrow> kevent \<Rightarrow> ('o, 'z) sw \<Rightarrow> (('o, 'z) sw \<times> int) option" where
  "evfilt_signal_knote_modify kn src w = do {
     k \<leftarrow> knotes w kn;
     Some (upd_knote kn (upd_flags (\<lambda>fl. flags src OR EV_CLEAR OR (fl AND EV_RECEIPT))) w, 0) }"

definition evfilt_signal_knote_delete :: "'o sig_hooks \<Rightarrow> addr \<Rightarrow> ('o, 'z) sw \<Rightarrow> (('o, 'z) sw \<times> int) option" where
  "evfilt_signal_knote_delete H kn w = do {
     (s, st) \<leftarrow> link_of kn w;
     let st = upd_link s (unlink_entry kn) st;
     let st = st\<lparr>sfs_pending := removeAll kn (sfs_pending st)\<rparr>;
     let w = upd_knote kn (\<lambda>k. k\<lparr>kn_signal_count := 0\<rparr>) (w\<lparr>sfs := Some st\<rparr>);
     let w = (if sl_has_no_knotes (sfs_links st s) then remove_link s w else w);
     Some (if sigtbl w s = [] then w\<lparr>sig_os := fst (hook_platform_remove H s (sig_os w))\<rparr> else w, 0) }"

definition evfilt_signal_knote_enable :: "'o sig_hooks \<Rightarrow> addr \<Rightarrow> ('o, 'z) sw \<Rightarrow> (('o, 'z) sw \<times> int) option" where
  "evfilt_signal_knote_enable H kn w = do {
     k \<leftarrow> knotes w kn;
     (s, st) \<leftarrow> link_of kn w;
     let st = upd_link s (\<lambda>sl. (unlink_entry kn sl)\<lparr>kn_enabled := kn # kn_enabled (unlink_entry kn sl)\<rparr>) st;
     if kn_signal_count k > 0 \<and> kn \<notin> set (sfs_pending st) then do {
       let w = w\<lparr>sfs := Some (st\<lparr>sfs_pending := kn # sfs_pending st\<rparr>)\<rparr>;
       Some (upd_os (hook_eventfd_raise H (sig_efd w)) w, 0) }
     else Some (w\<lparr>sfs := Some st\<rparr>, 0) }"

definition evfilt_signal_knote_disable :: "addr \<Rightarrow> ('o, 'z) sw \<Rightarrow> (('o, 'z) sw \<times> int) option" where
  "evfilt_signal_knote_disable kn w = do {
     (s, st) \<leftarrow> link_of kn w;
     let st = upd_link s (\<lambda>sl. (unlink_entry kn sl)\<lparr>kn_disabled := kn # kn_disabled (unlink_entry kn sl)\<rparr>) st;
     Some (w\<lparr>sfs := Some (st\<lparr>sfs_pending := removeAll kn (sfs_pending st)\<rparr>)\<rparr>, 0) }"

text \<open>The callbacks other than the copyout, which calls them through the filter.\<close>

definition evfilt_signal_ops :: "'o sig_hooks \<Rightarrow> (('o, 'z) sw) filter_ops" where
  "evfilt_signal_ops H =
     \<lparr>kf_copyout = \<lambda>_ _ _ _. None,
      kn_create = evfilt_signal_knote_create H,
      kn_modify = evfilt_signal_knote_modify,
      kn_delete = evfilt_signal_knote_delete H,
      kn_enable = evfilt_signal_knote_enable H,
      kn_disable = evfilt_signal_knote_disable\<rparr>"

definition sig_event :: "unit knote_scheme \<Rightarrow> kevent" where
  "sig_event k =
     \<lparr>ident = ident (kev k), kfilter = EVFILT_SIGNAL, flags = flags (kev k), fflags = 0,
      data = ucast (kn_signal_count k), udata = udata (kev k)\<rparr>"

text \<open>The loop over the pending list: the entries written and the knotes they are from.\<close>

fun sig_emit :: "nat \<Rightarrow> addr list \<Rightarrow> ('o, 'z) sw \<Rightarrow> (('o, 'z) sw \<times> addr list \<times> kevent list) option" where
  "sig_emit n [] w = Some (w, [], [])"
| "sig_emit 0 (kn # kns) w = Some (w, [], [])"
| "sig_emit (Suc n) (kn # kns) w = do {
     k \<leftarrow> knotes w kn;
     st \<leftarrow> sfs w;
     let w = w\<lparr>sfs := Some (st\<lparr>sfs_pending := removeAll kn (sfs_pending st)\<rparr>)\<rparr>;
     let w = upd_knote kn (\<lambda>k. k\<lparr>kn_signal_count := 0\<rparr>) w;
     (w, em, out) \<leftarrow> sig_emit n kns w;
     Some (w, kn # em, sig_event k # out) }"

fun sig_flag_actions :: "'o sig_hooks \<Rightarrow> addr list \<Rightarrow> ('o, 'z) sw \<Rightarrow> (('o, 'z) sw \<times> int) option" where
  "sig_flag_actions H [] w = Some (w, 0)"
| "sig_flag_actions H (kn # kns) w = do {
     (w, rv) \<leftarrow> knote_copyout_flag_actions (evfilt_signal_ops H) sig_fi kn w;
     if rv < 0 then Some (w, -1) else sig_flag_actions H kns w }"

definition evfilt_signal_copyout ::
  "'o sig_hooks \<Rightarrow> nat \<Rightarrow> addr option \<Rightarrow> u32 \<Rightarrow> ('o, 'z) sw \<Rightarrow> (('o, 'z) sw \<times> int \<times> kevent list) option" where
  "evfilt_signal_copyout H nevents src ev w = do {
     st \<leftarrow> sfs w;
     (w, em, out) \<leftarrow> sig_emit nevents (sfs_pending st) w;
     (w, rv) \<leftarrow> sig_flag_actions H em w;
     if rv < 0 then Some (w, -1, out)
     else Some (upd_os (hook_eventfd_lower H (sig_efd w)) w, int (length em), out) }"

definition evfilt_signal :: "'o sig_hooks \<Rightarrow> (('o, 'z) sw) filter_ops" where
  "evfilt_signal H = (evfilt_signal_ops H)\<lparr>kf_copyout := evfilt_signal_copyout H\<rparr>"

end
