(* ===== verification/Signal_Inv.thy ===== *)
theory Signal_Inv
  imports Signal_Filter
begin

text \<open>
  The invariant of the signal tables, its preservation by the callbacks of
  EVFILT_SIGNAL and by the dispatch thread, and the contract of the filter, which
  gives the safety of change lists.
\<close>

subsection \<open>The invariant\<close>

text \<open>\<open>h\<close> is the heap of knotes and \<open>t\<close> the table of signals.  Every knote on a surrogate
  is live and watches its signal; a surrogate is in the table exactly if it has
  knotes; the pending list holds enabled knotes only, and all those that have
  fires to report.\<close>

definition links_ok :: "(addr \<Rightarrow> unit knote_scheme option) \<Rightarrow> (nat \<Rightarrow> sig_link) \<Rightarrow> bool" where
  "links_ok h ls \<longleftrightarrow>
     (\<forall>s. distinct (kn_enabled (ls s)) \<and> distinct (kn_disabled (ls s)) \<and> set (kn_enabled (ls s)) \<inter> set (kn_disabled (ls s)) = {} \<and>
        (\<forall>a \<in> set (kn_enabled (ls s)) \<union> set (kn_disabled (ls s)).
           \<exists>k. h a = Some k \<and> sig_num (ident (kev k)) = int s \<and> sig_valid (int s)))"

definition table_ok :: "(nat \<Rightarrow> nat list) \<Rightarrow> (nat \<Rightarrow> sig_link) \<Rightarrow> bool" where
  "table_ok t ls \<longleftrightarrow> (\<forall>s. distinct (t s) \<and> (0 \<in> set (t s) \<longleftrightarrow> \<not> sl_has_no_knotes (ls s)))"

definition pending_ok :: "(addr \<Rightarrow> unit knote_scheme option) \<Rightarrow> (nat \<Rightarrow> sig_link) \<Rightarrow> addr list \<Rightarrow> bool" where
  "pending_ok h ls ps \<longleftrightarrow>
     distinct ps \<and> (\<forall>a \<in> set ps. \<exists>s. a \<in> set (kn_enabled (ls s))) \<and>
     (\<forall>s. \<forall>a \<in> set (kn_enabled (ls s)). \<forall>k. h a = Some k \<and> kn_signal_count k \<noteq> 0 \<longrightarrow> a \<in> set ps)"

definition sig_inv :: "('o, 'z) sw \<Rightarrow> bool" where
  "sig_inv w \<longleftrightarrow>
     (\<exists>st. sfs w = Some st \<and> links_ok (knotes w) (sfs_links st) \<and> pending_ok (knotes w) (sfs_links st) (sfs_pending st))"

text \<open>The table is kept apart: its part of the invariant rests on the common code
  enabling and disabling only knotes that were created.\<close>

definition sig_table :: "('o, 'z) sw \<Rightarrow> bool" where
  "sig_table w \<longleftrightarrow> (\<exists>st. sfs w = Some st \<and> table_ok (sigtbl w) (sfs_links st))"

text \<open>No list points to the knote, and it has nothing to report.\<close>

definition sig_free :: "addr \<Rightarrow> ('o, 'z) sw \<Rightarrow> bool" where
  "sig_free kn w \<longleftrightarrow>
     (\<exists>st. sfs w = Some st \<and> (\<forall>s. kn \<notin> set (kn_enabled (sfs_links st s)) \<and> kn \<notin> set (kn_disabled (sfs_links st s))) \<and>
        kn \<notin> set (sfs_pending st)) \<and>
     (\<forall>k. knotes w kn = Some k \<longrightarrow> kn_signal_count k = 0)"

lemma sig_invI:
  "sfs w = Some st \<Longrightarrow> links_ok (knotes w) (sfs_links st) \<Longrightarrow>
    pending_ok (knotes w) (sfs_links st) (sfs_pending st) \<Longrightarrow> sig_inv w"
  by (simp add: sig_inv_def)

text \<open>What the invariant sees of a knote.\<close>

definition kn_sig :: "unit knote_scheme \<Rightarrow> int \<times> u32" where
  "kn_sig k = (sig_num (ident (kev k)), kn_signal_count k)"

lemma links_ok_cong:
  assumes "links_ok h ls" "\<And>a k. h a = Some k \<Longrightarrow> \<exists>k'. h' a = Some k' \<and> sig_num (ident (kev k')) = sig_num (ident (kev k))"
  shows "links_ok h' ls"
  unfolding links_ok_def
proof (intro allI conjI ballI)
  show "\<exists>k. h' a = Some k \<and> sig_num (ident (kev k)) = int s \<and> sig_valid (int s)"
    if a: "a \<in> set (kn_enabled (ls s)) \<union> set (kn_disabled (ls s))" for s a
  proof -
    obtain k where k: "h a = Some k" "sig_num (ident (kev k)) = int s" "sig_valid (int s)"
      using assms(1) a unfolding links_ok_def by blast
    then show ?thesis using assms(2) [OF k(1)] by auto
  qed
qed (use assms(1) in \<open>simp_all add: links_ok_def\<close>)

lemma heap_sig_same:
  assumes "\<forall>a. map_option kn_sig (h' a) = map_option kn_sig (h a)"
  shows "links_ok h ls \<Longrightarrow> links_ok h' ls" "pending_ok h ls ps \<Longrightarrow> pending_ok h' ls ps"
proof -
  have same: "(\<exists>k'. h' a = Some k' \<and> sig_num (ident (kev k')) = sig_num (ident (kev k)) \<and> kn_signal_count k' = kn_signal_count k)"
    if "h a = Some k" for a k
    using spec [OF assms, of a] that by (cases "h' a") (auto simp: kn_sig_def)
  have bk: "(\<exists>k'. h a = Some k' \<and> kn_signal_count k' = kn_signal_count k)" if "h' a = Some k" for a k
    using spec [OF assms, of a] that by (cases "h a") (auto simp: kn_sig_def)
  show "links_ok h ls \<Longrightarrow> links_ok h' ls" using links_ok_cong same by blast
  show "pending_ok h ls ps \<Longrightarrow> pending_ok h' ls ps"
  proof -
    assume p: "pending_ok h ls ps"
    have "a \<in> set ps" if "a \<in> set (kn_enabled (ls s))" "h' a = Some k" "kn_signal_count k \<noteq> 0" for s a k
      using p bk [OF that(2)] that(1,3) by (auto simp: pending_ok_def)
    then show ?thesis using p by (simp add: pending_ok_def)
  qed
qed

lemma ext_same_fields: "ext_same w w' \<Longrightarrow> sfs w' = sfs w \<and> sigtbl w' = sigtbl w"
  unfolding ext_same_def by (cases w; cases w') simp

lemma sig_inv_ext:
  assumes "sig_inv w" "ext_same w w'"
  shows "sig_inv w'"
proof -
  have "map_option kn_sig x' = map_option kn_sig x" if "map_option kn_ext x' = map_option kn_ext x" for x x' :: "unit knote_scheme option"
    using that by (cases x; cases x') (simp_all add: kn_ext_def kn_sig_def)
  moreover have "\<forall>a. map_option kn_ext (knotes w' a) = map_option kn_ext (knotes w a)" using assms(2) by (simp add: ext_same_def)
  ultimately have s: "\<forall>a. map_option kn_sig (knotes w' a) = map_option kn_sig (knotes w a)" by blast
  have "sfs w' = sfs w" "sigtbl w' = sigtbl w" using ext_same_fields [OF assms(2)] by simp_all
  then show ?thesis using assms(1) heap_sig_same [OF s] by (auto simp: sig_inv_def)
qed

lemma sig_free_ext: "sig_free kn w \<Longrightarrow> ext_same w w' \<Longrightarrow> sig_free kn w'"
proof -
  assume a: "sig_free kn w" "ext_same w w'"
  have "kn_signal_count k' = 0" if k': "knotes w' kn = Some k'" for k'
  proof -
    have "map_option kn_ext (knotes w' kn) = map_option kn_ext (knotes w kn)" using a(2) by (simp add: ext_same_def)
    then obtain k where "knotes w kn = Some k" "kn_ext k' = kn_ext k" using k' by (cases "knotes w kn") auto
    then show ?thesis using a(1) by (auto simp: sig_free_def kn_ext_def)
  qed
  then show ?thesis using a(1) ext_same_fields [OF a(2)] by (simp add: sig_free_def)
qed

lemma sig_frame_simps [simp]:
  "op_frame fi kn r w (w'\<lparr>sfs := x\<rparr>) = op_frame fi kn r w w'"
  "op_frame fi kn r w (w'\<lparr>sigtbl := t\<rparr>) = op_frame fi kn r w w'"
  "op_frame fi kn r w (w'\<lparr>sig_os := o'\<rparr>) = op_frame fi kn r w w'"
  "op_frame fi kn r w (upd_os f w') = op_frame fi kn r w w'"
  "op_frame fi kn r w (insert_link s w') = op_frame fi kn r w w'"
  "op_frame fi kn r w (remove_link s w') = op_frame fi kn r w w'"
  by (simp_all add: op_frame_def upd_os_def insert_link_def remove_link_def)

subsection \<open>The tables under updates\<close>

lemma upd_link_simps [simp]:
  "sfs_links (upd_link s f st) = (sfs_links st)(s := f (sfs_links st s))"
  "sfs_pending (upd_link s f st) = sfs_pending st"
  by (simp_all add: upd_link_def)

lemma unlink_entry_simps [simp]:
  "kn_enabled (unlink_entry kn sl) = removeAll kn (kn_enabled sl)"
  "kn_disabled (unlink_entry kn sl) = removeAll kn (kn_disabled sl)"
  by (simp_all add: unlink_entry_def)

lemma links_at:
  assumes "links_ok h ls" "a \<in> set (kn_enabled (ls s)) \<or> a \<in> set (kn_disabled (ls s))"
  obtains k where "h a = Some k" "sig_num (ident (kev k)) = int s" "sig_valid (int s)"
proof -
  have "\<forall>a \<in> set (kn_enabled (ls s)) \<union> set (kn_disabled (ls s)).
      \<exists>k. h a = Some k \<and> sig_num (ident (kev k)) = int s \<and> sig_valid (int s)"
    using spec [OF assms(1) [unfolded links_ok_def], of s] by (elim conjE)
  then show ?thesis using assms(2) that by (meson UnI1 UnI2)
qed

lemma links_unique:
  assumes "links_ok h ls" "h a = Some k" "a \<in> set (kn_enabled (ls s)) \<or> a \<in> set (kn_disabled (ls s))"
  shows "s = nat (sig_num (ident (kev k)))"
proof -
  obtain k' where "h a = Some k'" "sig_num (ident (kev k')) = int s" using links_at [OF assms(1,3)] .
  then show ?thesis using assms(2) by simp
qed

text \<open>Replacing the lists of one surrogate.\<close>

lemma links_ok_upd:
  assumes "links_ok h ls" "distinct (kn_enabled sl)" "distinct (kn_disabled sl)" "set (kn_enabled sl) \<inter> set (kn_disabled sl) = {}"
    and "\<And>a. a \<in> set (kn_enabled sl) \<union> set (kn_disabled sl) \<Longrightarrow>
      \<exists>k. h a = Some k \<and> sig_num (ident (kev k)) = int s \<and> sig_valid (int s)"
  shows "links_ok h (ls(s := sl))"
  unfolding links_ok_def
proof
  fix s'
  show "distinct (kn_enabled ((ls(s := sl)) s')) \<and> distinct (kn_disabled ((ls(s := sl)) s')) \<and>
      set (kn_enabled ((ls(s := sl)) s')) \<inter> set (kn_disabled ((ls(s := sl)) s')) = {} \<and>
      (\<forall>a \<in> set (kn_enabled ((ls(s := sl)) s')) \<union> set (kn_disabled ((ls(s := sl)) s')).
         \<exists>k. h a = Some k \<and> sig_num (ident (kev k)) = int s' \<and> sig_valid (int s'))"
    using spec [OF assms(1) [unfolded links_ok_def], of s'] assms(2-) by (cases "s' = s") simp_all
qed

lemma table_ok_upd:
  assumes "table_ok t ls" "distinct xs" "0 \<in> set xs \<longleftrightarrow> \<not> sl_has_no_knotes sl"
  shows "table_ok (t(s := xs)) (ls(s := sl))"
  using assms by (simp add: table_ok_def)

lemma table_ok_keep:
  assumes "table_ok t ls" "sl_has_no_knotes sl = sl_has_no_knotes (ls s)"
  shows "table_ok t (ls(s := sl))"
  using table_ok_upd [OF assms(1), of "t s" sl s] assms by (simp add: table_ok_def)

text \<open>The pending list, when the surrogate of one knote changes.\<close>

lemma pending_upd:
  assumes p: "pending_ok h ls ps" and l: "links_ok h ls" and k: "h kn = Some k" "s = nat (sig_num (ident (kev k)))"
    and en: "removeAll kn (kn_enabled sl) = removeAll kn (kn_enabled (ls s))"
    and ps: "distinct ps'" "set ps' - {kn} = set ps - {kn}"
    and h: "\<And>a. a \<noteq> kn \<Longrightarrow> h' a = h a"
    and own: "kn \<in> set ps' \<Longrightarrow> kn \<in> set (kn_enabled sl)"
      "\<And>k'. kn \<in> set (kn_enabled sl) \<Longrightarrow> h' kn = Some k' \<Longrightarrow> kn_signal_count k' \<noteq> 0 \<Longrightarrow> kn \<in> set ps'"
  shows "pending_ok h' (ls(s := sl)) ps'"
proof -
  have mem: "a \<in> set (kn_enabled ((ls(s := sl)) s')) \<longleftrightarrow> a \<in> set (kn_enabled (ls s'))" if "a \<noteq> kn" for a s'
  proof -
    have "set (kn_enabled sl) - {kn} = set (kn_enabled (ls s)) - {kn}" using en by (metis set_removeAll)
    then show ?thesis using that by auto
  qed
  have own_s: "s' = s" if "kn \<in> set (kn_enabled (ls s'))" for s' using links_unique [OF l k(1)] that k(2) by auto
  have "\<exists>s'. a \<in> set (kn_enabled ((ls(s := sl)) s'))" if "a \<in> set ps'" for a
  proof (cases "a = kn")
    case True
    then show ?thesis using own(1) that by (intro exI [of _ s]) simp
  next
    case False
    then have "a \<in> set ps" using that ps(2) by blast
    then show ?thesis using p mem [OF False] by (auto simp: pending_ok_def)
  qed
  moreover have "a \<in> set ps'" if a: "a \<in> set (kn_enabled ((ls(s := sl)) s'))" "h' a = Some k'" "kn_signal_count k' \<noteq> 0" for a s' k'
  proof (cases "a = kn")
    case True
    then have "s' = s" using a(1) own_s by (auto split: if_splits)
    then show ?thesis using own(2) [of k'] a True by auto
  next
    case False
    then have "a \<in> set ps" using p a mem [OF False] h [OF False] by (auto simp: pending_ok_def)
    then show ?thesis using ps(2) False by blast
  qed
  ultimately show ?thesis using ps(1) by (simp add: pending_ok_def del: fun_upd_apply)
qed

subsection \<open>The callbacks\<close>

lemma sig_invE:
  assumes "sig_inv w"
  obtains st where "sfs w = Some st" "links_ok (knotes w) (sfs_links st)"
    "pending_ok (knotes w) (sfs_links st) (sfs_pending st)"
  using assms by (auto simp: sig_inv_def)

lemma link_of_eq:
  "knotes w kn = Some k \<Longrightarrow> sfs w = Some st \<Longrightarrow> sig_valid (sig_num (ident (kev k))) \<Longrightarrow>
    link_of kn w = Some (nat (sig_num (ident (kev k))), st)"
  by (simp add: link_of_def sig_valid_def)

lemma sig_os_simps [simp]:
  "sig_inv (w\<lparr>sig_os := x\<rparr>) = sig_inv w" "sig_inv (upd_os f w) = sig_inv w" "sig_inv (w\<lparr>errno := e\<rparr>) = sig_inv w"
  "sig_free kn (w\<lparr>sig_os := x\<rparr>) = sig_free kn w" "sig_free kn (upd_os f w) = sig_free kn w" "sig_free kn (w\<lparr>errno := e\<rparr>) = sig_free kn w"
  "sig_table (w\<lparr>sig_os := x\<rparr>) = sig_table w" "sig_table (upd_os f w) = sig_table w" "sig_table (w\<lparr>errno := e\<rparr>) = sig_table w"
  by (simp_all add: sig_inv_def sig_free_def sig_table_def upd_os_def)

lemma link_simps [simp]:
  "knotes (insert_link s w) = knotes w" "sfs (insert_link s w) = sfs w" "sig_os (insert_link s w) = sig_os w"
  "sigtbl (insert_link s w) = (sigtbl w)(s := if 0 \<in> set (sigtbl w s) then sigtbl w s else 0 # sigtbl w s)"
  "knotes (remove_link s w) = knotes w" "sfs (remove_link s w) = sfs w" "sig_os (remove_link s w) = sig_os w"
  "sigtbl (remove_link s w) = (sigtbl w)(s := removeAll 0 (sigtbl w s))"
  by (simp_all add: insert_link_def remove_link_def fun_eq_iff)

lemma upd_flags_ext: "ext_same w (upd_knote kn (upd_flags f) w)"
  by (rule ext_same_upd_knote) (simp add: kn_ext_def upd_flags_def)

lemma upd_flags_frame: "op_frame fi kn r w (upd_knote kn (upd_flags f) w)"
  by (rule op_frame_upd_knote) (simp add: kn_core_def upd_flags_def)

lemma surrogate_distinct:
  assumes "links_ok h ls"
  shows "distinct (kn_enabled (ls s))" "distinct (kn_disabled (ls s))" "set (kn_enabled (ls s)) \<inter> set (kn_disabled (ls s)) = {}"
  using spec [OF assms [unfolded links_ok_def], of s] by auto

lemma sig_inv_cong: "knotes w' = knotes w \<Longrightarrow> sfs w' = sfs w \<Longrightarrow> sig_inv w' = sig_inv w"
  by (simp add: sig_inv_def)

lemma sig_free_cong: "knotes w' = knotes w \<Longrightarrow> sfs w' = sfs w \<Longrightarrow> sig_free kn w' = sig_free kn w"
  by (simp add: sig_free_def)

lemma sig_table_cong: "sigtbl w' = sigtbl w \<Longrightarrow> sfs w' = sfs w \<Longrightarrow> sig_table w' = sig_table w"
  by (simp add: sig_table_def)

lemma create_link_inv:
  assumes "sig_inv w" "sig_free kn w" "knotes w kn = Some k" "sfs w = Some st" "sig_valid (sig_num (ident (kev k)))"
    and s: "s = nat (sig_num (ident (kev k)))"
    and w': "w' = (insert_link s w)\<lparr>sfs := Some (upd_link s (\<lambda>sl. sl\<lparr>kn_enabled := kn # kn_enabled sl\<rparr>) st)\<rparr>"
  shows "sig_inv w'" "sig_table w \<Longrightarrow> sig_table w'"
proof -
  have l: "links_ok (knotes w) (sfs_links st)" "pending_ok (knotes w) (sfs_links st) (sfs_pending st)"
    using assms(1,4) by (auto elim: sig_invE)
  have f: "kn \<notin> set (kn_enabled (sfs_links st s))" "kn \<notin> set (kn_disabled (sfs_links st s))" "kn \<notin> set (sfs_pending st)"
      "kn_signal_count k = 0"
    using assms(2,3,4) by (auto simp: sig_free_def)
  have n: "int s = sig_num (ident (kev k))" using assms(5) s by (simp add: sig_valid_def)
  let ?sl = "(sfs_links st s)\<lparr>kn_enabled := kn # kn_enabled (sfs_links st s)\<rparr>"
  have "links_ok (knotes w) ((sfs_links st)(s := ?sl))"
  proof (rule links_ok_upd [OF l(1)])
    show "\<exists>k. knotes w a = Some k \<and> sig_num (ident (kev k)) = int s \<and> sig_valid (int s)"
      if a: "a \<in> set (kn_enabled ?sl) \<union> set (kn_disabled ?sl)" for a
      using a assms(3,5) n links_at [OF l(1), of a s] by (cases "a = kn") auto
  qed (use surrogate_distinct [OF l(1), of s] f in auto)
  moreover have "pending_ok (knotes w) ((sfs_links st)(s := ?sl)) (sfs_pending st)"
    by (rule pending_upd [OF l(2,1) assms(3) s]) (use f l(2) assms(3) in \<open>auto simp: pending_ok_def\<close>)
  ultimately show "sig_inv w'" by (simp add: w' sig_inv_def del: fun_upd_apply)
  show "sig_table w'" if "sig_table w"
  proof -
    have t: "table_ok (sigtbl w) (sfs_links st)" using that assms(4) by (simp add: sig_table_def)
    then have "distinct (sigtbl w s)" by (simp add: table_ok_def)
    then show ?thesis using table_ok_upd [OF t] by (simp add: w' sig_table_def sl_has_no_knotes_def del: fun_upd_apply)
  qed
qed

lemma create_ok:
  assumes inv: "sig_inv w" and fr: "sig_free kn w" and k: "knotes w kn = Some k"
  shows "\<exists>w' rv. evfilt_signal_knote_create H kn w = Some (w', rv) \<and> op_frame fi kn r w w' \<and> sig_inv w' \<and>
    (rv < 0 \<longrightarrow> sig_free kn w') \<and> (sig_table w \<longrightarrow> sig_table w')"
proof (cases "\<not> sig_valid (sig_num (ident (kev k))) \<or> \<not> have_pidfd_open H \<and> sig_num (ident (kev k)) = SIGCHLD")
  case True
  then show ?thesis using assms by (auto simp: evfilt_signal_knote_create_def Let_def)
next
  case False
  define w1 where "w1 = upd_knote kn (upd_flags (set_flag EV_CLEAR)) w"
  have e: "ext_same w w1" and fr1: "op_frame fi kn r w w1" unfolding w1_def by (rule upd_flags_ext upd_flags_frame)+
  have i1: "sig_inv w1" "sig_free kn w1" using sig_inv_ext [OF inv e] sig_free_ext [OF fr e] by auto
  obtain st where st: "sfs w1 = Some st" using i1(1) by (rule sig_invE)
  define k1 where "k1 = upd_flags (set_flag EV_CLEAR) k"
  have k1: "knotes w1 kn = Some k1" "ident (kev k1) = ident (kev k)" using k by (simp_all add: w1_def k1_def upd_knote_def upd_flags_def)
  define s where "s = nat (sig_num (ident (kev k1)))"
  have lk: "link_of kn w1 = Some (s, st)" using link_of_eq [OF k1(1) st] False k1(2) by (simp add: s_def)
  define st2 where "st2 = upd_link s (\<lambda>sl. sl\<lparr>kn_enabled := kn # kn_enabled sl\<rparr>) st"
  define w2 where "w2 = (insert_link s w1)\<lparr>sfs := Some st2\<rparr>"
  have v: "sig_valid (sig_num (ident (kev k1)))" using False k1(2) by simp
  have nb: "(\<not> have_pidfd_open H \<and> sig_num (ident (kev k)) = SIGCHLD) = False" using False by blast
  note i2 = create_link_inv [OF i1 k1(1) st v s_def w2_def [unfolded st2_def]]
  have t1: "sig_table w1 = sig_table w" using ext_same_fields [OF e] by (intro sig_table_cong) auto
  have fr2: "op_frame fi kn r w w2" using fr1 by (simp add: w2_def)
  have os2: "sig_os w2 = sig_os w1" by (simp add: w2_def)
  obtain os' rv e where add: "hook_platform_add H s (sig_os w1) = (os', rv, e)" by (metis prod_cases3)
  show ?thesis
  proof (cases "sigtbl w1 s = [] \<and> rv \<noteq> 0")
    case True
    have f: "kn \<notin> set (kn_enabled (sfs_links st s))" "kn \<notin> set (kn_disabled (sfs_links st s))"
      using i1(2) st by (auto simp: sig_free_def)
    have u: "unlink_entry kn ((sfs_links st s)\<lparr>kn_enabled := kn # kn_enabled (sfs_links st s)\<rparr>) = sfs_links st s"
      using f by (simp add: unlink_entry_def removeAll_id)
    then have st3: "upd_link s (unlink_entry kn) st2 = st" by (simp add: st2_def upd_link_def)
    define w3 where "w3 = (if sl_has_no_knotes (sfs_links st s) then remove_link s ((insert_link s w1)\<lparr>sig_os := os', sfs := Some st\<rparr>)
        else (insert_link s w1)\<lparr>sig_os := os', sfs := Some st\<rparr>)"
    have w3: "knotes w3 = knotes w1" "sfs w3 = sfs w1" using st by (auto simp: w3_def)
    have "sig_table w3" if "sig_table w1"
    proof -
      have "sl_has_no_knotes (sfs_links st s)"
        using that st True by (auto simp: sig_table_def table_ok_def dest: spec [of _ s])
      then have "sigtbl w3 = sigtbl w1" using True by (auto simp: w3_def fun_eq_iff)
      then show ?thesis using that sig_table_cong w3(2) by blast
    qed
    moreover have "op_frame fi kn r w w3" using fr1 by (simp add: w3_def)
    moreover have "evfilt_signal_knote_create H kn w = Some (w3\<lparr>errno := e\<rparr>, -1)"
      using True v k1(2) nb k lk add os2 u st3
      by (simp add: evfilt_signal_knote_create_def Let_def w1_def [symmetric] st2_def [symmetric] w2_def [symmetric] w3_def)
        (use nb in blast)
    ultimately show ?thesis using i1 sig_inv_cong [OF w3] sig_free_cong [OF w3, of kn] t1 by simp
  next
    case False2: False
    have "evfilt_signal_knote_create H kn w = Some (if sigtbl w1 s = [] then w2\<lparr>sig_os := os'\<rparr> else w2, 0)"
      using False False2 k lk add os2
      by (auto simp: evfilt_signal_knote_create_def Let_def w1_def [symmetric] st2_def [symmetric] w2_def [symmetric])
    then show ?thesis using i2 fr2 t1 by simp
  qed
qed

lemma sig_modify_ok:
  assumes "sig_inv w" "knotes w kn = Some k"
  shows "\<exists>w'. evfilt_signal_knote_modify kn src w = Some (w', 0) \<and> op_frame fi kn r w w' \<and> sig_inv w'"
  using sig_inv_ext [OF assms(1) upd_flags_ext] upd_flags_frame assms(2) by (simp add: evfilt_signal_knote_modify_def)

text \<open>Moving a knote within its surrogate: out of all lists, to the enabled or to the
  disabled ones.\<close>

lemma move_links:
  assumes l: "links_ok h ls" and k: "h kn = Some k" "sig_num (ident (kev k)) = int s" "sig_valid (int s)"
    and en: "kn_enabled sl = removeAll kn (kn_enabled (ls s)) \<or> kn_enabled sl = kn # removeAll kn (kn_enabled (ls s))"
    and dis: "kn_disabled sl = removeAll kn (kn_disabled (ls s)) \<or> kn_disabled sl = kn # removeAll kn (kn_disabled (ls s))"
    and one: "\<not> (kn \<in> set (kn_enabled sl) \<and> kn \<in> set (kn_disabled sl))"
  shows "links_ok h (ls(s := sl))"
proof (rule links_ok_upd [OF l])
  note d = surrogate_distinct [OF l, of s]
  show "distinct (kn_enabled sl)" "distinct (kn_disabled sl)"
    using d(1,2) en dis by (auto simp: distinct_removeAll)
  show "set (kn_enabled sl) \<inter> set (kn_disabled sl) = {}" using d(3) en dis one by auto
  show "\<exists>k. h a = Some k \<and> sig_num (ident (kev k)) = int s \<and> sig_valid (int s)"
    if a: "a \<in> set (kn_enabled sl) \<union> set (kn_disabled sl)" for a
  proof (cases "a = kn")
    case False
    then have "a \<in> set (kn_enabled (ls s)) \<or> a \<in> set (kn_disabled (ls s))" using a en dis by auto
    then show ?thesis using links_at [OF l] by metis
  qed (use k in simp)
qed

lemma heap_count:
  assumes "links_ok h ls" "h kn = Some k"
  shows "links_ok (h(kn := Some (k\<lparr>kn_signal_count := c\<rparr>))) ls"
  by (rule links_ok_cong [OF assms(1)]) (use assms(2) in auto)

lemma delete_ok:
  assumes inv: "sig_inv w" and k: "knotes w kn = Some k" and v: "sig_valid (sig_num (ident (kev k)))"
  shows "\<exists>w'. evfilt_signal_knote_delete H kn w = Some (w', 0) \<and> op_frame fi kn r w w' \<and> sig_inv w' \<and> sig_free kn w' \<and>
    (sig_table w \<longrightarrow> sig_table w')"
proof -
  obtain st where st: "sfs w = Some st" "links_ok (knotes w) (sfs_links st)"
      "pending_ok (knotes w) (sfs_links st) (sfs_pending st)"
    using inv by (rule sig_invE)
  define s where "s = nat (sig_num (ident (kev k)))"
  have n: "sig_num (ident (kev k)) = int s" using v by (simp add: s_def sig_valid_def)
  have lk: "link_of kn w = Some (s, st)" using link_of_eq [OF k st(1) v] by (simp add: s_def)
  define st2 where "st2 = (upd_link s (unlink_entry kn) st)\<lparr>sfs_pending := removeAll kn (sfs_pending st)\<rparr>"
  let ?sl = "unlink_entry kn (sfs_links st s)"
  have ls: "sfs_links st2 = (sfs_links st)(s := ?sl)" "sfs_pending st2 = removeAll kn (sfs_pending st)" by (simp_all add: st2_def)
  define w2 where "w2 = upd_knote kn (\<lambda>k. k\<lparr>kn_signal_count := 0\<rparr>) (w\<lparr>sfs := Some st2\<rparr>)"
  define w3 where "w3 = (if sl_has_no_knotes ?sl then remove_link s w2 else w2)"
  have kn3: "knotes w3 = (knotes w)(kn := Some (k\<lparr>kn_signal_count := 0\<rparr>))" "sfs w3 = Some st2"
    using k by (auto simp: w3_def w2_def upd_knote_def)
  have t3: "sigtbl w3 = (sigtbl w)(s := if sl_has_no_knotes ?sl then removeAll 0 (sigtbl w s) else sigtbl w s)"
    by (auto simp: w3_def w2_def upd_knote_def fun_eq_iff)
  have "sig_table w3" if "sig_table w"
  proof -
    have t: "table_ok (sigtbl w) (sfs_links st)" using that st(1) by (simp add: sig_table_def)
    have "0 \<in> set (sigtbl w s)" if "\<not> sl_has_no_knotes ?sl"
    proof -
      have "\<not> sl_has_no_knotes (sfs_links st s)" using that by (auto simp: sl_has_no_knotes_def)
      then show ?thesis using t by (simp add: table_ok_def)
    qed
    moreover have "distinct (sigtbl w s)" using t by (simp add: table_ok_def)
    ultimately show ?thesis
      using table_ok_upd [OF t] kn3(2) by (simp add: sig_table_def t3 ls distinct_removeAll del: fun_upd_apply)
  qed
  moreover have "links_ok (knotes w3) (sfs_links st2)"
    unfolding kn3 ls by (rule heap_count [OF move_links [OF st(2) k n]]) (use v n k in auto)
  moreover have "pending_ok (knotes w3) (sfs_links st2) (sfs_pending st2)"
    unfolding ls kn3 by (rule pending_upd [OF st(3,2) k s_def]) (use st(3) in \<open>auto simp: pending_ok_def distinct_removeAll\<close>)
  ultimately have i3: "sig_inv w3" "sig_table w \<Longrightarrow> sig_table w3" using kn3(2) by (auto intro: sig_invI)
  have "kn \<notin> set (kn_enabled (sfs_links st s')) \<and> kn \<notin> set (kn_disabled (sfs_links st s'))" if "s' \<noteq> s" for s'
    using links_unique [OF st(2) k, of s', folded s_def] that by blast
  then have out: "kn \<notin> set (kn_enabled (sfs_links st2 s'))" "kn \<notin> set (kn_disabled (sfs_links st2 s'))" for s'
    by (simp_all add: ls)
  have f3: "sig_free kn w3" using kn3 out by (simp add: sig_free_def ls)
  have fr: "op_frame fi kn r w w3"
  proof -
    have "op_frame fi kn r w (upd_knote kn (\<lambda>k. k\<lparr>kn_signal_count := 0\<rparr>) (w\<lparr>sfs := Some st2\<rparr>))"
      by (rule op_frame_trans [of _ _ _ _ "w\<lparr>sfs := Some st2\<rparr>"]) (auto intro!: op_frame_upd_knote simp: kn_core_def)
    then show ?thesis by (simp add: w3_def w2_def)
  qed
  have "evfilt_signal_knote_delete H kn w =
      Some (if sigtbl w3 s = [] then w3\<lparr>sig_os := fst (hook_platform_remove H s (sig_os w3))\<rparr> else w3, 0)"
    using lk by (simp add: evfilt_signal_knote_delete_def Let_def st2_def [symmetric] w2_def [symmetric] w3_def ls(1))
  then show ?thesis using i3 f3 fr by simp
qed

text \<open>Enabling and disabling: both put the knote at the head of one list of its surrogate.\<close>

lemma shift_inv:
  assumes inv: "sig_inv w" and st: "sfs w = Some st" and k: "knotes w kn = Some k" and v: "sig_valid (sig_num (ident (kev k)))"
    and s: "s = nat (sig_num (ident (kev k)))"
    and on: "kn_enabled sl = kn # removeAll kn (kn_enabled (sfs_links st s)) \<and> kn_disabled sl = removeAll kn (kn_disabled (sfs_links st s)) \<and>
          (kn_signal_count k \<noteq> 0 \<longrightarrow> kn \<in> set ps') \<or>
        kn_enabled sl = removeAll kn (kn_enabled (sfs_links st s)) \<and> kn_disabled sl = kn # removeAll kn (kn_disabled (sfs_links st s)) \<and>
          kn \<notin> set ps'"
    and ps: "distinct ps'" "set ps' - {kn} = set (sfs_pending st) - {kn}"
    and w': "w' = w\<lparr>sfs := Some (st\<lparr>sfs_links := (sfs_links st)(s := sl), sfs_pending := ps'\<rparr>)\<rparr>"
  shows "sig_inv w'"
    "sig_table w \<Longrightarrow> kn \<in> set (kn_enabled (sfs_links st s)) \<or> kn \<in> set (kn_disabled (sfs_links st s)) \<Longrightarrow> sig_table w'"
proof -
  have l: "links_ok (knotes w) (sfs_links st)" "pending_ok (knotes w) (sfs_links st) (sfs_pending st)"
    using inv st by (auto elim: sig_invE)
  have n: "sig_num (ident (kev k)) = int s" using v s by (simp add: sig_valid_def)
  have "links_ok (knotes w) ((sfs_links st)(s := sl))"
  proof (rule move_links [OF l(1) k n])
    show "sig_valid (int s)" using v n by simp
    show "\<not> (kn \<in> set (kn_enabled sl) \<and> kn \<in> set (kn_disabled sl))" using on by fastforce
  qed (use on in blast)+
  moreover have "pending_ok (knotes w) ((sfs_links st)(s := sl)) ps'"
  proof (rule pending_upd [OF l(2,1) k s])
    show "removeAll kn (kn_enabled sl) = removeAll kn (kn_enabled (sfs_links st s))" using on by fastforce
    show "kn \<in> set ps' \<Longrightarrow> kn \<in> set (kn_enabled sl)" using on by fastforce
    show "kn \<in> set ps'" if "kn \<in> set (kn_enabled sl)" "knotes w kn = Some k'" "kn_signal_count k' \<noteq> 0" for k'
      using on that k by fastforce
  qed (use ps in simp_all)
  ultimately show "sig_inv w'" by (simp add: w' sig_inv_def del: fun_upd_apply)
  show "sig_table w'" if t: "sig_table w" and lk: "kn \<in> set (kn_enabled (sfs_links st s)) \<or> kn \<in> set (kn_disabled (sfs_links st s))"
  proof -
    have "sl_has_no_knotes sl = sl_has_no_knotes (sfs_links st s)"
      unfolding sl_has_no_knotes_def using on lk by (metis list.distinct(1) list.set_cases)
    then show ?thesis using table_ok_keep t st by (simp add: w' sig_table_def del: fun_upd_apply)
  qed
qed

text \<open>The knote is on a list of its surrogate.\<close>

definition sig_listed :: "addr \<Rightarrow> ('o, 'z) sw \<Rightarrow> bool" where
  "sig_listed kn w \<longleftrightarrow>
     (\<exists>st s. sfs w = Some st \<and> (kn \<in> set (kn_enabled (sfs_links st s)) \<or> kn \<in> set (kn_disabled (sfs_links st s))))"

lemma sig_listed_at:
  assumes "sig_inv w" "sig_listed kn w" "sfs w = Some st" "knotes w kn = Some k"
  shows "kn \<in> set (kn_enabled (sfs_links st (nat (sig_num (ident (kev k)))))) \<or>
    kn \<in> set (kn_disabled (sfs_links st (nat (sig_num (ident (kev k))))))"
proof -
  have l: "links_ok (knotes w) (sfs_links st)" using assms(1,3) by (auto elim: sig_invE)
  obtain s where "kn \<in> set (kn_enabled (sfs_links st s)) \<or> kn \<in> set (kn_disabled (sfs_links st s))"
    using assms(2,3) by (auto simp: sig_listed_def)
  then show ?thesis using links_unique [OF l assms(4)] by blast
qed

lemma sfs_frame: "op_frame fi kn r w (w\<lparr>sfs := x\<rparr>)"
  by simp

lemma enable_ok:
  assumes inv: "sig_inv w" and k: "knotes w kn = Some k" and v: "sig_valid (sig_num (ident (kev k)))"
  shows "\<exists>w'. evfilt_signal_knote_enable H kn w = Some (w', 0) \<and> op_frame fi kn r w w' \<and> sig_inv w' \<and>
    (sig_table w \<and> sig_listed kn w \<longrightarrow> sig_table w')"
proof -
  obtain st where st: "sfs w = Some st" and p: "pending_ok (knotes w) (sfs_links st) (sfs_pending st)" using inv by (rule sig_invE)
  define s where "s = nat (sig_num (ident (kev k)))"
  have lk: "link_of kn w = Some (s, st)" using link_of_eq [OF k st v] by (simp add: s_def)
  define sl where "sl = (unlink_entry kn (sfs_links st s))\<lparr>kn_enabled := kn # removeAll kn (kn_enabled (sfs_links st s))\<rparr>"
  let ?c = "kn_signal_count k \<noteq> 0 \<and> kn \<notin> set (sfs_pending st)"
  define ps where "ps = (if ?c then kn # sfs_pending st else sfs_pending st)"
  define w1 where "w1 = w\<lparr>sfs := Some (st\<lparr>sfs_links := (sfs_links st)(s := sl), sfs_pending := ps\<rparr>)\<rparr>"
  have "sig_inv w1" "sig_table w \<Longrightarrow> sig_listed kn w \<Longrightarrow> sig_table w1"
    using shift_inv [OF inv st k v s_def _ _ _ w1_def] sig_listed_at [OF inv _ st k, folded s_def] p
    by (auto simp: sl_def ps_def pending_ok_def)
  moreover have "evfilt_signal_knote_enable H kn w = Some (if ?c then upd_os (hook_eventfd_raise H (sig_efd w1)) w1 else w1, 0)"
    using k lk by (auto simp: evfilt_signal_knote_enable_def Let_def upd_link_def w1_def sl_def ps_def word_gt_0)
  ultimately show ?thesis by (simp add: w1_def)
qed

lemma disable_ok:
  assumes inv: "sig_inv w" and k: "knotes w kn = Some k" and v: "sig_valid (sig_num (ident (kev k)))"
  shows "\<exists>w'. evfilt_signal_knote_disable kn w = Some (w', 0) \<and> op_frame fi kn r w w' \<and> sig_inv w' \<and>
    (sig_table w \<and> sig_listed kn w \<longrightarrow> sig_table w')"
proof -
  obtain st where st: "sfs w = Some st" and p: "pending_ok (knotes w) (sfs_links st) (sfs_pending st)" using inv by (rule sig_invE)
  define s where "s = nat (sig_num (ident (kev k)))"
  have lk: "link_of kn w = Some (s, st)" using link_of_eq [OF k st v] by (simp add: s_def)
  define sl where "sl = (unlink_entry kn (sfs_links st s))\<lparr>kn_disabled := kn # removeAll kn (kn_disabled (sfs_links st s))\<rparr>"
  define w1 where "w1 = w\<lparr>sfs := Some (st\<lparr>sfs_links := (sfs_links st)(s := sl), sfs_pending := removeAll kn (sfs_pending st)\<rparr>)\<rparr>"
  have "sig_inv w1" "sig_table w \<Longrightarrow> sig_listed kn w \<Longrightarrow> sig_table w1"
    using shift_inv [OF inv st k v s_def _ _ _ w1_def] sig_listed_at [OF inv _ st k, folded s_def] p
    by (auto simp: sl_def pending_ok_def distinct_removeAll)
  moreover have "evfilt_signal_knote_disable kn w = Some (w1, 0)"
    using lk by (simp add: evfilt_signal_knote_disable_def Let_def upd_link_def w1_def sl_def)
  ultimately show ?thesis by (simp add: w1_def)
qed

subsection \<open>Dispatch\<close>

definition bump :: "addr set \<Rightarrow> (addr \<Rightarrow> unit knote_scheme option) \<Rightarrow> addr \<Rightarrow> unit knote_scheme option" where
  "bump A h a = (if a \<in> A then map_option (\<lambda>k. k\<lparr>kn_signal_count := kn_signal_count k + 1\<rparr>) (h a) else h a)"

lemma bump_empty [simp]: "bump {} h = h"
  by (simp add: bump_def fun_eq_iff)

lemma bump_step:
  "kn \<notin> A \<Longrightarrow> bump A (knotes (upd_knote kn (\<lambda>k. k\<lparr>kn_signal_count := kn_signal_count k + 1\<rparr>) w)) = bump (insert kn A) (knotes w)"
  by (auto simp: bump_def upd_knote_def fun_eq_iff)

lemma bump_enabled_eq:
  assumes "distinct kns" "\<forall>a \<in> set kns. knotes w a \<noteq> None"
  shows "bump_enabled kns st wake w =
    Some (w\<lparr>knotes := bump (set kns) (knotes w)\<rparr>,
      st\<lparr>sfs_pending := rev (filter (\<lambda>a. a \<notin> set (sfs_pending st)) kns) @ sfs_pending st\<rparr>,
      wake \<or> \<not> set kns \<subseteq> set (sfs_pending st))"
  using assms
proof (induction kns arbitrary: st wake w)
  case Nil
  then show ?case by simp
next
  case (Cons kn kns)
  let ?w = "upd_knote kn (\<lambda>k. k\<lparr>kn_signal_count := kn_signal_count k + 1\<rparr>) w"
  have al: "\<forall>a \<in> set kns. knotes ?w a \<noteq> None" using Cons.prems by (simp add: upd_knote_def)
  have h: "?w\<lparr>knotes := bump (set kns) (knotes ?w)\<rparr> = w\<lparr>knotes := bump (set (kn # kns)) (knotes w)\<rparr>"
    using bump_step [of kn "set kns" w] Cons.prems(1) by (simp add: upd_knote_def)
  obtain k where k: "knotes w kn = Some k" using Cons.prems(2) by auto
  have f: "filter (\<lambda>a. a \<notin> insert kn P) kns = filter (\<lambda>a. a \<notin> P) kns" for P
    using Cons.prems(1) by (intro filter_cong) auto
  show ?case
  proof (cases "kn \<in> set (sfs_pending st)")
    case True
    then show ?thesis using Cons.IH [OF _ al] Cons.prems(1) k unfolding h by simp
  next
    case False
    then show ?thesis
      using Cons.IH [OF _ al, of "st\<lparr>sfs_pending := kn # sfs_pending st\<rparr>" True] Cons.prems(1) k f [of "set (sfs_pending st)"]
      unfolding h by simp
  qed
qed

lemma bump_disabled_eq:
  assumes "distinct kns" "\<forall>a \<in> set kns. knotes w a \<noteq> None"
  shows "bump_disabled kns w = Some (w\<lparr>knotes := bump (set kns) (knotes w)\<rparr>)"
  using assms
proof (induction kns arbitrary: w)
  case (Cons kn kns)
  let ?w = "upd_knote kn (\<lambda>k. k\<lparr>kn_signal_count := kn_signal_count k + 1\<rparr>) w"
  have al: "\<forall>a \<in> set kns. knotes ?w a \<noteq> None" using Cons.prems by (simp add: upd_knote_def)
  have h: "?w\<lparr>knotes := bump (set kns) (knotes ?w)\<rparr> = w\<lparr>knotes := bump (set (kn # kns)) (knotes w)\<rparr>"
    using bump_step [of kn "set kns" w] Cons.prems(1) by (simp add: upd_knote_def)
  obtain k where "knotes w kn = Some k" using Cons.prems(2) by auto
  then show ?case using Cons.IH [OF _ al] Cons.prems(1) unfolding h by simp
qed simp

text \<open>What the dispatch of a valid signal does, when this filter has a surrogate on it.\<close>

definition watchers :: "sig_filter_state \<Rightarrow> nat \<Rightarrow> addr set" where
  "watchers st s = set (kn_enabled (sfs_links st s)) \<union> set (kn_disabled (sfs_links st s))"

lemma bump_bump: "A \<inter> B = {} \<Longrightarrow> bump B (bump A h) = bump (A \<union> B) h"
  by (auto simp: bump_def fun_eq_iff)

text \<open>Dispatch and delivery leave the kqueue and the identity of its knotes alone.\<close>

definition sig_frame :: "('o, 'z) sw \<Rightarrow> ('o, 'z) sw \<Rightarrow> bool" where
  "sig_frame w w' \<longleftrightarrow>
     kq_filt w' = kq_filt w \<and> kq_knote_count w' = kq_knote_count w \<and> next_addr w' = next_addr w \<and>
     (\<forall>a. map_option kn_core (knotes w' a) = map_option kn_core (knotes w a))"

lemma kn_core_count [simp]: "kn_core (k\<lparr>kn_signal_count := c\<rparr>) = kn_core k"
  by (simp add: kn_core_def)

lemma sig_frame_refl [simp]: "sig_frame w w"
  by (simp add: sig_frame_def)

lemma sig_frame_trans: "sig_frame w w' \<Longrightarrow> sig_frame w' w'' \<Longrightarrow> sig_frame w w''"
  by (simp add: sig_frame_def)

lemma sig_frame_core: "sig_frame w w' \<Longrightarrow> core_inv D R w \<Longrightarrow> core_inv D R w'"
proof -
  assume f: "sig_frame w w'" and c: "core_inv D R w"
  have "map_option kn_core (knotes w' a) = map_option kn_core (knotes w a)" for a using f by (simp add: sig_frame_def)
  then have "dom (knotes w') = dom (knotes w)" unfolding dom_def by (metis option.map_disc_iff)
  then show ?thesis using f c unfolding core_inv_defs sig_frame_def by simp
qed

text \<open>All that dispatch does to the operating system is to raise the eventfd.\<close>

definition raised :: "'o sig_hooks \<Rightarrow> 'o \<Rightarrow> 'o \<Rightarrow> bool" where
  "raised H x x' \<longleftrightarrow> (\<exists>fds. x' = fold (hook_eventfd_raise H) fds x)"

lemma raised_refl [simp]: "raised H x x"
  unfolding raised_def by (rule exI [of _ "[]"]) simp

lemma raised_one [simp]: "raised H x (hook_eventfd_raise H fd x)"
  unfolding raised_def by (rule exI [of _ "[fd]"]) simp

lemma raised_trans: "raised H x y \<Longrightarrow> raised H y z \<Longrightarrow> raised H x z"
  unfolding raised_def by (metis fold_append comp_apply)

lemma dispatch_link_ok:
  assumes inv: "sig_inv w" and st: "sfs w = Some st"
  shows "\<exists>w' ps. sig_dispatch_link H s w = Some w' \<and> sig_inv w' \<and>
    knotes w' = bump (watchers st s) (knotes w) \<and> sfs w' = Some (st\<lparr>sfs_pending := ps\<rparr>) \<and>
    set ps = set (sfs_pending st) \<union> set (kn_enabled (sfs_links st s)) \<and> sigtbl w' = sigtbl w \<and> sig_frame w w' \<and>
    raised H (sig_os w) (sig_os w')"
proof -
  have l: "links_ok (knotes w) (sfs_links st)" "pending_ok (knotes w) (sfs_links st) (sfs_pending st)"
    using inv st by (auto elim: sig_invE)
  note d = surrogate_distinct [OF l(1), of s]
  let ?en = "kn_enabled (sfs_links st s)" and ?dis = "kn_disabled (sfs_links st s)"
  have al: "\<forall>a \<in> set ?en. knotes w a \<noteq> None" "\<forall>a \<in> set ?dis. knotes w a \<noteq> None"
    using links_at [OF l(1)] by (metis option.distinct(1))+
  define ps where "ps = rev (filter (\<lambda>a. a \<notin> set (sfs_pending st)) ?en) @ sfs_pending st"
  define w1 where "w1 = w\<lparr>knotes := bump (set ?en) (knotes w)\<rparr>"
  have e1: "bump_enabled ?en st False w = Some (w1, st\<lparr>sfs_pending := ps\<rparr>, \<not> set ?en \<subseteq> set (sfs_pending st))"
    using bump_enabled_eq [OF d(1) al(1), of st False] by (simp add: w1_def ps_def)
  have "\<forall>a \<in> set ?dis. knotes w1 a \<noteq> None" using al(2) by (simp add: w1_def bump_def)
  then have e2: "bump_disabled ?dis w1 = Some (w\<lparr>knotes := bump (watchers st s) (knotes w)\<rparr>)"
    using bump_disabled_eq [OF d(2), of w1] bump_bump [OF d(3), of "knotes w"] by (simp add: w1_def watchers_def)
  define w2 where "w2 = w\<lparr>knotes := bump (watchers st s) (knotes w), sfs := Some (st\<lparr>sfs_pending := ps\<rparr>)\<rparr>"
  have run: "sig_dispatch_link H s w = Some (if \<not> set ?en \<subseteq> set (sfs_pending st) then upd_os (hook_eventfd_raise H (sig_efd w2)) w2 else w2)"
    using st e1 e2 by (simp add: sig_dispatch_link_def Let_def w2_def)
  have sps: "set ps = set (sfs_pending st) \<union> set ?en" by (auto simp: ps_def)
  have "links_ok (knotes w2) (sfs_links st)"
    by (rule links_ok_cong [OF l(1)]) (auto simp: w2_def bump_def)
  moreover have "pending_ok (knotes w2) (sfs_links st) ps"
  proof -
    have "distinct ps" using l(2) d(1) by (auto simp: ps_def pending_ok_def)
    moreover have "\<exists>s'. a \<in> set (kn_enabled (sfs_links st s'))" if "a \<in> set ps" for a
      using that l(2) by (auto simp: sps pending_ok_def)
    moreover have "a \<in> set ps" if a: "a \<in> set (kn_enabled (sfs_links st s'))" "knotes w2 a = Some k" "kn_signal_count k \<noteq> 0" for s' a k
    proof (cases "a \<in> watchers st s")
      case True
      obtain k0 where k0: "knotes w a = Some k0" using links_at [OF l(1), of a s'] a(1) by blast
      have "s' = s" using links_unique [OF l(1) k0, of s'] links_unique [OF l(1) k0, of s] a(1) True by (auto simp: watchers_def)
      then show ?thesis using a(1) by (simp add: sps)
    next
      case False
      then have "knotes w a = Some k" using a(2) by (simp add: w2_def bump_def)
      then show ?thesis using l(2) a by (auto simp: sps pending_ok_def)
    qed
    ultimately show ?thesis by (simp add: pending_ok_def)
  qed
  ultimately have "sig_inv w2" by (intro sig_invI [of _ "st\<lparr>sfs_pending := ps\<rparr>"]) (simp_all add: w2_def)
  moreover have "sig_frame w w2" by (auto simp: sig_frame_def w2_def bump_def option.map_comp comp_def)
  ultimately show ?thesis using run sps by (auto simp: w2_def upd_os_def sig_frame_def)
qed

subsection \<open>Delivery\<close>

definition quiet :: "addr set \<Rightarrow> (addr \<Rightarrow> unit knote_scheme option) \<Rightarrow> addr \<Rightarrow> unit knote_scheme option" where
  "quiet A h a = (if a \<in> A then map_option (\<lambda>k. k\<lparr>kn_signal_count := 0\<rparr>) (h a) else h a)"

lemma quiet_empty [simp]: "quiet {} h = h"
  by (simp add: quiet_def fun_eq_iff)

lemma quiet_step:
  "quiet A (knotes (upd_knote kn (\<lambda>k. k\<lparr>kn_signal_count := 0\<rparr>) w)) = quiet (insert kn A) (knotes w)"
  by (auto simp: quiet_def upd_knote_def fun_eq_iff option.map_comp o_def)

lemma sig_emit_eq:
  assumes "distinct kns" "\<forall>a \<in> set kns. knotes w a \<noteq> None" "sfs w = Some st"
  shows "sig_emit n kns w =
    Some (w\<lparr>knotes := quiet (set (take n kns)) (knotes w),
            sfs := Some (st\<lparr>sfs_pending := filter (\<lambda>a. a \<notin> set (take n kns)) (sfs_pending st)\<rparr>)\<rparr>,
      take n kns, map (\<lambda>a. sig_event (the (knotes w a))) (take n kns))"
  using assms
proof (induction n kns w arbitrary: st rule: sig_emit.induct)
  case (1 n w)
  then show ?case by simp
next
  case (2 kn kns w)
  then show ?case by simp
next
  case (3 n kn kns w)
  define st1 where "st1 = st\<lparr>sfs_pending := removeAll kn (sfs_pending st)\<rparr>"
  define w1 where "w1 = upd_knote kn (\<lambda>k. k\<lparr>kn_signal_count := 0\<rparr>) (w\<lparr>sfs := Some st1\<rparr>)"
  obtain k where k: "knotes w kn = Some k" using "3.prems"(2) by auto
  have w1: "sfs w1 = Some st1" "\<forall>a \<in> set kns. knotes w1 a \<noteq> None" "\<And>a. a \<in> set kns \<Longrightarrow> knotes w1 a = knotes w a"
    using "3.prems" by (auto simp: w1_def upd_knote_def)
  have ih: "sig_emit n kns w1 =
    Some (w1\<lparr>knotes := quiet (set (take n kns)) (knotes w1),
            sfs := Some (st1\<lparr>sfs_pending := filter (\<lambda>a. a \<notin> set (take n kns)) (sfs_pending st1)\<rparr>)\<rparr>,
      take n kns, map (\<lambda>a. sig_event (the (knotes w1 a))) (take n kns))"
    using "3.IH" [OF k "3.prems"(3) refl refl _ w1(2,1) [unfolded w1_def st1_def]] "3.prems"(1)
    unfolding w1_def st1_def by (simp only: distinct.simps)
  have "quiet (set (take n kns)) (knotes w1) = quiet (set (take (Suc n) (kn # kns))) (knotes w)"
    using quiet_step [of "set (take n kns)" kn "w\<lparr>sfs := Some st1\<rparr>"] by (simp add: w1_def)
  then have "w1\<lparr>knotes := quiet (set (take n kns)) (knotes w1),
        sfs := Some (st1\<lparr>sfs_pending := filter (\<lambda>a. a \<notin> set (take n kns)) (sfs_pending st1)\<rparr>)\<rparr> =
      w\<lparr>knotes := quiet (set (take (Suc n) (kn # kns))) (knotes w),
        sfs := Some (st\<lparr>sfs_pending := filter (\<lambda>a. a \<notin> set (take (Suc n) (kn # kns))) (sfs_pending st)\<rparr>)\<rparr>"
    by (simp add: w1_def st1_def upd_knote_def removeAll_filter_not_eq eq_commute [of kn])
  moreover have "map (\<lambda>a. sig_event (the (knotes w1 a))) (take n kns) = map (\<lambda>a. sig_event (the (knotes w a))) (take n kns)"
    by (rule map_cong) (auto dest: in_set_takeD simp: w1(3))
  ultimately show ?case using ih k "3.prems"(3) by (simp add: Let_def st1_def [symmetric] w1_def [symmetric])
qed

lemma emit_ok:
  assumes inv: "sig_inv w" and st: "sfs w = Some st"
  shows "\<exists>w'. sig_emit n (sfs_pending st) w =
      Some (w', take n (sfs_pending st), map (\<lambda>a. sig_event (the (knotes w a))) (take n (sfs_pending st))) \<and>
    sig_inv w' \<and> knotes w' = quiet (set (take n (sfs_pending st))) (knotes w) \<and>
    sfs w' = Some (st\<lparr>sfs_pending := drop n (sfs_pending st)\<rparr>) \<and> sigtbl w' = sigtbl w \<and> sig_os w' = sig_os w \<and> sig_frame w w'"
proof -
  have l: "links_ok (knotes w) (sfs_links st)" "pending_ok (knotes w) (sfs_links st) (sfs_pending st)"
    using inv st by (auto elim: sig_invE)
  have d: "distinct (sfs_pending st)" using l(2) by (simp add: pending_ok_def)
  have al: "\<forall>a \<in> set (sfs_pending st). knotes w a \<noteq> None"
  proof
    fix a assume "a \<in> set (sfs_pending st)"
    then obtain s where "a \<in> set (kn_enabled (sfs_links st s))" using l(2) by (auto simp: pending_ok_def)
    then show "knotes w a \<noteq> None" using links_at [OF l(1), of a s] by auto
  qed
  let ?A = "set (take n (sfs_pending st))"
  have "filter (\<lambda>a. a \<notin> ?A) (take n (sfs_pending st) @ drop n (sfs_pending st)) = drop n (sfs_pending st)"
    using d unfolding filter_append
    by (simp add: filter_empty_conv filter_id_conv) (metis append_take_drop_id distinct_append disjoint_iff)
  then have f: "filter (\<lambda>a. a \<notin> ?A) (sfs_pending st) = drop n (sfs_pending st)" by simp
  define w' where "w' = w\<lparr>knotes := quiet ?A (knotes w), sfs := Some (st\<lparr>sfs_pending := drop n (sfs_pending st)\<rparr>)\<rparr>"
  have "links_ok (knotes w') (sfs_links st)"
    by (rule links_ok_cong [OF l(1)]) (auto simp: w'_def quiet_def)
  moreover have "pending_ok (knotes w') (sfs_links st) (drop n (sfs_pending st))"
  proof -
    have "a \<in> set (drop n (sfs_pending st))" if a: "a \<in> set (kn_enabled (sfs_links st s))" "knotes w' a = Some k" "kn_signal_count k \<noteq> 0" for s a k
    proof -
      have "a \<notin> ?A" using a(2,3) by (auto simp: w'_def quiet_def)
      moreover have "a \<in> set (sfs_pending st)" using l(2) a calculation by (auto simp: pending_ok_def w'_def quiet_def)
      ultimately show ?thesis by (metis Un_iff append_take_drop_id set_append)
    qed
    moreover have "\<exists>s. a \<in> set (kn_enabled (sfs_links st s))" if "a \<in> set (drop n (sfs_pending st))" for a
      using l(2) in_set_dropD [OF that] by (auto simp: pending_ok_def)
    ultimately show ?thesis using d by (simp add: pending_ok_def)
  qed
  ultimately have "sig_inv w'" by (intro sig_invI [of _ "st\<lparr>sfs_pending := drop n (sfs_pending st)\<rparr>"]) (simp_all add: w'_def)
  moreover have "sig_frame w w'" by (auto simp: sig_frame_def w'_def quiet_def option.map_comp comp_def)
  ultimately show ?thesis using sig_emit_eq [OF d al st, of n] by (simp add: f w'_def)
qed

subsection \<open>The contract of the filter\<close>

definition sig_knote_zero :: "unit knote_scheme" where
  "sig_knote_zero = \<lparr>kev = EV_SET 0 0 0 0 0 0, kn_flags = 0, kn_ref = 0, kn_signal_count = 0\<rparr>"

text \<open>Knotes for signals in the range of the table.\<close>

definition sig_adm :: "nat \<Rightarrow> u64 \<Rightarrow> bool" where
  "sig_adm fi i \<longleftrightarrow> (fi = 5 \<longrightarrow> sig_valid (sig_num i))"

lemma sig_inv_new:
  assumes "core_wf w" "sig_inv w" "knote_new sig_knote_zero w = (w', Some kn)"
  shows "sig_inv (upd_knote kn (\<lambda>k. k\<lparr>kev := e\<rparr>) w') \<and> sig_free kn (upd_knote kn (\<lambda>k. k\<lparr>kev := e\<rparr>) w')"
proof -
  obtain st where st: "sfs w = Some st" "links_ok (knotes w) (sfs_links st)" "pending_ok (knotes w) (sfs_links st) (sfs_pending st)"
    using assms(2) by (rule sig_invE)
  have a: "kn = next_addr w" and w': "w' = w\<lparr>next_addr := Suc kn, knotes := (knotes w)(kn \<mapsto> sig_knote_zero\<lparr>kn_ref := 1\<rparr>)\<rparr>"
    using assms(3) by (auto simp: knote_new_def calloc_def split: if_splits)
  have fresh: "knotes w kn = None" using assms(1) a unfolding core_inv_def by auto
  define w1 where "w1 = upd_knote kn (\<lambda>k. k\<lparr>kev := e\<rparr>) w'"
  have w1: "knotes w1 = (knotes w)(kn \<mapsto> sig_knote_zero\<lparr>kn_ref := 1, kev := e\<rparr>)" "sfs w1 = Some st"
    using st(1) by (simp_all add: w1_def w' upd_knote_def)
  have out: "kn \<notin> set (kn_enabled (sfs_links st s))" "kn \<notin> set (kn_disabled (sfs_links st s))" for s
    using links_at [OF st(2), of kn s] fresh by auto
  then have "kn \<notin> set (sfs_pending st)" using st(3) by (auto simp: pending_ok_def)
  then have "sig_free kn w1" using out w1 by (simp add: sig_free_def sig_knote_zero_def)
  moreover have "links_ok (knotes w1) (sfs_links st)"
    by (rule links_ok_cong [OF st(2)]) (use fresh in \<open>auto simp: w1\<close>)
  moreover have "pending_ok (knotes w1) (sfs_links st) (sfs_pending st)"
    using st(3) out by (auto simp: pending_ok_def w1 split: if_splits)
  ultimately show ?thesis using w1(2) unfolding w1_def [symmetric] by (auto intro: sig_invI)
qed

lemma sig_inv_free:
  assumes "sig_inv w" "sig_free kn w"
  shows "sig_inv (w\<lparr>knotes := (knotes w)(kn := None)\<rparr>)"
proof -
  obtain st where st: "sfs w = Some st" "links_ok (knotes w) (sfs_links st)" "pending_ok (knotes w) (sfs_links st) (sfs_pending st)"
    using assms(1) by (rule sig_invE)
  have out: "kn \<notin> set (kn_enabled (sfs_links st s))" "kn \<notin> set (kn_disabled (sfs_links st s))" for s
    using assms(2) st(1) by (auto simp: sig_free_def)
  have "links_ok ((knotes w)(kn := None)) (sfs_links st)"
    unfolding links_ok_def
  proof (intro allI conjI ballI)
    show "\<exists>k. ((knotes w)(kn := None)) a = Some k \<and> sig_num (ident (kev k)) = int s \<and> sig_valid (int s)"
      if a: "a \<in> set (kn_enabled (sfs_links st s)) \<union> set (kn_disabled (sfs_links st s))" for s a
    proof -
      have "a \<noteq> kn" using a out by blast
      then show ?thesis using links_at [OF st(2), of a s] a by auto
    qed
  qed (use surrogate_distinct [OF st(2)] in simp_all)
  moreover have "pending_ok ((knotes w)(kn := None)) (sfs_links st) (sfs_pending st)"
    using st(3) by (auto simp: pending_ok_def split: if_splits)
  ultimately show ?thesis using st(1) by (intro sig_invI [of _ st]) simp_all
qed

text \<open>The callbacks the contract is about; the table of \<open>evfilt_signal_ops\<close> has the same ones.\<close>

definition signal_callbacks :: "'o sig_hooks \<Rightarrow> (('o, 'z) sw) filter_ops \<Rightarrow> bool" where
  "signal_callbacks H ops \<longleftrightarrow>
     kn_create ops = evfilt_signal_knote_create H \<and> kn_modify ops = evfilt_signal_knote_modify \<and>
     kn_delete ops = evfilt_signal_knote_delete H \<and> kn_enable ops = evfilt_signal_knote_enable H \<and>
     kn_disable ops = evfilt_signal_knote_disable"

lemma signal_callbacks_ops [simp]: "signal_callbacks H (evfilt_signal H)" "signal_callbacks H (evfilt_signal_ops H)"
  by (simp_all add: signal_callbacks_def evfilt_signal_def evfilt_signal_ops_def)

interpretation sgs: backend_state sig_inv sig_free sig_knote_zero
proof (unfold_locales, goal_cases)
  case (1 w w')
  then show ?case by (rule sig_inv_ext)
next
  case (2 kn w w')
  then show ?case by (rule sig_free_ext)
next
  case (3 w w' kn e)
  then show ?case by (rule sig_inv_new)
next
  case (4 kn w)
  then show ?case by (intro sig_inv_free)
next
  case 5
  show ?case by (simp add: sig_knote_zero_def)
qed

lemma signal_contract:
  assumes "signal_callbacks H ops"
  shows "filter_contract sig_inv sig_free sig_knote_zero ops 5 (sig_adm 5)"
proof -
  note cb [simp] = assms [unfolded signal_callbacks_def]
  show ?thesis
  proof (unfold_locales, goal_cases)
    case 1
    show ?case by (simp add: EVFILT_SYSCOUNT_def)
  next
    case (2 kn w k)
    obtain w' rv where "evfilt_signal_knote_create H kn w = Some (w', rv)" using create_ok [OF 2(2-4)] by blast
    then show ?case using create_ok [OF 2(2-4), of H 5 "0 \<le> rv"] by auto
  next
    case (3 w src kn)
    obtain k where "knotes w kn = Some k" using core_inv_linked_knote [OF 3(1) _ 3(3)] by (auto simp: EVFILT_SYSCOUNT_def)
    then show ?case using sig_modify_ok [OF 3(2), of kn k src 5 True] by auto
  next
    case (4 kn w k)
    then show ?case using delete_ok [OF 4(2,3), of H 5 False] by (auto simp: sig_adm_def)
  next
    case (5 w i kn)
    obtain k where "knotes w kn = Some k" "ident (kev k) = i"
      using core_inv_linked_knote [OF 5(1) _ 5(3)] by (auto simp: EVFILT_SYSCOUNT_def)
    then show ?case using enable_ok [OF 5(2), of kn k H 5 True] 5(4) by (auto simp: sig_adm_def)
  next
    case (6 w i kn)
    obtain k where "knotes w kn = Some k" "ident (kev k) = i"
      using core_inv_linked_knote [OF 6(1) _ 6(3)] by (auto simp: EVFILT_SYSCOUNT_def)
    then show ?case using disable_ok [OF 6(2), of kn k 5 True] 6(4) by (auto simp: sig_adm_def)
  qed
qed

interpretation sgb: backend sig_inv sig_free sig_knote_zero "\<lambda>_. evfilt_signal H" "\<lambda>fi. fi = 5" sig_adm for H
proof (intro backend.intro backend_axioms.intro)
  show "backend_state sig_inv sig_free sig_knote_zero" by (rule sgs.backend_state_axioms)
  show "filter_contract sig_inv sig_free sig_knote_zero (evfilt_signal H) fi (sig_adm fi)" if "fi = 5" for fi
    unfolding that by (rule signal_contract [OF signal_callbacks_ops(1)])
qed

end
