(* ===== verification/Signal_Platform.thy ===== *)
theory Signal_Platform
  imports Signal_Inv
begin

text \<open>
  The two platform layers of EVFILT_SIGNAL: signalfd (\<^verbatim>\<open>common/evfilt_signalfd.c\<close>, Linux
  and illumos) and sigaction with a self-pipe (\<^verbatim>\<open>posix/signal.c\<close>).  What the layers
  promise the dispatch machinery is the locale \<open>sig_layer\<close>: the set of signals that
  are observed follows the calls.
\<close>

subsection \<open>signalfd\<close>

text \<open>The layer's own state, the signals queued for the process, and the rest of the
  operating system.\<close>

record 'k sfd_os =
  sig_signalfd :: int
  sig_active_set :: "nat set"
  sig_queue :: "nat list"
  sfd_rest :: 'k

record 'k sfd_calls =
  call_signalfd :: "int \<Rightarrow> nat set \<Rightarrow> 'k \<Rightarrow> 'k \<times> int \<times> int"
  call_close :: "int \<Rightarrow> 'k \<Rightarrow> 'k"
  call_sigblock :: "nat \<Rightarrow> 'k \<Rightarrow> 'k \<times> int \<times> int"

definition sfd_init :: "'k sfd_calls \<Rightarrow> 'k sfd_os \<Rightarrow> 'k sfd_os \<times> int" where
  "sfd_init C x =
     (let (k, fd, _) = call_signalfd C (-1) {} (sfd_rest x);
          x = x\<lparr>sig_active_set := {}, sig_signalfd := fd, sfd_rest := k\<rparr>
      in if fd < 0 then (x, -1) else (x, 0))"

definition sfd_destroy :: "'k sfd_calls \<Rightarrow> 'k sfd_os \<Rightarrow> 'k sfd_os" where
  "sfd_destroy C x =
     (if sig_signalfd x \<ge> 0 then x\<lparr>sfd_rest := call_close C (sig_signalfd x) (sfd_rest x), sig_signalfd := -1\<rparr> else x)"

definition sfd_reset_after_fork :: "'k sfd_calls \<Rightarrow> 'k sfd_os \<Rightarrow> 'k sfd_os" where
  "sfd_reset_after_fork C x =
     (if sig_signalfd x \<ge> 0 then x\<lparr>sfd_rest := call_close C (sig_signalfd x) (sfd_rest x), sig_signalfd := -1\<rparr> else x)"

text \<open>The loop over \<^verbatim>\<open>sigtimedwait\<close> with a zero timeout: each call takes one queued
  signal of that number.\<close>

function drain_siginfo :: "nat \<Rightarrow> nat list \<Rightarrow> nat list" where
  "drain_siginfo s q = (if s \<in> set q then drain_siginfo s (remove1 s q) else q)"
  by auto

termination
  by (relation "measure (\<lambda>(s, q). length q)") (auto simp: length_remove1 dest: length_pos_if_in_set)

declare drain_siginfo.simps [simp del]

definition sfd_add :: "'k sfd_calls \<Rightarrow> nat \<Rightarrow> 'k sfd_os \<Rightarrow> 'k sfd_os \<times> int \<times> int" where
  "sfd_add C sig x =
     (let (k, rv, e) = call_sigblock C sig (sfd_rest x); x = x\<lparr>sfd_rest := k\<rparr> in
      if rv \<noteq> 0 then (x, -1, e)
      else
        let x = x\<lparr>sig_queue := drain_siginfo sig (sig_queue x)\<rparr>;
            x = x\<lparr>sig_active_set := insert sig (sig_active_set x)\<rparr>;
            (k, rv, e) = call_signalfd C (sig_signalfd x) (sig_active_set x) (sfd_rest x);
            x = x\<lparr>sfd_rest := k\<rparr>
        in if rv < 0 then (x\<lparr>sig_active_set := sig_active_set x - {sig}\<rparr>, -1, e) else (x, 0, e))"

definition sfd_remove :: "'k sfd_calls \<Rightarrow> nat \<Rightarrow> 'k sfd_os \<Rightarrow> 'k sfd_os \<times> int" where
  "sfd_remove C sig x =
     (let x = x\<lparr>sig_active_set := sig_active_set x - {sig}\<rparr>;
          (k, rv, _) = call_signalfd C (sig_signalfd x) (sig_active_set x) (sfd_rest x)
      in (x\<lparr>sfd_rest := k\<rparr>, if rv < 0 then -1 else 0))"

text \<open>What the calls of one round of the dispatch thread return: select, a read of the
  self-pipe if it is readable, a read of the signalfd if it is readable, with the
  number of bytes and the signals they hold.\<close>

record sfd_wait =
  sw_select :: int
  sw_errno :: int
  sw_pipe :: "int option"
  sw_read :: "(int \<times> int \<times> int list) option"

definition sizeof_siginfo :: int where
  "sizeof_siginfo = 128"

definition sfd_wait_dispatch :: "'o sig_hooks \<Rightarrow> sfd_wait \<Rightarrow> ('o, 'z) sw \<Rightarrow> (('o, 'z) sw \<times> int) option" where
  "sfd_wait_dispatch H a w =
     (if sw_select a < 0 then Some (w, if sw_errno a = EINTR then 1 else -1)
      else if (case sw_pipe a of None \<Rightarrow> False | Some r \<Rightarrow> r \<le> 0) then Some (w, 0)
      else (case sw_read a of
          None \<Rightarrow> Some (w, 1)
        | Some (n, e, sigs) \<Rightarrow>
            if n < 0 then Some (w, if e = EINTR \<or> e = EAGAIN then 1 else -1)
            else if n < sizeof_siginfo then Some (w, 1)
            else do {
              w \<leftarrow> sig_dispatch_all H (take (nat (n div sizeof_siginfo)) sigs) w;
              Some (w, 1) }))"

subsection \<open>sigaction\<close>

text \<open>The signals for which the handler is installed, the bytes in the self-pipe, and the
  rest.\<close>

record 'k sa_os =
  sa_handled :: "nat set"
  sa_pipe :: "8 word list"
  sa_rest :: 'k

record 'k sa_calls =
  call_sigaction :: "nat \<Rightarrow> bool \<Rightarrow> 'k \<Rightarrow> 'k \<times> int \<times> int"
  call_sigunblock :: "nat \<Rightarrow> 'k \<Rightarrow> 'k"
  sa_pipe_room :: nat

definition sa_init :: "'k sa_os \<Rightarrow> 'k sa_os \<times> int" where
  "sa_init x = (x, 0)"

definition sa_destroy :: "'k sa_os \<Rightarrow> 'k sa_os" where
  "sa_destroy x = x"

definition sa_reset_after_fork :: "'k sa_os \<Rightarrow> 'k sa_os" where
  "sa_reset_after_fork x = x"

text \<open>The handler: one byte per signal; a full pipe drops it.\<close>

definition signal_handler :: "'k sa_calls \<Rightarrow> int \<Rightarrow> 'k sa_os \<Rightarrow> 'k sa_os" where
  "signal_handler C sig x =
     (if length (sa_pipe x) < sa_pipe_room C then x\<lparr>sa_pipe := sa_pipe x @ [word_of_int sig]\<rparr> else x)"

definition sa_add :: "'k sa_calls \<Rightarrow> nat \<Rightarrow> 'k sa_os \<Rightarrow> 'k sa_os \<times> int \<times> int" where
  "sa_add C sig x =
     (let (k, rv, e) = call_sigaction C sig True (sa_rest x); x = x\<lparr>sa_rest := k\<rparr> in
      if rv \<noteq> 0 then (x, -1, e)
      else (x\<lparr>sa_handled := insert sig (sa_handled x), sa_rest := call_sigunblock C sig (sa_rest x)\<rparr>, 0, e))"

definition sa_remove :: "'k sa_calls \<Rightarrow> nat \<Rightarrow> 'k sa_os \<Rightarrow> 'k sa_os \<times> int" where
  "sa_remove C sig x =
     (let (k, rv, e) = call_sigaction C sig False (sa_rest x); x = x\<lparr>sa_rest := k\<rparr> in
      (if rv = 0 then x\<lparr>sa_handled := sa_handled x - {sig}\<rparr> else x, rv))"

text \<open>One round of the dispatch thread: the results of select and read; a failed read is
  taken for a passing one.\<close>

definition sa_wait_dispatch ::
  "'o sig_hooks \<Rightarrow> int \<Rightarrow> int \<Rightarrow> int \<Rightarrow> 8 word list \<Rightarrow> ('o, 'z) sw \<Rightarrow> (('o, 'z) sw \<times> int) option" where
  "sa_wait_dispatch H sel sel_errno n buf w =
     (if sel < 0 then Some (w, if sel_errno = EINTR then 1 else -1)
      else if n = 0 then Some (w, 0)
      else if n < 0 then Some (w, 1)
      else do {
        w \<leftarrow> sig_dispatch_all H (map uint (take (nat n) buf)) w;
        Some (w, 1) })"

subsection \<open>What the layers promise\<close>

text \<open>\<open>observed\<close> are the signals the dispatch thread hears of.  Adding a signal adds
  that one, and if it fails no other one goes; removing one leaves the others.  The
  eventfd of the filter is independent of all this.\<close>

locale sig_layer =
  fixes H :: "'o sig_hooks"
    and observed :: "'o \<Rightarrow> nat set"
  assumes add_observes: "hook_platform_add H s x = (x', 0, e) \<Longrightarrow> observed x' = insert s (observed x)"
    and add_failed: "hook_platform_add H s x = (x', rv, e) \<Longrightarrow> rv \<noteq> 0 \<Longrightarrow>
      observed x - {s} \<subseteq> observed x' \<and> observed x' \<subseteq> observed x"
    and remove_keeps: "hook_platform_remove H s x = (x', rv) \<Longrightarrow> observed x - {s} \<subseteq> observed x'"
    and raise_keeps: "observed (hook_eventfd_raise H fd x) = observed x"
    and lower_keeps: "observed (hook_eventfd_lower H fd x) = observed x"

text \<open>A layer on which removing a signal cannot fail to end the observation.\<close>

locale sig_layer_exact = sig_layer +
  assumes remove_exact: "hook_platform_remove H s x = (x', rv) \<Longrightarrow> observed x' = observed x - {s}"

text \<open>The hooks of the two layers; the operations of the eventfd and the thread are those of
  the backend.\<close>

definition sfd_hooks :: "'k sfd_calls \<Rightarrow> 'k sig_hooks \<Rightarrow> 'k sfd_os sig_hooks" where
  "sfd_hooks C B =
     \<lparr>hook_eventfd_init = \<lambda>x. let (k, r) = hook_eventfd_init B (sfd_rest x) in (x\<lparr>sfd_rest := k\<rparr>, r),
      hook_eventfd_register = \<lambda>fd x. let (k, r) = hook_eventfd_register B fd (sfd_rest x) in (x\<lparr>sfd_rest := k\<rparr>, r),
      hook_eventfd_unregister = \<lambda>fd x. x\<lparr>sfd_rest := hook_eventfd_unregister B fd (sfd_rest x)\<rparr>,
      hook_eventfd_close = \<lambda>fd x. x\<lparr>sfd_rest := hook_eventfd_close B fd (sfd_rest x)\<rparr>,
      hook_eventfd_raise = \<lambda>fd x. x\<lparr>sfd_rest := hook_eventfd_raise B fd (sfd_rest x)\<rparr>,
      hook_eventfd_lower = \<lambda>fd x. x\<lparr>sfd_rest := hook_eventfd_lower B fd (sfd_rest x)\<rparr>,
      hook_socketpair = \<lambda>x. let (k, r) = hook_socketpair B (sfd_rest x) in (x\<lparr>sfd_rest := k\<rparr>, r),
      hook_close = \<lambda>fd x. x\<lparr>sfd_rest := hook_close B fd (sfd_rest x)\<rparr>,
      hook_thread_create = \<lambda>x. let (k, r) = hook_thread_create B (sfd_rest x) in (x\<lparr>sfd_rest := k\<rparr>, r),
      hook_platform_init = sfd_init C, hook_platform_destroy = sfd_destroy C,
      hook_platform_add = sfd_add C, hook_platform_remove = sfd_remove C,
      hook_platform_reset = sfd_reset_after_fork C, have_pidfd_open = have_pidfd_open B\<rparr>"

definition sa_hooks :: "'k sa_calls \<Rightarrow> 'k sig_hooks \<Rightarrow> 'k sa_os sig_hooks" where
  "sa_hooks C B =
     \<lparr>hook_eventfd_init = \<lambda>x. let (k, r) = hook_eventfd_init B (sa_rest x) in (x\<lparr>sa_rest := k\<rparr>, r),
      hook_eventfd_register = \<lambda>fd x. let (k, r) = hook_eventfd_register B fd (sa_rest x) in (x\<lparr>sa_rest := k\<rparr>, r),
      hook_eventfd_unregister = \<lambda>fd x. x\<lparr>sa_rest := hook_eventfd_unregister B fd (sa_rest x)\<rparr>,
      hook_eventfd_close = \<lambda>fd x. x\<lparr>sa_rest := hook_eventfd_close B fd (sa_rest x)\<rparr>,
      hook_eventfd_raise = \<lambda>fd x. x\<lparr>sa_rest := hook_eventfd_raise B fd (sa_rest x)\<rparr>,
      hook_eventfd_lower = \<lambda>fd x. x\<lparr>sa_rest := hook_eventfd_lower B fd (sa_rest x)\<rparr>,
      hook_socketpair = \<lambda>x. let (k, r) = hook_socketpair B (sa_rest x) in (x\<lparr>sa_rest := k\<rparr>, r),
      hook_close = \<lambda>fd x. x\<lparr>sa_rest := hook_close B fd (sa_rest x)\<rparr>,
      hook_thread_create = \<lambda>x. let (k, r) = hook_thread_create B (sa_rest x) in (x\<lparr>sa_rest := k\<rparr>, r),
      hook_platform_init = sa_init, hook_platform_destroy = sa_destroy,
      hook_platform_add = sa_add C, hook_platform_remove = sa_remove C,
      hook_platform_reset = sa_reset_after_fork, have_pidfd_open = have_pidfd_open B\<rparr>"

interpretation sfdl: sig_layer_exact "sfd_hooks C B" sig_active_set for C B
proof (unfold_locales, goal_cases)
  case (1 s x x' e)
  then show ?case by (auto simp: sfd_hooks_def sfd_add_def Let_def split: prod.splits if_splits)
next
  case (2 s x x' rv e)
  then show ?case by (auto simp: sfd_hooks_def sfd_add_def Let_def split: prod.splits if_splits)
qed (auto simp: sfd_hooks_def sfd_remove_def Let_def split: prod.splits)

interpretation sal: sig_layer "sa_hooks C B" sa_handled for C B
proof (unfold_locales, goal_cases)
  case (1 s x x' e)
  then show ?case by (auto simp: sa_hooks_def sa_add_def Let_def split: prod.splits if_splits)
next
  case (2 s x x' rv e)
  then show ?case by (auto simp: sa_hooks_def sa_add_def Let_def split: prod.splits if_splits)
qed (auto simp: sa_hooks_def sa_remove_def Let_def split: prod.splits if_splits)

end
