(* ===== verification/Signal_Runs.thy ===== *)
theory Signal_Runs
  imports Signal_Platform
begin

text \<open>
  Runs of EVFILT_SIGNAL: the application changes and polls a kqueue while the dispatch
  thread reports signals.  Every interleaving is safe, every fire is counted once and
  delivered, and the platform layer observes the signals that have knotes.
\<close>

subsection \<open>Delivery\<close>

text \<open>The state of a kqueue on which EVFILT_SIGNAL is the filter in use.\<close>

definition sig_wf :: "('o, 'z) sw \<Rightarrow> bool" where
  "sig_wf w \<longleftrightarrow> core_wf w \<and> sig_inv w \<and> impl_ok (\<lambda>fi. fi = 5) sig_adm w"

lemma sig_wf_linked:
  assumes "sig_wf w" "knotes w a = Some k"
  shows "(ident (kev k), a) \<in> set (kf_index (filt_at w 5)) \<and> sig_adm 5 (ident (kev k))"
proof -
  have wf: "core_wf w" and i: "impl_ok (\<lambda>fi. fi = 5) sig_adm w" using assms(1) by (simp_all add: sig_wf_def)
  obtain fi where fi: "fi < EVFILT_SYSCOUNT" "a \<in> linked w fi" using wf assms(2) unfolding core_inv_def by blast
  obtain j where j: "(j, a) \<in> set (kf_index (filt_at w fi))" using fi(2) by (auto simp: linked_def)
  have len: "length (impl_set w) = EVFILT_SYSCOUNT" using wf by (simp add: core_inv_def impl_set_def)
  have "kf_index (filt_at w fi) \<noteq> []" using j by auto
  then have "fi = 5" using i fi(1) len unfolding impl_ok_def by auto
  moreover have "j = ident (kev k)" using core_inv_linked_knote [OF wf fi(1) j] assms(2) by (metis option.inject)
  ultimately show ?thesis using j i fi(1) unfolding impl_ok_def by auto
qed

lemma flag_actions_ok:
  assumes "sig_wf w" "distinct kns" "\<forall>a \<in> set kns. knotes w a \<noteq> None"
  shows "\<exists>w' rv. sig_flag_actions H kns w = Some (w', rv) \<and> sig_wf w' \<and> (rv = -1 \<or> rv = 0)"
  using assms
proof (induction kns arbitrary: w)
  case (Cons kn kns)
  note fc = signal_contract [OF signal_callbacks_ops(2)]
  have wf: "core_wf w" "sig_inv w" and i: "impl_ok (\<lambda>fi. fi = 5) sig_adm w" using Cons.prems(1) by (simp_all add: sig_wf_def)
  have s5: "(5::nat) < EVFILT_SYSCOUNT" by (simp add: EVFILT_SYSCOUNT_def)
  obtain k where k: "knotes w kn = Some k" using Cons.prems(3) by auto
  note ln = sig_wf_linked [OF Cons.prems(1) k]
  obtain w1 rv where w1: "knote_copyout_flag_actions (evfilt_signal_ops H) 5 kn w = Some (w1, rv)" "core_wf w1" "sig_inv w1"
      "impl_set w1 = impl_set w" "slot_ids w1 = slot_ids w"
      "kf_index (filt_at w1 5) \<in> {kf_index (filt_at w 5), idx_remove kn (kf_index (filt_at w 5))}"
      "\<forall>fj < EVFILT_SYSCOUNT. fj \<noteq> 5 \<longrightarrow> kf_index (filt_at w1 fj) = kf_index (filt_at w fj)"
    using filter_contract.flag_actions_index [OF fc wf conjunct1 [OF ln] conjunct2 [OF ln]] by blast
  have sub: "set (kf_index (filt_at w1 fj)) \<subseteq> set (kf_index (filt_at w fj))" if "fj < EVFILT_SYSCOUNT" for fj
    using w1(6,7) that by (cases "fj = 5") (auto simp: idx_remove_def)
  have g1: "sig_wf w1" using impl_ok_sub [OF i w1(4,5) sub] w1(2,3) by (simp add: sig_wf_def)
  have "knotes w1 a \<noteq> None" if a: "a \<in> set kns" for a
  proof -
    obtain ka where ka: "knotes w a = Some ka" using Cons.prems(3) a by auto
    have "a \<noteq> kn" using a Cons.prems(2) by auto
    then have "(ident (kev ka), a) \<in> set (kf_index (filt_at w1 5))"
      using conjunct1 [OF sig_wf_linked [OF Cons.prems(1) ka]] w1(6) by (auto simp: idx_remove_def)
    then show ?thesis using core_inv_linked_knote [OF w1(2) s5] by (metis option.distinct(1))
  qed
  then show ?case using Cons.IH [OF g1] Cons.prems(2) w1(1) g1 by (cases "rv < 0") simp_all
qed simp

lemma sig_wf_frame: "sig_wf w \<Longrightarrow> sig_frame w w' \<Longrightarrow> sig_inv w' \<Longrightarrow> sig_wf w'"
  using sig_frame_core [of w w'] impl_ok_filt [of w' w] by (simp add: sig_wf_def sig_frame_def)

lemma sig_wf_os: "sig_wf w \<Longrightarrow> sig_wf (upd_os f w)"
  by (rule sig_wf_frame) (auto simp: sig_frame_def upd_os_def sig_wf_def sig_inv_def)

lemma pending_live:
  assumes "sig_inv w" "sfs w = Some st" "a \<in> set (sfs_pending st)"
  shows "knotes w a \<noteq> None"
proof -
  have l: "links_ok (knotes w) (sfs_links st)" "pending_ok (knotes w) (sfs_links st) (sfs_pending st)"
    using assms(1,2) by (auto elim: sig_invE)
  obtain s where "a \<in> set (kn_enabled (sfs_links st s))" using l(2) assms(3) by (auto simp: pending_ok_def)
  then show ?thesis using links_at [OF l(1), of a s] by auto
qed

lemma copyout_ok:
  assumes wf: "sig_wf w" and st: "sfs w = Some st"
  shows "\<exists>w' rv. evfilt_signal_copyout H n src ev w =
      Some (w', rv, map (\<lambda>a. sig_event (the (knotes w a))) (take n (sfs_pending st))) \<and>
    sig_wf w' \<and> (rv = -1 \<or> rv = int (length (take n (sfs_pending st))))"
proof -
  have inv: "sig_inv w" using wf by (simp add: sig_wf_def)
  let ?em = "take n (sfs_pending st)"
  obtain w1 where w1: "sig_emit n (sfs_pending st) w = Some (w1, ?em, map (\<lambda>a. sig_event (the (knotes w a))) ?em)"
      "sig_inv w1" "sig_frame w w1"
    using emit_ok [OF inv st, of n] by blast
  have g1: "sig_wf w1" using sig_wf_frame [OF wf w1(3,2)] .
  have d: "distinct ?em" using inv st by (auto elim!: sig_invE simp: pending_ok_def)
  have "knotes w1 a \<noteq> None" if "a \<in> set ?em" for a
    using pending_live [OF inv st in_set_takeD [OF that]] w1(3) unfolding sig_frame_def by (metis option.map_disc_iff)
  then obtain w2 rv where w2: "sig_flag_actions H ?em w1 = Some (w2, rv)" "sig_wf w2" "rv = -1 \<or> rv = 0"
    using flag_actions_ok [OF g1 d] by blast
  then show ?thesis using st w1(1) sig_wf_os [OF w2(2)] by (auto simp: evfilt_signal_copyout_def)
qed

subsection \<open>Fires\<close>

lemma dispatch_handle_ok:
  assumes inv: "sig_inv w" "sig_table w" and st: "sfs w = Some st"
  shows "\<exists>w' ps. sig_dispatch_handle H sig w = Some w' \<and> sig_inv w' \<and> sig_frame w w' \<and> sigtbl w' = sigtbl w \<and>
    raised H (sig_os w) (sig_os w') \<and> sfs w' = Some (st\<lparr>sfs_pending := ps\<rparr>) \<and>
    knotes w' = bump (if sig_valid sig then watchers st (nat sig) else {}) (knotes w) \<and>
    set ps = set (sfs_pending st) \<union> (if sig_valid sig then set (kn_enabled (sfs_links st (nat sig))) else {})"
proof (cases "sig_valid sig \<and> 0 \<in> set (sigtbl w (nat sig))")
  case True
  then show ?thesis using dispatch_link_ok [OF inv(1) st, of H "nat sig"] by (simp add: sig_dispatch_handle_def) blast
next
  case False
  have "watchers st (nat sig) = {} \<and> set (kn_enabled (sfs_links st (nat sig))) = {}" if "sig_valid sig"
    using False that inv(2) st by (auto simp: sig_table_def table_ok_def sl_has_no_knotes_def watchers_def)
  then show ?thesis using False inv(1) st by (intro exI [of _ w] exI [of _ "sfs_pending st"]) (simp add: sig_dispatch_handle_def)
qed

text \<open>How often the signals \<open>ss\<close> count at a knote.\<close>

definition sig_fires :: "sig_filter_state \<Rightarrow> addr \<Rightarrow> int list \<Rightarrow> nat" where
  "sig_fires st a ss = length (filter (\<lambda>s. sig_valid s \<and> a \<in> watchers st (nat s)) ss)"

lemma sig_fires_pending [simp]: "sig_fires (st\<lparr>sfs_pending := ps\<rparr>) a ss = sig_fires st a ss"
  by (simp add: sig_fires_def watchers_def)

lemma sig_fires_listed:
  assumes "links_ok h (sfs_links st)" "a \<in> watchers st s"
  shows "sig_fires st a ss = count_list ss (int s)"
proof -
  obtain k where k: "h a = Some k" "sig_num (ident (kev k)) = int s" "sig_valid (int s)"
    using links_at [OF assms(1), of a s] assms(2) by (auto simp: watchers_def)
  have eq: "sig_valid t \<and> a \<in> watchers st (nat t) \<longleftrightarrow> t = int s" for t
  proof
    assume t: "sig_valid t \<and> a \<in> watchers st (nat t)"
    then obtain k' where "h a = Some k'" "sig_num (ident (kev k')) = int (nat t)"
      using links_at [OF assms(1), of a "nat t"] by (auto simp: watchers_def)
    then show "t = int s" using k t by (simp add: sig_valid_def)
  qed (use k assms(2) in simp)
  have "filter (\<lambda>s. sig_valid s \<and> a \<in> watchers st (nat s)) ss = filter ((=) (int s)) ss"
    by (rule filter_cong) (use eq in auto)
  then show ?thesis by (simp add: sig_fires_def count_list_eq_length_filter)
qed

lemma sig_table_same: "sig_table w \<Longrightarrow> sfs w = Some st \<Longrightarrow> sfs w' = Some (st\<lparr>sfs_pending := ps\<rparr>) \<Longrightarrow> sigtbl w' = sigtbl w \<Longrightarrow> sig_table w'"
  by (auto simp: sig_table_def)

lemma dispatch_all_ok:
  assumes "sig_inv w" "sig_table w" "sfs w = Some st"
  shows "\<exists>w' ps. sig_dispatch_all H ss w = Some w' \<and> sig_inv w' \<and> sig_frame w w' \<and> sigtbl w' = sigtbl w \<and>
    raised H (sig_os w) (sig_os w') \<and> sfs w' = Some (st\<lparr>sfs_pending := ps\<rparr>) \<and>
    set ps = set (sfs_pending st) \<union> {a. \<exists>s \<in> set ss. sig_valid s \<and> a \<in> set (kn_enabled (sfs_links st (nat s)))} \<and>
    (\<forall>a. knotes w' a = map_option (\<lambda>k. k\<lparr>kn_signal_count := kn_signal_count k + of_nat (sig_fires st a ss)\<rparr>) (knotes w a))"
  using assms
proof (induction ss arbitrary: w st)
  case Nil
  then show ?case by (intro exI [of _ w] exI [of _ "sfs_pending st"]) (simp add: sig_fires_def map_option_idI)
next
  case (Cons s ss)
  obtain w1 ps where w1: "sig_dispatch_handle H s w = Some w1" "sig_inv w1" "sig_frame w w1" "sigtbl w1 = sigtbl w"
      and r1: "raised H (sig_os w) (sig_os w1)" and w1':
      "sfs w1 = Some (st\<lparr>sfs_pending := ps\<rparr>)" "knotes w1 = bump (if sig_valid s then watchers st (nat s) else {}) (knotes w)"
      "set ps = set (sfs_pending st) \<union> (if sig_valid s then set (kn_enabled (sfs_links st (nat s))) else {})"
    using dispatch_handle_ok [OF Cons.prems, of H s] by blast
  have t1: "sig_table w1" using sig_table_same [OF Cons.prems(2,3) w1'(1) w1(4)] .
  obtain w2 qs where w2: "sig_dispatch_all H ss w1 = Some w2" "sig_inv w2" "sig_frame w1 w2" "sigtbl w2 = sigtbl w1"
      and r2: "raised H (sig_os w1) (sig_os w2)" and w2':
      "sfs w2 = Some (st\<lparr>sfs_pending := ps\<rparr>\<lparr>sfs_pending := qs\<rparr>)"
      "set qs = set ps \<union> {a. \<exists>s \<in> set ss. sig_valid s \<and> a \<in> set (kn_enabled (sfs_links st (nat s)))}"
      "\<forall>a. knotes w2 a = map_option (\<lambda>k. k\<lparr>kn_signal_count := kn_signal_count k + of_nat (sig_fires st a ss)\<rparr>) (knotes w1 a)"
    using Cons.IH [OF w1(2) t1 w1'(1)] by auto
  have "knotes w2 a = map_option (\<lambda>k. k\<lparr>kn_signal_count := kn_signal_count k + of_nat (sig_fires st a (s # ss))\<rparr>) (knotes w a)" for a
    using w2'(3) by (auto simp: w1'(2) bump_def sig_fires_def option.map_comp comp_def algebra_simps)
  moreover have "set qs = set (sfs_pending st) \<union> {a. \<exists>s \<in> set (s # ss). sig_valid s \<and> a \<in> set (kn_enabled (sfs_links st (nat s)))}"
    unfolding w2'(2) w1'(3) by auto
  ultimately show ?case using w1(1,4) w2(1,2,4) w2'(1) raised_trans [OF r1 r2] sig_frame_trans [OF w1(3) w2(3)]
    by (intro exI [of _ w2] exI [of _ qs]) simp
qed

subsection \<open>Interleavings\<close>

text \<open>What happens to a kqueue: the application hands in changes or collects events, and
  the dispatch thread reports signals.\<close>

datatype sig_op = Changes "kevent list" nat | Fires "int list" | Thread "sfd_wait list" | Deliver nat

primrec sig_exec :: "'o sig_hooks \<Rightarrow> sig_op \<Rightarrow> ('o, 'z) sw \<Rightarrow> ('o, 'z) sw option" where
  "sig_exec H (Changes cs n) w = map_option fst (kevent_copyin (\<lambda>_. evfilt_signal H) sig_knote_zero cs n w)"
| "sig_exec H (Fires ss) w = sig_dispatch_all H ss w"
| "sig_exec H (Thread rs) w = map_option fst (sig_dispatch_loop (sfd_wait_dispatch H) rs w)"
| "sig_exec H (Deliver n) w = map_option fst (evfilt_signal_copyout H n None 0 w)"

primrec sig_run :: "'o sig_hooks \<Rightarrow> sig_op list \<Rightarrow> ('o, 'z) sw \<Rightarrow> ('o, 'z) sw option" where
  "sig_run H [] w = Some w"
| "sig_run H (x # xs) w = Option.bind (sig_exec H x w) (sig_run H xs)"

primrec sig_op_adm :: "sig_op \<Rightarrow> bool" where
  "sig_op_adm (Changes cs n) \<longleftrightarrow> (\<forall>c \<in> set cs. adm_change sig_adm c)"
| "sig_op_adm (Fires ss) \<longleftrightarrow> True"
| "sig_op_adm (Thread rs) \<longleftrightarrow> True"
| "sig_op_adm (Deliver n) \<longleftrightarrow> True"

lemma dispatch_safe: "sig_wf w \<Longrightarrow> \<exists>w'. sig_dispatch_all H ss w = Some w' \<and> sig_wf w'"
proof (induction ss arbitrary: w)
  case (Cons s ss)
  have inv: "sig_inv w" using Cons.prems by (simp add: sig_wf_def)
  obtain st where st: "sfs w = Some st" using inv by (rule sig_invE)
  obtain w1 where w1: "sig_dispatch_handle H s w = Some w1" "sig_wf w1"
  proof (cases "sig_valid s \<and> 0 \<in> set (sigtbl w (nat s))")
    case True
    then show ?thesis using dispatch_link_ok [OF inv st, of H "nat s"] sig_wf_frame [OF Cons.prems] that
      by (auto simp: sig_dispatch_handle_def)
  next
    case False
    then show ?thesis using that [of w] Cons.prems by (auto simp: sig_dispatch_handle_def)
  qed
  then show ?case using Cons.IH [OF w1(2)] by simp
qed simp

lemma wait_dispatch_safe: "sig_wf w \<Longrightarrow> \<exists>w' rv. sfd_wait_dispatch H r w = Some (w', rv) \<and> sig_wf w'"
proof (cases "sw_read r")
  case (Some a)
  assume wf: "sig_wf w"
  obtain n e sigs where a: "a = (n, e, sigs)" by (cases a)
  obtain w1 where "sig_dispatch_all H (take (nat (n div sizeof_siginfo)) sigs) w = Some w1" "sig_wf w1"
    using dispatch_safe [OF wf] by blast
  then show ?thesis using Some a wf by (simp add: sfd_wait_dispatch_def split: option.split)
qed (simp add: sfd_wait_dispatch_def split: option.split)

lemma rounds_safe: "sig_wf w \<Longrightarrow> \<exists>w' b. sig_dispatch_rounds (sfd_wait_dispatch H) rs w = Some (w', b) \<and> sig_wf w'"
proof (induction rs arbitrary: w)
  case (Cons r rs)
  obtain w1 rv where "sfd_wait_dispatch H r w = Some (w1, rv)" "sig_wf w1" using wait_dispatch_safe [OF Cons.prems] by blast
  then show ?case using Cons.IH by auto
qed auto

lemma sig_wf_started: "sig_wf w \<Longrightarrow> sig_wf (w\<lparr>sig_dispatch_started := b\<rparr>)"
  by (rule sig_wf_frame) (auto simp: sig_frame_def sig_wf_def sig_inv_def)

lemma sig_exec_safe:
  assumes "sig_wf w" "sig_op_adm x"
  shows "\<exists>w'. sig_exec H x w = Some w' \<and> sig_wf w'"
proof (cases x)
  case (Changes cs n)
  then show ?thesis using sgb.copyin_ok [of w cs H n] assms by (fastforce simp: sig_wf_def)
next
  case (Fires ss)
  then show ?thesis using dispatch_safe [OF assms(1)] by simp
next
  case (Thread rs)
  then show ?thesis using rounds_safe [OF sig_wf_started [OF assms(1)], of H rs] by (auto simp: sig_dispatch_loop_def)
next
  case (Deliver n)
  obtain st where "sfs w = Some st" using assms(1) by (auto simp: sig_wf_def elim: sig_invE)
  then show ?thesis using copyout_ok [OF assms(1), of st H n None 0] Deliver by auto
qed

lemma sig_run_safe: "sig_wf w \<Longrightarrow> \<forall>x \<in> set xs. sig_op_adm x \<Longrightarrow> \<exists>w'. sig_run H xs w = Some w' \<and> sig_wf w'"
proof (induction xs arbitrary: w)
  case (Cons x xs)
  then show ?case using sig_exec_safe [of w x H] by fastforce
qed simp

subsection \<open>Steps of the table and of the layer\<close>

text \<open>The signals that some kqueue watches.\<close>

definition watched :: "('o, 'z) sw \<Rightarrow> nat set" where
  "watched w = {s. sigtbl w s \<noteq> []}"

text \<open>What the steps below do to the set of watched signals and to the platform layer.\<close>

inductive os_effect :: "'o sig_hooks \<Rightarrow> nat set \<Rightarrow> 'o \<Rightarrow> nat set \<Rightarrow> 'o \<Rightarrow> bool" for H where
  silent: "raised H x x' \<Longrightarrow> os_effect H W x W x'"
| lowered: "os_effect H W x W (hook_eventfd_lower H fd x)"
| added: "hook_platform_add H s x = (x', 0, e) \<Longrightarrow> os_effect H W x (insert s W) x'"
| refused: "s \<notin> W \<Longrightarrow> hook_platform_add H s x = (x', rv, e) \<Longrightarrow> rv \<noteq> 0 \<Longrightarrow> os_effect H W x W x'"
| removed: "hook_platform_remove H s x = (x', rv) \<Longrightarrow> os_effect H W x (W - {s}) x'"

lemma no_effect [simp]: "os_effect H W x W x"
  by (rule silent) simp

context sig_layer
begin

lemma raised_observed: "raised H x x' \<Longrightarrow> observed x' = observed x"
proof -
  assume "raised H x x'"
  then obtain fds where "x' = fold (hook_eventfd_raise H) fds x" by (auto simp: raised_def)
  moreover have "observed (fold (hook_eventfd_raise H) fds x) = observed x"
    by (induction fds arbitrary: x) (simp_all add: raise_keeps)
  ultimately show ?thesis by simp
qed

lemma effect_covers:
  assumes "os_effect H W x W' x'" "W \<subseteq> observed x"
  shows "W' \<subseteq> observed x'"
  using assms
proof (induction rule: os_effect.induct)
  case (silent x x' W)
  then show ?case using raised_observed by blast
next
  case (lowered W x fd)
  then show ?case by (simp add: lower_keeps)
next
  case (added s x x' e W)
  then show ?case using add_observes by blast
next
  case (refused s W x x' rv e)
  then show ?case using add_failed [OF refused(2,3)] by blast
next
  case (removed s x x' rv W)
  then show ?case using remove_keeps [OF removed(1)] by blast
qed

end

context sig_layer_exact
begin

lemma effect_exact:
  assumes "os_effect H W x W' x'" "W = observed x"
  shows "W' = observed x'"
  using assms
proof (induction rule: os_effect.induct)
  case (silent x x' W)
  then show ?case using raised_observed by blast
next
  case (lowered W x fd)
  then show ?case by (simp add: lower_keeps)
next
  case (added s x x' e W)
  then show ?case using add_observes by blast
next
  case (refused s W x x' rv e)
  then show ?case using add_failed [OF refused(2,3)] by blast
next
  case (removed s x x' rv W)
  then show ?case using remove_exact [OF removed(1)] by blast
qed

end

text \<open>One step: a callback of this filter, as the common code calls it; allocation and
  release of a knote; a round of the dispatch thread; a delivery; and the same
  operations of another kqueue, of which the table and the layer are seen here.\<close>

inductive sig_step :: "'o sig_hooks \<Rightarrow> ('o, 'z) sw \<Rightarrow> ('o, 'z) sw \<Rightarrow> bool" for H where
  alloc: "knotes w kn = None \<Longrightarrow> kn_signal_count k = 0 \<Longrightarrow> sig_step H w (w\<lparr>knotes := (knotes w)(kn \<mapsto> k)\<rparr>)"
| create: "sig_free kn w \<Longrightarrow> evfilt_signal_knote_create H kn w = Some (w', rv) \<Longrightarrow> sig_step H w w'"
| modify: "evfilt_signal_knote_modify kn src w = Some (w', rv) \<Longrightarrow> sig_step H w w'"
| enable: "sig_listed kn w \<Longrightarrow> evfilt_signal_knote_enable H kn w = Some (w', rv) \<Longrightarrow> sig_step H w w'"
| disable: "sig_listed kn w \<Longrightarrow> evfilt_signal_knote_disable kn w = Some (w', rv) \<Longrightarrow> sig_step H w w'"
| delete: "sig_listed kn w \<Longrightarrow> evfilt_signal_knote_delete H kn w = Some (w', rv) \<Longrightarrow> sig_step H w w'"
| release: "sig_free kn w \<Longrightarrow> sig_step H w (w\<lparr>knotes := (knotes w)(kn := None)\<rparr>)"
| fires: "sig_dispatch_all H ss w = Some w' \<Longrightarrow> sig_step H w w'"
| deliver: "sfs w = Some st \<Longrightarrow> sig_emit n (sfs_pending st) w = Some (w', em, out) \<Longrightarrow> sig_step H w w'"
| lower: "sig_step H w (upd_os (hook_eventfd_lower H fd) w)"
| join_first: "j \<noteq> 0 \<Longrightarrow> sigtbl w s = [] \<Longrightarrow> hook_platform_add H s (sig_os w) = (x, 0, e) \<Longrightarrow>
    sig_step H w (w\<lparr>sigtbl := (sigtbl w)(s := [j]), sig_os := x\<rparr>)"
| join_refused: "sigtbl w s = [] \<Longrightarrow> hook_platform_add H s (sig_os w) = (x, rv, e) \<Longrightarrow> rv \<noteq> 0 \<Longrightarrow> sig_step H w (w\<lparr>sig_os := x\<rparr>)"
| join: "j \<noteq> 0 \<Longrightarrow> j \<notin> set (sigtbl w s) \<Longrightarrow> sigtbl w s \<noteq> [] \<Longrightarrow> sig_step H w (w\<lparr>sigtbl := (sigtbl w)(s := j # sigtbl w s)\<rparr>)"
| leave: "j \<noteq> 0 \<Longrightarrow> set (sigtbl w s) \<noteq> {j} \<Longrightarrow> sig_step H w (w\<lparr>sigtbl := (sigtbl w)(s := removeAll j (sigtbl w s))\<rparr>)"
| leave_last: "j \<noteq> 0 \<Longrightarrow> set (sigtbl w s) = {j} \<Longrightarrow> hook_platform_remove H s (sig_os w) = (x, rv) \<Longrightarrow>
    sig_step H w (w\<lparr>sigtbl := (sigtbl w)(s := []), sig_os := x\<rparr>)"

text \<open>The part of the creation that changes the table.\<close>

definition create_linked_at :: "'o sig_hooks \<Rightarrow> addr \<Rightarrow> ('o, 'z) sw \<Rightarrow> (('o, 'z) sw \<times> int) option" where
  "create_linked_at H kn w = do {
     (s, st) \<leftarrow> link_of kn w;
     let first = (sigtbl w s = []);
     let w = insert_link s w;
     let st = upd_link s (\<lambda>sl. sl\<lparr>kn_enabled := kn # kn_enabled sl\<rparr>) st;
     let w = w\<lparr>sfs := Some st\<rparr>;
     if first then do {
       let (os', rv, e) = hook_platform_add H s (sig_os w);
       let w = w\<lparr>sig_os := os'\<rparr>;
       if rv \<noteq> 0 then do {
         let st = upd_link s (unlink_entry kn) st;
         let w = w\<lparr>sfs := Some st\<rparr>;
         let w = (if sl_has_no_knotes (sfs_links st s) then remove_link s w else w);
         Some (w\<lparr>errno := e\<rparr>, -1) }
       else Some (w, 0) }
     else Some (w, 0) }"

lemma linked_at_effect:
  assumes t: "sig_table w" and run: "create_linked_at H kn w = Some (w', rv)"
  shows "os_effect H (watched w) (sig_os w) (watched w') (sig_os w')"
proof -
  note d = run [unfolded create_linked_at_def]
  obtain s st where lk: "link_of kn w = Some (s, st)" using d by (cases "link_of kn w") auto
  then have st: "sfs w = Some st" by (auto simp: link_of_def bind_eq_Some_conv split: if_splits)
  show ?thesis
  proof (cases "sigtbl w s = []")
    case first: True
    obtain x r e where a: "hook_platform_add H s (sig_os w) = (x, r, e)" using prod_cases3 by blast
    have "0 \<in> set (sigtbl w s) \<longleftrightarrow> \<not> sl_has_no_knotes (sfs_links st s)" using t st by (auto simp: sig_table_def table_ok_def)
    then have none: "sl_has_no_knotes (unlink_entry kn (sfs_links st s\<lparr>kn_enabled := kn # kn_enabled (sfs_links st s)\<rparr>))"
      using first by (simp add: sl_has_no_knotes_def unlink_entry_def)
    show ?thesis
    proof (cases "r = 0")
      case True
      then have "sigtbl w' = (sigtbl w)(s := [0])" and x: "sig_os w' = x"
        using d lk a first by (auto simp: Let_def insert_link_def)
      then have "watched w' = insert s (watched w)" by (auto simp: watched_def)
      then show ?thesis using added [of H s "sig_os w" x e "watched w"] a True x by simp
    next
      case False
      then have "sigtbl w' = (sigtbl w)(s := [])" and x: "sig_os w' = x"
        using d lk a first none by (auto simp: Let_def insert_link_def remove_link_def upd_link_def)
      then have "watched w' = watched w" using first by (auto simp: watched_def)
      then show ?thesis using refused [OF _ a False, of "watched w"] first x by (simp add: watched_def)
    qed
  next
    case False
    then have "watched w' = watched w" "sig_os w' = sig_os w"
      using d lk by (auto simp: Let_def insert_link_def watched_def split: if_splits)
    then show ?thesis using silent [OF raised_refl, of H "watched w" "sig_os w"] by simp
  qed
qed

lemma create_effect:
  assumes t: "sig_table w" and f: "sig_free kn w" and run: "evfilt_signal_knote_create H kn w = Some (w', rv)"
  shows "os_effect H (watched w) (sig_os w) (watched w') (sig_os w')"
proof -
  define w1 where "w1 = upd_knote kn (upd_flags (set_flag EV_CLEAR)) w"
  have w1: "sigtbl w1 = sigtbl w" "sig_os w1 = sig_os w" "sfs w1 = sfs w" by (simp_all add: w1_def upd_knote_def)
  obtain k where k: "knotes w kn = Some k" using run by (auto simp: evfilt_signal_knote_create_def bind_eq_Some_conv)
  let ?v = "sig_valid (sig_num (ident (kev k)))" and ?nc = "\<not> have_pidfd_open H \<and> sig_num (ident (kev k)) = SIGCHLD"
  note same = silent [OF raised_refl, of H "watched w" "sig_os w"]
  have eq: "evfilt_signal_knote_create H kn w =
      (if \<not> ?v \<or> ?nc then Some (w\<lparr>errno := EINVAL\<rparr>, -1) else create_linked_at H kn w1)"
    using k by (simp add: evfilt_signal_knote_create_def create_linked_at_def w1_def Let_def)
  show ?thesis
  proof (cases "\<not> ?v \<or> ?nc")
    case True
    then have "sigtbl w' = sigtbl w" "sig_os w' = sig_os w" using run unfolding eq if_P [OF True] by auto
    then show ?thesis using same by (simp add: watched_def)
  next
    case False
    have run1: "create_linked_at H kn w1 = Some (w', rv)" using run unfolding eq if_not_P [OF False] .
    have "sig_table w1" using t by (simp add: sig_table_def w1)
    then show ?thesis using linked_at_effect [OF _ run1] by (simp add: watched_def w1)
  qed
qed

lemma delete_effect:
  assumes run: "evfilt_signal_knote_delete H kn w = Some (w', rv)"
  shows "os_effect H (watched w) (sig_os w) (watched w') (sig_os w')"
proof -
  obtain s st where lk: "link_of kn w = Some (s, st)" using run by (auto simp: evfilt_signal_knote_delete_def bind_eq_Some_conv)
  let ?t = "if sl_has_no_knotes (unlink_entry kn (sfs_links st s)) then (sigtbl w)(s := removeAll 0 (sigtbl w s)) else sigtbl w"
  have w': "sigtbl w' = ?t" "sig_os w' = (if ?t s = [] then fst (hook_platform_remove H s (sig_os w)) else sig_os w)"
    using run lk by (auto simp: evfilt_signal_knote_delete_def upd_link_def remove_link_def upd_knote_def Let_def split: if_splits)
  show ?thesis
  proof (cases "?t s = []")
    case True
    then have "watched w' = watched w - {s}" by (auto simp: watched_def w' split: if_splits)
    then show ?thesis using w'(2) True removed [of H s "sig_os w"] by (metis prod.collapse)
  next
    case False
    then have "watched w' = watched w" by (auto simp: watched_def w' split: if_splits)
    then show ?thesis using w'(2) False silent [OF raised_refl, of H "watched w" "sig_os w"] by simp
  qed
qed

lemma enable_effect:
  assumes run: "evfilt_signal_knote_enable H kn w = Some (w', rv)"
  shows "watched w' = watched w \<and> raised H (sig_os w) (sig_os w')"
proof -
  obtain s st where lk: "link_of kn w = Some (s, st)" using run by (auto simp: evfilt_signal_knote_enable_def bind_eq_Some_conv)
  obtain k where k: "knotes w kn = Some k" using lk by (auto simp: link_of_def bind_eq_Some_conv)
  show ?thesis using run k lk by (auto simp: evfilt_signal_knote_enable_def watched_def upd_os_def Let_def split: if_splits)
qed

lemma disable_effect:
  assumes run: "evfilt_signal_knote_disable kn w = Some (w', rv)"
  shows "watched w' = watched w \<and> sig_os w' = sig_os w"
proof -
  obtain s st where lk: "link_of kn w = Some (s, st)" using run by (auto simp: evfilt_signal_knote_disable_def bind_eq_Some_conv)
  show ?thesis using run lk by (auto simp: evfilt_signal_knote_disable_def watched_def Let_def)
qed

lemma listed_knote:
  assumes "sig_inv w" "sig_listed kn w"
  obtains k where "knotes w kn = Some k" "sig_valid (sig_num (ident (kev k)))"
proof -
  obtain st where st: "sfs w = Some st" "links_ok (knotes w) (sfs_links st)" using assms(1) by (rule sig_invE)
  obtain s where "kn \<in> set (kn_enabled (sfs_links st s)) \<or> kn \<in> set (kn_disabled (sfs_links st s))"
    using assms(2) st(1) by (auto simp: sig_listed_def)
  then show ?thesis using links_at [OF st(2), of kn s] that by metis
qed

lemma sig_alloc_inv:
  assumes "sig_inv w" "knotes w kn = None" "kn_signal_count k = 0"
  shows "sig_inv (w\<lparr>knotes := (knotes w)(kn \<mapsto> k)\<rparr>)"
proof -
  obtain st where st: "sfs w = Some st" "links_ok (knotes w) (sfs_links st)" "pending_ok (knotes w) (sfs_links st) (sfs_pending st)"
    using assms(1) by (rule sig_invE)
  have "links_ok ((knotes w)(kn \<mapsto> k)) (sfs_links st)"
    by (rule links_ok_cong [OF st(2)]) (use assms(2) in auto)
  moreover have "pending_ok ((knotes w)(kn \<mapsto> k)) (sfs_links st) (sfs_pending st)"
    using st(3) assms(3) by (auto simp: pending_ok_def split: if_splits)
  ultimately show ?thesis using st(1) by (intro sig_invI [of _ st]) simp_all
qed

lemma sig_inv_world: "knotes w' = knotes w \<Longrightarrow> sfs w' = sfs w \<Longrightarrow> sig_inv w' = sig_inv w"
  by (simp add: sig_inv_def)

lemma sig_table_others:
  assumes "sig_table w" "distinct t" "0 \<in> set t \<longleftrightarrow> 0 \<in> set (sigtbl w s)"
  shows "sig_table (w\<lparr>sigtbl := (sigtbl w)(s := t)\<rparr>)" "sig_table (w\<lparr>sigtbl := (sigtbl w)(s := t), sig_os := x\<rparr>)"
  using assms by (auto simp: sig_table_def table_ok_def)

lemma modify_effect:
  assumes "evfilt_signal_knote_modify kn src w = Some (w', rv)"
  shows "ext_same w w' \<and> watched w' = watched w \<and> sig_os w' = sig_os w"
  using assms upd_flags_ext by (auto simp: evfilt_signal_knote_modify_def bind_eq_Some_conv watched_def upd_knote_def)

text \<open>Every step keeps the tables consistent, and acts on the layer in one of the four ways.\<close>

lemma sig_step_inv:
  assumes "sig_step H w w'" "sig_inv w" "sig_table w"
  shows "sig_inv w' \<and> sig_table w' \<and> os_effect H (watched w) (sig_os w) (watched w') (sig_os w')"
  using assms
proof (induction rule: sig_step.induct)
  case (alloc w kn k)
  then show ?case using sig_alloc_inv by (auto simp: sig_table_def watched_def)
next
  case (create kn w w' rv)
  obtain k where k: "knotes w kn = Some k" using create(2) by (auto simp: evfilt_signal_knote_create_def bind_eq_Some_conv)
  show ?case using create_ok [OF create(3,1) k, of H] create(2,4) create_effect [OF create(4,1,2)] by auto
next
  case (modify kn src w w' rv)
  then show ?case using modify_effect [OF modify(1)] sig_inv_ext ext_same_fields no_effect
    by (metis sig_table_def)
next
  case (enable kn w w' rv)
  obtain k where k: "knotes w kn = Some k" "sig_valid (sig_num (ident (kev k)))" using listed_knote [OF enable(3,1)] .
  have "sig_inv w' \<and> sig_table w'" using enable_ok [OF enable(3) k, of H] enable by auto
  then show ?case using enable_effect [OF enable(2)] by (auto intro: silent)
next
  case (disable kn w w' rv)
  obtain k where k: "knotes w kn = Some k" "sig_valid (sig_num (ident (kev k)))" using listed_knote [OF disable(3,1)] .
  have "sig_inv w' \<and> sig_table w'" using disable_ok [OF disable(3) k] disable by auto
  then show ?case using disable_effect [OF disable(2)] by simp
next
  case (delete kn w w' rv)
  obtain k where k: "knotes w kn = Some k" "sig_valid (sig_num (ident (kev k)))" using listed_knote [OF delete(3,1)] .
  have "sig_inv w' \<and> sig_table w'" using delete_ok [OF delete(3) k, of H] delete by auto
  then show ?case using delete_effect [OF delete(2)] by simp
next
  case (release kn w)
  then show ?case using sig_inv_free by (auto simp: sig_table_def watched_def)
next
  case (fires ss w w')
  obtain st where st: "sfs w = Some st" using fires(2) by (rule sig_invE)
  obtain ps where "sig_inv w'" "sigtbl w' = sigtbl w" "raised H (sig_os w) (sig_os w')" "sfs w' = Some (st\<lparr>sfs_pending := ps\<rparr>)"
    using dispatch_all_ok [OF fires(2,3) st, of H ss] fires(1) by auto
  then show ?case using sig_table_same [OF fires(3) st] by (auto simp: watched_def intro: silent)
next
  case (deliver w st n w' em out)
  have e: "sig_inv w'" "sigtbl w' = sigtbl w" "sig_os w' = sig_os w" "sfs w' = Some (st\<lparr>sfs_pending := drop n (sfs_pending st)\<rparr>)"
    using emit_ok [OF deliver(3,1), of n] deliver(2) by auto
  then show ?case using sig_table_same [OF deliver(4,1) e(4,2)] by (auto simp: watched_def)
next
  case (lower w fd)
  then show ?case using lowered [of H "watched w" "sig_os w" fd] by (auto simp: upd_os_def sig_inv_def sig_table_def watched_def)
next
  case (join_first j w s x e)
  have "watched (w\<lparr>sigtbl := (sigtbl w)(s := [j]), sig_os := x\<rparr>) = insert s (watched w)" by (auto simp: watched_def)
  then show ?case using join_first sig_table_others(2) [of w "[j]" s x] added by (auto simp: sig_inv_def)
next
  case (join_refused w s x rv e)
  then show ?case using refused [of s "watched w"] join_refused(2,3) by (auto simp: watched_def sig_inv_def sig_table_def)
next
  case (join j w s)
  have "distinct (sigtbl w s)" using join(5) by (auto simp: sig_table_def table_ok_def)
  moreover have "watched (w\<lparr>sigtbl := (sigtbl w)(s := j # sigtbl w s)\<rparr>) = watched w" using join(3) by (auto simp: watched_def)
  ultimately show ?case using join sig_table_others(1) [of w "j # sigtbl w s" s] by (auto simp: sig_inv_def)
next
  case (leave j w s)
  have d: "distinct (sigtbl w s)" using leave(4) by (auto simp: sig_table_def table_ok_def)
  have "removeAll j (sigtbl w s) = [] \<longleftrightarrow> sigtbl w s = []"
    using leave(2) by (metis empty_set insert_absorb insert_Diff_single set_empty set_removeAll Diff_eq_empty_iff removeAll.simps(1) subset_singletonD)
  then have "watched (w\<lparr>sigtbl := (sigtbl w)(s := removeAll j (sigtbl w s))\<rparr>) = watched w" by (auto simp: watched_def)
  then show ?case using leave d sig_table_others(1) [of w "removeAll j (sigtbl w s)" s]
    by (auto simp: sig_inv_def distinct_removeAll)
next
  case (leave_last j w s x rv)
  have "watched (w\<lparr>sigtbl := (sigtbl w)(s := []), sig_os := x\<rparr>) = watched w - {s}" by (auto simp: watched_def)
  then show ?case using leave_last sig_table_others(2) [of w "[]" s x] removed by (auto simp: sig_inv_def)
qed

lemma sig_steps_inv:
  assumes "(sig_step H)\<^sup>*\<^sup>* w w'" "sig_inv w" "sig_table w"
    and "\<And>W x W' x'. P W x \<Longrightarrow> os_effect H W x W' x' \<Longrightarrow> P W' x'"
    and "P (watched w) (sig_os w)"
  shows "sig_inv w' \<and> sig_table w' \<and> P (watched w') (sig_os w')"
  using assms(1)
proof (induction rule: rtranclp_induct)
  case (step y z)
  then show ?case using sig_step_inv [OF step(2)] assms(4) by blast
qed (use assms in simp)

lemma pending_room:
  assumes wf: "sig_wf w" and st: "sfs w = Some st"
  shows "length (sfs_pending st) \<le> card (dom (knotes w))"
proof -
  have inv: "sig_inv w" and c: "core_wf w" using wf by (simp_all add: sig_wf_def)
  have "\<forall>a \<in> dom (knotes w). a < next_addr w" using c unfolding core_inv_def by blast
  then have f: "finite (dom (knotes w))" by (intro finite_subset [OF _ finite_lessThan [of "next_addr w"]]) auto
  have "set (sfs_pending st) \<subseteq> dom (knotes w)" using pending_live [OF inv st] by blast
  moreover have "distinct (sfs_pending st)" using inv st by (auto elim!: sig_invE simp: pending_ok_def)
  ultimately show ?thesis using card_mono [OF f] by (metis distinct_card)
qed

subsection \<open>A small system\<close>

text \<open>An operating system that grants everything, with the state of the eventfd.\<close>

definition sim_sig_base :: "bool sig_hooks" where
  "sim_sig_base =
     \<lparr>hook_eventfd_init = \<lambda>x. (x, 0, 9), hook_eventfd_register = \<lambda>_ x. (x, 0), hook_eventfd_unregister = \<lambda>_ x. x,
      hook_eventfd_close = \<lambda>_ x. x, hook_eventfd_raise = \<lambda>_ _. True, hook_eventfd_lower = \<lambda>_ _. False,
      hook_socketpair = \<lambda>x. (x, 0, 5, 6), hook_close = \<lambda>_ x. x, hook_thread_create = \<lambda>x. (x, 0),
      hook_platform_init = \<lambda>x. (x, 0), hook_platform_destroy = \<lambda>x. x, hook_platform_add = \<lambda>_ x. (x, 0, 0),
      hook_platform_remove = \<lambda>_ x. (x, 0), hook_platform_reset = \<lambda>x. x, have_pidfd_open = True\<rparr>"

definition sim_sfd_calls :: "bool sfd_calls" where
  "sim_sfd_calls =
     \<lparr>call_signalfd = \<lambda>fd _ x. (x, if fd < 0 then 7 else fd, 0), call_close = \<lambda>_ x. x, call_sigblock = \<lambda>_ x. (x, 0, 0)\<rparr>"

definition sim_sig :: "bool sfd_os sig_hooks" where
  "sim_sig = sfd_hooks sim_sfd_calls sim_sig_base"

definition sim_sig_filters :: "filter_t list" where
  "sim_sig_filters = map (\<lambda>fi. if fi = 5 then filter_zero\<lparr>kf_id := EVFILT_SIGNAL, kf_copyout_set := True\<rparr> else filter_zero) [0..<12]"

definition sim_sworld :: "bool sfd_os sworld" where
  "sim_sworld =
     \<lparr>errno = 0, calloc_ok = (\<lambda>_. True), next_addr = 1, knotes = Map.empty, kq_filt = sim_sig_filters, kq_knote_count = 0,
      sigtbl = (\<lambda>_. []), sfs = Some \<lparr>sfs_links = (\<lambda>_. sig_link_zero), sfs_pending = []\<rparr>, sig_filter_count = 1,
      sig_dispatch_thread_created = True, sig_dispatch_started = True, sig_pipe = (5, 6),
      sig_os = \<lparr>sig_signalfd = 7, sig_active_set = {}, sig_queue = [], sfd_rest = False\<rparr>\<rparr>"

lemma sim_sworld_inv: "sig_inv sim_sworld" "sig_table sim_sworld" "watched sim_sworld = {}"
  by (simp_all add: sim_sworld_def sig_inv_def sig_table_def links_ok_def pending_ok_def table_ok_def sig_link_zero_def
      sl_has_no_knotes_def watched_def)

lemma sim_sworld_wf: "sig_wf sim_sworld"
  unfolding sig_wf_def
proof (intro conjI)
  show "core_wf sim_sworld"
    by (rule core_wf_empty) (auto simp: sim_sworld_def sim_sig_filters_def filter_zero_def EVFILT_SYSCOUNT_def)
  show "impl_ok (\<lambda>fi. fi = 5) sig_adm sim_sworld"
  proof -
    have "EVFILT_SIGNAL \<noteq> 0" by (simp add: EVFILT_SIGNAL_def)
    moreover have "sim_sig_filters ! fi = (if fi = 5 then filter_zero\<lparr>kf_id := EVFILT_SIGNAL, kf_copyout_set := True\<rparr> else filter_zero)"
      if "fi < 12" for fi using that by (simp add: sim_sig_filters_def)
    moreover have "length sim_sig_filters = 12" by (simp add: sim_sig_filters_def)
    ultimately show ?thesis by (auto simp: impl_ok_def impl_set_def sim_sworld_def EVFILT_SYSCOUNT_def filter_zero_def)
  qed
qed (rule sim_sworld_inv)

text \<open>The same kqueue with one knote for signal 10.\<close>

definition sim_sig_knote :: "unit knote_scheme" where
  "sim_sig_knote = sig_knote_zero\<lparr>kev := EV_SET 10 EVFILT_SIGNAL (EV_ADD OR EV_CLEAR) 0 0 0x77, kn_ref := 1\<rparr>"

definition sim_sworld1 :: "bool sfd_os sworld" where
  "sim_sworld1 = sim_sworld\<lparr>next_addr := 2, knotes := [1 \<mapsto> sim_sig_knote],
     kq_filt := sim_sig_filters[5 := (sim_sig_filters ! 5)\<lparr>kf_index := [(10, 1)]\<rparr>], kq_knote_count := 1,
     sigtbl := (\<lambda>_. [])(10 := [0]),
     sfs := Some \<lparr>sfs_links = (\<lambda>_. sig_link_zero)(10 := \<lparr>kn_enabled = [1], kn_disabled = []\<rparr>), sfs_pending = []\<rparr>,
     sig_os := \<lparr>sig_signalfd = 7, sig_active_set = {10}, sig_queue = [], sfd_rest = False\<rparr>\<rparr>"

lemma sim_sig_valid: "sig_num 10 = 10" "sig_valid 10"
  by (simp_all add: sig_num_def sig_valid_def SIGNAL_MAX_def)

lemma sim_sworld1_inv: "sig_inv sim_sworld1" "sig_table sim_sworld1"
  using sim_sig_valid
  by (simp_all add: sim_sworld1_def sim_sworld_def sig_inv_def sig_table_def links_ok_def pending_ok_def table_ok_def sig_link_zero_def
      sl_has_no_knotes_def sim_sig_knote_def EV_SET_def sig_knote_zero_def)

lemma sim_sworld1_filt:
  "fi < 12 \<Longrightarrow> filt_at sim_sworld1 fi =
    (if fi = 5 then filter_zero\<lparr>kf_id := EVFILT_SIGNAL, kf_copyout_set := True, kf_index := [(10, 1)]\<rparr> else filter_zero)"
  "length (kq_filt sim_sworld1) = 12"
  by (simp_all add: sim_sworld1_def sim_sworld_def sim_sig_filters_def nth_list_update filter_zero_def)

lemma sim_sworld1_wf: "sig_wf sim_sworld1"
  unfolding sig_wf_def
proof (intro conjI)
  have kn: "knotes sim_sworld1 = [1 \<mapsto> sim_sig_knote]" "kq_knote_count sim_sworld1 = 1" "next_addr sim_sworld1 = 2"
    by (simp_all add: sim_sworld1_def)
  have core: "kn_core sim_sig_knote = (10, EVFILT_SIGNAL, 1, False)"
    by (simp add: kn_core_def sim_sig_knote_def sig_knote_zero_def EV_SET_def has_flag_def)
  have "filt_inv {} sim_sworld1 fi" if "fi < 12" for fi
    using that core by (auto simp: filt_inv_def sim_sworld1_filt filter_zero_def idx_ok_def entry_ok_def linked_def kn)
  moreover have "linked sim_sworld1 fi = (if fi = 5 then {1} else {})" if "fi < 12" for fi
    using that by (simp add: linked_def sim_sworld1_filt filter_zero_def)
  then have "(\<Union>fi \<in> {..<12}. linked sim_sworld1 fi) = {1}" by (auto split: if_splits)
  moreover have "(\<Sum>fi<12. int (length (kf_index (filt_at sim_sworld1 fi)))) = (\<Sum>fi<(12::nat). if fi = 5 then 1 else 0)"
    by (rule sum.cong) (auto simp: sim_sworld1_filt filter_zero_def)
  ultimately show "core_wf sim_sworld1"
    unfolding core_inv_def EVFILT_SYSCOUNT_def by (simp add: sim_sworld1_filt(2) kn)
  show "impl_ok (\<lambda>fi. fi = 5) sig_adm sim_sworld1"
  proof -
    have "EVFILT_SIGNAL \<noteq> 0" by (simp add: EVFILT_SIGNAL_def)
    then show ?thesis using sim_sworld1_filt sim_sig_valid
      by (auto simp: impl_ok_def impl_set_def EVFILT_SYSCOUNT_def filter_zero_def sig_adm_def)
  qed
qed (rule sim_sworld1_inv)

subsection \<open>Properties\<close>



text \<open>C8: no fire is lost and none is counted twice.  A round of the dispatch thread
  over the signals \<open>ss\<close> adds to the count of a knote, enabled or not, the number of
  times its signal occurs, modulo the width of the counter; the knote is pending
  afterwards if it was before, or if it is enabled and its signal occurred.\<close>

theorem signal_fires_counted:
  assumes "sig_inv w" "sig_table w" "sfs w = Some st" "kn \<in> watchers st s" "knotes w kn = Some k"
  shows "\<exists>w' st'. sig_dispatch_all H ss w = Some w' \<and> sfs w' = Some st' \<and> sfs_links st' = sfs_links st \<and>
    knotes w' kn = Some (k\<lparr>kn_signal_count := kn_signal_count k + of_nat (count_list ss (int s))\<rparr>) \<and>
    (kn \<in> set (sfs_pending st') \<longleftrightarrow>
      kn \<in> set (sfs_pending st) \<or> kn \<in> set (kn_enabled (sfs_links st s)) \<and> int s \<in> set ss)"
proof -
  have l: "links_ok (knotes w) (sfs_links st)" using assms(1,3) by (auto elim: sig_invE)
  obtain w' ps where w': "sig_dispatch_all H ss w = Some w'" "sfs w' = Some (st\<lparr>sfs_pending := ps\<rparr>)"
      "set ps = set (sfs_pending st) \<union> {a. \<exists>s \<in> set ss. sig_valid s \<and> a \<in> set (kn_enabled (sfs_links st (nat s)))}"
      "\<forall>a. knotes w' a = map_option (\<lambda>k. k\<lparr>kn_signal_count := kn_signal_count k + of_nat (sig_fires st a ss)\<rparr>) (knotes w a)"
    using dispatch_all_ok [OF assms(1-3), of H ss] by blast
  have "(\<exists>t \<in> set ss. sig_valid t \<and> kn \<in> set (kn_enabled (sfs_links st (nat t)))) \<longleftrightarrow>
      kn \<in> set (kn_enabled (sfs_links st s)) \<and> int s \<in> set ss"
  proof -
    have v: "sig_num (ident (kev k)) = int s" "sig_valid (int s)"
      using links_at [OF l, of kn s] assms(4,5) by (auto simp: watchers_def)
    have "t = int s" if "sig_valid t" "kn \<in> set (kn_enabled (sfs_links st (nat t)))" for t
      using links_at [OF l, of kn "nat t"] that assms(5) v(1) by (auto simp: sig_valid_def)
    then show ?thesis using v(2) by (metis nat_int)
  qed
  then show ?thesis using w' sig_fires_listed [OF l assms(4), of ss] assms(5)
    by (intro exI [of _ w'] exI [of _ "st\<lparr>sfs_pending := ps\<rparr>"]) simp
qed

theorem signal_fires_counted_witness:
  "\<exists>w' k. sig_dispatch_all sim_sig [10, 3, 10] sim_sworld1 = Some w' \<and> knotes w' 1 = Some k \<and> kn_signal_count k = 2"
proof -
  let ?st = "the (sfs sim_sworld1)"
  have "sfs sim_sworld1 = Some ?st" "1 \<in> watchers ?st 10" "knotes sim_sworld1 1 = Some sim_sig_knote"
    by (simp_all add: sim_sworld1_def watchers_def)
  from signal_fires_counted [OF sim_sworld1_inv this, of sim_sig "[10, 3, 10]"] show ?thesis
    by (auto simp: sim_sig_knote_def sig_knote_zero_def)
qed





text \<open>The same for sigaction, where ignoring a signal again may fail: no watched
  signal is without its handler.\<close>

lemma sigaction_handles_watched:
  assumes "(sig_step (sa_hooks C B))\<^sup>*\<^sup>* w w'" "sig_inv w" "sig_table w" "{s. sigtbl w s \<noteq> []} \<subseteq> sa_handled (sig_os w)"
  shows "{s. sigtbl w' s \<noteq> []} \<subseteq> sa_handled (sig_os w')"
proof -
  have "sig_inv w' \<and> sig_table w' \<and> watched w' \<subseteq> sa_handled (sig_os w')"
  proof (rule sig_steps_inv [OF assms(1-3), where P = "\<lambda>W x. W \<subseteq> sa_handled x"])
    show "W' \<subseteq> sa_handled x'" if "W \<subseteq> sa_handled x" "os_effect (sa_hooks C B) W x W' x'" for W x W' x'
      using sal.effect_covers [OF that(2,1)] .
  qed (use assms(4) in \<open>simp add: watched_def\<close>)
  then show ?thesis by (simp add: watched_def)
qed


end
