(* ===== verification/Posix_World.thy ===== *)
theory Posix_World
  imports Kevent_Safe "HOL-Library.Signed_Division"
begin

text \<open>
  The POSIX backend: its state and its kernel, the self-pipe, the eventfd made of a
  pipe (\<^verbatim>\<open>posix/eventfd.c\<close>), set-up and tear-down of a kqueue (\<^verbatim>\<open>posix/platform.c\<close>), and
  the deadline tree of EVFILT_TIMER (\<^verbatim>\<open>posix/timer.c\<close>).

  The deadline tree is the list of its nodes in order.  A file descriptor set is a
  set of numbers.  Deadlines are pairs of seconds and nanoseconds over the integers;
  a \<^verbatim>\<open>long\<close> that the user's data can overflow is wrapped at 64 bits.
\<close>

subsection \<open>Kernel interface\<close>

datatype pmode = P_REG | P_DIR | P_CHR | P_BLK | P_FIFO | P_SOCK | P_OTHER

datatype psock = P_STREAM | P_DGRAM | P_SEQPACKET | P_RAW | P_UNKNOWN

type_synonym timespec = "int \<times> int"

record pstat =
  ps_mode :: pmode
  ps_nlink :: int
  ps_size :: int
  ps_ctim :: timespec

type_synonym 'o psys = "'o \<Rightarrow> 'o \<times> int \<times> int"

type_synonym ('o, 'a) psysval = "'o \<Rightarrow> 'o \<times> int \<times> int \<times> 'a"

record 'o pkernel =
  pk_pipe :: "('o, int \<times> int) psysval"
  pk_getfl :: "int \<Rightarrow> 'o psys"
  pk_setfl_nonblock :: "int \<Rightarrow> int \<Rightarrow> 'o psys"
  pk_setfd_cloexec :: "int \<Rightarrow> 'o psys"
  pk_close :: "int \<Rightarrow> 'o psys"
  pk_write :: "int \<Rightarrow> 'o psys"
  pk_read :: "int \<Rightarrow> 'o psys"
  pk_fstat :: "int \<Rightarrow> ('o, pstat) psysval"
  pk_lseek_cur :: "int \<Rightarrow> 'o psys"
  pk_so_type :: "int \<Rightarrow> ('o, psock) psysval"
  pk_so_acceptconn :: "int \<Rightarrow> ('o, int) psysval"
  pk_so_error :: "int \<Rightarrow> ('o, int) psysval"
  pk_recv_peek :: "int \<Rightarrow> 'o psys"
  pk_set_rcvlowat :: "int \<Rightarrow> int \<Rightarrow> 'o psys"
  pk_fionread :: "int \<Rightarrow> ('o, int) psysval"
  pk_monotonic :: "'o \<Rightarrow> 'o \<times> timespec"
  pk_realtime :: "'o \<Rightarrow> 'o \<times> timespec"
  pk_pselect :: "int \<Rightarrow> int set \<Rightarrow> int set \<Rightarrow> timespec option \<Rightarrow> ('o, int set \<times> int set) psysval"

subsection \<open>State\<close>

record pknote = knote +
  kn_timer :: "addr option"
  kn_vnode :: "addr option"

record posix_timer =
  pt_kn :: addr
  pt_next :: timespec
  pt_interval_ns :: int
  pt_oneshot :: bool
  pt_absolute :: bool
  pt_in_tree :: bool
  pt_fire_count :: u32

record 'o pworld = "(unit pknote_ext) world" +
  kq_fds :: "int set"
  kq_rfds :: "int set"
  kq_wfds :: "int set"
  kq_wrfds :: "int set"
  kq_nfds :: int
  kq_id :: int
  kq_wake_wfd :: int
  kq_always_ready :: int
  kq_file_poll_interval_ns :: int
  kq_inflight :: "nat list"
  kq_timers :: "addr list"
  ptimers :: "addr \<Rightarrow> posix_timer option"
  pvnodes :: "addr \<Rightarrow> pstat option"
  kf_pfd :: "nat \<Rightarrow> int"
  ef_wfd :: "nat \<Rightarrow> int"
  pos :: 'o

type_synonym ('o, 'z) pw = "('o, 'z) pworld_scheme"

definition pknote_zero :: pknote where
  "pknote_zero =
     \<lparr>kev = EV_SET 0 0 0 0 0 0, kn_flags = 0, kn_ref = 0, kn_signal_count = 0, kn_timer = None, kn_vnode = None\<rparr>"

definition pcall :: "'o psys \<Rightarrow> ('o, 'z) pw \<Rightarrow> ('o, 'z) pw \<times> int" where
  "pcall f w =
     (case f (pos w) of (k, rv, e) \<Rightarrow> (w\<lparr>pos := k, errno := (if rv < 0 then e else errno w)\<rparr>, rv))"

definition pcall_val :: "('o, 'a) psysval \<Rightarrow> ('o, 'z) pw \<Rightarrow> ('o, 'z) pw \<times> int \<times> 'a" where
  "pcall_val f w =
     (case f (pos w) of (k, rv, e, v) \<Rightarrow> (w\<lparr>pos := k, errno := (if rv < 0 then e else errno w)\<rparr>, rv, v))"

definition FD_SETSIZE :: int where
  "FD_SETSIZE = 1024"

text \<open>The cast \<^verbatim>\<open>(int) kn->kev.ident\<close>.\<close>

definition posix_fd :: "'k knote_scheme \<Rightarrow> int" where
  "posix_fd k = sint (ucast (ident (kev k)) :: 32 word)"

subsection \<open>Pipes\<close>

definition close_both :: "'o pkernel \<Rightarrow> int \<times> int \<Rightarrow> ('o, 'z) pw \<Rightarrow> ('o, 'z) pw" where
  "close_both K fds w = fst (pcall (pk_close K (snd fds)) (fst (pcall (pk_close K (fst fds)) w)))"

text \<open>The three calls of \<^verbatim>\<open>fcntl\<close> on one end, which stop at the first failure.\<close>

definition fcntl_end :: "'o pkernel \<Rightarrow> int \<Rightarrow> ('o, 'z) pw \<Rightarrow> ('o, 'z) pw \<times> int" where
  "fcntl_end K fd w =
     (let (w, fl) = pcall (pk_getfl K fd) w in
      if fl < 0 then (w, -1)
      else
        let (w, rv) = pcall (pk_setfl_nonblock K fd fl) w in
        if rv < 0 then (w, -1)
        else
          let (w, rv) = pcall (pk_setfd_cloexec K fd) w in
          if rv < 0 then (w, -1) else (w, 0))"

definition posix_self_pipe :: "'o pkernel \<Rightarrow> ('o, 'z) pw \<Rightarrow> ('o, 'z) pw \<times> int \<times> int \<times> int" where
  "posix_self_pipe K w =
     (let (w, rv, fds) = pcall_val (pk_pipe K) w in
      if rv < 0 then (w, -1, fds)
      else
        let (w, r0) = fcntl_end K (fst fds) w in
        if r0 < 0 then (close_both K fds w, -1, fds)
        else
          let (w, r1) = fcntl_end K (snd fds) w in
          if r1 < 0 then (close_both K fds w, -1, fds) else (w, 0, fds))"

text \<open>The eventfd of a filter opens its pipe in the same way where \<^verbatim>\<open>pipe2\<close> is missing.\<close>

definition posix_eventfd_pipe :: "'o pkernel \<Rightarrow> ('o, 'z) pw \<Rightarrow> ('o, 'z) pw \<times> int \<times> int \<times> int" where
  "posix_eventfd_pipe K w =
     (let (w, rv, sd) = pcall_val (pk_pipe K) w in
      if rv < 0 then (w, -1, sd)
      else
        let (w, r0) = fcntl_end K (fst sd) w in
        if r0 < 0 then (close_both K sd w, -1, sd)
        else
          let (w, r1) = fcntl_end K (snd sd) w in
          if r1 < 0 then (close_both K sd w, -1, sd) else (w, 0, sd))"

definition posix_eventfd_init :: "'o pkernel \<Rightarrow> nat \<Rightarrow> ('o, 'z) pw \<Rightarrow> ('o, 'z) pw \<times> int" where
  "posix_eventfd_init K fi w =
     (let (w, rv, sd) = posix_eventfd_pipe K w in
      if rv < 0 then (w, -1)
      else ((upd_filt fi (\<lambda>f. f\<lparr>kf_efd := fst sd\<rparr>) w)\<lparr>ef_wfd := (ef_wfd w)(fi := snd sd)\<rparr>, 0))"

definition posix_eventfd_close :: "'o pkernel \<Rightarrow> nat \<Rightarrow> ('o, 'z) pw \<Rightarrow> ('o, 'z) pw" where
  "posix_eventfd_close K fi w =
     upd_filt fi (\<lambda>f. f\<lparr>kf_efd := -1\<rparr>) (close_both K (kf_efd (filt_at w fi), ef_wfd w fi) w)"

definition posix_eventfd_raise :: "'o pkernel \<Rightarrow> nat \<Rightarrow> ('o, 'z) pw \<Rightarrow> ('o, 'z) pw \<times> int" where
  "posix_eventfd_raise K fi w =
     (let (w, rv) = pcall (pk_write K (ef_wfd w fi)) w in if rv < 0 then (w, -1) else (w, 0))"

definition posix_eventfd_lower :: "'o pkernel \<Rightarrow> nat \<Rightarrow> ('o, 'z) pw \<Rightarrow> ('o, 'z) pw \<times> int" where
  "posix_eventfd_lower K fi w =
     (let (w, rv) = pcall (pk_read K (kf_efd (filt_at w fi))) w in if rv < 0 then (w, -1) else (w, 0))"

definition posix_eventfd_descriptor :: "nat \<Rightarrow> ('o, 'z) pw \<Rightarrow> int" where
  "posix_eventfd_descriptor fi w = kf_efd (filt_at w fi)"

definition posix_eventfd_register :: "nat \<Rightarrow> ('o, 'z) pw \<Rightarrow> ('o, 'z) pw \<times> int" where
  "posix_eventfd_register fi w =
     (let fd = kf_efd (filt_at w fi) in
      if fd < 0 then (w, 0)
      else if fd \<ge> FD_SETSIZE then (w\<lparr>errno := EMFILE\<rparr>, -1)
      else
        let w = w\<lparr>kq_fds := insert fd (kq_fds w)\<rparr>;
            w = (if fd \<ge> kq_nfds w then w\<lparr>kq_nfds := fd + 1\<rparr> else w)
        in (w\<lparr>kf_pfd := (kf_pfd w)(fi := fd)\<rparr>, 0))"

definition posix_eventfd_unregister :: "nat \<Rightarrow> ('o, 'z) pw \<Rightarrow> ('o, 'z) pw" where
  "posix_eventfd_unregister fi w =
     (let fd = kf_efd (filt_at w fi) in
      if fd < 0 \<or> fd \<ge> FD_SETSIZE then w
      else
        let w = w\<lparr>kq_fds := kq_fds w - {fd}\<rparr>
        in if kf_pfd w fi = fd then w\<lparr>kf_pfd := (kf_pfd w)(fi := -1)\<rparr> else w)"

subsection \<open>The kqueue\<close>

definition posix_wake_kqueue :: "'o pkernel \<Rightarrow> ('o, 'z) pw \<Rightarrow> ('o, 'z) pw" where
  "posix_wake_kqueue K w = (if kq_wake_wfd w < 0 then w else fst (pcall (pk_write K (kq_wake_wfd w)) w))"

definition posix_kevent_enter :: "nat \<Rightarrow> ('o, 'z) pw \<Rightarrow> ('o, 'z) pw" where
  "posix_kevent_enter t w = w\<lparr>kq_inflight := kq_inflight w @ [t]\<rparr>"

definition posix_kevent_exit :: "nat \<Rightarrow> ('o, 'z) pw \<Rightarrow> ('o, 'z) pw" where
  "posix_kevent_exit t w = w\<lparr>kq_inflight := removeAll t (kq_inflight w)\<rparr>"

definition posix_set_file_poll_interval :: "'o pkernel \<Rightarrow> int \<Rightarrow> ('o, 'z) pw \<Rightarrow> ('o, 'z) pw \<times> int" where
  "posix_set_file_poll_interval K interval_ns w =
     (if interval_ns < 0 then (w\<lparr>errno := EINVAL\<rparr>, -1)
      else (posix_wake_kqueue K (w\<lparr>kq_file_poll_interval_ns := interval_ns\<rparr>), 0))"

definition posix_kqueue_init ::
  "'o pkernel \<Rightarrow> (('o, 'z) pw \<Rightarrow> (('o, 'z) pw \<times> int) option) \<Rightarrow> ('o, 'z) pw \<Rightarrow> (('o, 'z) pw \<times> int) option" where
  "posix_kqueue_init K register_all w = do {
     let (w, rv, sd) = posix_self_pipe K w;
     if rv < 0 then Some (w, -1)
     else if fst sd \<ge> FD_SETSIZE then Some ((close_both K sd w)\<lparr>errno := EMFILE\<rparr>, -1)
     else do {
       let w = w\<lparr>kq_inflight := [], kq_timers := [], kq_id := fst sd, kq_fds := {fst sd}, kq_wfds := {},
                 kq_nfds := fst sd + 1, kq_wake_wfd := snd sd\<rparr>;
       (w, rv) \<leftarrow> register_all w;
       if rv < 0 then Some ((close_both K sd w)\<lparr>kq_id := -1, kq_wake_wfd := -1\<rparr>, -1)
       else Some (w, 0) } }"

definition posix_kqueue_free :: "'o pkernel \<Rightarrow> ('o, 'z) pw \<Rightarrow> ('o, 'z) pw" where
  "posix_kqueue_free K w =
     (let w = w\<lparr>kq_id := -1\<rparr>;
          w = (if kq_wake_wfd w \<ge> 0 then (fst (pcall (pk_close K (kq_wake_wfd w)) w))\<lparr>kq_wake_wfd := -1\<rparr> else w)
      in w\<lparr>kq_fds := {}, kq_nfds := 0\<rparr>)"

subsection \<open>Deadlines\<close>

definition ts_lt :: "timespec \<Rightarrow> timespec \<Rightarrow> bool" where
  "ts_lt a b \<longleftrightarrow> (if fst a \<noteq> fst b then fst a < fst b else snd a < snd b)"

definition ts_add_ns :: "timespec \<Rightarrow> int \<Rightarrow> timespec" where
  "ts_add_ns t ns =
     (let s = fst t + ns sdiv 1000000000; n = snd t + ns smod 1000000000
      in if n \<ge> 1000000000 then (s + 1, n - 1000000000) else (s, n))"

text \<open>The value of a \<^verbatim>\<open>long\<close> after an operation that may have left its range.\<close>

definition long_wrap :: "int \<Rightarrow> int" where
  "long_wrap x = sint (word_of_int x :: 64 word)"

definition timer_data_to_ns :: "u64 \<Rightarrow> u32 \<Rightarrow> int" where
  "timer_data_to_ns d ff =
     (if has_flag ff NOTE_NSECONDS then sint d
      else if has_flag ff NOTE_USECONDS then long_wrap (sint d * 1000)
      else if has_flag ff NOTE_SECONDS then long_wrap (sint d * 1000000000)
      else long_wrap (sint d * 1000000))"

definition posix_timer_cmp :: "(addr \<Rightarrow> posix_timer option) \<Rightarrow> addr \<Rightarrow> addr \<Rightarrow> int" where
  "posix_timer_cmp h a b =
     (case (h a, h b) of
        (Some s, Some t) \<Rightarrow>
          if ts_lt (pt_next s) (pt_next t) then -1
          else if ts_lt (pt_next t) (pt_next s) then 1
          else if a < b then -1 else if b < a then 1 else 0
      | _ \<Rightarrow> 0)"

text \<open>\<^verbatim>\<open>RB_INSERT\<close>: the descent goes left of a greater node.\<close>

fun timer_insert :: "(addr \<Rightarrow> posix_timer option) \<Rightarrow> addr \<Rightarrow> addr list \<Rightarrow> addr list" where
  "timer_insert h t [] = [t]"
| "timer_insert h t (u # us) =
     (if posix_timer_cmp h t u < 0 then t # u # us
      else if posix_timer_cmp h t u > 0 then u # timer_insert h t us else u # us)"

definition upd_timer :: "addr \<Rightarrow> (posix_timer \<Rightarrow> posix_timer) \<Rightarrow> ('o, 'z) pw \<Rightarrow> ('o, 'z) pw" where
  "upd_timer t f w = w\<lparr>ptimers := (ptimers w)(t := map_option f (ptimers w t))\<rparr>"

definition timer_link :: "addr \<Rightarrow> ('o, 'z) pw \<Rightarrow> ('o, 'z) pw option" where
  "timer_link t w = do {
     x \<leftarrow> ptimers w t;
     Some (if pt_in_tree x then w
           else upd_timer t (\<lambda>x. x\<lparr>pt_in_tree := True\<rparr>) (w\<lparr>kq_timers := timer_insert (ptimers w) t (kq_timers w)\<rparr>)) }"

definition timer_unlink :: "addr \<Rightarrow> ('o, 'z) pw \<Rightarrow> ('o, 'z) pw option" where
  "timer_unlink t w = do {
     x \<leftarrow> ptimers w t;
     Some (if pt_in_tree x
           then upd_timer t (\<lambda>x. x\<lparr>pt_in_tree := False\<rparr>) (w\<lparr>kq_timers := removeAll t (kq_timers w)\<rparr>) else w) }"

definition clock_monotonic :: "'o pkernel \<Rightarrow> ('o, 'z) pw \<Rightarrow> ('o, 'z) pw \<times> timespec" where
  "clock_monotonic K w = (let (k, t) = pk_monotonic K (pos w) in (w\<lparr>pos := k\<rparr>, t))"

definition clock_realtime :: "'o pkernel \<Rightarrow> ('o, 'z) pw \<Rightarrow> ('o, 'z) pw \<times> timespec" where
  "clock_realtime K w = (let (k, t) = pk_realtime K (pos w) in (w\<lparr>pos := k\<rparr>, t))"

definition timer_min_deadline_ns :: "'o pkernel \<Rightarrow> ('o, 'z) pw \<Rightarrow> (('o, 'z) pw \<times> int) option" where
  "timer_min_deadline_ns K w =
     (case kq_timers w of
        [] \<Rightarrow> Some (w, -1)
      | t # _ \<Rightarrow> do {
          x \<leftarrow> ptimers w t;
          let (w, now) = clock_monotonic K w;
          if ts_lt (pt_next x) now then Some (w, 0)
          else Some (w, (fst (pt_next x) - fst now) * 1000000000 + (snd (pt_next x) - snd now)) })"

text \<open>Catching up the periods a timer has missed.\<close>

partial_function (option) timer_catch_up :: "int \<Rightarrow> timespec \<Rightarrow> timespec \<Rightarrow> u32 \<Rightarrow> (timespec \<times> u32) option" where
  "timer_catch_up iv now next c =
     (if ts_lt now (ts_add_ns next iv) then Some (ts_add_ns next iv, c)
      else timer_catch_up iv now (ts_add_ns next iv) (c + 1))"

declare timer_catch_up.simps [code]

definition timer_fire :: "timespec \<Rightarrow> addr \<Rightarrow> posix_timer \<Rightarrow> ('o, 'z) pw \<Rightarrow> ('o, 'z) pw option" where
  "timer_fire now t x w = do {
     w \<leftarrow> timer_unlink t w;
     let w = upd_timer t (\<lambda>x. x\<lparr>pt_fire_count := pt_fire_count x + 1\<rparr>) w;
     if pt_oneshot x \<or> pt_absolute x \<or> pt_interval_ns x = 0
     then Some (upd_timer t (\<lambda>x. x\<lparr>pt_next := (fst now + 1000000000, 0)\<rparr>) w)
     else do {
       (next, c) \<leftarrow> timer_catch_up (pt_interval_ns x) now (pt_next x) (pt_fire_count x + 1);
       timer_link t (upd_timer t (\<lambda>x. x\<lparr>pt_next := next, pt_fire_count := c\<rparr>) w) } }"

partial_function (option) timer_check_loop :: "timespec \<Rightarrow> ('o, 'z) pw \<Rightarrow> ('o, 'z) pw option" where
  "timer_check_loop now w =
     (case kq_timers w of
        [] \<Rightarrow> Some w
      | t # _ \<Rightarrow>
          Option.bind (ptimers w t) (\<lambda>x.
          if ts_lt now (pt_next x) then Some w
          else Option.bind (timer_fire now t x w) (timer_check_loop now)))"

declare timer_check_loop.simps [code]

definition posix_timer_check :: "'o pkernel \<Rightarrow> ('o, 'z) pw \<Rightarrow> ('o, 'z) pw option" where
  "posix_timer_check K w =
     (if kq_timers w = [] then Some w
      else let (w, now) = clock_monotonic K w in timer_check_loop now w)"

end
