(* ===== verification/Posix_Filters.thy ===== *)
theory Posix_Filters
  imports Posix_World
begin

text \<open>
  The filters of the POSIX backend: EVFILT_READ and EVFILT_WRITE over the descriptor
  sets (\<^verbatim>\<open>posix/read.c\<close>, \<^verbatim>\<open>posix/write.c\<close>), EVFILT_USER (\<^verbatim>\<open>posix/user.c\<close>), EVFILT_TIMER over
  the deadline tree (\<^verbatim>\<open>posix/timer.c\<close>) and EVFILT_VNODE by comparing snapshots
  (\<^verbatim>\<open>posix/vnode.c\<close>).  Slot numbers: READ 0, WRITE 1, VNODE 3, TIMER 6, USER 10.
\<close>

subsection \<open>Always-ready knotes\<close>

definition kn_flag_set :: "u32 \<Rightarrow> addr \<Rightarrow> ('o, 'z) pw \<Rightarrow> ('o, 'z) pw" where
  "kn_flag_set f kn = upd_knote kn (\<lambda>k. k\<lparr>kn_flags := set_flag f (kn_flags k)\<rparr>)"

definition kn_flag_clear :: "u32 \<Rightarrow> addr \<Rightarrow> ('o, 'z) pw \<Rightarrow> ('o, 'z) pw" where
  "kn_flag_clear f kn = upd_knote kn (\<lambda>k. k\<lparr>kn_flags := clear_flag f (kn_flags k)\<rparr>)"

definition ready_insert :: "nat \<Rightarrow> addr \<Rightarrow> ('o, 'z) pw \<Rightarrow> ('o, 'z) pw" where
  "ready_insert fi kn w =
     (if kn \<in> set (kf_ready (filt_at w fi)) then w else upd_filt fi (\<lambda>f. f\<lparr>kf_ready := kn # kf_ready f\<rparr>) w)"

definition ready_remove :: "nat \<Rightarrow> addr \<Rightarrow> ('o, 'z) pw \<Rightarrow> ('o, 'z) pw" where
  "ready_remove fi kn w = upd_filt fi (\<lambda>f. f\<lparr>kf_ready := removeAll kn (kf_ready f)\<rparr>) w"

definition bump_always_ready :: "addr \<Rightarrow> ('o, 'z) pw \<Rightarrow> ('o, 'z) pw" where
  "bump_always_ready kn w =
     kn_flag_set KNFL_ALWAYS_READY_BUMPED kn (w\<lparr>kq_always_ready := kq_always_ready w + 1\<rparr>)"

definition drop_always_ready :: "addr \<Rightarrow> ('o, 'z) pw \<Rightarrow> ('o, 'z) pw" where
  "drop_always_ready kn w =
     kn_flag_clear KNFL_ALWAYS_READY_BUMPED kn
       (if kq_always_ready w > 0 then w\<lparr>kq_always_ready := kq_always_ready w - 1\<rparr> else w)"

definition kn_bumped :: "'k knote_scheme \<Rightarrow> bool" where
  "kn_bumped k \<longleftrightarrow> has_flag (kn_flags k) KNFL_ALWAYS_READY_BUMPED"

subsection \<open>EVFILT_READ\<close>

definition psock_flag :: "psock \<Rightarrow> u32" where
  "psock_flag t =
     (case t of P_STREAM \<Rightarrow> KNFL_SOCKET_STREAM | P_DGRAM \<Rightarrow> KNFL_SOCKET_DGRAM | P_SEQPACKET \<Rightarrow> KNFL_SOCKET_SEQPACKET
      | P_RAW \<Rightarrow> KNFL_SOCKET_RAW | P_UNKNOWN \<Rightarrow> KNFL_SOCKET_STREAM)"

definition ENOTCONN :: int where
  "ENOTCONN = 107"

text \<open>Whether a stream socket listens; without SO_ACCEPTCONN, by peeking.\<close>

definition passive_probe :: "'o pkernel \<Rightarrow> int \<Rightarrow> ('o, 'z) pw \<Rightarrow> ('o, 'z) pw \<times> bool" where
  "passive_probe K fd w =
     (let (w, rv, listening) = pcall_val (pk_so_acceptconn K fd) w in
      if rv = 0 then (w, listening \<noteq> 0)
      else let (w, r) = pcall (pk_recv_peek K fd) w in (w, r < 0 \<and> errno w = ENOTCONN))"

definition posix_read_descriptor_type :: "'o pkernel \<Rightarrow> addr \<Rightarrow> ('o, 'z) pw \<Rightarrow> (('o, 'z) pw \<times> int) option" where
  "posix_read_descriptor_type K kn w = do {
     k \<leftarrow> knotes w kn;
     let fd = posix_fd k;
     let (w, rv, sb) = pcall_val (pk_fstat K fd) w;
     if rv < 0 then Some (w, -1)
     else (case ps_mode sb of
         P_REG \<Rightarrow> Some (kn_flag_set KNFL_FILE kn w, 0)
       | P_DIR \<Rightarrow> Some (kn_flag_set KNFL_FILE kn w, 0)
       | P_CHR \<Rightarrow> Some (kn_flag_set KNFL_CHARDEV kn w, 0)
       | P_BLK \<Rightarrow> Some (kn_flag_set KNFL_BLOCKDEV kn w, 0)
       | P_FIFO \<Rightarrow> Some (kn_flag_set KNFL_PIPE kn w, 0)
       | P_SOCK \<Rightarrow>
           let (w, rv, t) = pcall_val (pk_so_type K fd) w in
           if rv < 0 then Some (w, -1)
           else
             let w = kn_flag_set (psock_flag t) kn w in
             if has_flag (psock_flag t) KNFL_SOCKET_STREAM \<or> has_flag (kn_flags k) KNFL_SOCKET_STREAM
             then let (w, passive) = passive_probe K fd w in
                  Some (if passive then kn_flag_set KNFL_SOCKET_PASSIVE kn w else w, 0)
             else Some (w, 0)
       | P_OTHER \<Rightarrow> Some (w, -1)) }"

text \<open>Adding a descriptor to the read set.\<close>

definition watch_read :: "int \<Rightarrow> ('o, 'z) pw \<Rightarrow> ('o, 'z) pw" where
  "watch_read fd w =
     (let w = w\<lparr>kq_fds := insert fd (kq_fds w)\<rparr> in if fd \<ge> kq_nfds w then w\<lparr>kq_nfds := fd + 1\<rparr> else w)"

definition posix_read_arm :: "'o pkernel \<Rightarrow> addr \<Rightarrow> ('o, 'z) pw \<Rightarrow> (('o, 'z) pw \<times> int) option" where
  "posix_read_arm K kn w = do {
     k \<leftarrow> knotes w kn;
     if has_flag (kn_flags k) KNFL_FILE then
       let w = (if kn_bumped k then w else bump_always_ready kn (ready_insert 0 kn w))
       in Some (posix_wake_kqueue K w, 0)
     else if posix_fd k < 0 \<or> posix_fd k \<ge> FD_SETSIZE then Some (w\<lparr>errno := EBADF\<rparr>, -1)
     else Some (posix_wake_kqueue K (watch_read (posix_fd k) w), 0) }"

definition posix_read_disarm :: "addr \<Rightarrow> ('o, 'z) pw \<Rightarrow> ('o, 'z) pw option" where
  "posix_read_disarm kn w = do {
     k \<leftarrow> knotes w kn;
     if has_flag (kn_flags k) KNFL_FILE then
       Some (if kn_bumped k then drop_always_ready kn (ready_remove 0 kn w) else w)
     else if posix_fd k < 0 \<or> posix_fd k \<ge> FD_SETSIZE then Some w
     else Some (w\<lparr>kq_fds := kq_fds w - {posix_fd k}\<rparr>) }"

definition wants_lowat :: "'k knote_scheme \<Rightarrow> bool" where
  "wants_lowat k \<longleftrightarrow> has_flag (fflags (kev k)) NOTE_LOWAT \<and> has_flag (kn_flags k) KNFL_SOCKET_STREAM"

definition posix_read_knote_create :: "'o pkernel \<Rightarrow> addr \<Rightarrow> ('o, 'z) pw \<Rightarrow> (('o, 'z) pw \<times> int) option" where
  "posix_read_knote_create K kn w = do {
     (w, rv) \<leftarrow> posix_read_descriptor_type K kn w;
     if rv < 0 then Some (w, -1)
     else do {
       k \<leftarrow> knotes w kn;
       let lowat = sint (ucast (data (kev k)) :: 32 word);
       let w = (if wants_lowat k then fst (pcall (pk_set_rcvlowat K (posix_fd k) (if lowat < 1 then 1 else lowat)) w) else w);
       posix_read_arm K kn w } }"

definition posix_read_knote_delete :: "'o pkernel \<Rightarrow> addr \<Rightarrow> ('o, 'z) pw \<Rightarrow> (('o, 'z) pw \<times> int) option" where
  "posix_read_knote_delete K kn w = do {
     k \<leftarrow> knotes w kn;
     let w = (if wants_lowat k then fst (pcall (pk_set_rcvlowat K (posix_fd k) 1) w) else w);
     w \<leftarrow> posix_read_disarm kn w;
     Some (w, 0) }"

definition posix_read_knote_enable :: "'o pkernel \<Rightarrow> addr \<Rightarrow> ('o, 'z) pw \<Rightarrow> (('o, 'z) pw \<times> int) option" where
  "posix_read_knote_enable K kn w = posix_read_arm K kn w"

definition posix_read_knote_disable :: "addr \<Rightarrow> ('o, 'z) pw \<Rightarrow> (('o, 'z) pw \<times> int) option" where
  "posix_read_knote_disable kn w = do { w \<leftarrow> posix_read_disarm kn w; Some (w, 0) }"

definition posix_read_knote_modify :: "addr \<Rightarrow> kevent \<Rightarrow> ('o, 'z) pw \<Rightarrow> (('o, 'z) pw \<times> int) option" where
  "posix_read_knote_modify kn src w = Some (w, 0)"

definition posix_read_ops :: "'o pkernel \<Rightarrow> (('o, 'z) pw) filter_ops" where
  "posix_read_ops K =
     \<lparr>kf_copyout = \<lambda>_ _ _ _. None, kn_create = posix_read_knote_create K, kn_modify = posix_read_knote_modify,
      kn_delete = posix_read_knote_delete K, kn_enable = posix_read_knote_enable K, kn_disable = posix_read_knote_disable\<rparr>"

text \<open>The end of a copyout: EV_CLEAR disarms, then the flag actions.\<close>

definition read_emit :: "'o pkernel \<Rightarrow> addr \<Rightarrow> kevent \<Rightarrow> ('o, 'z) pw \<Rightarrow> (('o, 'z) pw \<times> int \<times> kevent list) option" where
  "read_emit K kn e w = do {
     k \<leftarrow> knotes w kn;
     w \<leftarrow> (if has_flag (flags (kev k)) EV_CLEAR then posix_read_disarm kn w else Some w);
     (w, rv) \<leftarrow> knote_copyout_flag_actions (posix_read_ops K) 0 kn w;
     if rv < 0 then Some (w, -1, []) else Some (w, 1, [e]) }"

definition file_remaining :: "'o pkernel \<Rightarrow> int \<Rightarrow> ('o, 'z) pw \<Rightarrow> ('o, 'z) pw \<times> int" where
  "file_remaining K fd w =
     (let (w, rv, sb) = pcall_val (pk_fstat K fd) w;
          size = (if rv < 0 then 0 else ps_size sb);
          (w, pos) = pcall (pk_lseek_cur K fd) w
      in (w, size - (if pos = -1 then 0 else pos)))"

definition read_queued :: "'o pkernel \<Rightarrow> 'k knote_scheme \<Rightarrow> kevent \<Rightarrow> ('o, 'z) pw \<Rightarrow> ('o, 'z) pw \<times> kevent" where
  "read_queued K k e w =
     (let (w, rv, n) = pcall_val (pk_fionread K (posix_fd k)) w;
          e = e\<lparr>data := (if rv < 0 then 0 else word_of_int n)\<rparr>
      in if data e = 0 \<and> (has_flag (kn_flags k) KNFL_SOCKET_STREAM \<or> has_flag (kn_flags k) KNFL_PIPE) then
           let e = e\<lparr>flags := set_flag EV_EOF (flags e)\<rparr> in
           if has_flag (kn_flags k) KNFL_SOCKET_STREAM then
             let (w, rv, serr) = pcall_val (pk_so_error K (posix_fd k)) w in
             (w, if rv = 0 \<and> serr \<noteq> 0 then e\<lparr>fflags := word_of_int serr\<rparr> else e)
           else (w, e)
         else (w, e))"

definition posix_read_copyout ::
  "'o pkernel \<Rightarrow> nat \<Rightarrow> addr option \<Rightarrow> u32 \<Rightarrow> ('o, 'z) pw \<Rightarrow> (('o, 'z) pw \<times> int \<times> kevent list) option" where
  "posix_read_copyout K nevents src ev w = do {
     kn \<leftarrow> src;
     k \<leftarrow> knotes w kn;
     if has_flag (kn_flags k) KNFL_FILE then
       let (w, left) = file_remaining K (posix_fd k) w in
       if left \<le> 0 then Some (w, 0, []) else read_emit K kn ((kev k)\<lparr>data := word_of_int left\<rparr>) w
     else if has_flag (kn_flags k) KNFL_SOCKET_PASSIVE then read_emit K kn ((kev k)\<lparr>data := 1\<rparr>) w
     else let (w, e) = read_queued K k (kev k) w in read_emit K kn e w }"

definition posix_evfilt_read :: "'o pkernel \<Rightarrow> (('o, 'z) pw) filter_ops" where
  "posix_evfilt_read K = (posix_read_ops K)\<lparr>kf_copyout := posix_read_copyout K\<rparr>"

subsection \<open>EVFILT_WRITE\<close>

definition posix_write_descriptor_type :: "'o pkernel \<Rightarrow> addr \<Rightarrow> ('o, 'z) pw \<Rightarrow> (('o, 'z) pw \<times> int) option" where
  "posix_write_descriptor_type K kn w = do {
     k \<leftarrow> knotes w kn;
     let fd = posix_fd k;
     let (w, rv, sb) = pcall_val (pk_fstat K fd) w;
     if rv < 0 then Some (w, -1)
     else (case ps_mode sb of
         P_REG \<Rightarrow> Some (kn_flag_set KNFL_FILE kn w, 0)
       | P_DIR \<Rightarrow> Some (kn_flag_set KNFL_FILE kn w, 0)
       | P_CHR \<Rightarrow> Some (kn_flag_set KNFL_CHARDEV kn w, 0)
       | P_BLK \<Rightarrow> Some (kn_flag_set KNFL_BLOCKDEV kn w, 0)
       | P_FIFO \<Rightarrow> Some (kn_flag_set KNFL_PIPE kn w, 0)
       | P_SOCK \<Rightarrow>
           let (w, rv, t) = pcall_val (pk_so_type K fd) w in
           if rv < 0 then Some (w, -1)
           else Some (kn_flag_set (if t = P_DGRAM then KNFL_SOCKET_DGRAM else KNFL_SOCKET_STREAM) kn w, 0)
       | P_OTHER \<Rightarrow> Some (w, -1)) }"

definition posix_write_arm :: "'o pkernel \<Rightarrow> addr \<Rightarrow> ('o, 'z) pw \<Rightarrow> (('o, 'z) pw \<times> int) option" where
  "posix_write_arm K kn w = do {
     k \<leftarrow> knotes w kn;
     let fd = posix_fd k;
     if fd < 0 \<or> fd \<ge> FD_SETSIZE then Some (w\<lparr>errno := EBADF\<rparr>, -1)
     else
       let w = w\<lparr>kq_wfds := insert fd (kq_wfds w)\<rparr>; w = (if fd \<ge> kq_nfds w then w\<lparr>kq_nfds := fd + 1\<rparr> else w)
       in Some (posix_wake_kqueue K w, 0) }"

definition posix_write_disarm :: "addr \<Rightarrow> ('o, 'z) pw \<Rightarrow> ('o, 'z) pw option" where
  "posix_write_disarm kn w = do {
     k \<leftarrow> knotes w kn;
     Some (if posix_fd k < 0 \<or> posix_fd k \<ge> FD_SETSIZE then w else w\<lparr>kq_wfds := kq_wfds w - {posix_fd k}\<rparr>) }"

definition posix_write_knote_create :: "'o pkernel \<Rightarrow> addr \<Rightarrow> ('o, 'z) pw \<Rightarrow> (('o, 'z) pw \<times> int) option" where
  "posix_write_knote_create K kn w = do {
     (w, rv) \<leftarrow> posix_write_descriptor_type K kn w;
     if rv < 0 then Some (w, -1) else posix_write_arm K kn w }"

definition posix_write_knote_delete :: "addr \<Rightarrow> ('o, 'z) pw \<Rightarrow> (('o, 'z) pw \<times> int) option" where
  "posix_write_knote_delete kn w = do { w \<leftarrow> posix_write_disarm kn w; Some (w, 0) }"

definition posix_write_knote_enable :: "'o pkernel \<Rightarrow> addr \<Rightarrow> ('o, 'z) pw \<Rightarrow> (('o, 'z) pw \<times> int) option" where
  "posix_write_knote_enable K kn w = posix_write_arm K kn w"

definition posix_write_knote_disable :: "addr \<Rightarrow> ('o, 'z) pw \<Rightarrow> (('o, 'z) pw \<times> int) option" where
  "posix_write_knote_disable kn w = do { w \<leftarrow> posix_write_disarm kn w; Some (w, 0) }"

definition posix_write_knote_modify :: "addr \<Rightarrow> kevent \<Rightarrow> ('o, 'z) pw \<Rightarrow> (('o, 'z) pw \<times> int) option" where
  "posix_write_knote_modify kn src w = Some (w, 0)"

definition posix_write_ops :: "'o pkernel \<Rightarrow> (('o, 'z) pw) filter_ops" where
  "posix_write_ops K =
     \<lparr>kf_copyout = \<lambda>_ _ _ _. None, kn_create = posix_write_knote_create K, kn_modify = posix_write_knote_modify,
      kn_delete = posix_write_knote_delete, kn_enable = posix_write_knote_enable K, kn_disable = posix_write_knote_disable\<rparr>"

definition posix_write_copyout ::
  "'o pkernel \<Rightarrow> nat \<Rightarrow> addr option \<Rightarrow> u32 \<Rightarrow> ('o, 'z) pw \<Rightarrow> (('o, 'z) pw \<times> int \<times> kevent list) option" where
  "posix_write_copyout K nevents src ev w = do {
     kn \<leftarrow> src;
     k \<leftarrow> knotes w kn;
     w \<leftarrow> (if has_flag (flags (kev k)) EV_CLEAR then posix_write_disarm kn w else Some w);
     (w, rv) \<leftarrow> knote_copyout_flag_actions (posix_write_ops K) 1 kn w;
     if rv < 0 then Some (w, -1, []) else Some (w, 1, [(kev k)\<lparr>data := 1\<rparr>]) }"

definition posix_evfilt_write :: "'o pkernel \<Rightarrow> (('o, 'z) pw) filter_ops" where
  "posix_evfilt_write K = (posix_write_ops K)\<lparr>kf_copyout := posix_write_copyout K\<rparr>"

subsection \<open>EVFILT_USER\<close>

definition posix_evfilt_user_init :: "'o pkernel \<Rightarrow> ('o, 'z) pw \<Rightarrow> ('o, 'z) pw \<times> int" where
  "posix_evfilt_user_init K w =
     (let (w, rv) = posix_eventfd_init K 10 w in
      if rv < 0 then (w, -1)
      else
        let (w, rv) = posix_eventfd_register 10 w in
        if rv < 0 then (posix_eventfd_close K 10 w, -1)
        else (w\<lparr>kf_pfd := (kf_pfd w)(10 := posix_eventfd_descriptor 10 w)\<rparr>, 0))"

definition posix_evfilt_user_destroy :: "'o pkernel \<Rightarrow> ('o, 'z) pw \<Rightarrow> ('o, 'z) pw" where
  "posix_evfilt_user_destroy K w = posix_eventfd_close K 10 (posix_eventfd_unregister 10 w)"

definition upd_fflags :: "(u32 \<Rightarrow> u32) \<Rightarrow> 'k knote_scheme \<Rightarrow> 'k knote_scheme" where
  "upd_fflags f k = k\<lparr>kev := (kev k)\<lparr>fflags := f (fflags (kev k))\<rparr>\<rparr>"

definition posix_user_knote_create :: "addr \<Rightarrow> ('o, 'z) pw \<Rightarrow> (('o, 'z) pw \<times> int) option" where
  "posix_user_knote_create kn w = Some (w, 0)"

definition posix_user_knote_modify :: "'o pkernel \<Rightarrow> addr \<Rightarrow> kevent \<Rightarrow> ('o, 'z) pw \<Rightarrow> (('o, 'z) pw \<times> int) option" where
  "posix_user_knote_modify K kn src w = do {
     k \<leftarrow> knotes w kn;
     let ffctrl = fflags src AND NOTE_FFCTRLMASK;
     let ff = fflags src AND NOTE_FFLAGSMASK;
     w \<leftarrow> Some (if ffctrl = NOTE_FFAND then upd_knote kn (upd_fflags (\<lambda>x. x AND ff)) w
               else if ffctrl = NOTE_FFOR then upd_knote kn (upd_fflags (\<lambda>x. x OR ff)) w
               else if ffctrl = NOTE_FFCOPY then upd_knote kn (upd_fflags (\<lambda>_. ff)) w
               else w);
     if ffctrl \<noteq> NOTE_FFNOP \<and> ffctrl \<noteq> NOTE_FFAND \<and> ffctrl \<noteq> NOTE_FFOR \<and> ffctrl \<noteq> NOTE_FFCOPY
     then Some (w\<lparr>errno := EINVAL\<rparr>, -1)
     else if \<not> has_flag (flags (kev k)) EV_DISABLE \<and> has_flag (fflags src) NOTE_TRIGGER then
       let w = ready_insert 10 kn (upd_knote kn (upd_fflags (set_flag NOTE_TRIGGER)) w)
       in Some (fst (posix_eventfd_raise K 10 w), 0)
     else Some (w, 0) }"

definition posix_user_knote_delete :: "addr \<Rightarrow> ('o, 'z) pw \<Rightarrow> (('o, 'z) pw \<times> int) option" where
  "posix_user_knote_delete kn w = Some (w, 0)"

definition posix_user_knote_enable :: "addr \<Rightarrow> ('o, 'z) pw \<Rightarrow> (('o, 'z) pw \<times> int) option" where
  "posix_user_knote_enable kn w = Some (w, 0)"

definition posix_user_knote_disable :: "addr \<Rightarrow> ('o, 'z) pw \<Rightarrow> (('o, 'z) pw \<times> int) option" where
  "posix_user_knote_disable kn w = Some (w, 0)"

definition posix_user_ops :: "'o pkernel \<Rightarrow> (('o, 'z) pw) filter_ops" where
  "posix_user_ops K =
     \<lparr>kf_copyout = \<lambda>_ _ _ _. None, kn_create = posix_user_knote_create, kn_modify = posix_user_knote_modify K,
      kn_delete = posix_user_knote_delete, kn_enable = posix_user_knote_enable, kn_disable = posix_user_knote_disable\<rparr>"

definition posix_user_copyout ::
  "'o pkernel \<Rightarrow> nat \<Rightarrow> addr option \<Rightarrow> u32 \<Rightarrow> ('o, 'z) pw \<Rightarrow> (('o, 'z) pw \<times> int \<times> kevent list) option" where
  "posix_user_copyout K nevents src ev w = do {
     kn \<leftarrow> src;
     k \<leftarrow> knotes w kn;
     let e = (kev k)\<lparr>fflags := clear_flag NOTE_TRIGGER (clear_flag NOTE_FFCTRLMASK (fflags (kev k)))\<rparr>;
     let w = (if has_flag (flags (kev k)) EV_CLEAR then upd_knote kn (upd_fflags (clear_flag NOTE_TRIGGER)) w else w);
     let w = (if has_flag (flags (kev k)) EV_DISPATCH then upd_knote kn (upd_fflags (clear_flag NOTE_TRIGGER)) w else w);
     (w, rv) \<leftarrow> knote_copyout_flag_actions (posix_user_ops K) 10 kn w;
     if rv < 0 then Some (w, -1, []) else Some (w, 1, [e]) }"

definition posix_evfilt_user :: "'o pkernel \<Rightarrow> (('o, 'z) pw) filter_ops" where
  "posix_evfilt_user K = (posix_user_ops K)\<lparr>kf_copyout := posix_user_copyout K\<rparr>"

subsection \<open>EVFILT_TIMER\<close>

definition timer_alloc :: "'o pkernel \<Rightarrow> addr \<Rightarrow> ('o, 'z) pw \<Rightarrow> (('o, 'z) pw \<times> addr option) option" where
  "timer_alloc K kn w = do {
     k \<leftarrow> knotes w kn;
     let (w, p) = calloc w;
     (case p of
        None \<Rightarrow> Some (w\<lparr>errno := ENOMEM\<rparr>, None)
      | Some t \<Rightarrow>
          let oneshot = has_flag (flags (kev k)) EV_ONESHOT;
              ns = timer_data_to_ns (data (kev k)) (fflags (kev k)) in
          if has_flag (fflags (kev k)) NOTE_ABSOLUTE then
            let (w, rt) = clock_realtime K w;
                (w, m) = clock_monotonic K w;
                delta = long_wrap ((ns sdiv 1000000000 - fst rt) * 1000000000 + (ns smod 1000000000 - snd rt));
                delta = (if delta < 0 then 0 else delta)
            in Some (w\<lparr>ptimers := (ptimers w)(t \<mapsto>
                 \<lparr>pt_kn = kn, pt_next = ts_add_ns m delta, pt_interval_ns = 0, pt_oneshot = oneshot, pt_absolute = True,
                  pt_in_tree = False, pt_fire_count = 0\<rparr>)\<rparr>, Some t)
          else if sint (data (kev k)) < 0 then Some (w\<lparr>errno := EINVAL\<rparr>, None)
          else
            let ns = (if ns < 1 then 1 else ns); (w, m) = clock_monotonic K w
            in Some (w\<lparr>ptimers := (ptimers w)(t \<mapsto>
                 \<lparr>pt_kn = kn, pt_next = ts_add_ns m ns, pt_interval_ns = (if oneshot then 0 else ns), pt_oneshot = oneshot,
                  pt_absolute = False, pt_in_tree = False, pt_fire_count = 0\<rparr>)\<rparr>, Some t)) }"

definition posix_timer_knote_create :: "'o pkernel \<Rightarrow> addr \<Rightarrow> ('o, 'z) pw \<Rightarrow> (('o, 'z) pw \<times> int) option" where
  "posix_timer_knote_create K kn w = do {
     k \<leftarrow> knotes w kn;
     let w = upd_knote kn (upd_flags (set_flag EV_CLEAR)) w;
     (w, t) \<leftarrow> timer_alloc K kn w;
     (case t of
        None \<Rightarrow> Some (w, -1)
      | Some t \<Rightarrow> do {
          let w = upd_knote kn (\<lambda>k. k\<lparr>kn_timer := Some t\<rparr>) w;
          w \<leftarrow> timer_link t w;
          Some (posix_wake_kqueue K w, 0) }) }"

text \<open>Unlinking and freeing the timer of a knote, if it has one.\<close>

definition timer_drop :: "addr \<Rightarrow> ('o, 'z) pw \<Rightarrow> ('o, 'z) pw option" where
  "timer_drop kn w = do {
     k \<leftarrow> knotes w kn;
     (case kn_timer k of
        None \<Rightarrow> Some w
      | Some t \<Rightarrow> do {
          w \<leftarrow> timer_unlink t w;
          Some (upd_knote kn (\<lambda>k. k\<lparr>kn_timer := None\<rparr>) (w\<lparr>ptimers := (ptimers w)(t := None)\<rparr>)) }) }"

definition posix_timer_knote_modify :: "'o pkernel \<Rightarrow> addr \<Rightarrow> kevent \<Rightarrow> ('o, 'z) pw \<Rightarrow> (('o, 'z) pw \<times> int) option" where
  "posix_timer_knote_modify K kn src w = do {
     k \<leftarrow> knotes w kn;
     let keep = flags (kev k) AND EV_RECEIPT;
     w \<leftarrow> timer_drop kn w;
     let w = upd_knote kn (\<lambda>k. k\<lparr>kev := src\<lparr>flags := flags src OR EV_CLEAR OR keep\<rparr>\<rparr>) w;
     posix_timer_knote_create K kn w }"

definition posix_timer_knote_delete :: "addr \<Rightarrow> ('o, 'z) pw \<Rightarrow> (('o, 'z) pw \<times> int) option" where
  "posix_timer_knote_delete kn w = do { w \<leftarrow> timer_drop kn w; Some (w, 0) }"

definition posix_timer_knote_enable :: "'o pkernel \<Rightarrow> addr \<Rightarrow> ('o, 'z) pw \<Rightarrow> (('o, 'z) pw \<times> int) option" where
  "posix_timer_knote_enable K kn w = do {
     k \<leftarrow> knotes w kn;
     w \<leftarrow> (case kn_timer k of
        None \<Rightarrow> Some w
      | Some t \<Rightarrow> do {
          x \<leftarrow> ptimers w t;
          let ns = (if pt_absolute x then 0 else if pt_interval_ns x > 0 then pt_interval_ns x else 1);
          let (w, now) = clock_monotonic K w;
          timer_link t (upd_timer t (\<lambda>x. x\<lparr>pt_next := ts_add_ns now ns, pt_fire_count := 0\<rparr>) w) });
     Some (posix_wake_kqueue K w, 0) }"

definition posix_timer_knote_disable :: "addr \<Rightarrow> ('o, 'z) pw \<Rightarrow> (('o, 'z) pw \<times> int) option" where
  "posix_timer_knote_disable kn w = do {
     k \<leftarrow> knotes w kn;
     w \<leftarrow> (case kn_timer k of None \<Rightarrow> Some w | Some t \<Rightarrow> timer_unlink t w);
     Some (w, 0) }"

definition posix_timer_ops :: "'o pkernel \<Rightarrow> (('o, 'z) pw) filter_ops" where
  "posix_timer_ops K =
     \<lparr>kf_copyout = \<lambda>_ _ _ _. None, kn_create = posix_timer_knote_create K, kn_modify = posix_timer_knote_modify K,
      kn_delete = posix_timer_knote_delete, kn_enable = posix_timer_knote_enable K, kn_disable = posix_timer_knote_disable\<rparr>"

text \<open>The loop over the knotes of a filter that the drain callbacks run: the callback is
  called with the room that is left, and stops the walk when there is none or when it
  fails.\<close>

fun drain_walk ::
  "(addr \<Rightarrow> ('o, 'z) pw \<Rightarrow> (('o, 'z) pw \<times> int \<times> kevent list) option) \<Rightarrow> nat \<Rightarrow> addr list \<Rightarrow> kevent list \<Rightarrow> ('o, 'z) pw
    \<Rightarrow> (('o, 'z) pw \<times> int \<times> kevent list) option" where
  "drain_walk one n [] out w = Some (w, int (length out), out)"
| "drain_walk one n (kn # kns) out w =
     (if length out \<ge> n then Some (w, int (length out), out)
      else do {
        (w, rv, es) \<leftarrow> one kn w;
        if rv < 0 then Some (w, -1, out) else drain_walk one n kns (out @ es) w })"

definition posix_timer_copyout_one :: "'o pkernel \<Rightarrow> addr \<Rightarrow> ('o, 'z) pw \<Rightarrow> (('o, 'z) pw \<times> int \<times> kevent list) option" where
  "posix_timer_copyout_one K kn w = do {
     k \<leftarrow> knotes w kn;
     (case kn_timer k of
        None \<Rightarrow> Some (w, 0, [])
      | Some t \<Rightarrow>
          if KNOTE_DISABLED k then Some (w, 0, [])
          else do {
            x \<leftarrow> ptimers w t;
            if pt_fire_count x = 0 then Some (w, 0, [])
            else do {
              let w = upd_timer t (\<lambda>x. x\<lparr>pt_fire_count := 0\<rparr>) w;
              (w, rv) \<leftarrow> knote_copyout_flag_actions (posix_timer_ops K) 6 kn w;
              if rv < 0 then Some (w, -1, []) else Some (w, 1, [(kev k)\<lparr>data := ucast (pt_fire_count x)\<rparr>]) } }) }"

definition posix_timer_copyout ::
  "'o pkernel \<Rightarrow> nat \<Rightarrow> addr option \<Rightarrow> u32 \<Rightarrow> ('o, 'z) pw \<Rightarrow> (('o, 'z) pw \<times> int \<times> kevent list) option" where
  "posix_timer_copyout K nevents src ev w = do {
     w \<leftarrow> posix_timer_check K w;
     drain_walk (posix_timer_copyout_one K) nevents (map snd (kf_index (filt_at w 6))) [] w }"

definition posix_evfilt_timer :: "'o pkernel \<Rightarrow> (('o, 'z) pw) filter_ops" where
  "posix_evfilt_timer K = (posix_timer_ops K)\<lparr>kf_copyout := posix_timer_copyout K\<rparr>"

subsection \<open>EVFILT_VNODE\<close>

definition vnode_state_alloc :: "'o pkernel \<Rightarrow> int \<Rightarrow> ('o, 'z) pw \<Rightarrow> ('o, 'z) pw \<times> addr option" where
  "vnode_state_alloc K fd w =
     (let (w, rv, st) = pcall_val (pk_fstat K fd) w in
      if rv < 0 then (w, None)
      else if ps_mode st \<noteq> P_REG \<and> ps_mode st \<noteq> P_DIR then (w\<lparr>errno := EINVAL\<rparr>, None)
      else
        let (w, p) = calloc w in
        (case p of
           None \<Rightarrow> (w\<lparr>errno := ENOMEM\<rparr>, None)
         | Some v \<Rightarrow> (w\<lparr>pvnodes := (pvnodes w)(v \<mapsto> st)\<rparr>, Some v)))"

definition vnode_diff_to_note :: "pstat \<Rightarrow> pstat \<Rightarrow> u32" where
  "vnode_diff_to_note prev now =
     (let ff = (if ps_nlink now = 0 \<and> ps_nlink prev \<noteq> 0 then NOTE_DELETE else 0);
          ff = (if ps_nlink now \<noteq> ps_nlink prev then ff OR NOTE_LINK else ff);
          ff = (if ps_size now > ps_size prev then ff OR NOTE_EXTEND else ff);
          ff = (if ps_size now < ps_size prev then ff OR NOTE_TRUNCATE else ff)
      in if ps_size now = ps_size prev \<and> ps_ctim now \<noteq> ps_ctim prev \<and> \<not> has_flag ff NOTE_DELETE
         then ff OR NOTE_ATTRIB else ff)"

definition posix_vnode_knote_create :: "'o pkernel \<Rightarrow> addr \<Rightarrow> ('o, 'z) pw \<Rightarrow> (('o, 'z) pw \<times> int) option" where
  "posix_vnode_knote_create K kn w = do {
     k \<leftarrow> knotes w kn;
     let (w, v) = vnode_state_alloc K (posix_fd k) w;
     let w = upd_knote kn (\<lambda>k. k\<lparr>kn_vnode := v\<rparr>) w;
     if v = None then Some (w, -1)
     else
       let w = (if kn_bumped k then w else bump_always_ready kn w)
       in Some (posix_wake_kqueue K w, 0) }"

definition posix_vnode_knote_delete :: "addr \<Rightarrow> ('o, 'z) pw \<Rightarrow> (('o, 'z) pw \<times> int) option" where
  "posix_vnode_knote_delete kn w = do {
     k \<leftarrow> knotes w kn;
     let w = (if kn_bumped k then drop_always_ready kn w else w);
     let w = (case kn_vnode k of
        None \<Rightarrow> w
      | Some v \<Rightarrow> upd_knote kn (\<lambda>k. k\<lparr>kn_vnode := None\<rparr>) (w\<lparr>pvnodes := (pvnodes w)(v := None)\<rparr>));
     Some (w, 0) }"

definition posix_vnode_knote_modify :: "addr \<Rightarrow> kevent \<Rightarrow> ('o, 'z) pw \<Rightarrow> (('o, 'z) pw \<times> int) option" where
  "posix_vnode_knote_modify kn src w = do {
     k \<leftarrow> knotes w kn;
     Some (upd_knote kn (\<lambda>k. k\<lparr>kev := (kev k)\<lparr>fflags := fflags src, udata := udata src\<rparr>\<rparr>) w, 0) }"

definition posix_vnode_knote_enable :: "'o pkernel \<Rightarrow> addr \<Rightarrow> ('o, 'z) pw \<Rightarrow> (('o, 'z) pw \<times> int) option" where
  "posix_vnode_knote_enable K kn w = do {
     k \<leftarrow> knotes w kn;
     let w = (if kn_bumped k then w else bump_always_ready kn (ready_insert 3 kn w));
     w \<leftarrow> (case kn_vnode k of
        None \<Rightarrow> Some w
      | Some v \<Rightarrow> do {
          _ \<leftarrow> pvnodes w v;
          let (w, rv, st) = pcall_val (pk_fstat K (posix_fd k)) w;
          Some (if rv < 0 then w else w\<lparr>pvnodes := (pvnodes w)(v \<mapsto> st)\<rparr>) });
     Some (posix_wake_kqueue K w, 0) }"

definition posix_vnode_knote_disable :: "addr \<Rightarrow> ('o, 'z) pw \<Rightarrow> (('o, 'z) pw \<times> int) option" where
  "posix_vnode_knote_disable kn w = do {
     k \<leftarrow> knotes w kn;
     Some (if kn_bumped k then drop_always_ready kn (ready_remove 3 kn w) else w, 0) }"

definition posix_vnode_ops :: "'o pkernel \<Rightarrow> (('o, 'z) pw) filter_ops" where
  "posix_vnode_ops K =
     \<lparr>kf_copyout = \<lambda>_ _ _ _. None, kn_create = posix_vnode_knote_create K, kn_modify = posix_vnode_knote_modify,
      kn_delete = posix_vnode_knote_delete, kn_enable = posix_vnode_knote_enable K, kn_disable = posix_vnode_knote_disable\<rparr>"

definition posix_vnode_copyout_one :: "'o pkernel \<Rightarrow> addr \<Rightarrow> ('o, 'z) pw \<Rightarrow> (('o, 'z) pw \<times> int \<times> kevent list) option" where
  "posix_vnode_copyout_one K kn w = do {
     k \<leftarrow> knotes w kn;
     (case kn_vnode k of
        None \<Rightarrow> Some (w, 0, [])
      | Some v \<Rightarrow>
          if KNOTE_DISABLED k then Some (w, 0, [])
          else do {
            let (w, rv, now) = pcall_val (pk_fstat K (posix_fd k)) w;
            if rv < 0 then
              if errno w = EBADF \<and> has_flag (fflags (kev k)) NOTE_DELETE then do {
                (w, rv) \<leftarrow> knote_copyout_flag_actions (posix_vnode_ops K) 3 kn w;
                if rv < 0 then Some (w, -1, []) else Some (w, 1, [(kev k)\<lparr>fflags := NOTE_DELETE\<rparr>]) }
              else Some (w, 0, [])
            else do {
              last \<leftarrow> pvnodes w v;
              let changed = vnode_diff_to_note last now;
              if changed AND fflags (kev k) = 0 then Some (w, 0, [])
              else do {
                let w = w\<lparr>pvnodes := (pvnodes w)(v \<mapsto> now)\<rparr>;
                (w, rv) \<leftarrow> knote_copyout_flag_actions (posix_vnode_ops K) 3 kn w;
                if rv < 0 then Some (w, -1, []) else Some (w, 1, [(kev k)\<lparr>fflags := changed\<rparr>]) } } }) }"

definition posix_vnode_copyout ::
  "'o pkernel \<Rightarrow> nat \<Rightarrow> addr option \<Rightarrow> u32 \<Rightarrow> ('o, 'z) pw \<Rightarrow> (('o, 'z) pw \<times> int \<times> kevent list) option" where
  "posix_vnode_copyout K nevents src ev w =
     drain_walk (posix_vnode_copyout_one K) nevents (map snd (kf_index (filt_at w 3))) [] w"

definition posix_evfilt_vnode :: "'o pkernel \<Rightarrow> (('o, 'z) pw) filter_ops" where
  "posix_evfilt_vnode K = (posix_vnode_ops K)\<lparr>kf_copyout := posix_vnode_copyout K\<rparr>"

subsection \<open>The table of the backend\<close>

definition posix_impl :: "nat \<Rightarrow> bool" where
  "posix_impl fi \<longleftrightarrow> fi \<in> {0, 1, 3, 6, 10}"

definition posix_vt :: "'o pkernel \<Rightarrow> nat \<Rightarrow> (('o, 'z) pw) filter_ops" where
  "posix_vt K fi =
     (if fi = 0 then posix_evfilt_read K else if fi = 1 then posix_evfilt_write K else if fi = 3 then posix_evfilt_vnode K
      else if fi = 6 then posix_evfilt_timer K else posix_evfilt_user K)"

end
