(* ===== verification/Posix_Inv.thy ===== *)
theory Posix_Inv
  imports Posix_Filters
begin

text \<open>
  The invariant of the POSIX backend and the contracts of its filters.  The timer
  objects, the snapshots of EVFILT_VNODE and the count of always-ready knotes are
  tied to the knotes that own them; the contracts give the safety of change lists.
\<close>

subsection \<open>The invariant\<close>

definition tview :: "('o, 'z) pw \<Rightarrow> addr \<Rightarrow> addr option" where
  "tview w a = Option.bind (knotes w a) kn_timer"

definition vview :: "('o, 'z) pw \<Rightarrow> addr \<Rightarrow> addr option" where
  "vview w a = Option.bind (knotes w a) kn_vnode"

definition bumps :: "('o, 'z) pw \<Rightarrow> addr set" where
  "bumps w = {a. \<exists>k. knotes w a = Some k \<and> kn_bumped k}"

text \<open>Timers and knotes own each other, and the tree holds the timers that are marked so.\<close>

definition tinv :: "(addr \<Rightarrow> addr option) \<Rightarrow> (addr \<Rightarrow> posix_timer option) \<Rightarrow> addr list \<Rightarrow> addr \<Rightarrow> bool" where
  "tinv tv h tr n \<longleftrightarrow>
     distinct tr \<and>
     (\<forall>t x. h t = Some x \<longrightarrow> t < n \<and> tv (pt_kn x) = Some t \<and> (pt_in_tree x \<longleftrightarrow> t \<in> set tr) \<and> 0 \<le> pt_interval_ns x) \<and>
     (\<forall>t \<in> set tr. h t \<noteq> None) \<and>
     (\<forall>a t. tv a = Some t \<longrightarrow> (\<exists>x. h t = Some x \<and> pt_kn x = a))"

definition vinv :: "(addr \<Rightarrow> addr option) \<Rightarrow> (addr \<Rightarrow> pstat option) \<Rightarrow> addr \<Rightarrow> bool" where
  "vinv vv h n \<longleftrightarrow> ran vv = dom h \<and> inj_on vv (dom vv) \<and> (\<forall>v \<in> dom h. v < n)"

definition ainv :: "addr set \<Rightarrow> int \<Rightarrow> bool" where
  "ainv B c \<longleftrightarrow> finite B \<and> c = int (card B)"

text \<open>Only knotes of EVFILT_TIMER have timers, only those of EVFILT_VNODE snapshots, and an
  always-ready knote is one of EVFILT_VNODE or a regular file of EVFILT_READ.\<close>

definition knote_kind :: "pknote \<Rightarrow> bool" where
  "knote_kind k \<longleftrightarrow>
     (kn_timer k \<noteq> None \<longrightarrow> inv_filt (kfilter (kev k)) = 6) \<and>
     (kn_vnode k \<noteq> None \<longrightarrow> inv_filt (kfilter (kev k)) = 3) \<and>
     (kn_bumped k \<longrightarrow> inv_filt (kfilter (kev k)) = 3 \<or> inv_filt (kfilter (kev k)) = 0 \<and> has_flag (kn_flags k) KNFL_FILE)"

definition kinds :: "('o, 'z) pw \<Rightarrow> bool" where
  "kinds w \<longleftrightarrow> (\<forall>a k. knotes w a = Some k \<longrightarrow> knote_kind k)"

definition posix_inv :: "('o, 'z) pw \<Rightarrow> bool" where
  "posix_inv w \<longleftrightarrow>
     tinv (tview w) (ptimers w) (kq_timers w) (next_addr w) \<and> vinv (vview w) (pvnodes w) (next_addr w) \<and>
     ainv (bumps w) (kq_always_ready w) \<and> kinds w"

definition pfree :: "addr \<Rightarrow> ('o, 'z) pw \<Rightarrow> bool" where
  "pfree kn w \<longleftrightarrow> (\<forall>k. knotes w kn = Some k \<longrightarrow> kn_timer k = None \<and> kn_vnode k = None \<and> \<not> kn_bumped k)"

subsection \<open>What the common code does to it\<close>

lemma tinv_mono: "tinv tv h tr n \<Longrightarrow> n \<le> m \<Longrightarrow> tinv tv h tr m"
  unfolding tinv_def by (meson order_less_le_trans)

lemma vinv_mono: "vinv vv h n \<Longrightarrow> n \<le> m \<Longrightarrow> vinv vv h m"
  unfolding vinv_def by (meson order_less_le_trans)

text \<open>The part of a knote the invariant looks at.\<close>

definition pk_view :: "pknote \<Rightarrow> addr option \<times> addr option \<times> bool \<times> bool \<times> int" where
  "pk_view k = (kn_timer k, kn_vnode k, kn_bumped k, has_flag (kn_flags k) KNFL_FILE, inv_filt (kfilter (kev k)))"

lemma flag_clear_deleted:
  "has_flag (clear_flag KNFL_KNOTE_DELETED x) KNFL_FILE = has_flag x KNFL_FILE"
  "has_flag (clear_flag KNFL_KNOTE_DELETED x) KNFL_ALWAYS_READY_BUMPED = has_flag x KNFL_ALWAYS_READY_BUMPED"
  by (rule has_flag_clear_other; simp add: flag_defs)+

lemma kn_ext_pk_view: "kn_ext k' = kn_ext k \<Longrightarrow> pk_view k' = pk_view k"
proof -
  assume e: "kn_ext k' = kn_ext k"
  have m: "knote.more k' = knote.more k" and f: "clear_flag KNFL_KNOTE_DELETED (kn_flags k') = clear_flag KNFL_KNOTE_DELETED (kn_flags k)"
    and fl: "kfilter (kev k') = kfilter (kev k)"
    using e by (simp_all add: kn_ext_def)
  have "has_flag (kn_flags k') KNFL_FILE = has_flag (kn_flags k) KNFL_FILE"
    using flag_clear_deleted(1) [of "kn_flags k'"] flag_clear_deleted(1) [of "kn_flags k"] unfolding f by simp
  moreover have "kn_bumped k' = kn_bumped k"
    using flag_clear_deleted(2) [of "kn_flags k'"] flag_clear_deleted(2) [of "kn_flags k"] unfolding f kn_bumped_def by simp
  moreover have "kn_timer k' = kn_timer k \<and> kn_vnode k' = kn_vnode k" using m by (cases k; cases k') simp
  ultimately show ?thesis using fl by (simp add: pk_view_def)
qed

lemma view_same:
  assumes "\<forall>a. map_option pk_view (knotes w' a) = map_option pk_view (knotes w a)"
  shows "tview w' = tview w" "vview w' = vview w" "bumps w' = bumps w" "kinds w' = kinds w" "pfree kn w' = pfree kn w"
proof -
  have s: "\<exists>k'. knotes w' a = Some k' \<and> pk_view k' = pk_view k" if "knotes w a = Some k" for a k
    using spec [OF assms, of a] that by (cases "knotes w' a") auto
  have n: "knotes w' a = None" if "knotes w a = None" for a
    using spec [OF assms, of a] that by (cases "knotes w' a") auto
  have c: "(knotes w a = None \<and> knotes w' a = None) \<or>
      (\<exists>k k'. knotes w a = Some k \<and> knotes w' a = Some k' \<and> pk_view k' = pk_view k)" for a
    using s n by (cases "knotes w a") auto
  show "tview w' = tview w"
  proof
    fix a show "tview w' a = tview w a" using c [of a] by (auto simp: tview_def pk_view_def)
  qed
  show "vview w' = vview w"
  proof
    fix a show "vview w' a = vview w a" using c [of a] by (auto simp: vview_def pk_view_def)
  qed
  have "a \<in> bumps w' \<longleftrightarrow> a \<in> bumps w" for a using c [of a] by (auto simp: bumps_def pk_view_def)
  then show "bumps w' = bumps w" by blast
  have "(\<forall>k. knotes w' a = Some k \<longrightarrow> knote_kind k) \<longleftrightarrow> (\<forall>k. knotes w a = Some k \<longrightarrow> knote_kind k)" for a
    using c [of a] by (auto simp: knote_kind_def pk_view_def)
  then show "kinds w' = kinds w" by (simp add: kinds_def)
  show "pfree kn w' = pfree kn w" using c [of kn] by (auto simp: pfree_def pk_view_def)
qed

lemma ext_same_pfields:
  assumes "ext_same w w'"
  shows "ptimers w' = ptimers w" "kq_timers w' = kq_timers w" "pvnodes w' = pvnodes w" "kq_always_ready w' = kq_always_ready w"
    "next_addr w \<le> next_addr w'" "\<forall>a. map_option pk_view (knotes w' a) = map_option pk_view (knotes w a)"
proof -
  have "world.more w' = world.more w" "next_addr w \<le> next_addr w'" using assms by (simp_all add: ext_same_def)
  then show "ptimers w' = ptimers w" "kq_timers w' = kq_timers w" "pvnodes w' = pvnodes w" "kq_always_ready w' = kq_always_ready w"
      "next_addr w \<le> next_addr w'"
    by (cases w; cases w'; simp)+
  show "\<forall>a. map_option pk_view (knotes w' a) = map_option pk_view (knotes w a)"
  proof
    fix a
    have e: "map_option kn_ext (knotes w' a) = map_option kn_ext (knotes w a)" using assms by (simp add: ext_same_def)
    show "map_option pk_view (knotes w' a) = map_option pk_view (knotes w a)"
    proof (cases "knotes w a")
      case None
      then show ?thesis using e by simp
    next
      case (Some k)
      then obtain k' where k': "knotes w' a = Some k'" "kn_ext k' = kn_ext k" using e by (cases "knotes w' a") simp_all
      show ?thesis unfolding k'(1) Some using kn_ext_pk_view [OF k'(2)] by simp
    qed
  qed
qed

lemma posix_inv_cong:
  assumes "posix_inv w" "tview w' = tview w" "vview w' = vview w" "bumps w' = bumps w" "kinds w'" "ptimers w' = ptimers w"
    "kq_timers w' = kq_timers w" "pvnodes w' = pvnodes w" "kq_always_ready w' = kq_always_ready w" "next_addr w \<le> next_addr w'"
  shows "posix_inv w'"
  using assms(1,5) tinv_mono [OF _ assms(10)] vinv_mono [OF _ assms(10)] unfolding posix_inv_def assms(2-4,6-9) by blast

lemma posix_inv_ext:
  assumes "posix_inv w" "ext_same w w'"
  shows "posix_inv w'"
proof -
  note f = ext_same_pfields [OF assms(2)]
  note v = view_same [OF f(6)]
  have "kinds w'" using assms(1) v(4) by (simp add: posix_inv_def)
  then show ?thesis using posix_inv_cong [OF assms(1) v(1-3) _ f(1-5)] by blast
qed

lemma pfree_ext: "pfree kn w \<Longrightarrow> ext_same w w' \<Longrightarrow> pfree kn w'"
  using view_same(5) [OF ext_same_pfields(6)] by blast

lemma posix_inv_new:
  assumes "core_wf w" "posix_inv w" "knote_new pknote_zero w = (w', Some kn)"
  shows "posix_inv (upd_knote kn (\<lambda>k. k\<lparr>kev := e\<rparr>) w') \<and> pfree kn (upd_knote kn (\<lambda>k. k\<lparr>kev := e\<rparr>) w')"
proof -
  have a: "kn = next_addr w" and w': "w' = w\<lparr>next_addr := Suc kn, knotes := (knotes w)(kn \<mapsto> pknote_zero\<lparr>kn_ref := 1\<rparr>)\<rparr>"
    using assms(3) by (auto simp: knote_new_def calloc_def split: if_splits)
  have fresh: "knotes w kn = None" using assms(1) a unfolding core_inv_def by auto
  define w1 where "w1 = upd_knote kn (\<lambda>k. k\<lparr>kev := e\<rparr>) w'"
  let ?k = "pknote_zero\<lparr>kn_ref := 1, kev := e\<rparr>"
  have k: "kn_timer ?k = None" "kn_vnode ?k = None" "\<not> kn_bumped ?k" by (simp_all add: pknote_zero_def kn_bumped_def)
  have h: "knotes w1 = (knotes w)(kn \<mapsto> ?k)" by (simp add: w1_def w' upd_knote_def)
  have "tview w1 = tview w" "vview w1 = vview w" using fresh k by (auto simp: tview_def vview_def h)
  moreover have "bumps w1 = bumps w" using fresh k by (auto simp: bumps_def h)
  moreover have "kinds w1" using assms(2) k by (auto simp: posix_inv_def kinds_def h knote_kind_def)
  moreover have "pfree kn w1" using k by (simp add: pfree_def h)
  moreover have "ptimers w1 = ptimers w" "kq_timers w1 = kq_timers w" "pvnodes w1 = pvnodes w" "kq_always_ready w1 = kq_always_ready w"
      "next_addr w \<le> next_addr w1"
    using a by (simp_all add: w1_def w' upd_knote_def)
  ultimately show ?thesis using posix_inv_cong [OF assms(2)] unfolding w1_def [symmetric] by blast
qed

lemma posix_inv_free:
  assumes "posix_inv w" "pfree kn w"
  shows "posix_inv (w\<lparr>knotes := (knotes w)(kn := None)\<rparr>)"
proof -
  let ?w = "w\<lparr>knotes := (knotes w)(kn := None)\<rparr>"
  have "tview ?w = tview w" "vview ?w = vview w"
    using assms(2) by (auto simp: tview_def vview_def pfree_def fun_eq_iff split: Option.bind_splits)
  moreover have "bumps ?w = bumps w" using assms(2) by (auto simp: bumps_def pfree_def split: if_splits)
  moreover have "kinds ?w" using assms(1) by (auto simp: posix_inv_def kinds_def split: if_splits)
  ultimately show ?thesis using assms(1) by (simp add: posix_inv_def)
qed

interpretation pxs: backend_state posix_inv pfree pknote_zero
proof (unfold_locales, goal_cases)
  case (1 w w')
  then show ?case by (rule posix_inv_ext)
next
  case (2 kn w w')
  then show ?case by (rule pfree_ext)
next
  case (3 w w' kn e)
  then show ?case by (rule posix_inv_new)
next
  case (4 kn w)
  then show ?case by (intro posix_inv_free)
next
  case 5
  show ?case by (simp add: pknote_zero_def)
qed

subsection \<open>Steps that the invariant does not see\<close>

definition pq :: "('o, 'z) pw \<Rightarrow> ('o, 'z) pw \<Rightarrow> bool" where
  "pq w w' \<longleftrightarrow>
     knotes w' = knotes w \<and> kq_filt w' = kq_filt w \<and> kq_knote_count w' = kq_knote_count w \<and> next_addr w' = next_addr w \<and>
     calloc_ok w' = calloc_ok w \<and> ptimers w' = ptimers w \<and> kq_timers w' = kq_timers w \<and> pvnodes w' = pvnodes w \<and>
     kq_always_ready w' = kq_always_ready w"

lemma pq_refl [simp]: "pq w w"
  by (simp add: pq_def)

lemma pq_trans: "pq w w' \<Longrightarrow> pq w' w'' \<Longrightarrow> pq w w''"
  by (simp add: pq_def)

lemma pq_calls [simp]:
  "pq w (fst (pcall f w))" "pq w (fst (pcall_val g w))" "pq w (posix_wake_kqueue K w)" "pq w (watch_read fd w)"
  "pq w (fst (clock_monotonic K w))" "pq w (fst (clock_realtime K w))" "pq w (w\<lparr>errno := e\<rparr>)"
  "pq w (w\<lparr>kq_fds := F\<rparr>)" "pq w (w\<lparr>kq_wfds := F\<rparr>)" "pq w (w\<lparr>kq_nfds := n\<rparr>)"
  by (auto simp: pq_def pcall_def pcall_val_def posix_wake_kqueue_def watch_read_def clock_monotonic_def clock_realtime_def Let_def
      split: prod.split)

lemma pq_pcall: "pcall f w = (w', rv) \<Longrightarrow> pq w w'"
  using pq_calls(1) [of w f] by simp

lemma pq_pcall_val: "pcall_val f w = (w', rv, v) \<Longrightarrow> pq w w'"
  using pq_calls(2) [of w f] by simp

lemma pq_knotes: "pq w w' \<Longrightarrow> knotes w' = knotes w"
  by (simp add: pq_def)

lemma pq_frame: "pq w w' \<Longrightarrow> op_frame fi kn r w w'"
  by (simp add: pq_def op_frame_def)

lemma pq_views: "pq w w' \<Longrightarrow> tview w' = tview w \<and> vview w' = vview w \<and> bumps w' = bumps w \<and> kinds w' = kinds w \<and> pfree kn w' = pfree kn w"
  by (simp add: pq_def tview_def vview_def bumps_def kinds_def pfree_def fun_eq_iff)

lemma pq_inv: "pq w w' \<Longrightarrow> posix_inv w' = posix_inv w"
  using pq_views [of w w'] by (simp add: posix_inv_def pq_def)

lemma pq_free: "pq w w' \<Longrightarrow> pfree kn w' = pfree kn w"
  using pq_views by blast

lemma pfree_simps [simp]:
  "pfree kn (w\<lparr>errno := e\<rparr>) = pfree kn w" "pfree kn (w\<lparr>kq_fds := F\<rparr>) = pfree kn w" "pfree kn (w\<lparr>kq_wfds := F\<rparr>) = pfree kn w"
  by (simp_all add: pfree_def)

text \<open>The result of a callback on \<open>kn\<close>: within its frame, with the invariant.\<close>

definition pok :: "nat \<Rightarrow> addr \<Rightarrow> bool \<Rightarrow> ('o, 'z) pw \<Rightarrow> ('o, 'z) pw \<Rightarrow> bool" where
  "pok fi kn r w w' \<longleftrightarrow> op_frame fi kn r w w' \<and> posix_inv w'"

lemma pok_pq: "pok fi kn r w w' \<Longrightarrow> pq w' w'' \<Longrightarrow> pok fi kn r w w''"
  by (auto simp: pok_def pq_inv intro: op_frame_trans pq_frame)

lemma pok_start: "posix_inv w \<Longrightarrow> pok fi kn r w w"
  by (simp add: pok_def)

lemma pq_pok: "posix_inv w \<Longrightarrow> pq w w' \<Longrightarrow> pok fi kn r w w'"
  by (rule pok_pq [OF pok_start])

lemma pok_mono: "pok fi kn False w w' \<Longrightarrow> pok fi kn r w w'"
  by (cases r) (auto simp: pok_def intro: op_frame_mono)

lemma pok_trans: "pok fi kn r w w' \<Longrightarrow> pok fi kn r w' w'' \<Longrightarrow> pok fi kn r w w''"
  by (auto simp: pok_def intro: op_frame_trans)

subsection \<open>Flags and the ready list\<close>

lemma kn_core_flag [simp]:
  "f AND KNFL_KNOTE_DELETED = 0 \<Longrightarrow> kn_core (k\<lparr>kn_flags := set_flag f (kn_flags k)\<rparr>) = kn_core k"
  "f AND KNFL_KNOTE_DELETED = 0 \<Longrightarrow> kn_core (k\<lparr>kn_flags := clear_flag f (kn_flags k)\<rparr>) = kn_core k"
  by (simp_all add: kn_core_def has_flag_set_other has_flag_clear_other)

lemma flag_frame:
  "f AND KNFL_KNOTE_DELETED = 0 \<Longrightarrow> op_frame fi kn r w (kn_flag_set f kn w)"
  "f AND KNFL_KNOTE_DELETED = 0 \<Longrightarrow> op_frame fi kn r w (kn_flag_clear f kn w)"
  by (auto simp: kn_flag_set_def kn_flag_clear_def intro!: op_frame_upd_knote)

lemma ready_frame:
  assumes "fi < length (kq_filt w)"
  shows "op_frame fi kn True w (ready_insert fi kn w)" "op_frame fi kn r w (ready_remove fi kn w)"
proof -
  have "(slot_ids w)[fi := kf_id (filt_at w fi)] = slot_ids w" using assms by (metis list_update_id nth_map)
  then show "op_frame fi kn True w (ready_insert fi kn w)" "op_frame fi kn r w (ready_remove fi kn w)"
    using assms by (auto simp: op_frame_def ready_insert_def ready_remove_def upd_filt_def nth_list_update map_update distinct_removeAll)
qed

lemma ready_inv [simp]:
  "posix_inv (ready_insert fi kn w) = posix_inv w" "posix_inv (ready_remove fi kn w) = posix_inv w"
  "knotes (ready_insert fi kn w) = knotes w" "knotes (ready_remove fi kn w) = knotes w"
  "pfree a (ready_insert fi kn w) = pfree a w" "pfree a (ready_remove fi kn w) = pfree a w"
  by (simp_all add: ready_insert_def ready_remove_def upd_filt_def posix_inv_def tview_def [abs_def] vview_def [abs_def] bumps_def kinds_def pfree_def)

lemma upd_knote_at: "knotes (upd_knote kn f w) kn = map_option f (knotes w kn)"
  by (simp add: upd_knote_def)

lemma views_upd_flags:
  "tview (upd_knote kn (\<lambda>k. k\<lparr>kn_flags := f k\<rparr>) w) = tview w" "vview (upd_knote kn (\<lambda>k. k\<lparr>kn_flags := f k\<rparr>) w) = vview w"
  by (auto simp: tview_def vview_def upd_knote_def fun_eq_iff split: Option.bind_splits)

lemma bumped_set [simp]: "kn_bumped (k\<lparr>kn_flags := set_flag KNFL_ALWAYS_READY_BUMPED x\<rparr>)"
  by (simp add: kn_bumped_def flag_defs)

lemma bumped_clear [simp]: "\<not> kn_bumped (k\<lparr>kn_flags := clear_flag KNFL_ALWAYS_READY_BUMPED x\<rparr>)"
  by (simp add: kn_bumped_def)

lemma bumped_other: "f AND KNFL_ALWAYS_READY_BUMPED = 0 \<Longrightarrow> kn_bumped (k\<lparr>kn_flags := set_flag f (kn_flags k)\<rparr>) = kn_bumped k"
  by (simp add: kn_bumped_def has_flag_set_other)

lemma file_set [simp]:
  "has_flag (set_flag KNFL_ALWAYS_READY_BUMPED x) KNFL_FILE = has_flag x KNFL_FILE"
  "has_flag (clear_flag KNFL_ALWAYS_READY_BUMPED x) KNFL_FILE = has_flag x KNFL_FILE"
  by (rule has_flag_set_other has_flag_clear_other, simp add: flag_defs)+

lemma bump_inv:
  assumes inv: "posix_inv w" and k: "knotes w kn = Some k" and nb: "\<not> kn_bumped k"
    and kind: "inv_filt (kfilter (kev k)) = 3 \<or> inv_filt (kfilter (kev k)) = 0 \<and> has_flag (kn_flags k) KNFL_FILE"
  shows "posix_inv (bump_always_ready kn w)"
proof -
  let ?w = "bump_always_ready kn w"
  have h: "knotes ?w = (knotes w)(kn \<mapsto> k\<lparr>kn_flags := set_flag KNFL_ALWAYS_READY_BUMPED (kn_flags k)\<rparr>)"
    using k by (simp add: bump_always_ready_def kn_flag_set_def upd_knote_def)
  have "bumps ?w = insert kn (bumps w)" by (auto simp: bumps_def h split: if_splits)
  moreover have "kn \<notin> bumps w" using k nb by (simp add: bumps_def)
  ultimately have "ainv (bumps ?w) (kq_always_ready w + 1)" using inv by (simp add: posix_inv_def ainv_def)
  moreover have "kinds ?w"
    using inv k kind by (auto simp: posix_inv_def kinds_def h knote_kind_def split: if_splits)
  moreover have "tview ?w = tview w" "vview ?w = vview w"
    using k by (auto simp: tview_def vview_def h)
  ultimately show ?thesis using inv by (simp add: posix_inv_def bump_always_ready_def kn_flag_set_def upd_knote_def)
qed

lemma drop_inv:
  assumes inv: "posix_inv w" and k: "knotes w kn = Some k" and b: "kn_bumped k"
  shows "posix_inv (drop_always_ready kn w)"
proof -
  let ?w = "drop_always_ready kn w"
  have h: "knotes ?w = (knotes w)(kn \<mapsto> k\<lparr>kn_flags := clear_flag KNFL_ALWAYS_READY_BUMPED (kn_flags k)\<rparr>)"
    using k by (simp add: drop_always_ready_def kn_flag_clear_def upd_knote_def)
  have m: "kn \<in> bumps w" "finite (bumps w)" "kq_always_ready w = int (card (bumps w))"
    using k b inv by (auto simp: bumps_def posix_inv_def ainv_def)
  have "card (bumps w) > 0" using m by (auto simp: card_gt_0_iff)
  then have c: "kq_always_ready ?w = kq_always_ready w - 1" using m by (simp add: drop_always_ready_def kn_flag_clear_def upd_knote_def)
  have "bumps ?w = bumps w - {kn}" by (auto simp: bumps_def h split: if_splits)
  then have "ainv (bumps ?w) (kq_always_ready ?w)" using m c \<open>card (bumps w) > 0\<close> by (simp add: ainv_def of_nat_diff)
  moreover have "kinds ?w" using inv k by (auto simp: posix_inv_def kinds_def h knote_kind_def split: if_splits)
  moreover have "tview ?w = tview w" "vview ?w = vview w" using k by (auto simp: tview_def vview_def h)
  ultimately show ?thesis using inv by (simp add: posix_inv_def drop_always_ready_def kn_flag_clear_def upd_knote_def)
qed

lemma bump_knote: "knotes w kn = Some k \<Longrightarrow>
    knotes (bump_always_ready kn w) kn = Some (k\<lparr>kn_flags := set_flag KNFL_ALWAYS_READY_BUMPED (kn_flags k)\<rparr>)"
  by (simp add: bump_always_ready_def kn_flag_set_def upd_knote_def)

lemma drop_knote: "knotes w kn = Some k \<Longrightarrow>
    knotes (drop_always_ready kn w) kn = Some (k\<lparr>kn_flags := clear_flag KNFL_ALWAYS_READY_BUMPED (kn_flags k)\<rparr>)"
  by (simp add: drop_always_ready_def kn_flag_clear_def upd_knote_def)

lemma bump_frame: "op_frame fi kn r w (bump_always_ready kn w)"
proof -
  have "op_frame fi kn r w (w\<lparr>kq_always_ready := c\<rparr>)" for c by (simp add: op_frame_def)
  moreover have "op_frame fi kn r w1 (kn_flag_set KNFL_ALWAYS_READY_BUMPED kn w1)" for w1 :: "('a, 'b) pw"
    by (rule flag_frame) (simp add: flag_defs)
  ultimately show ?thesis unfolding bump_always_ready_def by (rule op_frame_trans)
qed

lemma drop_frame: "op_frame fi kn r w (drop_always_ready kn w)"
proof -
  have "op_frame fi kn r w (if kq_always_ready w > 0 then w\<lparr>kq_always_ready := c\<rparr> else w)" for c by (simp add: op_frame_def)
  moreover have "op_frame fi kn r w1 (kn_flag_clear KNFL_ALWAYS_READY_BUMPED kn w1)" for w1 :: "('a, 'b) pw"
    by (rule flag_frame) (simp add: flag_defs)
  ultimately show ?thesis unfolding drop_always_ready_def by (rule op_frame_trans)
qed

lemma kinds_upd:
  assumes "kinds w" "\<And>k. knotes w kn = Some k \<Longrightarrow> knote_kind k \<Longrightarrow> knote_kind (f k)"
  shows "kinds (upd_knote kn f w)"
proof -
  have "knote_kind k" if h: "knotes (upd_knote kn f w) a = Some k" for a k
  proof (cases "a = kn")
    case True
    then obtain k0 where "knotes w kn = Some k0" "k = f k0" using h by (auto simp: upd_knote_def)
    then show ?thesis using assms by (simp add: kinds_def)
  next
    case False
    then show ?thesis using h assms(1) by (simp add: upd_knote_def kinds_def)
  qed
  then show ?thesis by (simp add: kinds_def)
qed

lemma kind_flag: "f AND KNFL_ALWAYS_READY_BUMPED = 0 \<Longrightarrow> knote_kind k \<Longrightarrow> knote_kind (k\<lparr>kn_flags := set_flag f (kn_flags k)\<rparr>)"
  by (auto simp: knote_kind_def bumped_other has_flag_set_mono)

text \<open>Setting one of the other flags of a knote.\<close>

lemma flag_inv:
  assumes inv: "posix_inv w" and f: "f AND KNFL_ALWAYS_READY_BUMPED = 0" and d: "f AND KNFL_KNOTE_DELETED = 0"
  shows "pok fi kn r w (kn_flag_set f kn w)" "pfree kn (kn_flag_set f kn w) = pfree kn w"
proof -
  let ?w = "kn_flag_set f kn w"
  have h: "knotes ?w a = map_option (\<lambda>k. if a = kn then k\<lparr>kn_flags := set_flag f (kn_flags k)\<rparr> else k) (knotes w a)" for a
    by (auto simp: kn_flag_set_def upd_knote_def option.map_ident)
  have v: "tview ?w = tview w" "vview ?w = vview w" by (simp_all add: kn_flag_set_def views_upd_flags)
  have "a \<in> bumps ?w \<longleftrightarrow> a \<in> bumps w" for a using f by (cases "knotes w a") (simp_all add: bumps_def h bumped_other)
  then have "bumps ?w = bumps w" by blast
  moreover have "kinds ?w"
    unfolding kn_flag_set_def using inv kind_flag [OF f] by (intro kinds_upd) (simp_all add: posix_inv_def)
  ultimately have "posix_inv ?w" using v by (intro posix_inv_cong [OF inv]) (simp_all add: kn_flag_set_def upd_knote_def)
  then show "pok fi kn r w ?w" using flag_frame(1) [OF d] by (simp add: pok_def)
  show "pfree kn ?w = pfree kn w" using f by (auto simp: pfree_def h bumped_other split: if_splits)
qed

subsection \<open>EVFILT_READ\<close>

lemma flags_other:
  "KNFL_FILE AND KNFL_ALWAYS_READY_BUMPED = 0" "KNFL_FILE AND KNFL_KNOTE_DELETED = 0"
  "KNFL_CHARDEV AND KNFL_ALWAYS_READY_BUMPED = 0" "KNFL_CHARDEV AND KNFL_KNOTE_DELETED = 0"
  "KNFL_BLOCKDEV AND KNFL_ALWAYS_READY_BUMPED = 0" "KNFL_BLOCKDEV AND KNFL_KNOTE_DELETED = 0"
  "KNFL_PIPE AND KNFL_ALWAYS_READY_BUMPED = 0" "KNFL_PIPE AND KNFL_KNOTE_DELETED = 0"
  "KNFL_SOCKET_PASSIVE AND KNFL_ALWAYS_READY_BUMPED = 0" "KNFL_SOCKET_PASSIVE AND KNFL_KNOTE_DELETED = 0"
  "KNFL_SOCKET_STREAM AND KNFL_ALWAYS_READY_BUMPED = 0" "KNFL_SOCKET_STREAM AND KNFL_KNOTE_DELETED = 0"
  "KNFL_SOCKET_DGRAM AND KNFL_ALWAYS_READY_BUMPED = 0" "KNFL_SOCKET_DGRAM AND KNFL_KNOTE_DELETED = 0"
  "psock_flag t AND KNFL_ALWAYS_READY_BUMPED = 0" "psock_flag t AND KNFL_KNOTE_DELETED = 0"
  by (simp_all add: flag_defs psock_flag_def split: psock.split)

text \<open>Finding out the type of a descriptor: calls and flags.\<close>

definition typed :: "addr \<Rightarrow> ('o, 'z) pw \<Rightarrow> ('o, 'z) pw \<Rightarrow> bool" where
  "typed kn w w' \<longleftrightarrow> (\<forall>fi r. pok fi kn r w w') \<and> pfree kn w' = pfree kn w"

lemma typed_pq: "posix_inv w \<Longrightarrow> pq w w' \<Longrightarrow> typed kn w w'"
  by (simp add: typed_def pq_pok pq_free)

lemma typed_flag:
  "posix_inv w \<Longrightarrow> f AND KNFL_ALWAYS_READY_BUMPED = 0 \<Longrightarrow> f AND KNFL_KNOTE_DELETED = 0 \<Longrightarrow> typed kn w (kn_flag_set f kn w)"
  by (simp add: typed_def flag_inv)

lemma typed_trans: "typed kn w w' \<Longrightarrow> typed kn w' w'' \<Longrightarrow> typed kn w w''"
  unfolding typed_def using pok_trans by blast

lemma typed_inv: "typed kn w w' \<Longrightarrow> posix_inv w'"
  by (auto simp: typed_def pok_def)

lemma typed_call_flag:
  assumes "posix_inv w" "pq w w1" "f AND KNFL_ALWAYS_READY_BUMPED = 0" "f AND KNFL_KNOTE_DELETED = 0"
  shows "typed kn w (kn_flag_set f kn w1)"
  using typed_trans [OF typed_pq [OF assms(1,2)] typed_flag [OF _ assms(3,4)]] assms(1,2) pq_inv by blast

lemma passive_probe_pq: "passive_probe K fd w = (w', b) \<Longrightarrow> pq w w'"
proof -
  assume a: "passive_probe K fd w = (w', b)"
  obtain w1 rv l where 1: "pcall_val (pk_so_acceptconn K fd) w = (w1, rv, l)" by (cases "pcall_val (pk_so_acceptconn K fd) w") auto
  obtain w2 r where 2: "pcall (pk_recv_peek K fd) w1 = (w2, r)" by (cases "pcall (pk_recv_peek K fd) w1") auto
  show ?thesis using a pq_pcall_val [OF 1] pq_trans [OF pq_pcall_val [OF 1] pq_pcall [OF 2]] 1 2
    by (auto simp: passive_probe_def split: if_splits)
qed

lemma read_type_ok:
  assumes inv: "posix_inv w" and k: "knotes w kn = Some k"
  shows "\<exists>w' rv. posix_read_descriptor_type K kn w = Some (w', rv) \<and> typed kn w w'"
proof -
  let ?fd = "posix_fd k"
  obtain w1 rv sb where 1: "pcall_val (pk_fstat K ?fd) w = (w1, rv, sb)" by (cases "pcall_val (pk_fstat K ?fd) w") auto
  obtain w2 r2 t where 2: "pcall_val (pk_so_type K ?fd) w1 = (w2, r2, t)" by (cases "pcall_val (pk_so_type K ?fd) w1") auto
  let ?w3 = "kn_flag_set (psock_flag t) kn w2"
  obtain w4 p where 4: "passive_probe K ?fd ?w3 = (w4, p)" by (cases "passive_probe K ?fd ?w3") auto
  note q1 = pq_pcall_val [OF 1] and q2 = pq_trans [OF pq_pcall_val [OF 1] pq_pcall_val [OF 2]]
  have t3: "typed kn w ?w3" by (rule typed_call_flag [OF inv q2]) (simp_all add: flags_other)
  have t4: "typed kn w w4" using typed_trans [OF t3 typed_pq [OF typed_inv [OF t3] passive_probe_pq [OF 4]]] .
  have t5: "typed kn w (kn_flag_set KNFL_SOCKET_PASSIVE kn w4)"
    using typed_trans [OF t4 typed_flag [OF typed_inv [OF t4] flags_other(9,10)]] .
  have fl: "typed kn w (kn_flag_set f kn w1)" if "f \<in> {KNFL_FILE, KNFL_CHARDEV, KNFL_BLOCKDEV, KNFL_PIPE}" for f
    by (rule typed_call_flag [OF inv q1]) (use that flags_other in auto)
  show ?thesis
    using k 1 2 4 t3 t4 t5 fl typed_pq [OF inv q1] typed_pq [OF inv q2]
    by (auto simp: posix_read_descriptor_type_def Let_def split: pmode.split)
qed

lemma core_length: "core_inv D R w \<Longrightarrow> fi < EVFILT_SYSCOUNT \<Longrightarrow> fi < length (kq_filt w)"
  by (simp add: core_inv_def)

lemma posix_kind: "posix_inv w \<Longrightarrow> knotes w kn = Some k \<Longrightarrow> knote_kind k"
  by (simp add: posix_inv_def kinds_def)

lemma read_arm_ok:
  assumes inv: "posix_inv w" and k: "knotes w kn = Some k" and fl: "inv_filt (kfilter (kev k)) = 0" and len: "0 < length (kq_filt w)"
  shows "\<exists>w' rv. posix_read_arm K kn w = Some (w', rv) \<and> pok 0 kn (0 \<le> rv) w w' \<and> (rv < 0 \<longrightarrow> pfree kn w' = pfree kn w)"
proof (cases "has_flag (kn_flags k) KNFL_FILE")
  case True
  let ?w1 = "if kn_bumped k then w else bump_always_ready kn (ready_insert 0 kn w)"
  have "pok 0 kn True w ?w1"
  proof (cases "kn_bumped k")
    case nb: False
    have "posix_inv (bump_always_ready kn (ready_insert 0 kn w))"
      by (rule bump_inv [of _ _ k]) (use inv k nb fl True in simp_all)
    then show ?thesis using op_frame_trans [OF ready_frame(1) [OF len] bump_frame] nb by (simp add: pok_def)
  qed (simp add: pok_start [OF inv])
  then show ?thesis using k True pok_pq [OF _ pq_calls(3)] by (auto simp: posix_read_arm_def Let_def)
next
  case False
  show ?thesis
  proof (cases "posix_fd k < 0 \<or> posix_fd k \<ge> FD_SETSIZE")
    case True
    then show ?thesis using k False pq_pok [OF inv pq_calls(7)] by (auto simp: posix_read_arm_def)
  next
    case in_range: False
    then show ?thesis using k False pq_pok [OF inv pq_trans [OF pq_calls(4) pq_calls(3)]] by (auto simp: posix_read_arm_def)
  qed
qed

lemma read_disarm_ok:
  assumes inv: "posix_inv w" and k: "knotes w kn = Some k" and fl: "inv_filt (kfilter (kev k)) = 0" and len: "0 < length (kq_filt w)"
  shows "\<exists>w'. posix_read_disarm kn w = Some w' \<and> pok 0 kn r w w' \<and> pfree kn w'"
proof -
  have kind: "kn_timer k = None" "kn_vnode k = None" "kn_bumped k \<Longrightarrow> has_flag (kn_flags k) KNFL_FILE"
    using posix_kind [OF inv k] fl by (auto simp: knote_kind_def)
  show ?thesis
  proof (cases "has_flag (kn_flags k) KNFL_FILE \<and> kn_bumped k")
    case True
    let ?w = "drop_always_ready kn (ready_remove 0 kn w)"
    have "posix_inv ?w" by (rule drop_inv [of _ _ k]) (use inv k True in simp_all)
    moreover have "op_frame 0 kn r w ?w" using op_frame_trans [OF ready_frame(2) [OF len] drop_frame] .
    moreover have "pfree kn ?w" using drop_knote [of "ready_remove 0 kn w" kn k] k kind by (simp add: pfree_def)
    ultimately show ?thesis using k True by (simp add: posix_read_disarm_def pok_def)
  next
    case False
    then have nb: "\<not> kn_bumped k" using kind(3) by blast
    have "pfree kn w" using k kind nb by (simp add: pfree_def)
    then show ?thesis using k nb pok_start [OF inv] pq_pok [OF inv pq_calls(8)]
      by (auto simp: posix_read_disarm_def)
  qed
qed

lemma upd_knote_pq: "pq w w' \<Longrightarrow> knotes w kn = Some k \<Longrightarrow> knotes w' kn = Some k"
  by (simp add: pq_def)

lemma pok_knote:
  assumes "pok fi kn r w w'" "knotes w a = Some k"
  obtains k' where "knotes w' a = Some k'" "kfilter (kev k') = kfilter (kev k)" "ident (kev k') = ident (kev k)"
    "length (kq_filt w') = length (kq_filt w)"
proof -
  have f: "op_frame fi kn r w w'" using assms(1) by (simp add: pok_def)
  obtain k' where "knotes w' a = Some k'" "kn_core k' = kn_core k" using op_frame_knote [OF f assms(2)] .
  then show ?thesis using that f by (auto simp: kn_core_def op_frame_def)
qed

lemma px_read_create_ok:
  assumes inv: "posix_inv w" and k: "knotes w kn = Some k" and fl: "inv_filt (kfilter (kev k)) = 0" and len: "0 < length (kq_filt w)"
    and fr: "pfree kn w"
  shows "\<exists>w' rv. posix_read_knote_create K kn w = Some (w', rv) \<and> pok 0 kn (0 \<le> rv) w w' \<and> (rv < 0 \<longrightarrow> pfree kn w')"
proof -
  obtain w1 r1 where w1: "posix_read_descriptor_type K kn w = Some (w1, r1)" "typed kn w w1" using read_type_ok [OF inv k] by blast
  have p1: "pok 0 kn r w w1" for r using w1(2) by (simp add: typed_def)
  have fr1: "pfree kn w1" using w1(2) fr by (simp add: typed_def)
  obtain k1 where k1: "knotes w1 kn = Some k1" "kfilter (kev k1) = kfilter (kev k)" "length (kq_filt w1) = length (kq_filt w)"
    using pok_knote [OF p1 k] by metis
  define lw where "lw = sint (ucast (data (kev k1)) :: 32 word)"
  define w2 where "w2 = (if wants_lowat k1 then fst (pcall (pk_set_rcvlowat K (posix_fd k1) (if lw < 1 then 1 else lw)) w1) else w1)"
  have q2: "pq w1 w2" by (simp add: w2_def)
  have i2: "posix_inv w2" using p1 pq_inv [OF q2] by (simp add: pok_def)
  have k2: "knotes w2 kn = Some k1" using upd_knote_pq [OF q2 k1(1)] .
  have l2: "0 < length (kq_filt w2)" using q2 k1(3) len by (simp add: pq_def)
  obtain w3 rv where w3: "posix_read_arm K kn w2 = Some (w3, rv)" "pok 0 kn (0 \<le> rv) w2 w3" "rv < 0 \<longrightarrow> pfree kn w3 = pfree kn w2"
    using read_arm_ok [OF i2 k2 _ l2, of K] fl k1(2) by auto
  show ?thesis
  proof (cases "r1 < 0")
    case True
    then show ?thesis using w1(1) p1 fr1 by (auto simp: posix_read_knote_create_def)
  next
    case False
    then have "posix_read_knote_create K kn w = Some (w3, rv)"
      using w1(1) k1(1) w3(1) [unfolded w2_def lw_def] by (simp add: posix_read_knote_create_def Let_def)
    then show ?thesis using pok_trans [OF pok_pq [OF p1 q2] w3(2)] w3(3) pq_free [OF q2] fr1 by auto
  qed
qed

lemma read_delete_ok:
  assumes inv: "posix_inv w" and k: "knotes w kn = Some k" and fl: "inv_filt (kfilter (kev k)) = 0" and len: "0 < length (kq_filt w)"
  shows "\<exists>w'. posix_read_knote_delete K kn w = Some (w', 0) \<and> pok 0 kn r w w' \<and> pfree kn w'"
proof -
  define w2 where "w2 = (if wants_lowat k then fst (pcall (pk_set_rcvlowat K (posix_fd k) 1) w) else w)"
  have q2: "pq w w2" by (simp add: w2_def)
  have "0 < length (kq_filt w2)" using q2 len by (simp add: pq_def)
  then obtain w3 where "posix_read_disarm kn w2 = Some w3" "pok 0 kn r w2 w3" "pfree kn w3"
    using read_disarm_ok [of w2 kn k r] pq_inv [OF q2] inv upd_knote_pq [OF q2 k] fl by auto
  then show ?thesis using k pok_trans [OF pok_pq [OF pok_start [OF inv] q2]]
    by (auto simp: posix_read_knote_delete_def w2_def [symmetric])
qed

subsection \<open>Contracts\<close>

text \<open>The callbacks in terms of \<open>pok\<close>.\<close>

lemma posix_contractI:
  assumes slot: "fi < EVFILT_SYSCOUNT"
    and create: "\<And>w kn k. posix_inv w \<Longrightarrow> knotes w kn = Some k \<Longrightarrow> inv_filt (kfilter (kev k)) = int fi \<Longrightarrow> fi < length (kq_filt w) \<Longrightarrow>
      pfree kn w \<Longrightarrow> \<exists>w' rv. kn_create ops kn w = Some (w', rv) \<and> pok fi kn (0 \<le> rv) w w' \<and> (rv < 0 \<longrightarrow> pfree kn w')"
    and modify: "\<And>w kn k src. posix_inv w \<Longrightarrow> knotes w kn = Some k \<Longrightarrow> inv_filt (kfilter (kev k)) = int fi \<Longrightarrow>
      fi < length (kq_filt w) \<Longrightarrow> ident src = ident (kev k) \<Longrightarrow> kfilter src = kfilter (kev k) \<Longrightarrow>
      \<exists>w' rv. kn_modify ops kn src w = Some (w', rv) \<and> pok fi kn True w w'"
    and delete: "\<And>w kn k. posix_inv w \<Longrightarrow> knotes w kn = Some k \<Longrightarrow> inv_filt (kfilter (kev k)) = int fi \<Longrightarrow> fi < length (kq_filt w) \<Longrightarrow>
      \<exists>w'. kn_delete ops kn w = Some (w', 0) \<and> pok fi kn False w w' \<and> pfree kn w'"
    and enable: "\<And>w kn k. posix_inv w \<Longrightarrow> knotes w kn = Some k \<Longrightarrow> inv_filt (kfilter (kev k)) = int fi \<Longrightarrow> fi < length (kq_filt w) \<Longrightarrow>
      \<exists>w' rv. kn_enable ops kn w = Some (w', rv) \<and> pok fi kn True w w'"
    and disable: "\<And>w kn k. posix_inv w \<Longrightarrow> knotes w kn = Some k \<Longrightarrow> inv_filt (kfilter (kev k)) = int fi \<Longrightarrow> fi < length (kq_filt w) \<Longrightarrow>
      \<exists>w' rv. kn_disable ops kn w = Some (w', rv) \<and> pok fi kn True w w'"
  shows "filter_contract posix_inv pfree pknote_zero ops fi (\<lambda>_. True)"
proof (unfold_locales, goal_cases)
  case 1
  show ?case by (rule slot)
next
  case (2 kn w k)
  have "fi < length (kq_filt w)" using core_length [OF 2(1) slot] .
  then show ?case using create [OF 2(2,4,5) _ 2(3)] by (auto simp: pok_def)
next
  case (3 w src kn)
  obtain k where k: "knotes w kn = Some k" "ident (kev k) = ident src" "inv_filt (kfilter (kev k)) = int fi"
    using core_inv_linked_knote [OF 3(1) slot 3(3)] by metis
  have "kfilter src = kfilter (kev k)" using inv_filt_inj 3(4) k(3) by metis
  then show ?case using modify [OF 3(2) k(1,3) core_length [OF 3(1) slot]] k(2) by (auto simp: pok_def)
next
  case (4 kn w k)
  have "fi < length (kq_filt w)" using core_length [OF 4(1) slot] .
  then show ?case using delete [OF 4(2,3,4)] by (auto simp: pok_def)
next
  case (5 w i kn)
  obtain k where k: "knotes w kn = Some k" "inv_filt (kfilter (kev k)) = int fi" using core_inv_linked_knote [OF 5(1) slot 5(3)] by metis
  show ?case using enable [OF 5(2) k core_length [OF 5(1) slot]] by (auto simp: pok_def)
next
  case (6 w i kn)
  obtain k where k: "knotes w kn = Some k" "inv_filt (kfilter (kev k)) = int fi" using core_inv_linked_knote [OF 6(1) slot 6(3)] by metis
  show ?case using disable [OF 6(2) k core_length [OF 6(1) slot]] by (auto simp: pok_def)
qed

lemma posix_read_contract:
  assumes "kn_create ops = posix_read_knote_create K" "kn_modify ops = posix_read_knote_modify" "kn_delete ops = posix_read_knote_delete K"
    "kn_enable ops = posix_read_knote_enable K" "kn_disable ops = posix_read_knote_disable"
  shows "filter_contract posix_inv pfree pknote_zero ops 0 (\<lambda>_. True)"
proof (rule posix_contractI, unfold assms, goal_cases)
  case (2 w kn k)
  then show ?case using px_read_create_ok [OF 2(1,2) _ _ 2(5)] by simp
next
  case (3 w kn k src)
  then show ?case using pok_start by (auto simp: posix_read_knote_modify_def)
next
  case (4 w kn k)
  then show ?case using read_delete_ok [OF 4(1,2)] by simp
next
  case (5 w kn k)
  then obtain w' rv where a: "posix_read_arm K kn w = Some (w', rv)" "pok 0 kn (0 \<le> rv) w w'" using read_arm_ok [OF 5(1,2), of K] by auto
  have "pok 0 kn True w w'" using a(2) pok_mono by (cases "0 \<le> rv") auto
  then show ?case using a(1) by (simp add: posix_read_knote_enable_def)
next
  case (6 w kn k)
  then show ?case using read_disarm_ok [OF 6(1,2), of True] by (auto simp: posix_read_knote_disable_def)
qed (simp add: EVFILT_SYSCOUNT_def)

subsection \<open>EVFILT_WRITE and EVFILT_USER\<close>

lemma write_type_ok:
  assumes inv: "posix_inv w" and k: "knotes w kn = Some k"
  shows "\<exists>w' rv. posix_write_descriptor_type K kn w = Some (w', rv) \<and> typed kn w w'"
proof -
  let ?fd = "posix_fd k"
  obtain w1 rv sb where 1: "pcall_val (pk_fstat K ?fd) w = (w1, rv, sb)" by (cases "pcall_val (pk_fstat K ?fd) w") auto
  obtain w2 r2 t where 2: "pcall_val (pk_so_type K ?fd) w1 = (w2, r2, t)" by (cases "pcall_val (pk_so_type K ?fd) w1") auto
  note q1 = pq_pcall_val [OF 1] and q2 = pq_trans [OF pq_pcall_val [OF 1] pq_pcall_val [OF 2]]
  have fl: "typed kn w (kn_flag_set f kn w1)" if "f \<in> {KNFL_FILE, KNFL_CHARDEV, KNFL_BLOCKDEV, KNFL_PIPE}" for f
    by (rule typed_call_flag [OF inv q1]) (use that flags_other in auto)
  have t2: "typed kn w (kn_flag_set (if t = P_DGRAM then KNFL_SOCKET_DGRAM else KNFL_SOCKET_STREAM) kn w2)"
    by (rule typed_call_flag [OF inv q2]) (simp_all add: flags_other)
  show ?thesis
    using k 1 2 t2 fl typed_pq [OF inv q1] typed_pq [OF inv q2]
    by (auto simp: posix_write_descriptor_type_def Let_def split: pmode.split)
qed

lemma write_arm_ok:
  assumes inv: "posix_inv w" and k: "knotes w kn = Some k"
  shows "\<exists>w' rv. posix_write_arm K kn w = Some (w', rv) \<and> pq w w'"
proof -
  let ?w1 = "w\<lparr>kq_wfds := insert (posix_fd k) (kq_wfds w)\<rparr>"
  have "pq w (if posix_fd k \<ge> kq_nfds ?w1 then ?w1\<lparr>kq_nfds := posix_fd k + 1\<rparr> else ?w1)" by (simp add: pq_def)
  from pq_trans [OF this pq_calls(3)] show ?thesis using k by (auto simp: posix_write_arm_def Let_def)
qed

lemma write_disarm_ok: "knotes w kn = Some k \<Longrightarrow> \<exists>w'. posix_write_disarm kn w = Some w' \<and> pq w w'"
  by (simp add: posix_write_disarm_def)

lemma plain_free: "posix_inv w \<Longrightarrow> knotes w kn = Some k \<Longrightarrow> inv_filt (kfilter (kev k)) \<in> {1, 10} \<Longrightarrow> pfree kn w"
  using posix_kind [of w kn k] by (auto simp: knote_kind_def pfree_def)

lemma posix_write_contract:
  assumes "kn_create ops = posix_write_knote_create K" "kn_modify ops = posix_write_knote_modify" "kn_delete ops = posix_write_knote_delete"
    "kn_enable ops = posix_write_knote_enable K" "kn_disable ops = posix_write_knote_disable"
  shows "filter_contract posix_inv pfree pknote_zero ops 1 (\<lambda>_. True)"
proof (rule posix_contractI, unfold assms, goal_cases)
  case (2 w kn k)
  obtain w1 r1 where w1: "posix_write_descriptor_type K kn w = Some (w1, r1)" "typed kn w w1" using write_type_ok [OF 2(1,2)] by blast
  have p1: "pok 1 kn r w w1" for r using w1(2) by (simp add: typed_def)
  have f1: "pfree kn w1" using w1(2) 2(5) by (simp add: typed_def)
  obtain k1 where k1: "knotes w1 kn = Some k1" using pok_knote [OF p1 2(2)] by metis
  obtain w2 r2 where "posix_write_arm K kn w1 = Some (w2, r2)" "pq w1 w2" using write_arm_ok [OF typed_inv [OF w1(2)] k1] by blast
  then show ?case using w1(1) p1 f1 pok_pq [OF p1] pq_free [of w1 w2 kn] by (auto simp: posix_write_knote_create_def)
next
  case (3 w kn k src)
  then show ?case using pok_start by (auto simp: posix_write_knote_modify_def)
next
  case (4 w kn k)
  obtain w1 where "posix_write_disarm kn w = Some w1" "pq w w1" using write_disarm_ok [OF 4(2)] by blast
  then show ?case using plain_free [OF 4(1,2)] 4(3) pq_pok [OF 4(1)] pq_free [of w w1 kn] by (auto simp: posix_write_knote_delete_def)
next
  case (5 w kn k)
  then show ?case using write_arm_ok [OF 5(1,2), of K] pq_pok [OF 5(1)] by (auto simp: posix_write_knote_enable_def)
next
  case (6 w kn k)
  then show ?case using write_disarm_ok [OF 6(2)] pq_pok [OF 6(1)] by (auto simp: posix_write_knote_disable_def)
qed (simp add: EVFILT_SYSCOUNT_def)

end
