(* ===== verification/Posix_Contract.thy ===== *)
theory Posix_Contract
  imports Posix_Inv
begin

text \<open>
  The contracts of EVFILT_USER, EVFILT_TIMER and EVFILT_VNODE, and the interpretation
  of the backend interface on the POSIX filters.
\<close>

subsection \<open>EVFILT_USER\<close>

lemma upd_plain_ok:
  assumes inv: "posix_inv w" and f: "\<And>k. knotes w kn = Some k \<Longrightarrow> pk_view (f k) = pk_view k"
    "\<And>k. knotes w kn = Some k \<Longrightarrow> kn_core (f k) = kn_core k"
  shows "pok fi kn r w (upd_knote kn f w)"
proof -
  have "\<forall>a. map_option pk_view (knotes (upd_knote kn f w) a) = map_option pk_view (knotes w a)"
    using f(1) by (cases "knotes w kn") (auto simp: upd_knote_def)
  note v = view_same [OF this]
  have "posix_inv (upd_knote kn f w)"
    using v inv by (intro posix_inv_cong [OF inv]) (simp_all add: upd_knote_def posix_inv_def)
  then show ?thesis using op_frame_upd_knote [of w kn f fi kn r] f(2) by (simp add: pok_def)
qed

lemma fflags_plain [simp]: "pk_view (upd_fflags f k) = pk_view k" "kn_core (upd_fflags f k) = kn_core k"
  by (simp_all add: pk_view_def kn_core_def upd_fflags_def kn_bumped_def)

lemma flags_plain [simp]: "pk_view (upd_flags f k) = pk_view k" "kn_core (upd_flags f k) = kn_core k"
  by (simp_all add: pk_view_def kn_core_def upd_flags_def kn_bumped_def)

lemma raise_pq: "pq w (fst (posix_eventfd_raise K fi w))"
proof -
  obtain w1 rv where c: "pcall (pk_write K (ef_wfd w fi)) w = (w1, rv)" by (cases "pcall (pk_write K (ef_wfd w fi)) w") auto
  show ?thesis using pq_pcall [OF c] c by (simp add: posix_eventfd_raise_def)
qed

lemma ready_insert_ok:
  "posix_inv w \<Longrightarrow> fi < length (kq_filt w) \<Longrightarrow> pok fi kn True w (ready_insert fi kn w)"
  by (simp add: pok_def ready_frame)

lemma px_user_modify_ok:
  assumes inv: "posix_inv w" and k: "knotes w kn = Some k" and len: "10 < length (kq_filt w)"
  shows "\<exists>w' rv. posix_user_knote_modify K kn src w = Some (w', rv) \<and> pok 10 kn True w w'"
proof -
  let ?c = "fflags src AND NOTE_FFCTRLMASK" and ?f = "fflags src AND NOTE_FFLAGSMASK"
  define w1 where "w1 = (if ?c = NOTE_FFAND then upd_knote kn (upd_fflags (\<lambda>x. x AND ?f)) w
      else if ?c = NOTE_FFOR then upd_knote kn (upd_fflags (\<lambda>x. x OR ?f)) w
      else if ?c = NOTE_FFCOPY then upd_knote kn (upd_fflags (\<lambda>_. ?f)) w else w)"
  have p1: "pok 10 kn True w w1" unfolding w1_def using inv by (auto intro: upd_plain_ok pok_start)
  define w2 where "w2 = ready_insert 10 kn (upd_knote kn (upd_fflags (set_flag NOTE_TRIGGER)) w1)"
  have i1: "posix_inv w1" using p1 by (simp add: pok_def)
  have "10 < length (kq_filt (upd_knote kn (upd_fflags (set_flag NOTE_TRIGGER)) w1))"
    using len p1 by (simp add: pok_def op_frame_def upd_knote_def)
  then have p2: "pok 10 kn True w w2" unfolding w2_def
    using pok_trans [OF pok_trans [OF p1 upd_plain_ok [OF i1]] ready_insert_ok] upd_plain_ok [OF i1] by (auto simp: pok_def)
  have "posix_user_knote_modify K kn src w =
      (if ?c \<noteq> NOTE_FFNOP \<and> ?c \<noteq> NOTE_FFAND \<and> ?c \<noteq> NOTE_FFOR \<and> ?c \<noteq> NOTE_FFCOPY then Some (w1\<lparr>errno := EINVAL\<rparr>, -1)
       else if \<not> has_flag (flags (kev k)) EV_DISABLE \<and> has_flag (fflags src) NOTE_TRIGGER
       then Some (fst (posix_eventfd_raise K 10 w2), 0) else Some (w1, 0))"
    unfolding posix_user_knote_modify_def Let_def w1_def [symmetric] k bind.bind_lunit w2_def by simp
  moreover have "pok 10 kn True w (fst (posix_eventfd_raise K 10 w2))" "pok 10 kn True w (w1\<lparr>errno := EINVAL\<rparr>)"
    using pok_pq [OF p2 raise_pq] pok_pq [OF p1 pq_calls(7)] .
  ultimately show ?thesis using p1 by (simp split: if_split)
qed

lemma posix_user_contract:
  assumes "kn_create ops = posix_user_knote_create" "kn_modify ops = posix_user_knote_modify K" "kn_delete ops = posix_user_knote_delete"
    "kn_enable ops = posix_user_knote_enable" "kn_disable ops = posix_user_knote_disable"
  shows "filter_contract posix_inv pfree pknote_zero ops 10 (\<lambda>_. True)"
proof (rule posix_contractI, unfold assms, goal_cases)
  case (2 w kn k)
  then show ?case using pok_start by (auto simp: posix_user_knote_create_def)
next
  case (3 w kn k src)
  then show ?case using px_user_modify_ok [OF 3(1,2)] by simp
next
  case (4 w kn k)
  then show ?case using pok_start [OF 4(1)] plain_free [OF 4(1,2)] by (auto simp: posix_user_knote_delete_def)
next
  case (5 w kn k)
  then show ?case using pok_start by (auto simp: posix_user_knote_enable_def)
next
  case (6 w kn k)
  then show ?case using pok_start by (auto simp: posix_user_knote_disable_def)
qed (simp add: EVFILT_SYSCOUNT_def)

subsection \<open>The deadline tree\<close>

lemma timer_insert_set:
  assumes "h t \<noteq> None" "\<forall>u \<in> set tr. h u \<noteq> None" "t \<notin> set tr"
  shows "set (timer_insert h t tr) = insert t (set tr)" "distinct tr \<Longrightarrow> distinct (timer_insert h t tr)"
proof -
  have c: "posix_timer_cmp h t u \<noteq> 0" if u: "u \<in> set tr" for u
  proof -
    obtain x y where "h t = Some x" "h u = Some y" using assms(1,2) u by blast
    moreover have "t \<noteq> u" using assms(3) u by blast
    ultimately show ?thesis by (simp add: posix_timer_cmp_def)
  qed
  show s: "set (timer_insert h t tr) = insert t (set tr)"
    using c by (induction tr) (auto simp: not_less order.order_iff_strict)
  have "t \<notin> set us \<Longrightarrow> \<forall>u \<in> set us. posix_timer_cmp h t u \<noteq> 0 \<Longrightarrow> distinct us \<Longrightarrow>
      distinct (timer_insert h t us) \<and> set (timer_insert h t us) = insert t (set us)" for us
    by (induction us) (auto simp: not_less order.order_iff_strict)
  then show "distinct tr \<Longrightarrow> distinct (timer_insert h t tr)" using assms(3) c by blast
qed

lemma tinv_own: "tinv tv h tr n \<Longrightarrow> h t = Some x \<Longrightarrow> tv a = Some t \<longleftrightarrow> a = pt_kn x"
  unfolding tinv_def by (metis option.inject)

lemma tinv_link:
  assumes i: "tinv tv h tr n" and x: "h t = Some x" and y: "pt_kn y = pt_kn x" "pt_in_tree y" "pt_interval_ns y = pt_interval_ns x" and o: "\<not> pt_in_tree x"
    and h': "\<forall>u. (h' u = None) = (h u = None)"
  shows "tinv tv (h(t \<mapsto> y)) (timer_insert h' t tr) n"
proof -
  have "t \<notin> set tr" using i x o by (auto simp: tinv_def)
  then have "set (timer_insert h' t tr) = insert t (set tr)" "distinct (timer_insert h' t tr)"
    using timer_insert_set [of h' t tr] i x h' by (auto simp: tinv_def)
  then show ?thesis using i x y tinv_own [OF i x] unfolding tinv_def by (auto split: if_splits)
qed

lemma tinv_upd:
  assumes "tinv tv h tr n" "h t = Some x" "pt_kn y = pt_kn x" "pt_in_tree y = pt_in_tree x" "pt_interval_ns y = pt_interval_ns x"
  shows "tinv tv (h(t \<mapsto> y)) tr n"
  using assms tinv_own [OF assms(1,2)] unfolding tinv_def by (auto split: if_splits)

lemma tinv_unlink:
  assumes "tinv tv h tr n" "h t = Some x" "pt_kn y = pt_kn x" "\<not> pt_in_tree y" "pt_interval_ns y = pt_interval_ns x"
  shows "tinv tv (h(t \<mapsto> y)) (removeAll t tr) n"
  using assms tinv_own [OF assms(1,2)] unfolding tinv_def by (auto simp: distinct_removeAll split: if_splits)

lemma tinv_free:
  assumes "tinv tv h tr n" "tv kn = Some t" "t \<notin> set tr"
  shows "tinv (tv(kn := None)) (h(t := None)) tr n"
  using assms unfolding tinv_def by (auto split: if_splits) (metis option.inject)+

lemma tinv_new:
  assumes "tinv tv h tr n" "tv kn = None" "pt_kn x = kn" "\<not> pt_in_tree x" "0 \<le> pt_interval_ns x"
  shows "tinv (tv(kn \<mapsto> n)) (h(n \<mapsto> x)) tr (Suc n)"
proof -
  have "h n = None" using assms(1) by (cases "h n") (auto simp: tinv_def)
  then show ?thesis using assms unfolding tinv_def by (auto split: if_splits) (metis less_Suc_eq option.distinct(1) order_less_irrefl option.inject)+
qed

subsection \<open>EVFILT_TIMER\<close>

lemma posix_inv_timer:
  assumes "posix_inv w" "tinv (tview w') (ptimers w') (kq_timers w') (next_addr w')" "vview w' = vview w" "bumps w' = bumps w" "kinds w'"
    "pvnodes w' = pvnodes w" "kq_always_ready w' = kq_always_ready w" "next_addr w \<le> next_addr w'"
  shows "posix_inv w'"
  using assms(1,2,5) vinv_mono [OF _ assms(8)] unfolding posix_inv_def assms(3,4,6,7) by blast

lemma timer_views [simp]:
  "tview (w\<lparr>ptimers := h\<rparr>) = tview w" "vview (w\<lparr>ptimers := h\<rparr>) = vview w" "bumps (w\<lparr>ptimers := h\<rparr>) = bumps w" "kinds (w\<lparr>ptimers := h\<rparr>) = kinds w"
  "tview (w\<lparr>kq_timers := tr\<rparr>) = tview w" "vview (w\<lparr>kq_timers := tr\<rparr>) = vview w" "bumps (w\<lparr>kq_timers := tr\<rparr>) = bumps w"
  "kinds (w\<lparr>kq_timers := tr\<rparr>) = kinds w"
  by (simp_all add: tview_def vview_def bumps_def kinds_def fun_eq_iff)

lemma timer_frame [simp]: "op_frame fi kn r w (w\<lparr>kq_timers := tr, ptimers := h\<rparr>)" "op_frame fi kn r w (w\<lparr>ptimers := h\<rparr>)"
  by (simp_all add: op_frame_def)

text \<open>Changing the timers of \<open>w\<close> only.\<close>

definition timers_to :: "(addr \<Rightarrow> posix_timer option) \<Rightarrow> addr list \<Rightarrow> ('o, 'z) pw \<Rightarrow> ('o, 'z) pw" where
  "timers_to h tr w = w\<lparr>kq_timers := tr, ptimers := h\<rparr>"

lemma timers_to_ok:
  "posix_inv w \<Longrightarrow> tinv (tview w) h tr (next_addr w) \<Longrightarrow> pok fi kn r w (timers_to h tr w)"
  unfolding pok_def timers_to_def by (auto intro: posix_inv_timer simp: posix_inv_def)

lemma posix_tinv: "posix_inv w \<Longrightarrow> tinv (tview w) (ptimers w) (kq_timers w) (next_addr w)"
  by (simp add: posix_inv_def)

lemma timer_unlink_ok:
  assumes inv: "posix_inv w" and x: "ptimers w t = Some x"
  shows "\<exists>tr. timer_unlink t w = Some (timers_to ((ptimers w)(t \<mapsto> x\<lparr>pt_in_tree := False\<rparr>)) tr w) \<and> t \<notin> set tr \<and>
    tinv (tview w) ((ptimers w)(t \<mapsto> x\<lparr>pt_in_tree := False\<rparr>)) tr (next_addr w)"
proof (cases "pt_in_tree x")
  case True
  then have "timer_unlink t w = Some (timers_to ((ptimers w)(t \<mapsto> x\<lparr>pt_in_tree := False\<rparr>)) (removeAll t (kq_timers w)) w)"
    using x by (simp add: timer_unlink_def upd_timer_def timers_to_def)
  then show ?thesis using tinv_unlink [OF posix_tinv [OF inv] x] by auto
next
  case False
  then have e: "x\<lparr>pt_in_tree := False\<rparr> = x" by simp
  have "t \<notin> set (kq_timers w)" using posix_tinv [OF inv] x False by (auto simp: tinv_def)
  moreover have "(ptimers w)(t \<mapsto> x) = ptimers w" using x by auto
  ultimately show ?thesis using x False posix_tinv [OF inv] unfolding e
    by (intro exI [of _ "kq_timers w"]) (simp add: timer_unlink_def timers_to_def)
qed

lemma timer_link_ok:
  assumes inv: "posix_inv w" and x: "ptimers w t = Some x"
  shows "\<exists>tr. timer_link t w = Some (timers_to ((ptimers w)(t \<mapsto> x\<lparr>pt_in_tree := True\<rparr>)) tr w) \<and>
    tinv (tview w) ((ptimers w)(t \<mapsto> x\<lparr>pt_in_tree := True\<rparr>)) tr (next_addr w)"
proof (cases "pt_in_tree x")
  case True
  then have e: "x\<lparr>pt_in_tree := True\<rparr> = x" by simp
  have "(ptimers w)(t \<mapsto> x) = ptimers w" using x by auto
  then show ?thesis using x True posix_tinv [OF inv] unfolding e
    by (intro exI [of _ "kq_timers w"]) (simp add: timer_link_def timers_to_def)
next
  case False
  let ?tr = "timer_insert (ptimers w) t (kq_timers w)"
  have "timer_link t w = Some (timers_to ((ptimers w)(t \<mapsto> x\<lparr>pt_in_tree := True\<rparr>)) ?tr w)"
    using x False by (simp add: timer_link_def upd_timer_def timers_to_def)
  then show ?thesis using tinv_link [OF posix_tinv [OF inv] x _ _ _ False, of _ "ptimers w"] by auto
qed

lemma views_timer_set:
  "tview (upd_knote kn (\<lambda>k. k\<lparr>kn_timer := t\<rparr>) w) = (\<lambda>a. if a = kn \<and> knotes w kn \<noteq> None then t else tview w a)"
  "vview (upd_knote kn (\<lambda>k. k\<lparr>kn_timer := t\<rparr>) w) = vview w" "bumps (upd_knote kn (\<lambda>k. k\<lparr>kn_timer := t\<rparr>) w) = bumps w"
  by (auto simp: tview_def vview_def bumps_def upd_knote_def kn_bumped_def fun_eq_iff split: Option.bind_splits)

lemma timer_set_frame: "op_frame fi kn r w (upd_knote kn (\<lambda>k. k\<lparr>kn_timer := t\<rparr>) w)"
  by (rule op_frame_upd_knote) (simp add: kn_core_def)

lemma timer_drop_ok:
  assumes inv: "posix_inv w" and k: "knotes w kn = Some k"
  shows "\<exists>w'. timer_drop kn w = Some w' \<and> pok fi kn r w w' \<and> knotes w' kn = Some (k\<lparr>kn_timer := None\<rparr>)"
proof (cases "kn_timer k")
  case None
  then have "k\<lparr>kn_timer := None\<rparr> = k" by simp
  then show ?thesis using None k pok_start [OF inv] by (simp add: timer_drop_def)
next
  case (Some t)
  have tv: "tview w kn = Some t" using k Some by (simp add: tview_def)
  then obtain x where x: "ptimers w t = Some x" using posix_tinv [OF inv] unfolding tinv_def by blast
  define h where "h = (ptimers w)(t \<mapsto> x\<lparr>pt_in_tree := False\<rparr>)"
  obtain tr where tr: "timer_unlink t w = Some (timers_to h tr w)" "t \<notin> set tr" "tinv (tview w) h tr (next_addr w)"
    using timer_unlink_ok [OF inv x] by (auto simp: h_def)
  let ?w1 = "(timers_to h tr w)\<lparr>ptimers := h(t := None)\<rparr>"
  let ?w2 = "upd_knote kn (\<lambda>k. k\<lparr>kn_timer := None\<rparr>) ?w1"
  have run: "timer_drop kn w = Some ?w2" using k Some tr(1) by (simp add: timer_drop_def timers_to_def)
  have "tview ?w2 = (tview w)(kn := None)"
    unfolding views_timer_set using k by (auto simp: timers_to_def fun_eq_iff)
  moreover have "kinds ?w2"
    by (rule kinds_upd) (use inv in \<open>auto simp: posix_inv_def timers_to_def knote_kind_def kn_bumped_def\<close>)
  ultimately have "posix_inv ?w2"
    using tinv_free [OF tr(3) tv tr(2)] views_timer_set(2,3) [of kn None ?w1]
    by (intro posix_inv_timer [OF inv]) (simp_all add: timers_to_def upd_knote_def)
  moreover have "op_frame fi kn r w ?w2"
    by (rule op_frame_trans [OF _ timer_set_frame]) (simp add: timers_to_def)
  moreover have "knotes ?w2 kn = Some (k\<lparr>kn_timer := None\<rparr>)" using k by (simp add: upd_knote_def timers_to_def)
  ultimately show ?thesis using run by (auto simp: pok_def)
qed

text \<open>A step that only allocates.\<close>

definition palloc :: "('o, 'z) pw \<Rightarrow> ('o, 'z) pw \<Rightarrow> bool" where
  "palloc w w' \<longleftrightarrow> pq (w\<lparr>next_addr := Suc (next_addr w)\<rparr>) w'"

lemma palloc_calloc: "calloc w = (w1, p) \<Longrightarrow> palloc w w1 \<and> (p = None \<or> p = Some (next_addr w))"
  by (auto simp: calloc_def palloc_def)

lemma palloc_pq: "palloc w w1 \<Longrightarrow> pq w1 w2 \<Longrightarrow> palloc w w2"
  unfolding palloc_def by (rule pq_trans)

lemma palloc_ok: "posix_inv w \<Longrightarrow> palloc w w' \<Longrightarrow> pok fi kn r w w'"
proof -
  assume a: "posix_inv w" "palloc w w'"
  let ?w = "w\<lparr>next_addr := Suc (next_addr w)\<rparr>"
  have "ext_same w ?w" by (simp add: ext_same_def)
  then have "posix_inv ?w" using posix_inv_ext [OF a(1)] by blast
  then have "posix_inv w'" using pq_inv a(2) by (auto simp: palloc_def)
  moreover have "op_frame fi kn r w ?w" by (simp add: op_frame_def)
  then have "op_frame fi kn r w w'" using op_frame_trans pq_frame a(2) unfolding palloc_def by blast
  ultimately show ?thesis by (simp add: pok_def)
qed

lemma palloc_free: "palloc w w' \<Longrightarrow> pfree kn w' = pfree kn w"
  using pq_free [of "w\<lparr>next_addr := Suc (next_addr w)\<rparr>" w' kn] by (simp add: palloc_def pfree_def)

lemma ptimer_upd_ex:
  "P y \<Longrightarrow> \<exists>x. w\<lparr>ptimers := m(a \<mapsto> y)\<rparr> = w\<lparr>ptimers := m(a \<mapsto> x)\<rparr> \<and> P x"
  by blast

lemma timer_alloc_ok:
  assumes k: "knotes w kn = Some k"
  shows "\<exists>w1. palloc w w1 \<and> (timer_alloc K kn w = Some (w1, None) \<or>
    (\<exists>x. timer_alloc K kn w = Some (w1\<lparr>ptimers := (ptimers w1)(next_addr w \<mapsto> x)\<rparr>, Some (next_addr w)) \<and>
      pt_kn x = kn \<and> \<not> pt_in_tree x \<and> 0 \<le> pt_interval_ns x))"
proof -
  obtain w1 p where c: "calloc w = (w1, p)" by (cases "calloc w")
  note a = palloc_calloc [OF c]
  obtain w2 rt where 2: "clock_realtime K w1 = (w2, rt)" by (cases "clock_realtime K w1")
  obtain w3 m where 3: "clock_monotonic K w2 = (w3, m)" by (cases "clock_monotonic K w2")
  obtain w4 m4 where 4: "clock_monotonic K w1 = (w4, m4)" by (cases "clock_monotonic K w1")
  have q2: "pq w1 w2" "pq w2 w3" "pq w1 w4"
    using pq_calls(5) [of w1 K] pq_calls(5) [of w2 K] pq_calls(6) [of w1 K] 2 3 4 by simp_all
  have pa: "palloc w w1" "palloc w w3" "palloc w w4" "palloc w (w1\<lparr>errno := e\<rparr>)" for e
    using a palloc_pq [of w w1] pq_trans [OF q2(1,2)] q2(3) pq_calls(7) [of w1 e] by blast+
  show ?thesis
  proof (cases p)
    case None
    then show ?thesis using k c pa(4) by (auto simp: timer_alloc_def)
  next
    case (Some t)
    then have t: "t = next_addr w" using a by auto
    show ?thesis
    proof (cases "has_flag (fflags (kev k)) NOTE_ABSOLUTE")
      case True
      then show ?thesis using k c Some t 2 3 pa(2)
        by (intro exI [of _ w3] conjI disjI2) (auto simp: timer_alloc_def Let_def intro!: ptimer_upd_ex)
    next
      case False
      then show ?thesis using k c Some t 4 pa(3,4)
        by (cases "sint (data (kev k)) < 0") (auto simp: timer_alloc_def Let_def intro!: ptimer_upd_ex)
    qed
  qed
qed

lemma px_timer_create_ok:
  assumes inv: "posix_inv w" and k: "knotes w kn = Some k" and fl: "inv_filt (kfilter (kev k)) = 6" and none: "kn_timer k = None"
  shows "\<exists>w' rv. posix_timer_knote_create K kn w = Some (w', rv) \<and> pok 6 kn r w w' \<and> (rv < 0 \<longrightarrow> pfree kn w')"
proof -
  define w0 where "w0 = upd_knote kn (upd_flags (set_flag EV_CLEAR)) w"
  have p0: "pok 6 kn r w w0" unfolding w0_def by (rule upd_plain_ok [OF inv]) simp_all
  have i0: "posix_inv w0" using p0 by (simp add: pok_def)
  define k0 where "k0 = upd_flags (set_flag EV_CLEAR) k"
  have k0: "knotes w0 kn = Some k0" "kn_timer k0 = None" "inv_filt (kfilter (kev k0)) = 6"
    using k none fl by (simp_all add: w0_def k0_def upd_knote_def upd_flags_def)
  have fr0: "pfree kn w0" using k0 posix_kind [OF i0 k0(1)] by (auto simp: pfree_def knote_kind_def)
  obtain w1 where w1: "palloc w0 w1" and al: "timer_alloc K kn w0 = Some (w1, None) \<or>
      (\<exists>x. timer_alloc K kn w0 = Some (w1\<lparr>ptimers := (ptimers w1)(next_addr w0 \<mapsto> x)\<rparr>, Some (next_addr w0)) \<and>
        pt_kn x = kn \<and> \<not> pt_in_tree x \<and> 0 \<le> pt_interval_ns x)"
    using timer_alloc_ok [OF k0(1), of K] by blast
  have p1: "pok 6 kn r w w1" using pok_trans [OF p0 palloc_ok [OF i0 w1]] .
  from al show ?thesis
  proof
    assume "timer_alloc K kn w0 = Some (w1, None)"
    then show ?thesis using k p1 palloc_free [OF w1, of kn] fr0 by (auto simp: posix_timer_knote_create_def Let_def w0_def [symmetric])
  next
    assume "\<exists>x. timer_alloc K kn w0 = Some (w1\<lparr>ptimers := (ptimers w1)(next_addr w0 \<mapsto> x)\<rparr>, Some (next_addr w0)) \<and>
      pt_kn x = kn \<and> \<not> pt_in_tree x \<and> 0 \<le> pt_interval_ns x"
    then obtain x where x: "pt_kn x = kn" "\<not> pt_in_tree x" "0 \<le> pt_interval_ns x"
      "timer_alloc K kn w0 = Some (w1\<lparr>ptimers := (ptimers w1)(next_addr w0 \<mapsto> x)\<rparr>, Some (next_addr w0))" by blast
    let ?t = "next_addr w0"
    have f1: "ptimers w1 = ptimers w0" "kq_timers w1 = kq_timers w0" "next_addr w1 = Suc ?t" "knotes w1 = knotes w0"
        "pvnodes w1 = pvnodes w0" "kq_always_ready w1 = kq_always_ready w0"
      using w1 by (simp_all add: palloc_def pq_def)
    define w2 where "w2 = upd_knote kn (\<lambda>k. k\<lparr>kn_timer := Some ?t\<rparr>) (w1\<lparr>ptimers := (ptimers w1)(?t \<mapsto> x)\<rparr>)"
    have tv0: "tview w0 kn = None" using k0 by (simp add: tview_def)
    have "tview w2 = (tview w0)(kn \<mapsto> ?t)" using k0(1) f1(4) unfolding w2_def views_timer_set by (auto simp: tview_def fun_eq_iff)
    then have "tinv (tview w2) (ptimers w2) (kq_timers w2) (next_addr w2)"
      using tinv_new [OF posix_tinv [OF i0] tv0 x(1-3)] f1 by (simp add: w2_def upd_knote_def)
    moreover have "kinds w2" unfolding w2_def
      by (rule kinds_upd) (use i0 f1(4) k0 in \<open>auto simp: posix_inv_def kinds_def knote_kind_def kn_bumped_def\<close>)
    moreover have "vview w2 = vview w0" "bumps w2 = bumps w0"
      using f1(4) unfolding w2_def views_timer_set by (simp_all add: vview_def bumps_def fun_eq_iff)
    ultimately have i2: "posix_inv w2"
      using f1 by (intro posix_inv_timer [OF i0]) (simp_all add: w2_def upd_knote_def)
    have "op_frame 6 kn r w w2" unfolding w2_def
      by (rule op_frame_trans [OF op_frame_trans [OF _ timer_frame(2)] timer_set_frame]) (use p1 in \<open>simp add: pok_def\<close>)
    then have p2: "pok 6 kn r w w2" using i2 by (simp add: pok_def)
    have "ptimers w2 ?t = Some x" by (simp add: w2_def upd_knote_def)
    from timer_link_ok [OF i2 this] obtain w3 where "timer_link ?t w2 = Some w3" "pok 6 kn r w2 w3"
      using timers_to_ok [OF i2] by blast
    then show ?thesis using k x(4) pok_pq [OF pok_trans [OF p2] pq_calls(3)]
      by (auto simp: posix_timer_knote_create_def Let_def w0_def [symmetric] w2_def [symmetric])
  qed
qed

lemma px_timer_modify_ok:
  assumes inv: "posix_inv w" and k: "knotes w kn = Some k" and fl: "inv_filt (kfilter (kev k)) = 6"
    and src: "ident src = ident (kev k)" "kfilter src = kfilter (kev k)"
  shows "\<exists>w' rv. posix_timer_knote_modify K kn src w = Some (w', rv) \<and> pok 6 kn r w w'"
proof -
  obtain w1 where w1: "timer_drop kn w = Some w1" "pok 6 kn r w w1" "knotes w1 kn = Some (k\<lparr>kn_timer := None\<rparr>)"
    using timer_drop_ok [OF inv k] by blast
  let ?f = "\<lambda>k'. k'\<lparr>kev := src\<lparr>flags := flags src OR EV_CLEAR OR (flags (kev k) AND EV_RECEIPT)\<rparr>\<rparr>"
  let ?w2 = "upd_knote kn ?f w1"
  have p2: "pok 6 kn r w1 ?w2"
    by (rule upd_plain_ok) (use w1(2,3) src in \<open>auto simp: pok_def pk_view_def kn_core_def kn_bumped_def\<close>)
  have k2: "knotes ?w2 kn = Some (?f (k\<lparr>kn_timer := None\<rparr>))" using w1(3) by (simp add: upd_knote_def)
  obtain w3 rv where "posix_timer_knote_create K kn ?w2 = Some (w3, rv)" "pok 6 kn r ?w2 w3"
    using px_timer_create_ok [OF _ k2, of K r] p2 fl src by (auto simp: pok_def)
  then show ?thesis using k w1(1) pok_trans [OF pok_trans [OF w1(2) p2]] by (auto simp: posix_timer_knote_modify_def Let_def)
qed

lemma px_timer_enable_ok:
  assumes inv: "posix_inv w" and k: "knotes w kn = Some k"
  shows "\<exists>w' rv. posix_timer_knote_enable K kn w = Some (w', rv) \<and> pok 6 kn r w w'"
proof (cases "kn_timer k")
  case None
  then show ?thesis using k pq_pok [OF inv pq_calls(3)] by (auto simp: posix_timer_knote_enable_def)
next
  case (Some t)
  then have "tview w kn = Some t" using k by (simp add: tview_def)
  then obtain x where x: "ptimers w t = Some x" using posix_tinv [OF inv] unfolding tinv_def by blast
  define ns where "ns = (if pt_absolute x then 0 else if pt_interval_ns x > 0 then pt_interval_ns x else 1)"
  obtain w1 now where c: "clock_monotonic K w = (w1, now)" by (cases "clock_monotonic K w")
  have q: "pq w w1" using pq_calls(5) [of w K] c by simp
  have i1: "posix_inv w1" using q inv pq_inv by blast
  have x1: "ptimers w1 t = Some x" using q x by (simp add: pq_def)
  define y where "y = x\<lparr>pt_next := ts_add_ns now ns, pt_fire_count := 0\<rparr>"
  let ?w2 = "timers_to ((ptimers w1)(t \<mapsto> y)) (kq_timers w1) w1"
  have u: "upd_timer t (\<lambda>x. x\<lparr>pt_next := ts_add_ns now ns, pt_fire_count := 0\<rparr>) w1 = ?w2"
    using x1 by (simp add: upd_timer_def timers_to_def y_def)
  have p2: "pok 6 kn r w1 ?w2"
    by (rule timers_to_ok [OF i1 tinv_upd [OF posix_tinv [OF i1] x1]]) (simp_all add: y_def)
  have i2: "posix_inv ?w2" using p2 by (simp add: pok_def)
  obtain w3 where w3: "timer_link t ?w2 = Some w3" "pok 6 kn r ?w2 w3"
    using timer_link_ok [OF i2, of t y] timers_to_ok [OF i2] by (auto simp: timers_to_def)
  have "pok 6 kn r w (posix_wake_kqueue K w3)"
    by (rule pok_pq [OF pok_trans [OF pok_trans [OF pq_pok [OF inv q] p2] w3(2)] pq_calls(3)])
  then show ?thesis using k Some x c u w3(1) by (simp add: posix_timer_knote_enable_def Let_def ns_def [symmetric])
qed

lemma px_timer_disable_ok:
  assumes inv: "posix_inv w" and k: "knotes w kn = Some k"
  shows "\<exists>w' rv. posix_timer_knote_disable kn w = Some (w', rv) \<and> pok 6 kn r w w'"
proof (cases "kn_timer k")
  case None
  then show ?thesis using k pok_start [OF inv] by (auto simp: posix_timer_knote_disable_def)
next
  case (Some t)
  then have "tview w kn = Some t" using k by (simp add: tview_def)
  then obtain x where x: "ptimers w t = Some x" using posix_tinv [OF inv] unfolding tinv_def by blast
  obtain w1 where "timer_unlink t w = Some w1" "pok 6 kn r w w1"
    using timer_unlink_ok [OF inv x] timers_to_ok [OF inv] by blast
  then show ?thesis using k Some by (simp add: posix_timer_knote_disable_def)
qed

lemma posix_timer_contract:
  assumes "kn_create ops = posix_timer_knote_create K" "kn_modify ops = posix_timer_knote_modify K"
    "kn_delete ops = posix_timer_knote_delete" "kn_enable ops = posix_timer_knote_enable K" "kn_disable ops = posix_timer_knote_disable"
  shows "filter_contract posix_inv pfree pknote_zero ops 6 (\<lambda>_. True)"
proof (rule posix_contractI, unfold assms, goal_cases)
  case (2 w kn k)
  then have "kn_timer k = None" by (simp add: pfree_def)
  then obtain w' rv where "posix_timer_knote_create K kn w = Some (w', rv)" "pok 6 kn False w w'" "rv < 0 \<longrightarrow> pfree kn w'"
    using px_timer_create_ok [OF 2(1,2), of K False] 2(3) by auto
  then show ?case using pok_mono by blast
next
  case (3 w kn k src)
  then show ?case using px_timer_modify_ok [OF 3(1,2)] by simp
next
  case (4 w kn k)
  obtain w1 where w1: "timer_drop kn w = Some w1" "pok 6 kn False w w1" "knotes w1 kn = Some (k\<lparr>kn_timer := None\<rparr>)"
    using timer_drop_ok [OF 4(1,2)] by blast
  have "knote_kind (k\<lparr>kn_timer := None\<rparr>)" using posix_kind [OF _ w1(3)] w1(2) by (simp add: pok_def)
  then have "pfree kn w1" using w1(3) 4(3) by (auto simp: pfree_def knote_kind_def)
  then show ?case using w1(1,2) by (simp add: posix_timer_knote_delete_def)
next
  case (5 w kn k)
  then show ?case using px_timer_enable_ok by blast
next
  case (6 w kn k)
  then show ?case using px_timer_disable_ok by blast
qed (simp add: EVFILT_SYSCOUNT_def)

subsection \<open>EVFILT_VNODE\<close>

lemma vinv_new: "vinv vv h n \<Longrightarrow> vv kn = None \<Longrightarrow> vinv (vv(kn \<mapsto> n)) (h(n \<mapsto> st)) (Suc n)"
proof -
  assume i: "vinv vv h n" and none: "vv kn = None"
  have n: "n \<notin> dom h" using i by (auto simp: vinv_def)
  then have "n \<notin> ran vv" using i by (simp add: vinv_def)
  then have "inj_on (vv(kn \<mapsto> n)) (insert kn (dom vv))" using i none by (auto simp: vinv_def inj_on_def ran_def)
  moreover have "ran (vv(kn \<mapsto> n)) = insert n (dom h)" using i none by (simp add: vinv_def)
  ultimately show ?thesis using i by (auto simp: vinv_def less_SucI)
qed

lemma vinv_free: "vinv vv h n \<Longrightarrow> vv kn = Some v \<Longrightarrow> vinv (vv(kn := None)) (h(v := None)) n"
proof -
  assume i: "vinv vv h n" and s: "vv kn = Some v"
  have o: "vv a = Some v \<longleftrightarrow> a = kn" for a using i s by (auto simp: vinv_def inj_on_def dom_def)
  have r: "ran vv = dom h" "inj_on vv (dom vv)" using i by (simp_all add: vinv_def)
  have "x \<in> ran (vv(kn := None)) \<longleftrightarrow> x \<in> ran vv - {v}" for x using o s unfolding ran_def by (auto, metis option.inject)
  then have "ran (vv(kn := None)) = ran vv - {v}" by blast
  moreover have "inj_on (vv(kn := None)) (dom vv - {kn})" using r(2) by (auto simp: inj_on_def)
  ultimately show ?thesis using i r(1) by (auto simp: vinv_def)
qed

lemma vinv_upd: "vinv vv h n \<Longrightarrow> h v \<noteq> None \<Longrightarrow> vinv vv (h(v \<mapsto> st)) n"
  by (auto simp: vinv_def insert_absorb)

lemma posix_inv_vnode:
  assumes "posix_inv w" "vinv (vview w') (pvnodes w') (next_addr w')" "tview w' = tview w" "bumps w' = bumps w" "kinds w'"
    "ptimers w' = ptimers w" "kq_timers w' = kq_timers w" "kq_always_ready w' = kq_always_ready w" "next_addr w \<le> next_addr w'"
  shows "posix_inv w'"
  using assms(1,2,5) tinv_mono [OF _ assms(9)] unfolding posix_inv_def assms(3,4,6-8) by blast

lemma posix_vinv: "posix_inv w \<Longrightarrow> vinv (vview w) (pvnodes w) (next_addr w)"
  by (simp add: posix_inv_def)

lemma vnode_views [simp]:
  "tview (w\<lparr>pvnodes := h\<rparr>) = tview w" "vview (w\<lparr>pvnodes := h\<rparr>) = vview w" "bumps (w\<lparr>pvnodes := h\<rparr>) = bumps w" "kinds (w\<lparr>pvnodes := h\<rparr>) = kinds w"
  by (simp_all add: tview_def vview_def bumps_def kinds_def fun_eq_iff)

lemma vnode_set_views:
  "vview (upd_knote kn (\<lambda>k. k\<lparr>kn_vnode := v\<rparr>) w) = (\<lambda>a. if a = kn \<and> knotes w kn \<noteq> None then v else vview w a)"
  "tview (upd_knote kn (\<lambda>k. k\<lparr>kn_vnode := v\<rparr>) w) = tview w" "bumps (upd_knote kn (\<lambda>k. k\<lparr>kn_vnode := v\<rparr>) w) = bumps w"
  by (auto simp: tview_def vview_def bumps_def upd_knote_def kn_bumped_def fun_eq_iff split: Option.bind_splits)

lemma vnode_frame:
  "op_frame fi kn r w (w\<lparr>pvnodes := h\<rparr>)" "op_frame fi kn r w (upd_knote kn (\<lambda>k. k\<lparr>kn_vnode := v\<rparr>) w)"
  by (simp add: op_frame_def, rule op_frame_upd_knote, simp add: kn_core_def)

lemma vnode_alloc_ok:
  "\<exists>w1. (pq w w1 \<or> palloc w w1) \<and> (vnode_state_alloc K fd w = (w1, None) \<or>
    (\<exists>st. palloc w w1 \<and> vnode_state_alloc K fd w = (w1\<lparr>pvnodes := (pvnodes w1)(next_addr w \<mapsto> st)\<rparr>, Some (next_addr w))))"
proof -
  obtain w1 rv st where 1: "pcall_val (pk_fstat K fd) w = (w1, rv, st)" by (cases "pcall_val (pk_fstat K fd) w") auto
  obtain w2 p where 2: "calloc w1 = (w2, p)" by (cases "calloc w1")
  have q: "pq w w1" "pq w (w1\<lparr>errno := EINVAL\<rparr>)" using pq_pcall_val [OF 1] pq_trans [OF pq_pcall_val [OF 1] pq_calls(7)] .
  have "pq (w\<lparr>next_addr := Suc (next_addr w)\<rparr>) (w1\<lparr>next_addr := Suc (next_addr w1)\<rparr>)" using q(1) by (simp add: pq_def)
  then have a: "palloc w w2" "p = None \<or> p = Some (next_addr w)"
    using palloc_calloc [OF 2] pq_trans q(1) unfolding palloc_def by (blast, simp add: pq_def)
  have a': "palloc w (w2\<lparr>errno := ENOMEM\<rparr>)" using palloc_pq [OF a(1) pq_calls(7)] .
  show ?thesis
  proof (cases "rv < 0 \<or> ps_mode st \<noteq> P_REG \<and> ps_mode st \<noteq> P_DIR")
    case True
    then show ?thesis using 1 q by (auto simp: vnode_state_alloc_def)
  next
    case False
    then show ?thesis using 1 2 a a' by (cases p) (auto simp: vnode_state_alloc_def)
  qed
qed

lemma px_vnode_create_ok:
  assumes inv: "posix_inv w" and k: "knotes w kn = Some k" and fl: "inv_filt (kfilter (kev k)) = 3" and fr: "pfree kn w"
  shows "\<exists>w' rv. posix_vnode_knote_create K kn w = Some (w', rv) \<and> pok 3 kn r w w' \<and> (rv < 0 \<longrightarrow> pfree kn w')"
proof -
  have f: "kn_vnode k = None" "\<not> kn_bumped k" "kn_timer k = None" using fr k by (simp_all add: pfree_def)
  obtain w1 where w1: "pq w w1 \<or> palloc w w1" "vnode_state_alloc K (posix_fd k) w = (w1, None) \<or>
    (\<exists>st. palloc w w1 \<and> vnode_state_alloc K (posix_fd k) w = (w1\<lparr>pvnodes := (pvnodes w1)(next_addr w \<mapsto> st)\<rparr>, Some (next_addr w)))"
    using vnode_alloc_ok [of w K "posix_fd k"] by blast
  have p1: "pok 3 kn r w w1" using w1(1) pq_pok [OF inv] palloc_ok [OF inv] by blast
  have k1: "knotes w1 kn = Some k" using w1(1) k by (auto simp: palloc_def pq_def)
  have i1: "posix_inv w1" using p1 by (simp add: pok_def)
  from w1(2) show ?thesis
  proof
    assume a: "vnode_state_alloc K (posix_fd k) w = (w1, None)"
    let ?w2 = "upd_knote kn (\<lambda>k. k\<lparr>kn_vnode := None\<rparr>) w1"
    have "pok 3 kn r w1 ?w2"
      by (rule upd_plain_ok [OF i1]) (use k1 f in \<open>simp_all add: pk_view_def kn_core_def kn_bumped_def\<close>)
    then have "pok 3 kn r w ?w2" by (rule pok_trans [OF p1])
    moreover have "pfree kn ?w2" using k1 f by (simp add: pfree_def upd_knote_def kn_bumped_def)
    ultimately show ?thesis using a k by (simp add: posix_vnode_knote_create_def)
  next
    assume "\<exists>st. palloc w w1 \<and> vnode_state_alloc K (posix_fd k) w = (w1\<lparr>pvnodes := (pvnodes w1)(next_addr w \<mapsto> st)\<rparr>, Some (next_addr w))"
    then obtain st where pa: "palloc w w1"
      and a: "vnode_state_alloc K (posix_fd k) w = (w1\<lparr>pvnodes := (pvnodes w1)(next_addr w \<mapsto> st)\<rparr>, Some (next_addr w))" by blast
    let ?v = "next_addr w"
    define w2 where "w2 = upd_knote kn (\<lambda>k. k\<lparr>kn_vnode := Some ?v\<rparr>) (w1\<lparr>pvnodes := (pvnodes w1)(?v \<mapsto> st)\<rparr>)"
    have e: "vview w1 = vview w" "pvnodes w1 = pvnodes w" "next_addr w1 = Suc ?v"
      using pa by (simp_all add: palloc_def pq_def vview_def fun_eq_iff)
    have "vview w2 = (vview w)(kn \<mapsto> ?v)" unfolding w2_def vnode_set_views using k1 e(1) by (auto simp: fun_eq_iff)
    then have "vinv (vview w2) (pvnodes w2) (next_addr w2)"
      using vinv_new [OF posix_vinv [OF inv], of kn st] k f(1) e by (simp add: w2_def upd_knote_def vview_def)
    moreover have "kinds w2" unfolding w2_def
      by (rule kinds_upd) (use i1 k1 fl in \<open>auto simp: posix_inv_def knote_kind_def kn_bumped_def\<close>)
    ultimately have i2: "posix_inv w2"
      by (intro posix_inv_vnode [OF i1]) (simp_all add: w2_def vnode_set_views, simp_all add: upd_knote_def)
    have "op_frame 3 kn r w1 w2" unfolding w2_def by (rule op_frame_trans [OF vnode_frame(1,2)])
    then have p2: "pok 3 kn r w w2" using pok_trans [OF p1] i2 by (simp add: pok_def)
    have k2: "knotes w2 kn = Some (k\<lparr>kn_vnode := Some ?v\<rparr>)" using k1 by (simp add: w2_def upd_knote_def)
    have "posix_inv (bump_always_ready kn w2)" by (rule bump_inv [OF i2 k2]) (use f(2) fl in \<open>simp_all add: kn_bumped_def\<close>)
    then have "pok 3 kn r w (bump_always_ready kn w2)" using pok_trans [OF p2] bump_frame [of 3 kn r w2] by (simp add: pok_def)
    from pok_pq [OF this pq_calls(3)] show ?thesis using a k f(2) by (simp add: posix_vnode_knote_create_def w2_def [symmetric])
  qed
qed

lemma px_vnode_delete_ok:
  assumes inv: "posix_inv w" and k: "knotes w kn = Some k" and fl: "inv_filt (kfilter (kev k)) = 3"
  shows "\<exists>w'. posix_vnode_knote_delete kn w = Some (w', 0) \<and> pok 3 kn r w w' \<and> pfree kn w'"
proof -
  have t: "kn_timer k = None" using posix_kind [OF inv k] fl by (auto simp: knote_kind_def)
  define w1 where "w1 = (if kn_bumped k then drop_always_ready kn w else w)"
  have p1: "pok 3 kn r w w1" unfolding w1_def
    using drop_inv [OF inv k] drop_frame [of 3 kn r w] pok_start [OF inv] by (simp add: pok_def)
  have i1: "posix_inv w1" using p1 by (simp add: pok_def)
  obtain k1 where k1: "knotes w1 kn = Some k1" "kn_vnode k1 = kn_vnode k" "kn_timer k1 = None" "\<not> kn_bumped k1" "kev k1 = kev k"
    using drop_knote [OF k] k t by (cases "kn_bumped k") (auto simp: w1_def)
  show ?thesis
  proof (cases "kn_vnode k")
    case None
    then have "pfree kn w1" using k1 by (simp add: pfree_def)
    then show ?thesis using None k p1 by (simp add: posix_vnode_knote_delete_def w1_def [symmetric])
  next
    case (Some v)
    define w2 where "w2 = upd_knote kn (\<lambda>k. k\<lparr>kn_vnode := None\<rparr>) (w1\<lparr>pvnodes := (pvnodes w1)(v := None)\<rparr>)"
    have vv: "vview w1 kn = Some v" using k1 Some by (simp add: vview_def)
    have "vview w2 = (vview w1)(kn := None)" unfolding w2_def vnode_set_views using k1(1) by (auto simp: fun_eq_iff)
    then have "vinv (vview w2) (pvnodes w2) (next_addr w2)"
      using vinv_free [OF posix_vinv [OF i1] vv] by (simp add: w2_def upd_knote_def)
    moreover have "kinds w2" unfolding w2_def
      by (rule kinds_upd) (use i1 in \<open>auto simp: posix_inv_def knote_kind_def kn_bumped_def\<close>)
    ultimately have "posix_inv w2"
      by (intro posix_inv_vnode [OF i1]) (simp_all add: w2_def vnode_set_views, simp_all add: upd_knote_def)
    moreover have "op_frame 3 kn r w1 w2" unfolding w2_def by (rule op_frame_trans [OF vnode_frame(1,2)])
    ultimately have "pok 3 kn r w w2" using pok_trans [OF p1] by (simp add: pok_def)
    moreover have "pfree kn w2" using k1 by (simp add: pfree_def w2_def upd_knote_def kn_bumped_def)
    ultimately show ?thesis using k Some by (simp add: posix_vnode_knote_delete_def w1_def [symmetric] w2_def [symmetric])
  qed
qed

lemma px_vnode_enable_ok:
  assumes inv: "posix_inv w" and k: "knotes w kn = Some k" and fl: "inv_filt (kfilter (kev k)) = 3" and len: "3 < length (kq_filt w)"
  shows "\<exists>w' rv. posix_vnode_knote_enable K kn w = Some (w', rv) \<and> pok 3 kn True w w'"
proof -
  define w1 where "w1 = (if kn_bumped k then w else bump_always_ready kn (ready_insert 3 kn w))"
  have p1: "pok 3 kn True w w1"
  proof (cases "kn_bumped k")
    case False
    let ?w = "ready_insert 3 kn w"
    have "posix_inv (bump_always_ready kn ?w)" by (rule bump_inv [where k = k]) (use inv k fl False in simp_all)
    then show ?thesis
      using False op_frame_trans [OF ready_frame(1) [OF len] bump_frame] by (simp add: w1_def pok_def)
  qed (simp add: w1_def pok_start inv)
  have i1: "posix_inv w1" using p1 by (simp add: pok_def)
  obtain k1 where k1: "knotes w1 kn = Some k1" "kn_vnode k1 = kn_vnode k"
    using bump_knote [of "ready_insert 3 kn w" kn k] k by (cases "kn_bumped k") (auto simp: w1_def)
  show ?thesis
  proof (cases "kn_vnode k")
    case None
    then show ?thesis using k pok_pq [OF p1 pq_calls(3)] by (auto simp: posix_vnode_knote_enable_def Let_def w1_def [symmetric])
  next
    case (Some v)
    then have "v \<in> ran (vview w1)" using k1 by (auto simp: ran_def vview_def intro!: exI [of _ kn])
    then have v: "pvnodes w1 v \<noteq> None" using posix_vinv [OF i1] by (auto simp: vinv_def)
    obtain w2 rv st where c: "pcall_val (pk_fstat K (posix_fd k)) w1 = (w2, rv, st)" by (cases "pcall_val (pk_fstat K (posix_fd k)) w1") auto
    have p2: "pok 3 kn True w w2" using pok_pq [OF p1 pq_pcall_val [OF c]] .
    have i2: "posix_inv w2" "pvnodes w2 = pvnodes w1" using p2 pq_pcall_val [OF c] by (simp_all add: pok_def pq_def)
    let ?w3 = "w2\<lparr>pvnodes := (pvnodes w2)(v \<mapsto> st)\<rparr>"
    have "posix_inv ?w3" using vinv_upd [OF posix_vinv [OF i2(1)], of v st] v i2
      by (intro posix_inv_vnode [OF i2(1)]) (simp_all add: posix_inv_def)
    then have p3: "pok 3 kn True w ?w3" using pok_trans [OF p2] vnode_frame(1) [of 3 kn True w2] by (simp add: pok_def)
    have "pok 3 kn True w (posix_wake_kqueue K (if rv < 0 then w2 else ?w3))"
      by (rule pok_pq [OF _ pq_calls(3)]) (simp add: p2 p3)
    then show ?thesis using k Some v c by (auto simp: posix_vnode_knote_enable_def Let_def w1_def [symmetric])
  qed
qed

lemma posix_vnode_contract:
  assumes "kn_create ops = posix_vnode_knote_create K" "kn_modify ops = posix_vnode_knote_modify"
    "kn_delete ops = posix_vnode_knote_delete" "kn_enable ops = posix_vnode_knote_enable K" "kn_disable ops = posix_vnode_knote_disable"
  shows "filter_contract posix_inv pfree pknote_zero ops 3 (\<lambda>_. True)"
proof (rule posix_contractI, unfold assms, goal_cases)
  case (2 w kn k)
  then show ?case using px_vnode_create_ok [OF 2(1,2) _ 2(5), of K False] pok_mono by fastforce
next
  case (3 w kn k src)
  have "pok 3 kn True w (upd_knote kn (\<lambda>k. k\<lparr>kev := (kev k)\<lparr>fflags := fflags src, udata := udata src\<rparr>\<rparr>) w)"
    by (rule upd_plain_ok [OF 3(1)]) (simp_all add: pk_view_def kn_core_def kn_bumped_def)
  then show ?case using 3(2) by (simp add: posix_vnode_knote_modify_def)
next
  case (4 w kn k)
  then show ?case using px_vnode_delete_ok by simp
next
  case (5 w kn k)
  then show ?case using px_vnode_enable_ok by simp
next
  case (6 w kn k)
  let ?w = "ready_remove 3 kn w"
  have "kn_bumped k \<Longrightarrow> posix_inv (drop_always_ready kn ?w)" by (rule drop_inv [where k = k]) (use 6(1,2) in simp_all)
  then have "kn_bumped k \<Longrightarrow> pok 3 kn True w (drop_always_ready kn ?w)"
    using op_frame_trans [OF ready_frame(2) [OF 6(4)] drop_frame] by (simp add: pok_def)
  then show ?case using 6(2) pok_start [OF 6(1)] by (simp add: posix_vnode_knote_disable_def)
qed (simp add: EVFILT_SYSCOUNT_def)

subsection \<open>The backend\<close>

lemma posix_vt_contract:
  assumes "posix_impl fi"
  shows "filter_contract posix_inv pfree pknote_zero (posix_vt K fi) fi (\<lambda>_. True)"
proof -
  consider "fi = 0" | "fi = 1" | "fi = 3" | "fi = 6" | "fi = 10" using assms by (auto simp: posix_impl_def)
  then show ?thesis
  proof cases
    case 1
    then show ?thesis by (simp add: posix_vt_def posix_evfilt_read_def posix_read_ops_def posix_read_contract)
  next
    case 2
    then show ?thesis by (simp add: posix_vt_def posix_evfilt_write_def posix_write_ops_def posix_write_contract [simplified])
  next
    case 3
    then show ?thesis by (simp add: posix_vt_def posix_evfilt_vnode_def posix_vnode_ops_def posix_vnode_contract)
  next
    case 4
    then show ?thesis by (simp add: posix_vt_def posix_evfilt_timer_def posix_timer_ops_def posix_timer_contract)
  next
    case 5
    then show ?thesis by (simp add: posix_vt_def posix_evfilt_user_def posix_user_ops_def posix_user_contract)
  qed
qed

interpretation pxb: backend posix_inv pfree pknote_zero "posix_vt K" posix_impl "\<lambda>_ _. True" for K
proof (intro backend.intro backend_axioms.intro)
  show "backend_state posix_inv pfree pknote_zero" by (rule pxs.backend_state_axioms)
  show "filter_contract posix_inv pfree pknote_zero (posix_vt K fi) fi (\<lambda>_. True)" if "posix_impl fi" for fi
    using that by (rule posix_vt_contract)
qed

end
