(* ===== verification/Posix_Platform.thy ===== *)
theory Posix_Platform
  imports Posix_Contract
begin

text \<open>
  The wait and the delivery of the POSIX backend (\<^verbatim>\<open>posix/platform.c\<close>): the clamping of
  the timeout of \<^verbatim>\<open>pselect\<close>, the loop around it, and the pass over the filters that
  copies events out.

  A loop that the kernel can keep running is a partial function; a fault, such as the
  use of a freed knote, is the value None as well.  \<open>posix_kevent\<close> is kevent() over
  these operations.
\<close>

subsection \<open>Waiting\<close>

text \<open>The comparison that decides whether a limit replaces a timeout.\<close>

definition ts_clamp :: "timespec option \<Rightarrow> timespec \<Rightarrow> bool" where
  "ts_clamp to lim \<longleftrightarrow>
     (case to of None \<Rightarrow> True | Some t \<Rightarrow> fst t > fst lim \<or> fst t = fst lim \<and> snd t > snd lim)"

definition ns_ts :: "int \<Rightarrow> timespec" where
  "ns_ts ns = (ns sdiv 1000000000, ns smod 1000000000)"

definition file_poll_timeout :: "timespec option \<Rightarrow> ('o, 'z) pw \<Rightarrow> timespec option" where
  "file_poll_timeout timeout w =
     (if kq_always_ready w > 0 then
        let ns = (if kq_file_poll_interval_ns w \<le> 0 then 100000000 else kq_file_poll_interval_ns w)
        in if ts_clamp timeout (ns_ts ns) then Some (ns_ts ns) else timeout
      else timeout)"

definition only_always_ready :: "('o, 'z) pw \<Rightarrow> bool" where
  "only_always_ready w \<longleftrightarrow> kq_always_ready w > 0 \<and> kq_knote_count w = kq_always_ready w"

text \<open>The timeout of one call of \<^verbatim>\<open>pselect\<close>, and whether it is that of the next timer.\<close>

definition wait_timeout ::
  "'o pkernel \<Rightarrow> timespec option \<Rightarrow> bool \<Rightarrow> ('o, 'z) pw \<Rightarrow> (('o, 'z) pw \<times> timespec option \<times> bool) option" where
  "wait_timeout K timeout only w = do {
     let use_to = (if only \<and> kq_file_poll_interval_ns w = 0 then Some (0, 0) else timeout);
     (w, timer_ns) \<leftarrow> timer_min_deadline_ns K w;
     if timer_ns \<ge> 0 \<and> ts_clamp use_to (ns_ts timer_ns) then Some (w, Some (ns_ts timer_ns), True)
     else Some (w, use_to, False) }"

partial_function (option) pipe_drain :: "'o pkernel \<Rightarrow> int \<Rightarrow> ('o, 'z) pw \<Rightarrow> ('o, 'z) pw option" where
  "pipe_drain K fd w =
     (case pcall (pk_read K fd) w of (w', rv) \<Rightarrow> if rv > 0 then pipe_drain K fd w' else Some w')"

declare pipe_drain.simps [code]

text \<open>One round of the loop: the value to return, or None to go round again.\<close>

definition posix_wait_round ::
  "'o pkernel \<Rightarrow> timespec option \<Rightarrow> bool \<Rightarrow> ('o, 'z) pw \<Rightarrow> (('o, 'z) pw \<times> int option) option" where
  "posix_wait_round K timeout only w = do {
     (w, use_to, by_timer) \<leftarrow> wait_timeout K timeout only w;
     w \<leftarrow> (if kq_id w \<ge> 0 then pipe_drain K (kq_id w) w else Some w);
     let (w, n, rfds, wfds) = pcall_val (pk_pselect K (kq_nfds w) (kq_fds w) (kq_wfds w) use_to) w;
     if n < 0 then Some (w, if errno w = EINTR then None else Some (-1))
     else do {
       let w = w\<lparr>kq_rfds := rfds, kq_wrfds := wfds\<rparr>;
       if n = 0 then Some (w, Some (if kq_always_ready w > 0 \<or> by_timer then 1 else 0))
       else do {
         let rfds = (if kq_id w \<ge> 0 then rfds - {kq_id w} else rfds);
         let real_event = list_ex (\<lambda>fd. fd \<in> rfds \<or> fd \<in> wfds) [0..kq_nfds w - 1];
         Some (w, if real_event \<or> timeout \<noteq> None then Some n else None) } } }"

partial_function (option) posix_wait_loop ::
  "'o pkernel \<Rightarrow> timespec option \<Rightarrow> bool \<Rightarrow> ('o, 'z) pw \<Rightarrow> (('o, 'z) pw \<times> int) option" where
  "posix_wait_loop K timeout only w =
     (case posix_wait_round K timeout only w of
        None \<Rightarrow> None
      | Some p \<Rightarrow> (case snd p of None \<Rightarrow> posix_wait_loop K timeout only (fst p) | Some n \<Rightarrow> Some (fst p, n)))"

declare posix_wait_loop.simps [code]

definition posix_kevent_wait ::
  "'o pkernel \<Rightarrow> timespec option \<Rightarrow> nat \<Rightarrow> ('o, 'z) pw \<Rightarrow> (('o, 'z) pw \<times> int) option" where
  "posix_kevent_wait K timeout numevents w =
     posix_wait_loop K (file_poll_timeout timeout w) (only_always_ready w) w"

subsection \<open>Delivery\<close>

text \<open>The element after \<open>kn\<close> in a list: what \<^verbatim>\<open>LIST_NEXT\<close> reads.\<close>

definition list_next :: "addr \<Rightarrow> addr list \<Rightarrow> addr option" where
  "list_next kn xs = (case dropWhile (\<lambda>a. a \<noteq> kn) xs of _ # y # _ \<Rightarrow> Some y | _ \<Rightarrow> None)"

text \<open>The walk over the ready list of a filter.  \<open>cur\<close> is the saved pointer: it is read
  before anything else, so it has to be a live knote, and the removal of a knote that
  is not on the list writes through a null pointer.\<close>

partial_function (option) posix_ready_walk ::
  "'o pkernel \<Rightarrow> nat \<Rightarrow> nat \<Rightarrow> addr option \<Rightarrow> kevent list \<Rightarrow> ('o, 'z) pw \<Rightarrow> (('o, 'z) pw \<times> int \<times> kevent list) option" where
  "posix_ready_walk K fi nevents cur out w =
     (case cur of
        None \<Rightarrow> Some (w, int (length out), out)
      | Some kn \<Rightarrow>
          if knotes w kn = None then None
          else if length out \<ge> nevents then Some (w, int (length out), out)
          else if kn \<notin> set (kf_ready (filt_at w fi)) then None
          else
            (case kf_copyout (posix_vt K fi) (nevents - length out) (Some kn) 0 (ready_remove fi kn w) of
               None \<Rightarrow> None
             | Some p \<Rightarrow>
                 if fst (snd p) < 0 then Some (fst p, -1, out)
                 else posix_ready_walk K fi nevents (list_next kn (kf_ready (filt_at w fi))) (out @ snd (snd p)) (fst p)))"

declare posix_ready_walk.simps [code]

definition posix_dispatch_filter ::
  "'o pkernel \<Rightarrow> nat \<Rightarrow> nat \<Rightarrow> ('o, 'z) pw \<Rightarrow> (('o, 'z) pw \<times> int \<times> kevent list) option" where
  "posix_dispatch_filter K fi nevents w =
     (case kf_ready (filt_at w fi) of
        [] \<Rightarrow>
          if kf_id (filt_at w fi) \<in> {EVFILT_SIGNAL, EVFILT_TIMER, EVFILT_VNODE} then do {
            (w, rv, es) \<leftarrow> kf_copyout (posix_vt K fi) nevents None 0 w;
            if rv < 0 then Some (w, -1, es) else Some (w, rv, es) }
          else Some (w, 0, [])
      | kn # _ \<Rightarrow> posix_ready_walk K fi nevents (Some kn) [] w)"

text \<open>The callback on one knote of a filter over descriptors; the second component is
  the value that stops the iteration, the third the error of the context.\<close>

definition posix_dispatch_fd_cb ::
  "'o pkernel \<Rightarrow> nat \<Rightarrow> int set \<Rightarrow> nat \<Rightarrow> addr \<Rightarrow> kevent list \<Rightarrow> ('o, 'z) pw \<Rightarrow> (('o, 'z) pw \<times> int \<times> int \<times> kevent list) option" where
  "posix_dispatch_fd_cb K fi active nevents kn out w = do {
     k \<leftarrow> knotes w kn;
     let fd = posix_fd k;
     let master = (if fi = 0 then kq_fds w else kq_wfds w);
     if length out \<ge> nevents then Some (w, 1, 0, out)
     else if KNOTE_DISABLED k then Some (w, 0, 0, out)
     else if \<not> has_flag (kn_flags k) KNFL_FILE \<and> (fd < 0 \<or> fd \<ge> FD_SETSIZE \<or> fd \<notin> active \<or> fd \<notin> master)
     then Some (w, 0, 0, out)
     else do {
       (w, rv, es) \<leftarrow> kf_copyout (posix_vt K fi) (nevents - length out) (Some kn) 0 w;
       if rv < 0 then Some (w, 1, -1, out) else Some (w, 0, 0, out @ es) } }"

fun posix_fd_walk ::
  "'o pkernel \<Rightarrow> nat \<Rightarrow> int set \<Rightarrow> nat \<Rightarrow> addr list \<Rightarrow> kevent list \<Rightarrow> ('o, 'z) pw \<Rightarrow> (('o, 'z) pw \<times> int \<times> kevent list) option" where
  "posix_fd_walk K fi active nevents [] out w = Some (w, int (length out), out)"
| "posix_fd_walk K fi active nevents (kn # kns) out w = do {
     (w, stop, err, out) \<leftarrow> posix_dispatch_fd_cb K fi active nevents kn out w;
     if stop \<noteq> 0 then Some (w, if err < 0 then -1 else int (length out), out)
     else posix_fd_walk K fi active nevents kns out w }"

definition posix_dispatch_fd_filter ::
  "'o pkernel \<Rightarrow> nat \<Rightarrow> int set \<Rightarrow> nat \<Rightarrow> ('o, 'z) pw \<Rightarrow> (('o, 'z) pw \<times> int \<times> kevent list) option" where
  "posix_dispatch_fd_filter K fi active nevents w =
     posix_fd_walk K fi active nevents (map snd (kf_index (filt_at w fi))) [] w"

definition posix_kevent_drain_wake :: "'o pkernel \<Rightarrow> ('o, 'z) pw \<Rightarrow> ('o, 'z) pw option" where
  "posix_kevent_drain_wake K w =
     (if kq_id w < 0 \<or> kq_id w \<notin> kq_rfds w then Some w else pipe_drain K (kq_id w) w)"

text \<open>What the pass does with one filter.\<close>

definition posix_copyout_slot ::
  "'o pkernel \<Rightarrow> nat \<Rightarrow> nat \<Rightarrow> ('o, 'z) pw \<Rightarrow> (('o, 'z) pw \<times> int \<times> kevent list) option" where
  "posix_copyout_slot K fi nevents w =
     (let id = kf_id (filt_at w fi) in
      if id = 0 then Some (w, 0, [])
      else if id = EVFILT_READ then posix_dispatch_fd_filter K fi (kq_rfds w) nevents w
      else if id = EVFILT_WRITE then posix_dispatch_fd_filter K fi (kq_wrfds w) nevents w
      else if id = EVFILT_TIMER \<or> id = EVFILT_VNODE then posix_dispatch_filter K fi nevents w
      else if kf_pfd w fi \<le> 0 \<or> kf_pfd w fi \<notin> kq_rfds w then Some (w, 0, [])
      else posix_dispatch_filter K fi nevents (fst (posix_eventfd_lower K fi w)))"

fun posix_copyout_slots ::
  "'o pkernel \<Rightarrow> nat \<Rightarrow> nat list \<Rightarrow> kevent list \<Rightarrow> ('o, 'z) pw \<Rightarrow> (('o, 'z) pw \<times> int \<times> kevent list) option" where
  "posix_copyout_slots K nevents [] out w = Some (w, int (length out), out)"
| "posix_copyout_slots K nevents (fi # fis) out w =
     (if length out \<ge> nevents then Some (w, int (length out), out)
      else do {
        (w, rv, es) \<leftarrow> posix_copyout_slot K fi (nevents - length out) w;
        if rv < 0 then Some (w, -1, out) else posix_copyout_slots K nevents fis (out @ es) w })"

definition posix_kevent_copyout ::
  "'o pkernel \<Rightarrow> int \<Rightarrow> nat \<Rightarrow> ('o, 'z) pw \<Rightarrow> (('o, 'z) pw \<times> int \<times> kevent list) option" where
  "posix_kevent_copyout K nready nevents w = do {
     w \<leftarrow> posix_kevent_drain_wake K w;
     posix_copyout_slots K nevents [0..<EVFILT_SYSCOUNT] [] w }"

subsection \<open>The call\<close>

definition posix_hooks :: "'o pkernel \<Rightarrow> nat \<Rightarrow> timespec option \<Rightarrow> (('o, 'z) pw) kevent_hooks" where
  "posix_hooks K t timeout =
     \<lparr>hk_enter = posix_kevent_enter t, hk_exit = \<lambda>w. Some (posix_kevent_exit t w),
      hk_wait = posix_kevent_wait K timeout, hk_copyout = posix_kevent_copyout K\<rparr>"

definition posix_kevent ::
  "'o pkernel \<Rightarrow> nat \<Rightarrow> timespec option \<Rightarrow> kevent list \<Rightarrow> nat \<Rightarrow> ('o, 'z) pw \<Rightarrow> (('o, 'z) pw \<times> int \<times> kevent list) option" where
  "posix_kevent K t timeout changes nevents w =
     kevent_run (posix_hooks K t timeout) (posix_vt K) pknote_zero changes nevents w"

end
