(* ===== verification/Posix_Timers.thy ===== *)
theory Posix_Timers
  imports Posix_Platform
begin

text \<open>
  The deadline tree of EVFILT_TIMER on POSIX: the loop that catches up a periodic timer
  and the loop over the timers that are due both end, and on an ordered tree every timer
  that is due fires as often as periods have passed, and no other timer changes.
\<close>

subsection \<open>Times\<close>

definition ts_ns :: "timespec \<Rightarrow> int" where
  "ts_ns t = fst t * 1000000000 + snd t"

definition ts_valid :: "timespec \<Rightarrow> bool" where
  "ts_valid t \<longleftrightarrow> 0 \<le> snd t \<and> snd t < 1000000000"

lemma nonneg_division: "0 \<le> (ns::int) \<Longrightarrow> ns sdiv 1000000000 = ns div 1000000000 \<and> ns smod 1000000000 = ns mod 1000000000"
  by (cases "ns = 0") (simp_all add: signed_divide_int_def signed_modulo_int_def minus_div_mult_eq_mod)

lemma ts_add_ns_eq:
  "0 \<le> ns \<Longrightarrow> ts_add_ns t ns =
    (if snd t + ns mod 1000000000 \<ge> 1000000000 then (fst t + ns div 1000000000 + 1, snd t + ns mod 1000000000 - 1000000000)
     else (fst t + ns div 1000000000, snd t + ns mod 1000000000))"
  by (simp add: ts_add_ns_def nonneg_division Let_def)

lemma ts_add_ns_ns: "0 \<le> ns \<Longrightarrow> ts_ns (ts_add_ns t ns) = ts_ns t + ns"
proof -
  assume "0 \<le> ns"
  moreover have "ns div 1000000000 * 1000000000 + ns mod 1000000000 = ns" by (rule div_mult_mod_eq)
  ultimately show ?thesis unfolding ts_ns_def ts_add_ns_eq [OF \<open>0 \<le> ns\<close>] by (simp split: if_split)
qed

lemma ts_add_ns_valid: "0 \<le> ns \<Longrightarrow> ts_valid t \<Longrightarrow> ts_valid (ts_add_ns t ns)"
proof -
  assume a: "0 \<le> ns" "ts_valid t"
  define m where "m = ns mod 1000000000"
  have "0 \<le> m" "m < 1000000000" by (simp_all add: m_def)
  then show ?thesis using a(2) unfolding ts_valid_def ts_add_ns_eq [OF a(1)] m_def [symmetric] by (simp split: if_split)
qed

lemma ts_lt_ns: "ts_valid a \<Longrightarrow> ts_valid b \<Longrightarrow> ts_lt a b \<longleftrightarrow> ts_ns a < ts_ns b"
  unfolding ts_valid_def ts_ns_def ts_lt_def by (cases "fst a < fst b"; cases "fst a = fst b") (simp_all, linarith?)

lemma ts_eqI: "ts_valid a \<Longrightarrow> ts_valid b \<Longrightarrow> ts_ns a = ts_ns b \<Longrightarrow> a = b"
proof -
  assume v: "ts_valid a" "ts_valid b" "ts_ns a = ts_ns b"
  then have "\<not> ts_lt a b" "\<not> ts_lt b a" by (simp_all add: ts_lt_ns)
  then show ?thesis by (auto simp: ts_lt_def prod_eq_iff split: if_splits)
qed

subsection \<open>Catching up\<close>

text \<open>The loop ends whatever the times are.\<close>

lemma catch_up_ends:
  assumes "0 < iv" "snd next \<le> B" "1000000000 \<le> B"
  shows "\<exists>r. timer_catch_up iv now next c = Some r \<and> ts_lt now (fst r)"
  using assms(2)
proof (induction "nat (fst now * 1000000000 + B + 1 - ts_ns next)" arbitrary: "next" c rule: less_induct)
  case less
  let ?n = "ts_add_ns next iv"
  define m where "m = iv mod 1000000000"
  have "0 \<le> m" "m < 1000000000" by (simp_all add: m_def)
  then have b: "snd ?n \<le> B" using less.prems assms(3) unfolding ts_add_ns_eq [OF less_imp_le [OF assms(1)]] m_def [symmetric]
    by (simp split: if_split)
  have n: "ts_ns ?n = ts_ns next + iv" using ts_add_ns_ns assms(1) by simp
  show ?case
  proof (cases "ts_lt now ?n")
    case True
    then show ?thesis by (simp add: timer_catch_up.simps)
  next
    case False
    then have "fst ?n \<le> fst now" by (auto simp: ts_lt_def split: if_splits)
    then have "ts_ns ?n \<le> fst now * 1000000000 + B" using b by (simp add: ts_ns_def)
    then have "nat (fst now * 1000000000 + B + 1 - ts_ns ?n) < nat (fst now * 1000000000 + B + 1 - ts_ns next)"
      using n assms(1) by simp
    from less.hyps [OF this b] False show ?thesis by (subst timer_catch_up.simps) simp
  qed
qed

lemma catch_up_returns: "0 < iv \<Longrightarrow> \<exists>r. timer_catch_up iv now next c = Some r \<and> ts_lt now (fst r)"
  using catch_up_ends [of iv "next" "max (snd next) 1000000000"] by simp

text \<open>On proper times it counts the periods.\<close>

lemma catch_up_counts:
  assumes iv: "0 < iv" and v: "ts_valid now"
  shows "ts_valid next \<Longrightarrow> d = (ts_ns now - ts_ns next) div iv \<Longrightarrow> 0 \<le> d \<Longrightarrow> 
    \<exists>r. timer_catch_up iv now next c = Some (r, c + word_of_int d) \<and> ts_valid r \<and> ts_ns r = ts_ns next + (d + 1) * iv"
proof (induction "nat d" arbitrary: "next" c d)
  case 0
  let ?n = "ts_add_ns next iv"
  have n: "ts_ns ?n = ts_ns next + iv" "ts_valid ?n" using ts_add_ns_ns ts_add_ns_valid 0 iv by simp_all
  have d: "d = 0" using 0 by simp
  then have "ts_ns now - ts_ns next < iv" using 0(3) pos_imp_zdiv_pos_iff [OF iv, of "ts_ns now - ts_ns next"] by simp
  then have "ts_lt now ?n" using n v by (simp add: ts_lt_ns)
  then show ?case using n d by (simp add: timer_catch_up.simps)
next
  case (Suc m)
  let ?n = "ts_add_ns next iv"
  have n: "ts_ns ?n = ts_ns next + iv" "ts_valid ?n" using ts_add_ns_ns ts_add_ns_valid Suc.prems iv by simp_all
  have d: "d - 1 = (ts_ns now - ts_ns ?n) div iv"
    using Suc.prems(2) div_add_self2 [of iv "ts_ns now - ts_ns ?n"] n(1) iv by simp
  have "1 \<le> d" using Suc.hyps(2) by simp
  then have "0 < (ts_ns now - ts_ns next) div iv" using Suc.prems(2) by simp
  then have "iv \<le> ts_ns now - ts_ns next" using pos_imp_zdiv_pos_iff [OF iv] by blast
  then have "\<not> ts_lt now ?n" using n v by (simp add: ts_lt_ns)
  moreover obtain r where "timer_catch_up iv now ?n (c + 1) = Some (r, c + 1 + word_of_int (d - 1))" "ts_valid r"
      "ts_ns r = ts_ns ?n + d * iv"
    using Suc.hyps(1) [OF _ n(2) d, of "c + 1"] Suc.hyps(2) \<open>1 \<le> d\<close> by force
  moreover have "c + 1 + word_of_int (d - 1) = c + word_of_int d" by (simp add: of_int_diff)
  ultimately show ?case using n(1) by (subst timer_catch_up.simps) (auto simp: algebra_simps)
qed

subsection \<open>Firing\<close>

definition fires_once :: "posix_timer \<Rightarrow> bool" where
  "fires_once x \<longleftrightarrow> pt_oneshot x \<or> pt_absolute x \<or> pt_interval_ns x = 0"

definition timer_spent :: "timespec \<Rightarrow> posix_timer \<Rightarrow> posix_timer" where
  "timer_spent now x =
     x\<lparr>pt_next := (fst now + 1000000000, 0), pt_in_tree := False, pt_fire_count := pt_fire_count x + 1\<rparr>"

lemma timer_fire_eq:
  assumes x: "ptimers w t = Some x" "pt_in_tree x"
  shows "fires_once x \<Longrightarrow> timer_fire now t x w = Some (timers_to ((ptimers w)(t \<mapsto> timer_spent now x)) (removeAll t (kq_timers w)) w)"
    and "\<not> fires_once x \<Longrightarrow> timer_catch_up (pt_interval_ns x) now (pt_next x) (pt_fire_count x + 1) = Some (n, c) \<Longrightarrow>
      timer_fire now t x w = Some (timers_to ((ptimers w)(t \<mapsto> x\<lparr>pt_next := n, pt_fire_count := c\<rparr>))
        (timer_insert ((ptimers w)(t \<mapsto> x\<lparr>pt_next := n, pt_fire_count := c, pt_in_tree := False\<rparr>)) t (removeAll t (kq_timers w))) w)"
  using x
  by (simp_all add: timer_fire_def fires_once_def timer_unlink_def timer_link_def upd_timer_def timers_to_def timer_spent_def Let_def)
    (cases x; simp)+

text \<open>One round of the loop: the timer leaves the tree or moves past \<open>now\<close>.\<close>

lemma timer_fire_step:
  assumes inv: "posix_inv w" and x: "ptimers w t = Some x" and in_tree: "t \<in> set (kq_timers w)"
  shows "\<exists>h tr. timer_fire now t x w = Some (timers_to h tr w) \<and> tinv (tview w) h tr (next_addr w) \<and>
    (\<forall>u. u \<noteq> t \<longrightarrow> h u = ptimers w u) \<and> set tr \<subseteq> set (kq_timers w) \<and>
    (t \<in> set tr \<longrightarrow> (\<exists>y. h t = Some y \<and> ts_lt now (pt_next y)))"
proof -
  note ti = posix_tinv [OF inv]
  have it: "pt_in_tree x" "0 \<le> pt_interval_ns x" using ti x in_tree unfolding tinv_def by auto
  show ?thesis
  proof (cases "fires_once x")
    case True
    have "tinv (tview w) ((ptimers w)(t \<mapsto> timer_spent now x)) (removeAll t (kq_timers w)) (next_addr w)"
      by (rule tinv_unlink [OF ti x]) (simp_all add: timer_spent_def)
    then show ?thesis using timer_fire_eq(1) [OF x it(1) True, of now]
      by (intro exI [of _ "(ptimers w)(t \<mapsto> timer_spent now x)"] exI [of _ "removeAll t (kq_timers w)"]) auto
  next
    case False
    then have iv: "0 < pt_interval_ns x" using it(2) by (auto simp: fires_once_def)
    obtain n c where nc: "timer_catch_up (pt_interval_ns x) now (pt_next x) (pt_fire_count x + 1) = Some (n, c)" "ts_lt now n"
      using catch_up_returns [OF iv] by (metis fst_conv surj_pair)
    define y where "y = x\<lparr>pt_next := n, pt_fire_count := c\<rparr>"
    define h0 where "h0 = (ptimers w)(t \<mapsto> y\<lparr>pt_in_tree := False\<rparr>)"
    let ?tr = "timer_insert h0 t (removeAll t (kq_timers w))"
    have t0: "tinv (tview w) h0 (removeAll t (kq_timers w)) (next_addr w)" unfolding h0_def
      by (rule tinv_unlink [OF ti x]) (simp_all add: y_def)
    have "tinv (tview w) (h0(t \<mapsto> y)) ?tr (next_addr w)"
      by (rule tinv_link [OF t0, of t "y\<lparr>pt_in_tree := False\<rparr>"]) (simp_all add: h0_def y_def it(1))
    then have t1: "tinv (tview w) ((ptimers w)(t \<mapsto> y)) ?tr (next_addr w)" by (simp add: h0_def)
    have s: "set ?tr = insert t (set (removeAll t (kq_timers w)))"
      by (rule timer_insert_set) (use t0 in \<open>auto simp: h0_def tinv_def\<close>)
    have "timer_fire now t x w = Some (timers_to ((ptimers w)(t \<mapsto> y)) ?tr w)"
      using timer_fire_eq(2) [OF x it(1) False nc(1)] by (simp add: y_def h0_def)
    then show ?thesis using t1 s nc(2) in_tree
      by (intro exI [of _ "(ptimers w)(t \<mapsto> y)"] exI [of _ ?tr]) (auto simp: y_def)
  qed
qed

text \<open>The timers in the tree that are due.\<close>

definition due :: "timespec \<Rightarrow> ('o, 'z) pw \<Rightarrow> addr set" where
  "due now w = {t \<in> set (kq_timers w). \<exists>x. ptimers w t = Some x \<and> \<not> ts_lt now (pt_next x)}"

lemma timer_check_loop_ends:
  "posix_inv w \<Longrightarrow> \<exists>w'. timer_check_loop now w = Some w' \<and> pok fi kn r w w'"
proof (induction "card (due now w)" arbitrary: w rule: less_induct)
  case less
  show ?case
  proof (cases "kq_timers w")
    case Nil
    then show ?thesis using pok_start [OF less.prems] by (simp add: timer_check_loop.simps)
  next
    case (Cons t ts)
    then obtain x where x: "ptimers w t = Some x" using posix_tinv [OF less.prems] unfolding tinv_def by fastforce
    show ?thesis
    proof (cases "ts_lt now (pt_next x)")
      case True
      then show ?thesis using Cons x pok_start [OF less.prems] by (simp add: timer_check_loop.simps)
    next
      case False
      obtain h tr where f: "timer_fire now t x w = Some (timers_to h tr w)" "tinv (tview w) h tr (next_addr w)"
          "\<forall>u. u \<noteq> t \<longrightarrow> h u = ptimers w u" "set tr \<subseteq> set (kq_timers w)" "t \<in> set tr \<longrightarrow> (\<exists>y. h t = Some y \<and> ts_lt now (pt_next y))"
        using timer_fire_step [OF less.prems x, of now] Cons by auto
      let ?w1 = "timers_to h tr w"
      have p: "pok fi kn r w ?w1" by (rule timers_to_ok [OF less.prems f(2)])
      have "due now ?w1 \<subseteq> due now w - {t}" using f(3-5) by (auto simp: due_def timers_to_def) (metis option.inject)+
      moreover have "t \<in> due now w" using Cons x False by (simp add: due_def)
      moreover have "finite (due now w)" by (simp add: due_def)
      ultimately have "card (due now ?w1) < card (due now w)" by (intro psubset_card_mono) auto
      from less.hyps [OF this] p obtain w' where "timer_check_loop now ?w1 = Some w'" "pok fi kn r ?w1 w'"
        by (auto simp: pok_def)
      then show ?thesis using Cons x False f(1) pok_trans [OF p] by (subst timer_check_loop.simps) auto
    qed
  qed
qed

lemma posix_timer_check_ok: "posix_inv w \<Longrightarrow> \<exists>w'. posix_timer_check K w = Some w' \<and> pok fi kn r w w'"
proof -
  assume inv: "posix_inv w"
  obtain w1 now where c: "clock_monotonic K w = (w1, now)" by (cases "clock_monotonic K w")
  have q: "pq w w1" using pq_calls(5) [of w K] c by simp
  have "posix_inv w1" using pq_inv [OF q] inv by simp
  then show ?thesis
    using timer_check_loop_ends [of w1 now fi kn r] pok_trans [OF pq_pok [OF inv q]] c pok_start [OF inv] by (auto simp: posix_timer_check_def)
qed

subsection \<open>An ordered tree\<close>

definition tree_sorted :: "(addr \<Rightarrow> posix_timer option) \<Rightarrow> addr list \<Rightarrow> bool" where
  "tree_sorted h tr \<longleftrightarrow> sorted_wrt (\<lambda>a b. posix_timer_cmp h a b < 0) tr"

lemma ts_lt_trans: "ts_lt a b \<Longrightarrow> ts_lt b c \<Longrightarrow> ts_lt a c"
  by (auto simp: ts_lt_def split: if_splits)

lemma ts_lt_asym: "ts_lt a b \<Longrightarrow> \<not> ts_lt b a"
  by (auto simp: ts_lt_def split: if_splits)

lemma ts_lt_total: "\<not> ts_lt a b \<Longrightarrow> \<not> ts_lt b a \<Longrightarrow> a = b"
  by (auto simp: ts_lt_def prod_eq_iff split: if_splits)

lemma cmp_iff:
  assumes "h a = Some x" "h b = Some y"
  shows "posix_timer_cmp h a b < 0 \<longleftrightarrow> ts_lt (pt_next x) (pt_next y) \<or> pt_next x = pt_next y \<and> a < b"
    and "0 < posix_timer_cmp h a b \<longleftrightarrow> ts_lt (pt_next y) (pt_next x) \<or> pt_next x = pt_next y \<and> b < a"
  using assms ts_lt_asym [of "pt_next x" "pt_next y"] ts_lt_total [of "pt_next x" "pt_next y"] ts_lt_asym [of "pt_next x" "pt_next x"]
  by (auto simp: posix_timer_cmp_def)

lemma cmp_trans:
  assumes "h a = Some x" "h b = Some y" "h c = Some z" "posix_timer_cmp h a b < 0" "posix_timer_cmp h b c < 0"
  shows "posix_timer_cmp h a c < 0"
  using assms(4,5) unfolding cmp_iff(1) [OF assms(1,2)] cmp_iff(1) [OF assms(2,3)] cmp_iff(1) [OF assms(1,3)]
  using ts_lt_trans [of "pt_next x" "pt_next y" "pt_next z"] by auto

lemma timers_to_inject: "timers_to h tr w = timers_to h' tr' w \<Longrightarrow> h = h' \<and> tr = tr'"
  by (metis pworld.select_convs(11,12) pworld.surjective pworld.update_convs(11,12) timers_to_def)

lemma timer_insert_sorted:
  assumes "h t = Some x" "\<forall>u \<in> set tr. h u \<noteq> None" "tree_sorted h tr"
  shows "tree_sorted h (timer_insert h t tr)"
  using assms(2,3)
proof (induction tr)
  case (Cons u us)
  obtain y where y: "h u = Some y" using Cons.prems(1) by auto
  have s: "sorted_wrt (\<lambda>a b. posix_timer_cmp h a b < 0) us" "\<forall>v \<in> set us. posix_timer_cmp h u v < 0"
    using Cons.prems(2) by (simp_all add: tree_sorted_def)
  have all: "\<forall>v \<in> set us. posix_timer_cmp h t v < 0" if lt: "posix_timer_cmp h t u < 0"
    using s(2) Cons.prems(1) cmp_trans [OF assms(1) y _ lt] by fastforce
  have "posix_timer_cmp h u v < 0" if gt: "0 < posix_timer_cmp h t u" and v: "v \<in> set (timer_insert h t us)" for v
  proof (cases "v = t")
    case True
    then show ?thesis using gt cmp_iff [OF assms(1) y] cmp_iff(1) [OF y assms(1)] by auto
  next
    case False
    have "set (timer_insert h t us) \<subseteq> insert t (set us)" by (induction us) auto
    then show ?thesis using v False s(2) by blast
  qed
  then show ?case using s all Cons.IH Cons.prems(1) by (auto simp: tree_sorted_def)
qed (simp add: tree_sorted_def)

lemma tree_sorted_cong:
  "tree_sorted h tr \<Longrightarrow> (\<And>u. u \<in> set tr \<Longrightarrow> h' u = h u) \<Longrightarrow> tree_sorted h' tr"
  unfolding tree_sorted_def by (rule sorted_wrt_mono_rel [of tr]) (auto simp: posix_timer_cmp_def)

lemma tree_sorted_remove: "tree_sorted h tr \<Longrightarrow> tree_sorted h (removeAll t tr)"
  unfolding tree_sorted_def by (induction tr) auto

subsection \<open>What a check does\<close>

text \<open>A timer after it has fired at \<open>now\<close>: one that fires once leaves the tree; a periodic
  one has counted the periods that have passed, and is set to the first deadline after
  \<open>now\<close>.\<close>

definition ts_of :: "int \<Rightarrow> timespec" where
  "ts_of n = (n div 1000000000, n mod 1000000000)"

definition timer_fired :: "timespec \<Rightarrow> posix_timer \<Rightarrow> posix_timer" where
  "timer_fired now x =
     (if fires_once x then timer_spent now x
      else
        let d = (ts_ns now - ts_ns (pt_next x)) div pt_interval_ns x
        in x\<lparr>pt_next := ts_of (ts_ns (pt_next x) + (d + 1) * pt_interval_ns x),
             pt_fire_count := pt_fire_count x + 1 + word_of_int d\<rparr>)"

definition timer_due :: "timespec \<Rightarrow> posix_timer \<Rightarrow> bool" where
  "timer_due now x \<longleftrightarrow> pt_in_tree x \<and> ts_ns (pt_next x) \<le> ts_ns now"

definition timers_checked :: "timespec \<Rightarrow> (addr \<Rightarrow> posix_timer option) \<Rightarrow> addr \<Rightarrow> posix_timer option" where
  "timers_checked now h t = map_option (\<lambda>x. if timer_due now x then timer_fired now x else x) (h t)"

text \<open>The states in which the tree is in order and holds proper times.\<close>

definition timers_ok :: "('o, 'z) pw \<Rightarrow> bool" where
  "timers_ok w \<longleftrightarrow> posix_inv w \<and> tree_sorted (ptimers w) (kq_timers w) \<and>
     (\<forall>t x. ptimers w t = Some x \<and> pt_in_tree x \<longrightarrow> ts_valid (pt_next x))"

lemma ts_of: "ts_valid (ts_of n)" "ts_ns (ts_of n) = n"
  by (simp_all add: ts_of_def ts_valid_def ts_ns_def)

lemma catch_up_fired:
  assumes p: "\<not> fires_once x" and iv: "0 < pt_interval_ns x" and v: "ts_valid now" "ts_valid (pt_next x)"
    and le: "ts_ns (pt_next x) \<le> ts_ns now"
  shows "\<exists>r c. timer_catch_up (pt_interval_ns x) now (pt_next x) (pt_fire_count x + 1) = Some (r, c) \<and>
    timer_fired now x = x\<lparr>pt_next := r, pt_fire_count := c\<rparr> \<and> ts_valid r \<and> ts_ns now < ts_ns r"
proof -
  let ?d = "(ts_ns now - ts_ns (pt_next x)) div pt_interval_ns x"
  have d0: "0 \<le> ?d" using le iv by (simp add: pos_imp_zdiv_nonneg_iff)
  obtain r where r: "timer_catch_up (pt_interval_ns x) now (pt_next x) (pt_fire_count x + 1) = Some (r, pt_fire_count x + 1 + word_of_int ?d)"
      "ts_valid r" "ts_ns r = ts_ns (pt_next x) + (?d + 1) * pt_interval_ns x"
    using catch_up_counts [OF iv v(1) v(2) refl d0] by blast
  have rr: "r = ts_of (ts_ns (pt_next x) + (?d + 1) * pt_interval_ns x)" using ts_eqI [OF r(2) ts_of(1)] ts_of(2) r(3) by simp
  have "ts_ns now < ts_ns r"
    using catch_up_returns [OF iv, of now "pt_next x" "pt_fire_count x + 1"] r(1) ts_lt_ns [OF v(1) r(2)] by auto
  moreover have "timer_fired now x = x\<lparr>pt_next := r, pt_fire_count := pt_fire_count x + 1 + word_of_int ?d\<rparr>"
    using p by (simp add: timer_fired_def rr Let_def)
  ultimately show ?thesis using r(1,2) by blast
qed

lemma timer_fire_exact:
  assumes ok: "timers_ok w" and v: "ts_valid now" and x: "ptimers w t = Some x" and it: "t \<in> set (kq_timers w)"
    and d: "\<not> ts_lt now (pt_next x)"
  shows "\<exists>w1 tr. timer_fire now t x w = Some w1 \<and> w1 = timers_to ((ptimers w)(t \<mapsto> timer_fired now x)) tr w \<and> timers_ok w1 \<and>
    set tr \<subseteq> set (kq_timers w) \<and> timer_due now x \<and> \<not> timer_due now (timer_fired now x)"
proof -
  have inv: "posix_inv w" and srt: "tree_sorted (ptimers w) (kq_timers w)"
    and val: "\<And>t x. ptimers w t = Some x \<Longrightarrow> pt_in_tree x \<Longrightarrow> ts_valid (pt_next x)" using ok unfolding timers_ok_def by blast+
  obtain h tr where f: "timer_fire now t x w = Some (timers_to h tr w)" "tinv (tview w) h tr (next_addr w)" "set tr \<subseteq> set (kq_timers w)"
    using timer_fire_step [OF inv x it, of now] by blast
  have ix: "pt_in_tree x" "0 \<le> pt_interval_ns x" using posix_tinv [OF inv] x it unfolding tinv_def by auto
  have vx: "ts_valid (pt_next x)" using val [OF x ix(1)] .
  have le: "ts_ns (pt_next x) \<le> ts_ns now" using d ts_lt_ns [OF v vx] by simp
  have i1: "posix_inv (timers_to h tr w)" using timers_to_ok [OF inv f(2), of 0 0 False] by (simp add: pok_def)
  let ?h = "(ptimers w)(t \<mapsto> timer_fired now x)" and ?rm = "removeAll t (kq_timers w)"
  have t1: "h = ?h \<and> tree_sorted ?h tr \<and>
      (pt_in_tree (timer_fired now x) \<longrightarrow> ts_valid (pt_next (timer_fired now x)) \<and> ts_ns now < ts_ns (pt_next (timer_fired now x)))"
  proof (cases "fires_once x")
    case True
    have "tree_sorted ?h ?rm" by (rule tree_sorted_cong [OF tree_sorted_remove [OF srt]]) auto
    moreover have fx: "timer_fired now x = timer_spent now x" using True by (simp add: timer_fired_def)
    moreover have "h = ?h \<and> tr = ?rm" using timer_fire_eq(1) [OF x ix(1) True, of now] f(1) timers_to_inject unfolding fx by fastforce
    ultimately show ?thesis by (simp add: timer_spent_def)
  next
    case False
    have iv: "0 < pt_interval_ns x" using False ix(2) by (auto simp: fires_once_def)
    obtain r c where r: "timer_catch_up (pt_interval_ns x) now (pt_next x) (pt_fire_count x + 1) = Some (r, c)"
        and fx: "timer_fired now x = x\<lparr>pt_next := r, pt_fire_count := c\<rparr>" and rv: "ts_valid r" "ts_ns now < ts_ns r"
      using catch_up_fired [OF False iv v vx le] by blast
    define h0 where "h0 = (ptimers w)(t \<mapsto> (timer_fired now x)\<lparr>pt_in_tree := False\<rparr>)"
    have "timer_fire now t x w = Some (timers_to ?h (timer_insert h0 t ?rm) w)"
      using timer_fire_eq(2) [OF x ix(1) False r] by (simp add: h0_def fx)
    then have "timers_to h tr w = timers_to ?h (timer_insert h0 t ?rm) w" using f(1) by simp
    from timers_to_inject [OF this] have e: "h = ?h" "tr = timer_insert h0 t ?rm" by blast+
    have "tree_sorted h0 tr" unfolding e(2)
      by (rule timer_insert_sorted [OF _ _ tree_sorted_cong [OF tree_sorted_remove [OF srt]]])
        (use posix_tinv [OF inv] in \<open>auto simp: tinv_def h0_def\<close>)
    moreover have "posix_timer_cmp ?h = posix_timer_cmp h0"
      by (rule ext, rule ext) (simp add: posix_timer_cmp_def h0_def split: option.split)
    ultimately have "tree_sorted ?h tr" by (simp add: tree_sorted_def)
    then show ?thesis using e(1) rv by (simp add: fx)
  qed
  have "timers_ok (timers_to ?h tr w)"
    using i1 t1 val unfolding timers_ok_def by (auto simp: timers_to_def split: if_splits)
  then show ?thesis using f t1 ix(1) le by (intro exI [of _ "timers_to h tr w"] exI [of _ tr]) (auto simp: timer_due_def)
qed

lemma due_iff:
  assumes "timers_ok w" "ts_valid now" "ptimers w t = Some x"
  shows "t \<in> due now w \<longleftrightarrow> timer_due now x"
proof -
  have "pt_in_tree x \<longleftrightarrow> t \<in> set (kq_timers w)" using assms(1,3) unfolding timers_ok_def posix_inv_def tinv_def by blast
  moreover have "pt_in_tree x \<Longrightarrow> ts_lt now (pt_next x) \<longleftrightarrow> ts_ns now < ts_ns (pt_next x)"
    using ts_lt_ns [OF assms(2)] assms(1,3) unfolding timers_ok_def by blast
  ultimately show ?thesis using assms(3) by (auto simp: due_def timer_due_def)
qed

lemma head_first:
  assumes ok: "timers_ok w" and tr: "kq_timers w = t # ts" and x: "ptimers w t = Some x"
    and y: "ptimers w u = Some y" "pt_in_tree y"
  shows "ts_ns (pt_next x) \<le> ts_ns (pt_next y)"
proof -
  have ti: "tinv (tview w) (ptimers w) (kq_timers w) (next_addr w)" and srt: "tree_sorted (ptimers w) (kq_timers w)"
    and val: "\<And>t x. ptimers w t = Some x \<Longrightarrow> pt_in_tree x \<Longrightarrow> ts_valid (pt_next x)"
    using ok unfolding timers_ok_def posix_inv_def by blast+
  have "pt_in_tree x" using ti x tr unfolding tinv_def by fastforce
  note lt = ts_lt_ns [OF val [OF x this] val [OF y]]
  have "u \<in> set (kq_timers w)" using ti y unfolding tinv_def by blast
  then have "u = t \<or> posix_timer_cmp (ptimers w) t u < 0" using srt tr by (auto simp: tree_sorted_def)
  then show ?thesis using x y(1) cmp_iff(1) [of "ptimers w", OF x y(1)] lt by auto
qed

lemma timer_check_loop_exact:
  assumes "timers_ok w" "ts_valid now"
  shows "\<exists>w'. timer_check_loop now w = Some w' \<and> ptimers w' = timers_checked now (ptimers w) \<and> timers_ok w' \<and>
    (\<forall>t x. ptimers w' t = Some x \<longrightarrow> \<not> timer_due now x)"
  using assms(1)
proof (induction "card (due now w)" arbitrary: w rule: less_induct)
  case less
  have inv: "posix_inv w" and srt: "tree_sorted (ptimers w) (kq_timers w)"
    and val: "\<And>t x. ptimers w t = Some x \<Longrightarrow> pt_in_tree x \<Longrightarrow> ts_valid (pt_next x)" using less.prems unfolding timers_ok_def by blast+
  note ti = posix_tinv [OF inv]
  have stop: ?case if none: "\<And>u y. ptimers w u = Some y \<Longrightarrow> \<not> timer_due now y" and run: "timer_check_loop now w = Some w"
  proof -
    have "timers_checked now (ptimers w) u = ptimers w u" for u using none by (cases "ptimers w u") (auto simp: timers_checked_def)
    then show ?thesis using none run less.prems by auto
  qed
  show ?case
  proof (cases "kq_timers w")
    case Nil
    then show ?thesis using stop ti by (simp add: timer_check_loop.simps timer_due_def tinv_def)
  next
    case (Cons t ts)
    then have it: "t \<in> set (kq_timers w)" by simp
    then obtain x where x: "ptimers w t = Some x" using ti unfolding tinv_def by fastforce
    have vx: "ts_valid (pt_next x)" using val [OF x] ti x it unfolding tinv_def by blast
    show ?thesis
    proof (cases "ts_lt now (pt_next x)")
      case True
      have "\<not> timer_due now y" if y: "ptimers w u = Some y" for u y
        using head_first [OF less.prems Cons x y] True ts_lt_ns [OF assms(2) vx] by (auto simp: timer_due_def)
      then show ?thesis using stop True Cons x by (simp add: timer_check_loop.simps)
    next
      case False
      obtain w1 tr where f: "timer_fire now t x w = Some w1" "w1 = timers_to ((ptimers w)(t \<mapsto> timer_fired now x)) tr w" "timers_ok w1"
          "set tr \<subseteq> set (kq_timers w)" "timer_due now x" "\<not> timer_due now (timer_fired now x)"
        using timer_fire_exact [OF less.prems assms(2) x it False] by blast
      have h1: "ptimers w1 = (ptimers w)(t \<mapsto> timer_fired now x)" "kq_timers w1 = tr" using f(2) by (simp_all add: timers_to_def)
      have "t \<notin> due now w1" using due_iff [OF f(3) assms(2), of t "timer_fired now x"] f(6) h1 by simp
      then have "due now w1 \<subseteq> due now w - {t}" using f(4) h1 by (auto simp: due_def)
      moreover have "t \<in> due now w" "finite (due now w)" using it x False by (simp_all add: due_def)
      ultimately have "card (due now w1) < card (due now w)" by (intro psubset_card_mono) auto
      from less.hyps [OF this f(3)] obtain w' where w': "timer_check_loop now w1 = Some w'" "ptimers w' = timers_checked now (ptimers w1)"
          "timers_ok w'" "\<forall>t x. ptimers w' t = Some x \<longrightarrow> \<not> timer_due now x" by blast
      moreover have "timers_checked now (ptimers w1) = timers_checked now (ptimers w)"
        using h1 x f(5,6) by (auto simp: timers_checked_def fun_eq_iff)
      moreover have "timer_check_loop now w = Some w'" using Cons x False f(1) w'(1) by (subst timer_check_loop.simps) simp
      ultimately show ?thesis by auto
    qed
  qed
qed

text \<open>C12: the timers of the POSIX backend.  On a deadline tree that is in order and for a
  proper clock, the check returns; every timer in the tree whose deadline has passed has
  fired once, or as often as periods have passed when it is periodic (its count grows by
  that number, modulo the width of the counter, and its next deadline is the first one
  after the present); no other timer changes; no timer is due any more, and the tree is
  in order again.\<close>

theorem posix_timer_check_exact:
  assumes "timers_ok w" "kq_timers w \<noteq> []" "pk_monotonic K (pos w) = (s, now)" "ts_valid now"
  shows "\<exists>w'. posix_timer_check K w = Some w' \<and> ptimers w' = timers_checked now (ptimers w) \<and> timers_ok w' \<and>
    (\<forall>t x. ptimers w' t = Some x \<longrightarrow> \<not> timer_due now x)"
proof -
  let ?w = "w\<lparr>pos := s\<rparr>"
  have "pq w ?w" by (simp add: pq_def)
  then have "timers_ok ?w" using assms(1) pq_inv by (auto simp: timers_ok_def)
  from timer_check_loop_exact [OF this assms(4)] show ?thesis
    using assms(2,3) by (simp add: posix_timer_check_def clock_monotonic_def)
qed

end
