(* ===== verification/Posix_Safe.thy ===== *)
theory Posix_Safe
  imports Posix_Timers
begin

text \<open>
  The POSIX backend does not fault.  A change list keeps the invariants of the common
  code and of the backend; the catch-up of periodic timers ends and counts the periods
  that have passed; the wait is never longer than the caller, the next timer and the
  polled files allow; and a pass over the filters returns, within the room the caller
  gave, as long as no knote of EVFILT_VNODE or EVFILT_TIMER is on a ready list.
\<close>

subsection \<open>States of a kqueue\<close>

text \<open>The filter in a slot is the one the slot is for, and the backend implements it.\<close>

definition ids_ok :: "u16 list \<Rightarrow> bool" where
  "ids_ok ids \<longleftrightarrow> (\<forall>fi < length ids. ids ! fi \<noteq> 0 \<longrightarrow> posix_impl fi \<and> inv_filt (ids ! fi) = int fi)"

definition posix_wf :: "('o, 'z) pw \<Rightarrow> bool" where
  "posix_wf w \<longleftrightarrow> core_wf w \<and> posix_inv w \<and> impl_ok posix_impl (\<lambda>_ _. True) w \<and> ids_ok (slot_ids w)"

text \<open>What the delivery of one knote may change: its own entry of its own index, and no
  other ready list grows.\<close>

definition cstep :: "nat \<Rightarrow> addr \<Rightarrow> ('o, 'z) pw \<Rightarrow> ('o, 'z) pw \<Rightarrow> bool" where
  "cstep fi kn w w' \<longleftrightarrow>
     posix_wf w' \<and> ready_other fi w w' \<and>
     kf_index (filt_at w' fi) \<in> {kf_index (filt_at w fi), idx_remove kn (kf_index (filt_at w fi))}"

lemma posix_wf_frame:
  assumes wf: "posix_wf w" and ok: "pok fi kn r w w'" and ix: "fi < EVFILT_SYSCOUNT" "r \<longrightarrow> kn \<in> linked w fi"
  shows "posix_wf w'" "idx_same w w'" "ready_other fi w w'"
proof -
  have c: "core_wf w" and f: "op_frame fi kn r w w'" and i: "posix_inv w'" using wf ok by (simp_all add: posix_wf_def pok_def)
  have "core_wf w'"
  proof (cases r)
    case True
    then show ?thesis using core_inv_frame_linked [OF c f ix(1)] ix(2) by simp
  next
    case False
    then show ?thesis using core_inv_frame [OF c f] by simp
  qed
  moreover show same: "idx_same w w'" by (rule idx_same_frame [OF c f])
  moreover have "impl_ok posix_impl (\<lambda>_ _. True) w'" using impl_ok_idx_same [OF _ same] wf by (simp add: posix_wf_def)
  ultimately show "posix_wf w'" using i wf by (simp add: posix_wf_def idx_same_def)
  show "ready_other fi w w'" using ready_other_frame [OF _ f] c by (simp add: core_inv_def)
qed

lemma cstep_frame:
  assumes wf: "posix_wf w" and ok: "pok fi kn r w w'" and ix: "fi < EVFILT_SYSCOUNT" "r \<longrightarrow> kn \<in> linked w fi"
  shows "cstep fi kn w w'"
  using posix_wf_frame [OF assms] ix(1) by (simp add: cstep_def idx_same_def)

lemma posix_wf_len: "posix_wf w \<Longrightarrow> fi < EVFILT_SYSCOUNT \<Longrightarrow> fi < length (kq_filt w)"
  by (simp add: posix_wf_def core_inv_def)

lemma posix_wf_linked:
  assumes "posix_wf w" "kn \<in> linked w fi" "fi < EVFILT_SYSCOUNT"
  obtains i k where "(i, kn) \<in> set (kf_index (filt_at w fi))" "knotes w kn = Some k" "inv_filt (kfilter (kev k)) = int fi"
proof -
  obtain i where i: "(i, kn) \<in> set (kf_index (filt_at w fi))" using assms(2) by (auto simp: linked_def)
  then show ?thesis using that core_inv_linked_knote [OF _ assms(3) i, of "{}" "{}"] assms(1) unfolding posix_wf_def by metis
qed

text \<open>The flag actions at the end of a delivery.\<close>

lemma flag_step:
  assumes fc: "filter_contract posix_inv pfree pknote_zero ops fi (\<lambda>_. True)"
    and wf: "posix_wf w" and ok: "pok fi kn True w w1" and kn: "kn \<in> linked w fi"
  shows "\<exists>w' rv. knote_copyout_flag_actions ops fi kn w1 = Some (w', rv) \<and> cstep fi kn w w'"
proof -
  have slot: "fi < EVFILT_SYSCOUNT" using filter_contract.slot [OF fc] .
  note p = posix_wf_frame [OF wf ok slot]
  have wf1: "posix_wf w1" and same: "idx_same w w1" and ro: "ready_other fi w w1" using p kn by blast+
  obtain i where ix: "(i, kn) \<in> set (kf_index (filt_at w1 fi))"
    using kn same slot by (auto simp: linked_def idx_same_def)
  have c1: "core_wf w1" "posix_inv w1" using wf1 by (simp_all add: posix_wf_def)
  obtain w' rv where w': "knote_copyout_flag_actions ops fi kn w1 = Some (w', rv)" "core_wf w'" "posix_inv w'"
      "impl_set w' = impl_set w1" "slot_ids w' = slot_ids w1"
      "kf_index (filt_at w' fi) \<in> {kf_index (filt_at w1 fi), idx_remove kn (kf_index (filt_at w1 fi))}"
      "\<forall>fj < EVFILT_SYSCOUNT. fj \<noteq> fi \<longrightarrow> kf_index (filt_at w' fj) = kf_index (filt_at w1 fj) \<and>
        set (kf_ready (filt_at w' fj)) \<subseteq> set (kf_ready (filt_at w1 fj))"
    using filter_contract.flag_actions_index [OF fc c1 ix TrueI] by blast
  have "set (kf_index (filt_at w' fj)) \<subseteq> set (kf_index (filt_at w1 fj))" if "fj < EVFILT_SYSCOUNT" for fj
    using w'(6,7) that by (cases "fj = fi") (auto simp: idx_remove_def)
  then have "impl_ok posix_impl (\<lambda>_ _. True) w'" using impl_ok_sub [OF _ w'(4,5)] wf1 by (simp add: posix_wf_def)
  then have "posix_wf w'" using w' wf1 by (simp add: posix_wf_def)
  moreover have "ready_other fi w1 w'" using w'(7) by (simp add: ready_other_def)
  ultimately show ?thesis using w'(1,6) ready_other_trans [OF ro] same slot by (auto simp: cstep_def idx_same_def)
qed

subsection \<open>The callbacks that copy out\<close>

definition delivers :: "nat \<Rightarrow> addr \<Rightarrow> ('o, 'z) pw \<Rightarrow> (('o, 'z) pw \<times> int \<times> kevent list) option \<Rightarrow> bool" where
  "delivers fi kn w m \<longleftrightarrow>
     (\<exists>w' rv es. m = Some (w', rv, es) \<and> cstep fi kn w w' \<and> (rv = -1 \<or> rv = int (length es) \<and> length es \<le> 1))"

lemma delivers_flags:
  assumes "filter_contract posix_inv pfree pknote_zero ops fi (\<lambda>_. True)"
    and "posix_wf w" "pok fi kn True w w1" "kn \<in> linked w fi"
  shows "delivers fi kn w (Option.bind (knote_copyout_flag_actions ops fi kn w1)
    (\<lambda>(w', rv). if rv < 0 then Some (w', -1, []) else Some (w', 1, [e])))"
  using flag_step [OF assms] by (auto simp: delivers_def)

lemma delivers_quiet: "posix_wf w \<Longrightarrow> pq w w' \<Longrightarrow> fi < EVFILT_SYSCOUNT \<Longrightarrow> delivers fi kn w (Some (w', 0, []))"
  using cstep_frame [OF _ pq_pok [of w w' fi kn False]] by (auto simp: delivers_def posix_wf_def)

lemmas posix_contracts =
  posix_read_contract [of "posix_read_ops K" K] posix_write_contract [of "posix_write_ops K" K]
  posix_user_contract [of "posix_user_ops K" K] posix_timer_contract [of "posix_timer_ops K" K]
  posix_vnode_contract [of "posix_vnode_ops K" K] for K

lemmas posix_ops_defs = posix_read_ops_def posix_write_ops_def posix_user_ops_def posix_timer_ops_def posix_vnode_ops_def

lemma read_emit_ok:
  assumes wf: "posix_wf w" and kn: "kn \<in> linked w 0" and q: "pq w w1"
  shows "delivers 0 kn w (read_emit K kn e w1)"
proof -
  have s: "(0::nat) < EVFILT_SYSCOUNT" by (simp add: EVFILT_SYSCOUNT_def)
  obtain k where k: "knotes w kn = Some k" "inv_filt (kfilter (kev k)) = 0" using posix_wf_linked [OF wf kn s] by auto
  have inv: "posix_inv w" using wf by (simp add: posix_wf_def)
  have 1: "knotes w1 kn = Some k" "posix_inv w1" "0 < length (kq_filt w1)"
    using k(1) q pq_inv [OF q] inv posix_wf_len [OF wf s] by (auto simp: pq_def)
  obtain w2 where w2: "posix_read_disarm kn w1 = Some w2" "pok 0 kn True w1 w2" using read_disarm_ok [OF 1(2,1) k(2) 1(3)] by blast
  have p: "pok 0 kn True w w1" "pok 0 kn True w w2" using pq_pok [OF inv q] pok_trans [OF pq_pok [OF inv q] w2(2)] .
  have fc: "filter_contract posix_inv pfree pknote_zero (posix_read_ops K) 0 (\<lambda>_. True)"
    by (rule posix_contracts(1)) (simp_all add: posix_read_ops_def)
  show ?thesis
    using delivers_flags [OF fc wf p(1) kn, of e] delivers_flags [OF fc wf p(2) kn, of e] 1(1) w2(1)
    by (simp add: read_emit_def)
qed

lemma read_sizes_pq: "pq w (fst (file_remaining K fd w))" "pq w (fst (read_queued K k e w))"
proof -
  obtain w1 rv sb where 1: "pcall_val (pk_fstat K fd) w = (w1, rv, sb)" by (cases "pcall_val (pk_fstat K fd) w") auto
  obtain w2 pos where 2: "pcall (pk_lseek_cur K fd) w1 = (w2, pos)" by (cases "pcall (pk_lseek_cur K fd) w1") auto
  show "pq w (fst (file_remaining K fd w))" using 1 2 pq_trans [OF pq_pcall_val [OF 1] pq_pcall [OF 2]] by (simp add: file_remaining_def)
  obtain w3 r3 n where 3: "pcall_val (pk_fionread K (posix_fd k)) w = (w3, r3, n)" by (cases "pcall_val (pk_fionread K (posix_fd k)) w") auto
  obtain w4 r4 n4 where 4: "pcall_val (pk_so_error K (posix_fd k)) w3 = (w4, r4, n4)"
    by (cases "pcall_val (pk_so_error K (posix_fd k)) w3") auto
  show "pq w (fst (read_queued K k e w))"
    using 3 4 pq_pcall_val [OF 3] pq_trans [OF pq_pcall_val [OF 3] pq_pcall_val [OF 4]] by (simp add: read_queued_def Let_def)
qed

lemma posix_read_copyout_ok:
  assumes wf: "posix_wf w" and kn: "kn \<in> linked w 0"
  shows "delivers 0 kn w (posix_read_copyout K n (Some kn) ev w)"
proof -
  have s: "(0::nat) < EVFILT_SYSCOUNT" by (simp add: EVFILT_SYSCOUNT_def)
  obtain k where k: "knotes w kn = Some k" using posix_wf_linked [OF wf kn s] by metis
  obtain w1 left where 1: "file_remaining K (posix_fd k) w = (w1, left)" by (cases "file_remaining K (posix_fd k) w")
  obtain w2 e where 2: "read_queued K k (kev k) w = (w2, e)" by (cases "read_queued K k (kev k) w")
  have q: "pq w w1" "pq w w2" using read_sizes_pq(1) [of w K "posix_fd k"] read_sizes_pq(2) [of w K k "kev k"] 1 2 by simp_all
  show ?thesis
    using k 1 2 read_emit_ok [OF wf kn q(1)] read_emit_ok [OF wf kn q(2)] read_emit_ok [OF wf kn pq_refl] delivers_quiet [OF wf q(1) s]
    by (simp add: posix_read_copyout_def)
qed

lemma posix_write_copyout_ok:
  assumes wf: "posix_wf w" and kn: "kn \<in> linked w 1"
  shows "delivers 1 kn w (posix_write_copyout K n (Some kn) ev w)"
proof -
  have s: "(1::nat) < EVFILT_SYSCOUNT" by (simp add: EVFILT_SYSCOUNT_def)
  obtain k where k: "knotes w kn = Some k" using posix_wf_linked [OF wf kn s] by metis
  have inv: "posix_inv w" using wf by (simp add: posix_wf_def)
  obtain w1 where w1: "posix_write_disarm kn w = Some w1" "pq w w1" using write_disarm_ok [OF k] by blast
  have fc: "filter_contract posix_inv pfree pknote_zero (posix_write_ops K) 1 (\<lambda>_. True)"
    by (rule posix_contracts(2)) (simp_all add: posix_write_ops_def)
  show ?thesis
    using k w1(1) delivers_flags [OF fc wf pq_pok [OF inv w1(2)] kn] delivers_flags [OF fc wf pok_start [OF inv] kn]
    by (simp add: posix_write_copyout_def)
qed

lemma posix_timer_one_ok:
  assumes wf: "posix_wf w" and kn: "kn \<in> linked w 6"
  shows "delivers 6 kn w (posix_timer_copyout_one K kn w)"
proof -
  have s: "(6::nat) < EVFILT_SYSCOUNT" by (simp add: EVFILT_SYSCOUNT_def)
  obtain k where k: "knotes w kn = Some k" using posix_wf_linked [OF wf kn s] by metis
  have inv: "posix_inv w" using wf by (simp add: posix_wf_def)
  have fc: "filter_contract posix_inv pfree pknote_zero (posix_timer_ops K) 6 (\<lambda>_. True)"
    by (rule posix_contracts(4)) (simp_all add: posix_timer_ops_def)
  note quiet = delivers_quiet [OF wf pq_refl s]
  show ?thesis
  proof (cases "kn_timer k")
    case None
    then show ?thesis using k quiet by (simp add: posix_timer_copyout_one_def)
  next
    case (Some t)
    then have "tview w kn = Some t" using k by (simp add: tview_def)
    then obtain x where x: "ptimers w t = Some x" using posix_tinv [OF inv] unfolding tinv_def by blast
    let ?w1 = "upd_timer t (\<lambda>x. x\<lparr>pt_fire_count := 0\<rparr>) w"
    have "?w1 = timers_to ((ptimers w)(t \<mapsto> x\<lparr>pt_fire_count := 0\<rparr>)) (kq_timers w) w"
      using x by (simp add: upd_timer_def timers_to_def)
    then have p: "pok 6 kn True w ?w1" using timers_to_ok [OF inv tinv_upd [OF posix_tinv [OF inv] x]] by simp
    show ?thesis using k Some x quiet delivers_flags [OF fc wf p kn] by (simp add: posix_timer_copyout_one_def)
  qed
qed

lemma posix_vnode_one_ok:
  assumes wf: "posix_wf w" and kn: "kn \<in> linked w 3"
  shows "delivers 3 kn w (posix_vnode_copyout_one K kn w)"
proof -
  have s: "(3::nat) < EVFILT_SYSCOUNT" by (simp add: EVFILT_SYSCOUNT_def)
  obtain k where k: "knotes w kn = Some k" using posix_wf_linked [OF wf kn s] by metis
  have inv: "posix_inv w" using wf by (simp add: posix_wf_def)
  have fc: "filter_contract posix_inv pfree pknote_zero (posix_vnode_ops K) 3 (\<lambda>_. True)"
    by (rule posix_contracts(5)) (simp_all add: posix_vnode_ops_def)
  show ?thesis
  proof (cases "kn_vnode k")
    case None
    then show ?thesis using k delivers_quiet [OF wf pq_refl s] by (simp add: posix_vnode_copyout_one_def)
  next
    case (Some v)
    obtain w1 rv now where 1: "pcall_val (pk_fstat K (posix_fd k)) w = (w1, rv, now)" by (cases "pcall_val (pk_fstat K (posix_fd k)) w") auto
    note q = pq_pcall_val [OF 1]
    have i1: "posix_inv w1" using pq_inv [OF q] inv by simp
    have "v \<in> ran (vview w1)" using k Some pq_knotes [OF q] by (auto simp: ran_def vview_def intro!: exI [of _ kn])
    then obtain last where v: "pvnodes w1 v = Some last" using posix_vinv [OF i1] by (auto simp: vinv_def)
    let ?w2 = "w1\<lparr>pvnodes := (pvnodes w1)(v \<mapsto> now)\<rparr>"
    have "posix_inv ?w2" using vinv_upd [OF posix_vinv [OF i1], of v now] v i1 by (intro posix_inv_vnode [OF i1]) (simp_all add: posix_inv_def)
    then have p: "pok 3 kn True w ?w2" using pok_trans [OF pq_pok [OF inv q]] vnode_frame(1) [of 3 kn True w1] by (simp add: pok_def)
    show ?thesis
      using k Some 1 v delivers_quiet [OF wf pq_refl s] delivers_quiet [OF wf q s]
        delivers_flags [OF fc wf p kn] delivers_flags [OF fc wf pq_pok [OF inv q] kn]
      by (simp add: posix_vnode_copyout_one_def Let_def)
  qed
qed

text \<open>The callbacks of EVFILT_USER do nothing, so that the flag actions leave the ready
  list as it is, except for the knote itself.\<close>

lemma user_disable_ready:
  assumes "knote_disable (posix_user_ops K) 10 kn w = Some (w', rv)" "10 < length (kq_filt w)"
  shows "kf_ready (filt_at w' 10) \<in> {kf_ready (filt_at w 10), removeAll kn (kf_ready (filt_at w 10))}" "length (kq_filt w') = length (kq_filt w)"
  using assms
  by (auto simp: knote_disable_def posix_user_ops_def posix_user_knote_disable_def bind_eq_Some_conv upd_knote_def upd_filt_def
      split: if_splits)

lemma user_delete_ready:
  assumes d: "knote_delete (posix_user_ops K) 10 kn w = Some (w', rv)" and len: "10 < length (kq_filt w)"
  shows "kf_ready (filt_at w' 10) \<in> {kf_ready (filt_at w 10), removeAll kn (kf_ready (filt_at w 10))}"
proof -
  have release: "kq_filt w2 = kq_filt w1" if "knote_release kn w1 = Some w2" for w1 w2 :: "('a, 'b) pw"
    using that by (auto simp: knote_release_def bind_eq_Some_conv Let_def upd_knote_def split: if_splits)
  have unlink: "kf_ready (filt_at w1 10) = removeAll kn (kf_ready (filt_at w 10))" if "knote_unlink 10 kn w = Some w1" for w1
    using that len by (auto simp: knote_unlink_def Let_def upd_filt_def split: if_splits)
  obtain k where k: "knotes w kn = Some k" using d by (auto simp: knote_delete_def bind_eq_Some_conv)
  show ?thesis
  proof (cases "has_flag (kn_flags k) KNFL_KNOTE_DELETED")
    case True
    then show ?thesis using d k by (simp add: knote_delete_def)
  next
    case False
    obtain w1 where w1: "knote_unlink 10 kn w = Some w1" using d k False by (auto simp: knote_delete_def bind_eq_Some_conv)
    have "knote_release kn (upd_knote kn (\<lambda>k. k\<lparr>kn_flags := set_flag KNFL_KNOTE_DELETED (kn_flags k)\<rparr>) w1) = Some w'"
      using d k False w1 by (auto simp: knote_delete_def posix_user_ops_def posix_user_knote_delete_def bind_eq_Some_conv)
    from release [OF this] unlink [OF w1] show ?thesis by (simp add: upd_knote_def)
  qed
qed

lemma user_flags_ready:
  assumes f: "knote_copyout_flag_actions (posix_user_ops K) 10 kn w = Some (w', rv)" and len: "10 < length (kq_filt w)"
    and out: "kn \<notin> set (kf_ready (filt_at w 10))"
  shows "kf_ready (filt_at w' 10) = kf_ready (filt_at w 10)"
proof -
  obtain k where k: "knotes w kn = Some k" using f by (auto simp: knote_copyout_flag_actions_def bind_eq_Some_conv)
  obtain w1 r where w1: "(if has_flag (flags (kev k)) EV_DISPATCH then knote_disable (posix_user_ops K) 10 kn w else Some (w, 0)) = Some (w1, r)"
    using f k by (cases "if has_flag (flags (kev k)) EV_DISPATCH then knote_disable (posix_user_ops K) 10 kn w else Some (w, 0)")
      (auto simp: knote_copyout_flag_actions_def)
  have same: "removeAll kn (kf_ready (filt_at w 10)) = kf_ready (filt_at w 10)" using out by simp
  have 1: "kf_ready (filt_at w1 10) = kf_ready (filt_at w 10)" "length (kq_filt w1) = length (kq_filt w)"
    using w1 user_disable_ready [of K kn w w1 r] len same by (auto split: if_splits)
  obtain k1 where k1: "knotes w1 kn = Some k1" using f k w1 by (auto simp: knote_copyout_flag_actions_def bind_eq_Some_conv)
  have "(if has_flag (flags (kev k1)) EV_ONESHOT then knote_delete (posix_user_ops K) 10 kn w1 else Some (w1, r)) = Some (w', rv)"
    using f k w1 k1 by (simp add: knote_copyout_flag_actions_def)
  then show ?thesis using user_delete_ready [of K kn w1 w' rv] 1 len same by (auto split: if_splits)
qed

lemma posix_user_copyout_ok:
  assumes wf: "posix_wf w" and kn: "kn \<in> linked w 10"
  shows "delivers 10 kn w (posix_user_copyout K n (Some kn) ev w)"
    and "posix_user_copyout K n (Some kn) ev w = Some (w', rv, es) \<Longrightarrow> kn \<notin> set (kf_ready (filt_at w 10)) \<Longrightarrow>
      kf_ready (filt_at w' 10) = kf_ready (filt_at w 10)"
proof -
  have s: "(10::nat) < EVFILT_SYSCOUNT" by (simp add: EVFILT_SYSCOUNT_def)
  obtain k where k: "knotes w kn = Some k" using posix_wf_linked [OF wf kn s] by metis
  have inv: "posix_inv w" using wf by (simp add: posix_wf_def)
  define u where "u = (\<lambda>b w. if b then upd_knote kn (upd_fflags (clear_flag NOTE_TRIGGER)) w else (w :: ('a, 'b) pw))"
  have u: "pok 10 kn True w1 (u b w1)" if "posix_inv w1" for b w1
    using upd_plain_ok [OF that] pok_start [OF that] by (simp add: u_def)
  have filt: "kq_filt (u b w1) = kq_filt w1" for b w1 by (simp add: u_def upd_knote_def)
  let ?w1 = "u (has_flag (flags (kev k)) EV_DISPATCH) (u (has_flag (flags (kev k)) EV_CLEAR) w)"
  have p: "pok 10 kn True w ?w1" using pok_trans [OF u [OF inv] u] u [OF inv] by (simp add: pok_def)
  have fc: "filter_contract posix_inv pfree pknote_zero (posix_user_ops K) 10 (\<lambda>_. True)"
    by (rule posix_contracts(3)) (simp_all add: posix_user_ops_def)
  have run: "posix_user_copyout K n (Some kn) ev w = Option.bind (knote_copyout_flag_actions (posix_user_ops K) 10 kn ?w1)
    (\<lambda>(w', rv). if rv < 0 then Some (w', -1, [])
      else Some (w', 1, [(kev k)\<lparr>fflags := clear_flag NOTE_TRIGGER (clear_flag NOTE_FFCTRLMASK (fflags (kev k)))\<rparr>]))"
    using k by (simp add: posix_user_copyout_def Let_def u_def)
  show "delivers 10 kn w (posix_user_copyout K n (Some kn) ev w)" unfolding run by (rule delivers_flags [OF fc wf p kn])
  assume r: "posix_user_copyout K n (Some kn) ev w = Some (w', rv, es)" and o: "kn \<notin> set (kf_ready (filt_at w 10))"
  obtain r' where "knote_copyout_flag_actions (posix_user_ops K) 10 kn ?w1 = Some (w', r')"
    using r unfolding run by (auto simp: bind_eq_Some_conv split: if_splits)
  from user_flags_ready [OF this] show "kf_ready (filt_at w' 10) = kf_ready (filt_at w 10)"
    using o posix_wf_len [OF wf s] by (simp add: filt)
qed

subsection \<open>Walks\<close>

text \<open>What a walk over the knotes of the filter \<open>fi\<close> with room for \<open>n\<close> events returns.\<close>

definition walk_ok :: "nat \<Rightarrow> nat \<Rightarrow> ('o, 'z) pw \<Rightarrow> (('o, 'z) pw \<times> int \<times> kevent list) option \<Rightarrow> bool" where
  "walk_ok fi n w m \<longleftrightarrow>
     (\<exists>w' rv out. m = Some (w', rv, out) \<and> posix_wf w' \<and> ready_other fi w w' \<and> length out \<le> n \<and> (rv = -1 \<or> rv = int (length out)))"

lemma walk_okI: "posix_wf w' \<Longrightarrow> ready_other fi w w' \<Longrightarrow> length out \<le> n \<Longrightarrow> rv = -1 \<or> rv = int (length out) \<Longrightarrow> walk_ok fi n w (Some (w', rv, out))"
  by (simp add: walk_ok_def)

lemma walk_ok_step: "cstep fi kn w w1 \<Longrightarrow> walk_ok fi n w1 m \<Longrightarrow> walk_ok fi n w m"
  unfolding walk_ok_def cstep_def using ready_other_trans by blast

lemma cstep_linked: "cstep fi kn w w' \<Longrightarrow> a \<in> linked w fi \<Longrightarrow> a \<noteq> kn \<Longrightarrow> a \<in> linked w' fi"
  by (auto simp: cstep_def linked_def idx_remove_def)

lemma index_distinct: "posix_wf w \<Longrightarrow> fi < EVFILT_SYSCOUNT \<Longrightarrow> distinct (map snd (kf_index (filt_at w fi)))"
  by (simp add: posix_wf_def core_inv_def filt_inv_def idx_ok_def)

lemma drain_walk_ok:
  assumes one: "\<And>w kn. posix_wf w \<Longrightarrow> kn \<in> linked w fi \<Longrightarrow> delivers fi kn w (one kn w)"
  shows "posix_wf w \<Longrightarrow> set kns \<subseteq> linked w fi \<Longrightarrow> distinct kns \<Longrightarrow> length out \<le> n \<Longrightarrow> walk_ok fi n w (drain_walk one n kns out w)"
proof (induction kns arbitrary: out w)
  case (Cons kn kns)
  obtain w1 rv es where d: "one kn w = Some (w1, rv, es)" "cstep fi kn w w1" "rv = -1 \<or> rv = int (length es) \<and> length es \<le> 1"
    using one [of w kn] Cons.prems unfolding delivers_def by fastforce
  have "set kns \<subseteq> linked w1 fi" using Cons.prems(2,3) cstep_linked [OF d(2)] by fastforce
  then have "length out < n \<Longrightarrow> rv \<noteq> -1 \<Longrightarrow> walk_ok fi n w (drain_walk one n kns (out @ es) w1)"
    using walk_ok_step [OF d(2) Cons.IH [of w1 "out @ es"]] Cons.prems d(2,3) by (simp add: cstep_def)
  moreover have "walk_ok fi n w (Some (w1, -1, out))" using d(2) Cons.prems(4) by (simp add: walk_okI cstep_def)
  ultimately show ?case using d(1,3) Cons.prems(1,4) by (cases "rv = -1") (auto intro: walk_okI)
qed (simp add: walk_okI)

lemma vt_copyout:
  "kf_copyout (posix_vt K 0) = posix_read_copyout K" "kf_copyout (posix_vt K 1) = posix_write_copyout K"
  "kf_copyout (posix_vt K 3) = posix_vnode_copyout K" "kf_copyout (posix_vt K 6) = posix_timer_copyout K"
  "kf_copyout (posix_vt K 10) = posix_user_copyout K"
  by (simp_all add: posix_vt_def posix_evfilt_read_def posix_evfilt_write_def posix_evfilt_vnode_def posix_evfilt_timer_def posix_evfilt_user_def)

lemma posix_fd_cb_ok:
  assumes wf: "posix_wf w" and kn: "kn \<in> linked w fi" and fi: "fi \<in> {0, 1}" and len: "length out \<le> n"
  shows "\<exists>w' stop err out'. posix_dispatch_fd_cb K fi active n kn out w = Some (w', stop, err, out') \<and> cstep fi kn w w' \<and>
    length out' \<le> n \<and> (err < 0 \<longrightarrow> stop \<noteq> 0)"
proof -
  have s: "fi < EVFILT_SYSCOUNT" using fi by (auto simp: EVFILT_SYSCOUNT_def)
  obtain k where k: "knotes w kn = Some k" using posix_wf_linked [OF wf kn s] by metis
  have same: "cstep fi kn w w" using cstep_frame [OF wf pok_start [of w fi kn False] s] wf by (simp add: posix_wf_def)
  obtain w1 rv es where d: "kf_copyout (posix_vt K fi) (n - length out) (Some kn) 0 w = Some (w1, rv, es)" "cstep fi kn w w1"
      "rv = -1 \<or> rv = int (length es) \<and> length es \<le> 1"
    using posix_read_copyout_ok [OF wf, of kn K "n - length out" 0] posix_write_copyout_ok [OF wf, of kn K "n - length out" 0] kn fi
    unfolding delivers_def by (auto simp: vt_copyout simp del: One_nat_def)
  show ?thesis using k same d len by (auto simp: posix_dispatch_fd_cb_def Let_def)
qed

lemma posix_fd_walk_ok:
  "posix_wf w \<Longrightarrow> set kns \<subseteq> linked w fi \<Longrightarrow> distinct kns \<Longrightarrow> length out \<le> n \<Longrightarrow> fi \<in> {0, 1} \<Longrightarrow>
    walk_ok fi n w (posix_fd_walk K fi active n kns out w)"
proof (induction kns arbitrary: out w)
  case (Cons kn kns)
  obtain w1 stop err out1 where d: "posix_dispatch_fd_cb K fi active n kn out w = Some (w1, stop, err, out1)" "cstep fi kn w w1"
      "length out1 \<le> n" "err < 0 \<longrightarrow> stop \<noteq> 0"
    using posix_fd_cb_ok [of w kn fi out n K active] Cons.prems by auto
  have "set kns \<subseteq> linked w1 fi" using Cons.prems(2,3) cstep_linked [OF d(2)] by fastforce
  then have "walk_ok fi n w (posix_fd_walk K fi active n kns out1 w1)"
    using walk_ok_step [OF d(2) Cons.IH [of w1 out1]] Cons.prems d(2,3) by (simp add: cstep_def)
  then show ?case using d by (auto intro!: walk_okI simp: cstep_def)
qed (simp add: walk_okI)

lemma posix_fd_filter_ok:
  assumes "posix_wf w" "fi \<in> {0, 1}"
  shows "walk_ok fi n w (posix_dispatch_fd_filter K fi active n w)"
  using posix_fd_walk_ok [OF assms(1) _ index_distinct [OF assms(1)]] assms(2)
  by (auto simp: posix_dispatch_fd_filter_def linked_def EVFILT_SYSCOUNT_def)

lemma posix_vnode_drain_ok: "posix_wf w \<Longrightarrow> walk_ok 3 n w (posix_vnode_copyout K n src ev w)"
  unfolding posix_vnode_copyout_def
  by (rule drain_walk_ok [OF posix_vnode_one_ok]) (simp_all add: index_distinct linked_def EVFILT_SYSCOUNT_def)

lemma posix_timer_drain_ok: "posix_wf w \<Longrightarrow> walk_ok 6 n w (posix_timer_copyout K n src ev w)"
proof -
  assume wf: "posix_wf w"
  have s: "(6::nat) < EVFILT_SYSCOUNT" by (simp add: EVFILT_SYSCOUNT_def)
  obtain w1 where w1: "posix_timer_check K w = Some w1" "pok 6 0 False w w1"
    using posix_timer_check_ok [of w K 6 0 False] wf by (auto simp: posix_wf_def)
  have c: "cstep 6 0 w w1" by (rule cstep_frame [OF wf w1(2) s]) simp
  then have wf1: "posix_wf w1" by (simp add: cstep_def)
  have "walk_ok 6 n w1 (drain_walk (posix_timer_copyout_one K) n (map snd (kf_index (filt_at w1 6))) [] w1)"
    by (rule drain_walk_ok [OF posix_timer_one_ok wf1]) (simp_all add: index_distinct [OF wf1 s] linked_def)
  then show ?thesis using walk_ok_step [OF c] w1(1) by (simp add: posix_timer_copyout_def)
qed

subsection \<open>The pass over the filters\<close>

lemma ready_remove_filt [simp]:
  "fi < length (kq_filt w) \<Longrightarrow> kf_ready (filt_at (ready_remove fi kn w) fi) = removeAll kn (kf_ready (filt_at w fi))"
  "fi < length (kq_filt w) \<Longrightarrow> linked (ready_remove fi kn w) fi = linked w fi"
  by (simp_all add: ready_remove_def upd_filt_def linked_def)

lemma user_walk_ok:
  "posix_wf w \<Longrightarrow> kf_ready (filt_at w 10) = xs \<Longrightarrow> length out \<le> n \<Longrightarrow>
    walk_ok 10 n w (posix_ready_walk K 10 n (case xs of [] \<Rightarrow> None | kn # _ \<Rightarrow> Some kn) out w)"
proof (induction xs arbitrary: out w)
  case Nil
  then show ?case by (simp add: posix_ready_walk.simps walk_okI)
next
  case (Cons kn xs)
  have s: "(10::nat) < EVFILT_SYSCOUNT" by (simp add: EVFILT_SYSCOUNT_def)
  note wf = Cons.prems(1) and len = posix_wf_len [OF Cons.prems(1) s]
  have f: "filt_inv {} w 10" using wf s by (simp add: posix_wf_def core_inv_def)
  then have kn: "kn \<in> linked w 10" and d: "kn \<notin> set xs" "distinct xs" using Cons.prems(2) by (auto simp: filt_inv_def)
  obtain k where k: "knotes w kn = Some k" using posix_wf_linked [OF wf kn s] by metis
  let ?w0 = "ready_remove 10 kn w"
  have p0: "pok 10 kn False w ?w0" using ready_frame(2) [OF len] wf by (simp add: pok_def posix_wf_def)
  have c0: "cstep 10 kn w ?w0" by (rule cstep_frame [OF wf p0 s]) simp
  have wf0: "posix_wf ?w0" using c0 by (simp add: cstep_def)
  have kn0: "kn \<in> linked ?w0 10" and r0: "kf_ready (filt_at ?w0 10) = xs" using kn d len Cons.prems(2) by simp_all
  obtain w1 rv es where 1: "posix_user_copyout K (n - length out) (Some kn) 0 ?w0 = Some (w1, rv, es)" "cstep 10 kn ?w0 w1"
      "rv = -1 \<or> rv = int (length es) \<and> length es \<le> 1"
    using posix_user_copyout_ok(1) [OF wf0 kn0] unfolding delivers_def by blast
  have r1: "kf_ready (filt_at w1 10) = xs" using posix_user_copyout_ok(2) [OF wf0 kn0 1(1)] r0 d(1) by simp
  have wf1: "posix_wf w1" and ro: "ready_other 10 w w1"
    using 1(2) ready_other_trans c0 by (auto simp: cstep_def)
  have next_eq: "list_next kn (kf_ready (filt_at w 10)) = (case xs of [] \<Rightarrow> None | a # _ \<Rightarrow> Some a)"
    using Cons.prems(2) by (cases xs) (simp_all add: list_next_def)
  have "walk_ok 10 n w (posix_ready_walk K 10 n (case xs of [] \<Rightarrow> None | a # _ \<Rightarrow> Some a) (out @ es) w1)"
    if "length out < n" "rv \<noteq> -1"
    by (rule walk_ok_step [OF c0 walk_ok_step [OF 1(2) Cons.IH [OF wf1 r1]]]) (use that 1(3) in auto)
  moreover have "walk_ok 10 n w (Some (w1, -1, out))" using wf1 ro Cons.prems(3) by (simp add: walk_okI)
  moreover have "walk_ok 10 n w (Some (w, int (length out), out))" using wf Cons.prems(3) by (simp add: walk_okI)
  ultimately show ?case using k 1(1,3) Cons.prems(2) next_eq
    by (subst posix_ready_walk.simps) (auto simp: vt_copyout)
qed

lemma posix_slot_ok:
  assumes wf: "posix_wf w" and fi: "fi < EVFILT_SYSCOUNT" and r: "fi \<in> {3, 6} \<Longrightarrow> kf_ready (filt_at w fi) = []"
  shows "walk_ok fi n w (posix_copyout_slot K fi n w)"
proof (cases "kf_id (filt_at w fi) = 0")
  case True
  then show ?thesis using wf by (simp add: posix_copyout_slot_def walk_okI)
next
  case False
  have len: "fi < length (slot_ids w)" using posix_wf_len [OF wf fi] by simp
  have id: "posix_impl fi" "inv_filt (kf_id (filt_at w fi)) = int fi"
    using wf False len unfolding posix_wf_def ids_ok_def by auto
  have nm: "kf_id (filt_at w fi) = e" if "inv_filt e = int fi" for e using id(2) that inv_filt_inj by metis
  have ev: "inv_filt EVFILT_READ = 0" "inv_filt EVFILT_WRITE = 1" "inv_filt EVFILT_VNODE = 3" "inv_filt EVFILT_TIMER = 6" "inv_filt EVFILT_USER = 10"
    "EVFILT_USER \<notin> {EVFILT_READ, EVFILT_WRITE, EVFILT_TIMER, EVFILT_VNODE}" "EVFILT_TIMER \<notin> {EVFILT_READ, EVFILT_WRITE}"
    "EVFILT_VNODE \<notin> {EVFILT_READ, EVFILT_WRITE}" "EVFILT_USER \<noteq> EVFILT_SIGNAL" "EVFILT_WRITE \<noteq> EVFILT_READ"
    by code_simp+
  consider "fi = 0" | "fi = 1" | "fi = 3" | "fi = 6" | "fi = 10" using id(1) by (auto simp: posix_impl_def)
  then show ?thesis
  proof cases
    case 1
    then show ?thesis using nm [of EVFILT_READ] ev False posix_fd_filter_ok [OF wf, of 0] by (simp add: posix_copyout_slot_def)
  next
    case 2
    then show ?thesis using nm [of EVFILT_WRITE] ev False posix_fd_filter_ok [OF wf, of 1] by (simp add: posix_copyout_slot_def)
  next
    case 3
    then show ?thesis using nm [of EVFILT_VNODE] ev False r posix_vnode_drain_ok [OF wf, of n K None 0]
      by (auto simp: posix_copyout_slot_def posix_dispatch_filter_def vt_copyout walk_ok_def)
  next
    case 4
    then show ?thesis using nm [of EVFILT_TIMER] ev False r posix_timer_drain_ok [OF wf, of n K None 0]
      by (auto simp: posix_copyout_slot_def posix_dispatch_filter_def vt_copyout walk_ok_def)
  next
    case 5
    let ?w = "fst (posix_eventfd_lower K 10 w)"
    obtain w1 rv where l: "pcall (pk_read K (kf_efd (filt_at w 10))) w = (w1, rv)" by (cases "pcall (pk_read K (kf_efd (filt_at w 10))) w") auto
    then have w1: "?w = w1" by (simp add: posix_eventfd_lower_def)
    have q: "pq w w1" using pq_pcall [OF l] .
    have c: "cstep 10 0 w w1" using cstep_frame [OF wf pq_pok [of w w1 10 0 False]] wf q 5 fi by (simp add: posix_wf_def)
    then have "walk_ok 10 n w1 (posix_dispatch_filter K 10 n w1)"
      using user_walk_ok [of w1 _ "[]" n K] nm [of EVFILT_USER] ev 5 q
      by (cases "kf_ready (filt_at w1 10)") (auto simp: posix_dispatch_filter_def cstep_def pq_def walk_ok_def)
    then show ?thesis using nm [of EVFILT_USER] ev 5 False w1 walk_ok_step [OF c] wf by (auto simp: posix_copyout_slot_def walk_okI)
  qed
qed

lemma posix_slots_ok:
  "posix_wf w \<Longrightarrow> set fis \<subseteq> {..< EVFILT_SYSCOUNT} \<Longrightarrow> distinct fis \<Longrightarrow>
    (\<And>fi. fi \<in> set fis \<inter> {3, 6} \<Longrightarrow> kf_ready (filt_at w fi) = []) \<Longrightarrow> length out \<le> n \<Longrightarrow>
    \<exists>w' rv out'. posix_copyout_slots K n fis out w = Some (w', rv, out') \<and> posix_wf w' \<and> length out' \<le> n \<and>
      (rv = -1 \<or> rv = int (length out'))"
proof (induction fis arbitrary: out w)
  case (Cons fi fis)
  obtain w1 rv es where 1: "posix_copyout_slot K fi (n - length out) w = Some (w1, rv, es)" "posix_wf w1" "ready_other fi w w1"
      "length es \<le> n - length out" "rv = -1 \<or> rv = int (length es)"
    using posix_slot_ok [of w fi "n - length out" K] Cons.prems unfolding walk_ok_def by auto
  have "kf_ready (filt_at w1 fj) = []" if fj: "fj \<in> set fis \<inter> {3, 6}" for fj
  proof -
    have "set (kf_ready (filt_at w1 fj)) \<subseteq> set (kf_ready (filt_at w fj))"
      using 1(3) fj Cons.prems(2,3) by (auto simp: ready_other_def)
    then show ?thesis using Cons.prems(4) [of fj] fj by auto
  qed
  then show ?case using Cons.IH [of w1 "out @ es"] 1 Cons.prems by (cases "n \<le> length out"; cases "rv = -1") auto
qed simp

subsection \<open>The kernel\<close>

text \<open>What a call that waits relies on: a read takes bytes out of a pipe, and only
  finitely many signals interrupt a wait.  \<open>m\<close> counts both.\<close>

definition settles :: "'o pkernel \<Rightarrow> ('o \<Rightarrow> nat) \<Rightarrow> bool" where
  "settles K m \<longleftrightarrow>
     (\<forall>fd s s' rv e. pk_read K fd s = (s', rv, e) \<longrightarrow> m s' \<le> m s \<and> (0 < rv \<longrightarrow> m s' < m s)) \<and>
     (\<forall>s s' t. pk_monotonic K s = (s', t) \<longrightarrow> m s' \<le> m s) \<and>
     (\<forall>n R W to s s' rv e F. pk_pselect K n R W to s = (s', rv, e, F) \<longrightarrow> m s' \<le> m s \<and> (rv < 0 \<and> e = EINTR \<longrightarrow> m s' < m s))"

lemma pipe_drain_ok: "settles K m \<Longrightarrow> \<exists>w'. pipe_drain K fd w = Some w' \<and> pq w w' \<and> m (pos w') \<le> m (pos w) \<and> kq_id w' = kq_id w"
proof (induction "m (pos w)" arbitrary: w rule: less_induct)
  case less
  obtain s' rv e where r: "pk_read K fd (pos w) = (s', rv, e)" by (cases "pk_read K fd (pos w)") auto
  let ?w1 = "w\<lparr>pos := s', errno := (if rv < 0 then e else errno w)\<rparr>"
  have c: "pcall (pk_read K fd) w = (?w1, rv)" by (simp add: pcall_def r)
  have q: "pq w ?w1" by (simp add: pq_def)
  have m: "m s' \<le> m (pos w)" "0 < rv \<Longrightarrow> m s' < m (pos w)" using less.prems r unfolding settles_def by blast+
  show ?case
  proof (cases "0 < rv")
    case True
    then obtain w' where "pipe_drain K fd ?w1 = Some w'" "pq ?w1 w'" "m (pos w') \<le> m (pos ?w1)" "kq_id w' = kq_id ?w1"
      using less.hyps [of ?w1] less.prems m(2) by auto
    then show ?thesis using True c pq_trans [OF q] m(1) by (subst pipe_drain.simps) auto
  next
    case False
    then show ?thesis using c q m(1) by (subst pipe_drain.simps) auto
  qed
qed

lemma posix_drain_wake_ok: "settles K m \<Longrightarrow> \<exists>w'. posix_kevent_drain_wake K w = Some w' \<and> pq w w'"
  using pipe_drain_ok [of K m "kq_id w" w] by (auto simp: posix_kevent_drain_wake_def)

lemma posix_wf_pq: "posix_wf w \<Longrightarrow> pq w w' \<Longrightarrow> posix_wf w'"
  using cstep_frame [OF _ pq_pok [of w w' 0 0 False]] by (simp add: cstep_def posix_wf_def EVFILT_SYSCOUNT_def)

text \<open>The knotes of EVFILT_VNODE and EVFILT_TIMER are not on a ready list.\<close>

definition unlisted :: "('o, 'z) pw \<Rightarrow> bool" where
  "unlisted w \<longleftrightarrow> kf_ready (filt_at w 3) = [] \<and> kf_ready (filt_at w 6) = []"

text \<open>Delivery: on a kqueue that satisfies the invariants and whose EVFILT_VNODE and
  EVFILT_TIMER have empty ready lists, a pass over the filters returns.\<close>

lemma posix_copyout_ok:
  assumes "posix_wf w" "unlisted w" "settles K m"
  shows "\<exists>w' rv out. posix_kevent_copyout K nready n w = Some (w', rv, out) \<and> posix_wf w' \<and> length out \<le> n \<and>
    (rv = -1 \<or> rv = int (length out))"
proof -
  obtain w1 where w1: "posix_kevent_drain_wake K w = Some w1" "pq w w1" using posix_drain_wake_ok [OF assms(3)] by blast
  have "\<And>fi. fi \<in> {3, 6} \<Longrightarrow> kf_ready (filt_at w1 fi) = []" using assms(2) w1(2) by (auto simp: unlisted_def pq_def)
  moreover have "set [0..<EVFILT_SYSCOUNT] \<subseteq> {..< EVFILT_SYSCOUNT}" by auto
  ultimately show ?thesis
    using posix_slots_ok [OF posix_wf_pq [OF assms(1) w1(2)], of "[0..<EVFILT_SYSCOUNT]" "[]" n K] w1(1)
    by (simp add: posix_kevent_copyout_def)
qed

subsection \<open>Waiting\<close>

lemma min_deadline_ok:
  assumes "posix_inv w" "settles K m"
  shows "\<exists>w' ns. timer_min_deadline_ns K w = Some (w', ns) \<and> pq w w' \<and> m (pos w') \<le> m (pos w)"
proof (cases "kq_timers w")
  case (Cons t ts)
  then obtain x where x: "ptimers w t = Some x" using posix_tinv [OF assms(1)] unfolding tinv_def by fastforce
  obtain s' now where c: "pk_monotonic K (pos w) = (s', now)" by (cases "pk_monotonic K (pos w)")
  then have "m s' \<le> m (pos w)" using assms(2) unfolding settles_def by blast
  then show ?thesis using Cons x c by (auto simp: timer_min_deadline_ns_def clock_monotonic_def Let_def pq_def)
qed (simp add: timer_min_deadline_ns_def)

lemma wait_round_ok:
  assumes inv: "posix_inv w" and K: "settles K m" and to: "timeout \<noteq> None"
  shows "\<exists>w' r. posix_wait_round K timeout only w = Some (w', r) \<and> pq w w' \<and> m (pos w') \<le> m (pos w) \<and>
    (r = None \<longrightarrow> m (pos w') < m (pos w)) \<and> (\<forall>n. r = Some n \<longrightarrow> -1 \<le> n \<and> (n = 0 \<longrightarrow> kq_always_ready w = 0))"
proof -
  obtain w1 ns where 1: "timer_min_deadline_ns K w = Some (w1, ns)" "pq w w1" "m (pos w1) \<le> m (pos w)" using min_deadline_ok [OF inv K] by blast
  have "\<exists>use_to bt. wait_timeout K timeout only w = Some (w1, use_to, bt)" using 1(1) by (auto simp: wait_timeout_def Let_def)
  then obtain use_to bt where u: "wait_timeout K timeout only w = Some (w1, use_to, bt)" by blast
  obtain w2 where 2: "(if kq_id w1 \<ge> 0 then pipe_drain K (kq_id w1) w1 else Some w1) = Some w2" "pq w1 w2" "m (pos w2) \<le> m (pos w1)"
    using pipe_drain_ok [OF K, of "kq_id w1" w1] by (cases "0 \<le> kq_id w1") auto
  obtain s' n e R W where p: "pk_pselect K (kq_nfds w2) (kq_fds w2) (kq_wfds w2) use_to (pos w2) = (s', n, e, R, W)"
    by (cases "pk_pselect K (kq_nfds w2) (kq_fds w2) (kq_wfds w2) use_to (pos w2)") auto
  have m: "m s' \<le> m (pos w2)" "n < 0 \<Longrightarrow> e = EINTR \<Longrightarrow> m s' < m (pos w2)" using K p unfolding settles_def by blast+
  have q: "pq w w2" using pq_trans [OF 1(2) 2(2)] .
  then have q': "pq w (w2\<lparr>pos := s', errno := e\<rparr>)" "pq w (w2\<lparr>pos := s', errno := errno w2, kq_rfds := R, kq_wrfds := W\<rparr>)" for e
    by (simp_all add: pq_def)
  have ar: "kq_always_ready w2 = kq_always_ready w" "0 \<le> kq_always_ready w" using q inv by (simp_all add: pq_def posix_inv_def ainv_def)
  show ?thesis
    using u 2 p m 1(3) q' to ar
    by (cases "n < 0"; cases "n = 0") (auto simp: posix_wait_round_def pcall_val_def Let_def)
qed

lemma wait_loop_ok:
  assumes K: "settles K m" and to: "timeout \<noteq> None"
  shows "posix_inv w \<Longrightarrow> \<exists>w' n. posix_wait_loop K timeout only w = Some (w', n) \<and> pq w w' \<and> -1 \<le> n \<and> (n = 0 \<longrightarrow> kq_always_ready w = 0)"
proof (induction "m (pos w)" arbitrary: w rule: less_induct)
  case less
  obtain w1 r where 1: "posix_wait_round K timeout only w = Some (w1, r)" "pq w w1" "r = None \<longrightarrow> m (pos w1) < m (pos w)"
      "\<forall>n. r = Some n \<longrightarrow> -1 \<le> n \<and> (n = 0 \<longrightarrow> kq_always_ready w = 0)"
    using wait_round_ok [OF less.prems K to] by blast
  show ?case
  proof (cases r)
    case None
    have "posix_inv w1" using pq_inv [OF 1(2)] less.prems by simp
    then obtain w' n where "posix_wait_loop K timeout only w1 = Some (w', n)" "pq w1 w'" "-1 \<le> n" "n = 0 \<longrightarrow> kq_always_ready w1 = 0"
      using less.hyps [of w1] 1(3) None by blast
    then show ?thesis using 1(1,2) None pq_trans [OF 1(2)] by (subst posix_wait_loop.simps) (auto simp: pq_def)
  next
    case (Some n)
    then show ?thesis using 1 by (subst posix_wait_loop.simps) auto
  qed
qed

text \<open>C13: polling on POSIX.  The kqueue satisfies the invariants of the common code and of
  the backend, no EVFILT_VNODE or EVFILT_TIMER knote is on a ready list, and the kernel
  does not interrupt \<^verbatim>\<open>pselect\<close> or fill the self-pipe for ever.  A call of kevent() with a
  timeout and no changes returns: the wait ends, the delivery does not fault, the
  invariants hold afterwards, the value is between -1 and the number of events written,
  and the events fit into the room given.\<close>

theorem posix_poll_safe:
  assumes "posix_wf w" "unlisted w" "settles K m"
  shows "\<exists>w' rv out. posix_kevent K t (Some ts) [] n w = Some (w', rv, out) \<and> posix_wf w' \<and> length out \<le> n \<and>
    -1 \<le> rv \<and> rv \<le> int (length out)"
proof -
  let ?w0 = "posix_kevent_enter t w"
  have q0: "pq w ?w0" by (simp add: posix_kevent_enter_def pq_def)
  have wf0: "posix_wf ?w0" using posix_wf_pq [OF assms(1) q0] .
  have ex: "posix_wf (posix_kevent_exit t w1) = posix_wf w1" for w1 :: "('a, 'b) pw"
  proof -
    have "pq w1 (posix_kevent_exit t w1)" "pq (posix_kevent_exit t w1) w1" by (simp_all add: posix_kevent_exit_def pq_def)
    then show ?thesis using posix_wf_pq by blast
  qed
  have "file_poll_timeout (Some ts) ?w0 \<noteq> None" by (simp add: file_poll_timeout_def Let_def)
  then obtain w1 k where 1: "posix_kevent_wait K (Some ts) n ?w0 = Some (w1, k)" "pq ?w0 w1" "-1 \<le> k"
    using wait_loop_ok [OF assms(3)] wf0 unfolding posix_wf_def posix_kevent_wait_def by blast
  have wf1: "posix_wf w1" using posix_wf_pq [OF wf0 1(2)] .
  have un: "unlisted w1" using assms(2) q0 1(2) by (simp add: unlisted_def pq_def)
  obtain w2 rv out where 2: "posix_kevent_copyout K k n w1 = Some (w2, rv, out)" "posix_wf w2" "length out \<le> n" "rv = -1 \<or> rv = int (length out)"
    using posix_copyout_ok [OF wf1 un assms(3)] by blast
  show ?thesis
    using 1(1,3) 2 wf0 wf1 ex by (cases "0 < n"; cases "0 < k") (auto simp: posix_kevent_def kevent_run_def kevent_collect_def posix_hooks_def)
qed

text \<open>C11: change lists on POSIX.  Every change list, on every state that satisfies the
  invariants of the common code and of the backend (timers and knotes own each other, the
  deadline tree holds the timers that are marked so, the snapshots of EVFILT_VNODE belong
  to one knote each, and the number of always-ready knotes is exact), is processed
  without a fault and keeps them; the entries written fit into the room given.\<close>

theorem posix_copyin_safe:
  assumes "core_wf w" "posix_inv w" "impl_ok posix_impl (\<lambda>_ _. True) w"
  shows "\<exists>w' rv out. kevent_copyin (posix_vt K) pknote_zero cs n w = Some (w', rv, out) \<and>
    core_wf w' \<and> posix_inv w' \<and> impl_ok posix_impl (\<lambda>_ _. True) w' \<and> length out \<le> n \<and> (rv = -1 \<or> rv = int (length out))"
  using pxb.copyin_ok [of w cs K n] assms by (auto simp: adm_change_def)

subsection \<open>How long a wait may last\<close>

lemma ns_ts: "0 \<le> ns \<Longrightarrow> ts_valid (ns_ts ns) \<and> ts_ns (ns_ts ns) = ns"
  by (simp add: ns_ts_def nonneg_division ts_valid_def ts_ns_def)

text \<open>\<open>to\<close> is a timeout of at most \<open>ns\<close> nanoseconds.\<close>

definition within :: "int \<Rightarrow> timespec option \<Rightarrow> bool" where
  "within ns to \<longleftrightarrow> (case to of None \<Rightarrow> False | Some t \<Rightarrow> ts_valid t \<and> ts_ns t \<le> ns)"

lemma within_mono: "within a to \<Longrightarrow> a \<le> b \<Longrightarrow> within b to"
  by (cases to) (auto simp: within_def)

definition poll_ns :: "('o, 'z) pw \<Rightarrow> int" where
  "poll_ns w = (if kq_file_poll_interval_ns w \<le> 0 then 100000000 else kq_file_poll_interval_ns w)"

lemma ts_clamp_ns:
  assumes "ts_valid t" "ts_valid lim"
  shows "ts_clamp (Some t) lim \<longleftrightarrow> ts_ns lim < ts_ns t"
proof -
  have "ts_clamp (Some t) lim \<longleftrightarrow> ts_lt lim t" by (auto simp: ts_clamp_def ts_lt_def)
  then show ?thesis using ts_lt_ns [OF assms(2,1)] by simp
qed

text \<open>Clamping a proper timeout, or none, to a number of nanoseconds.\<close>

lemma clamp_within:
  assumes "0 \<le> ns" "\<And>t. to = Some t \<Longrightarrow> ts_valid t"
  shows "within ns (if ts_clamp to (ns_ts ns) then Some (ns_ts ns) else to)"
    and "within b to \<Longrightarrow> within b (if ts_clamp to (ns_ts ns) then Some (ns_ts ns) else to)"
proof -
  show "within ns (if ts_clamp to (ns_ts ns) then Some (ns_ts ns) else to)"
    using assms ns_ts [OF assms(1)] ts_clamp_ns [of _ "ns_ts ns"] by (cases to) (auto simp: within_def ts_clamp_def)
  assume "within b to"
  then show "within b (if ts_clamp to (ns_ts ns) then Some (ns_ts ns) else to)"
    using ns_ts [OF assms(1)] ts_clamp_ns [of _ "ns_ts ns"] by (cases to) (auto simp: within_def)
qed

text \<open>The timer at the front of the tree decides.\<close>

lemma min_deadline_eq:
  assumes ok: "timers_ok w" and clk: "pk_monotonic K (pos w) = (s, now)" "ts_valid now" and tr: "kq_timers w = t # ts"
  shows "\<exists>x d. ptimers w t = Some x \<and> d = max 0 (ts_ns (pt_next x) - ts_ns now) \<and>
    timer_min_deadline_ns K w = Some (w\<lparr>pos := s\<rparr>, d)"
proof -
  have ti: "tinv (tview w) (ptimers w) (kq_timers w) (next_addr w)" using ok by (simp add: timers_ok_def posix_inv_def)
  then obtain x where x: "ptimers w t = Some x" using tr unfolding tinv_def by fastforce
  have "pt_in_tree x" using ti x tr unfolding tinv_def by fastforce
  then have "ts_valid (pt_next x)" using ok x unfolding timers_ok_def by blast
  note lt = ts_lt_ns [OF this clk(2)]
  show ?thesis using x tr clk(1) lt
    by (cases "ts_lt (pt_next x) now") (auto simp: timer_min_deadline_ns_def clock_monotonic_def ts_ns_def algebra_simps)
qed

text \<open>C14: the length of a wait on POSIX.  When the deadline tree is in order, the interval
  and the caller's timeout are proper and so is the clock, the timeout that \<^verbatim>\<open>pselect\<close> is
  given ends no later than the deadline of any timer in the tree, than the next
  inspection of the always-ready knotes (100 ms by default), and than the caller's
  timeout; and when there is no timer and no always-ready knote it is the caller's.\<close>

theorem posix_wait_bounded:
  assumes ok: "timers_ok w" and clk: "pk_monotonic K (pos w) = (s, now)" "ts_valid now"
    and to: "\<And>u. timeout = Some u \<Longrightarrow> ts_valid u"
  shows "\<exists>w' use_to b. wait_timeout K (file_poll_timeout timeout w) (only_always_ready w) w = Some (w', use_to, b) \<and>
    (\<forall>t x. ptimers w t = Some x \<and> pt_in_tree x \<longrightarrow> within (max 0 (ts_ns (pt_next x) - ts_ns now)) use_to) \<and>
    (0 < kq_always_ready w \<longrightarrow> within (poll_ns w) use_to) \<and>
    (\<forall>u. timeout = Some u \<and> 0 \<le> ts_ns u \<longrightarrow> within (ts_ns u) use_to) \<and>
    (kq_timers w = [] \<and> kq_always_ready w = 0 \<longrightarrow> use_to = timeout)"
proof -
  define t1 where "t1 = file_poll_timeout timeout w"
  define t2 where "t2 = (if only_always_ready w \<and> kq_file_poll_interval_ns w = 0 then Some (0, 0) else t1)"
  have p0: "0 \<le> poll_ns w" by (simp add: poll_ns_def)
  have t1: "t1 = (if 0 < kq_always_ready w then if ts_clamp timeout (ns_ts (poll_ns w)) then Some (ns_ts (poll_ns w)) else timeout else timeout)"
    by (simp add: t1_def file_poll_timeout_def poll_ns_def)
  have 1: "\<And>u. t1 = Some u \<Longrightarrow> ts_valid u" "0 < kq_always_ready w \<Longrightarrow> within (poll_ns w) t1"
      "\<And>u. timeout = Some u \<Longrightarrow> within (ts_ns u) t1" "kq_always_ready w = 0 \<Longrightarrow> t1 = timeout"
    using to clamp_within [OF p0, of timeout] ns_ts [OF p0] unfolding t1 by (auto simp: within_def split: if_splits)
  have z: "within b (Some (0, 0)) \<longleftrightarrow> 0 \<le> b" for b by (simp add: within_def ts_valid_def ts_ns_def)
  have 2: "\<And>u. t2 = Some u \<Longrightarrow> ts_valid u" "0 < kq_always_ready w \<Longrightarrow> within (poll_ns w) t2"
      "\<And>u. timeout = Some u \<Longrightarrow> 0 \<le> ts_ns u \<Longrightarrow> within (ts_ns u) t2" "kq_always_ready w = 0 \<Longrightarrow> t2 = timeout"
    using 1 z p0 by (auto simp: t2_def only_always_ready_def ts_valid_def split: if_splits)
  show ?thesis
  proof (cases "kq_timers w")
    case Nil
    then have "\<not> pt_in_tree x" if "ptimers w t = Some x" for t x using that ok unfolding timers_ok_def posix_inv_def tinv_def by fastforce
    then show ?thesis using Nil 2
      by (auto simp: wait_timeout_def timer_min_deadline_ns_def t1_def [symmetric] t2_def [symmetric])
  next
    case (Cons t ts)
    obtain x d where x: "ptimers w t = Some x" "d = max 0 (ts_ns (pt_next x) - ts_ns now)" "timer_min_deadline_ns K w = Some (w\<lparr>pos := s\<rparr>, d)"
      using min_deadline_eq [OF ok clk Cons] by blast
    define u0 where "u0 = (if ts_clamp t2 (ns_ts d) then Some (ns_ts d) else t2)"
    have d0: "0 \<le> d" using x(2) by simp
    have "\<exists>b. wait_timeout K (file_poll_timeout timeout w) (only_always_ready w) w = Some (w\<lparr>pos := s\<rparr>, u0, b)"
      using x(3) d0 by (auto simp: wait_timeout_def u0_def t1_def [symmetric] t2_def [symmetric])
    then obtain b where run: "wait_timeout K (file_poll_timeout timeout w) (only_always_ready w) w = Some (w\<lparr>pos := s\<rparr>, u0, b)" ..
    have "within (max 0 (ts_ns (pt_next y) - ts_ns now)) u0" if y: "ptimers w u = Some y" "pt_in_tree y" for u y
    proof -
      have "d \<le> max 0 (ts_ns (pt_next y) - ts_ns now)" using head_first [OF ok Cons x(1) y] x(2) by simp
      then show ?thesis using within_mono [OF clamp_within(1) [of d t2]] d0 2(1) unfolding u0_def by blast
    qed
    moreover have "within b u0" if "within b t2" for b using clamp_within(2) [OF d0 2(1) that] unfolding u0_def .
    ultimately show ?thesis using run 2(2,3) Cons
      by (intro exI [of _ "w\<lparr>pos := s\<rparr>"] exI [of _ u0] exI [of _ b]) auto
  qed
qed

end
