(* ===== verification/Posix_Runs.thy ===== *)
theory Posix_Runs
  imports Posix_Safe
begin

text \<open>
  Runs of the POSIX backend on a small kernel: a clock that moves while \<^verbatim>\<open>pselect\<close> waits,
  files with a size, and one pipe.  They show that the hypotheses of the theorems hold
  together, and they exhibit four ways in which the backend goes wrong.
\<close>

subsection \<open>A kernel\<close>

record psim =
  psim_now :: int
  psim_size :: "int \<Rightarrow> int"
  psim_bytes :: nat

definition psim_stat :: "int \<Rightarrow> psim \<Rightarrow> pstat" where
  "psim_stat fd s = \<lparr>ps_mode = P_REG, ps_nlink = 1, ps_size = psim_size s fd, ps_ctim = (0, 0)\<rparr>"

definition psim_kernel :: "psim pkernel" where
  "psim_kernel =
     \<lparr>pk_pipe = \<lambda>s. (s, 0, 0, (3, 4)), pk_getfl = \<lambda>_ s. (s, 0, 0), pk_setfl_nonblock = \<lambda>_ _ s. (s, 0, 0),
      pk_setfd_cloexec = \<lambda>_ s. (s, 0, 0), pk_close = \<lambda>_ s. (s, 0, 0),
      pk_write = \<lambda>_ s. (s\<lparr>psim_bytes := Suc (psim_bytes s)\<rparr>, 1, 0),
      pk_read = \<lambda>_ s. (if psim_bytes s = 0 then (s, -1, EAGAIN) else (s\<lparr>psim_bytes := psim_bytes s - 1\<rparr>, 1, 0)),
      pk_fstat = \<lambda>fd s. (s, 0, 0, psim_stat fd s), pk_lseek_cur = \<lambda>_ s. (s, 0, 0),
      pk_so_type = \<lambda>_ s. (s, 0, 0, P_STREAM), pk_so_acceptconn = \<lambda>_ s. (s, 0, 0, 0), pk_so_error = \<lambda>_ s. (s, 0, 0, 0),
      pk_recv_peek = \<lambda>_ s. (s, 0, 0), pk_set_rcvlowat = \<lambda>_ _ s. (s, 0, 0), pk_fionread = \<lambda>_ s. (s, 0, 0, 1),
      pk_monotonic = \<lambda>s. (s, ts_of (psim_now s)), pk_realtime = \<lambda>s. (s, ts_of (psim_now s)),
      pk_pselect = \<lambda>_ _ _ to s. (case to of None \<Rightarrow> s | Some t \<Rightarrow> s\<lparr>psim_now := psim_now s + ts_ns t\<rparr>, 0, 0, ({}, {}))\<rparr>"

lemma psim_settles: "settles psim_kernel psim_bytes"
  by (auto simp: settles_def psim_kernel_def split: if_splits option.splits)

definition psim_filters :: "filter_t list" where
  "psim_filters = map (\<lambda>fi. if posix_impl fi then filter_zero\<lparr>kf_id := word_of_int (- int fi - 1), kf_copyout_set := True\<rparr> else filter_zero) [0..<12]"

definition psim_world :: "psim pworld" where
  "psim_world =
     \<lparr>errno = 0, calloc_ok = \<lambda>_. True, next_addr = 1, knotes = \<lambda>_. None, kq_filt = psim_filters, kq_knote_count = 0,
      kq_fds = {3}, kq_rfds = {}, kq_wfds = {}, kq_wrfds = {}, kq_nfds = 4, kq_id = 3, kq_wake_wfd = 4, kq_always_ready = 0,
      kq_file_poll_interval_ns = 0, kq_inflight = [], kq_timers = [], ptimers = \<lambda>_. None, pvnodes = \<lambda>_. None, kf_pfd = \<lambda>_. -1,
      ef_wfd = \<lambda>_. -1, pos = \<lparr>psim_now = 0, psim_size = \<lambda>_. 0, psim_bytes = 0\<rparr>\<rparr>"

lemma psim_world_wf: "posix_wf psim_world" "unlisted psim_world"
proof -
  have f: "kq_filt psim_world = psim_filters" by (simp add: psim_world_def)
  have "core_wf psim_world"
    by (rule core_wf_empty) (auto simp: psim_world_def psim_filters_def filter_zero_def EVFILT_SYSCOUNT_def)
  moreover have "posix_inv psim_world"
    by (auto simp: posix_inv_def psim_world_def tinv_def vinv_def ainv_def kinds_def tview_def vview_def bumps_def dom_def ran_def)
  moreover have "impl_ok posix_impl (\<lambda>_ _. True) psim_world" "ids_ok (slot_ids psim_world)"
    unfolding impl_ok_def ids_ok_def impl_set_def f by code_simp+
  ultimately show "posix_wf psim_world" by (simp add: posix_wf_def)
  show "unlisted psim_world" by (simp add: unlisted_def f psim_filters_def filter_zero_def)
qed

text \<open>A call with a time limit, and the file system between two calls.\<close>

definition psim_call :: "timespec option \<Rightarrow> kevent list \<Rightarrow> nat \<Rightarrow> psim pworld \<Rightarrow> (psim pworld \<times> int \<times> kevent list) option" where
  "psim_call to cs n w = posix_kevent psim_kernel 1 to cs n w"

definition psim_after :: "(psim pworld \<times> int \<times> kevent list) option \<Rightarrow> psim pworld" where
  "psim_after r = (case r of Some (w, _, _) \<Rightarrow> w | None \<Rightarrow> psim_world)"

definition psim_grow :: "int list \<Rightarrow> psim pworld \<Rightarrow> psim pworld" where
  "psim_grow fds w = w\<lparr>pos := (pos w)\<lparr>psim_size := (\<lambda>fd. psim_size (pos w) fd + of_bool (fd \<in> set fds))\<rparr>\<rparr>"

subsection \<open>Faults and lost events\<close>

definition psim_vnode :: "u64 \<Rightarrow> u16 \<Rightarrow> kevent" where
  "psim_vnode fd fl = EV_SET fd EVFILT_VNODE fl NOTE_EXTEND 0 0"

text \<open>Two files watched once, switched off and on again; then the first one grows.\<close>

definition psim_rewatched :: "psim pworld" where
  "psim_rewatched =
     psim_grow [5] (psim_after (psim_call (Some (0, 0))
       [psim_vnode 5 (EV_ADD OR EV_ONESHOT), psim_vnode 6 (EV_ADD OR EV_ONESHOT), psim_vnode 5 EV_DISABLE, psim_vnode 6 EV_DISABLE,
        psim_vnode 5 EV_ENABLE, psim_vnode 6 EV_ENABLE] 0 psim_world))"



definition psim_timer :: "u64 \<Rightarrow> u16 \<Rightarrow> kevent" where
  "psim_timer d fl = EV_SET 7 EVFILT_TIMER fl NOTE_NSECONDS d 0"

text \<open>The state after a change list.\<close>

definition psim_changes :: "kevent list \<Rightarrow> psim pworld" where
  "psim_changes cs =
     (case kevent_copyin (posix_vt psim_kernel) pknote_zero cs 0 psim_world of Some (w, _, _) \<Rightarrow> w | None \<Rightarrow> psim_world)"

lemma psim_changes_good:
  "core_wf (psim_changes cs)" "posix_inv (psim_changes cs)" "impl_ok posix_impl (\<lambda>_ _. True) (psim_changes cs)"
proof -
  obtain w rv out where "kevent_copyin (posix_vt psim_kernel) pknote_zero cs 0 psim_world = Some (w, rv, out)" "core_wf w" "posix_inv w"
      "impl_ok posix_impl (\<lambda>_ _. True) w"
    using pxb.copyin_ok [of psim_world cs psim_kernel 0] psim_world_wf(1) by (auto simp: posix_wf_def adm_change_def)
  then show "core_wf (psim_changes cs)" "posix_inv (psim_changes cs)" "impl_ok posix_impl (\<lambda>_ _. True) (psim_changes cs)"
    by (simp_all add: psim_changes_def)
qed

text \<open>A timer with a period of 1000 ns, 5500 ns after it was set.\<close>

definition psim_timed :: "psim pworld" where
  "psim_timed = (psim_changes [psim_timer 1000 EV_ADD])\<lparr>pos := \<lparr>psim_now = 5500, psim_size = \<lambda>_. 0, psim_bytes = 0\<rparr>\<rparr>"

lemma psim_timed_inv: "posix_inv psim_timed"
proof -
  have "pq (psim_changes [psim_timer 1000 EV_ADD]) psim_timed" by (simp add: psim_timed_def pq_def)
  then show ?thesis using pq_inv psim_changes_good(2) by blast
qed

lemma psim_timed_ok: "timers_ok psim_timed"
proof -
  have "tree_sorted (ptimers psim_timed) (kq_timers psim_timed)" "kq_timers psim_timed = [2]"
    "map_option (\<lambda>x. ts_valid (pt_next x)) (ptimers psim_timed 2) = Some True" by code_simp+
  moreover have "t \<in> set (kq_timers psim_timed)" if "ptimers psim_timed t = Some x" "pt_in_tree x" for t x
    using posix_tinv [OF psim_timed_inv] that unfolding tinv_def by blast
  ultimately show ?thesis using psim_timed_inv by (auto simp: timers_ok_def)
qed

text \<open>A kernel on which no descriptor is ready.\<close>

definition ready_none :: "'o pkernel \<Rightarrow> bool" where
  "ready_none K \<longleftrightarrow> (\<forall>n R W to s. \<exists>s' e F. pk_pselect K n R W to s = (s', 0, e, F))"

lemma zero_not_clamped: "0 \<le> ns \<Longrightarrow> \<not> ts_clamp (Some (0, 0)) (ns_ts ns)"
  by (simp add: ts_clamp_def ns_ts_def nonneg_division not_less pos_imp_zdiv_nonneg_iff)

lemma zero_round:
  assumes inv: "posix_inv w" and ar: "kq_always_ready w = 0" and K: "settles K m" "ready_none K"
  shows "\<exists>w'. posix_wait_round K (Some (0, 0)) only w = Some (w', Some 0) \<and> ptimers w' = ptimers w"
proof -
  obtain w1 ns where 1: "timer_min_deadline_ns K w = Some (w1, ns)" "pq w w1" using min_deadline_ok [OF inv K(1)] by blast
  have u: "wait_timeout K (Some (0, 0)) only w = Some (w1, Some (0, 0), False)"
    using 1(1) zero_not_clamped [of ns] by (auto simp: wait_timeout_def Let_def)
  obtain w2 where 2: "(if kq_id w1 \<ge> 0 then pipe_drain K (kq_id w1) w1 else Some w1) = Some w2" "pq w1 w2"
    using pipe_drain_ok [OF K(1), of "kq_id w1" w1] by (cases "0 \<le> kq_id w1") auto
  obtain s' e R W where p: "pk_pselect K (kq_nfds w2) (kq_fds w2) (kq_wfds w2) (Some (0, 0)) (pos w2) = (s', 0, e, R, W)"
    using K(2) unfolding ready_none_def by (metis surj_pair)
  have "kq_always_ready w2 = 0" "ptimers w2 = ptimers w" using pq_trans [OF 1(2) 2(2)] ar by (simp_all add: pq_def)
  then show ?thesis using u 2(1) p by (simp add: posix_wait_round_def pcall_val_def)
qed

text \<open>C35: timers and polling on POSIX.  When no descriptor is ready and no knote is
  always ready, kevent() with a timeout of zero reports nothing and leaves every timer as
  it is, whether its deadline has passed or not.\<close>

theorem posix_zero_poll_skips_timers:
  assumes "posix_inv w" "kq_always_ready w = 0" "settles K m" "ready_none K"
  shows "\<exists>w'. posix_kevent K t (Some (0, 0)) [] n w = Some (w', 0, []) \<and> ptimers w' = ptimers w"
proof -
  let ?w = "posix_kevent_enter t w"
  have q: "pq w ?w" by (simp add: posix_kevent_enter_def pq_def)
  then have i: "posix_inv ?w" "kq_always_ready ?w = 0" "ptimers ?w = ptimers w" using assms(1,2) pq_inv [OF q] by (simp_all add: pq_def)
  obtain w' where w': "posix_wait_round K (Some (0, 0)) False ?w = Some (w', Some 0)" "ptimers w' = ptimers ?w"
    using zero_round [OF i(1,2) assms(3,4)] by blast
  have "posix_kevent_wait K (Some (0, 0)) n ?w = Some (w', 0)"
    using i(2) w'(1) by (simp add: posix_kevent_wait_def file_poll_timeout_def only_always_ready_def posix_wait_loop.simps)
  then show ?thesis using w'(2) i(3)
    by (cases "0 < n") (simp_all add: posix_kevent_def kevent_run_def kevent_collect_def posix_hooks_def posix_kevent_exit_def Let_def)
qed

theorem posix_zero_poll_skips_timers_witness:
  "map_option (timer_due (ts_of 5500)) (ptimers psim_timed 2) = Some True \<and>
   (\<exists>w'. posix_kevent psim_kernel 1 (Some (0, 0)) [] 4 psim_timed = Some (w', 0, []) \<and> ptimers w' = ptimers psim_timed)"
proof -
  have "ready_none psim_kernel" by (simp add: ready_none_def psim_kernel_def)
  moreover have "kq_always_ready psim_timed = 0" "map_option (timer_due (ts_of 5500)) (ptimers psim_timed 2) = Some True" by code_simp+
  ultimately show ?thesis using posix_zero_poll_skips_timers [OF psim_timed_inv _ psim_settles] by blast
qed

text \<open>A one-shot timer of 10 s that is added disabled and then enabled is due 1 ns later.\<close>

lemma posix_oneshot_enable_early:
  "map_option pt_next (ptimers (psim_changes [psim_timer 10000000000 (EV_ADD OR EV_ONESHOT OR EV_DISABLE), psim_timer 0 EV_ENABLE]) 2) =
     Some (0, 1)"
  by code_simp

subsection \<open>Witnesses\<close>

theorem posix_copyin_safe_witness:
  "\<exists>w rv out. kevent_copyin (posix_vt psim_kernel) pknote_zero [psim_vnode 5 EV_ADD, psim_timer 1000 EV_ADD] 4 psim_world = Some (w, rv, out) \<and>
    core_wf w \<and> posix_inv w \<and> length out \<le> 4"
  using posix_copyin_safe [of psim_world psim_kernel "[psim_vnode 5 EV_ADD, psim_timer 1000 EV_ADD]" 4] psim_world_wf(1)
  unfolding posix_wf_def by blast

theorem posix_poll_safe_witness:
  "\<exists>w rv out. posix_kevent psim_kernel 1 (Some (1, 0)) [] 4 (psim_changes [psim_vnode 5 EV_ADD, psim_timer 1000 EV_ADD]) = Some (w, rv, out) \<and>
    posix_wf w \<and> length out \<le> 4"
proof -
  let ?w = "psim_changes [psim_vnode 5 EV_ADD, psim_timer 1000 EV_ADD]"
  have "slot_ids ?w = slot_ids psim_world" "unlisted ?w" by code_simp+
  then have "posix_wf ?w" "unlisted ?w" using psim_changes_good psim_world_wf(1) by (simp_all add: posix_wf_def)
  from posix_poll_safe [OF this psim_settles] show ?thesis by blast
qed

theorem posix_timer_check_exact_witness:
  "\<exists>w. posix_timer_check psim_kernel psim_timed = Some w \<and> map_option pt_fire_count (ptimers w 2) = Some 5 \<and> timers_ok w"
proof -
  have c: "pk_monotonic psim_kernel (pos psim_timed) = (pos psim_timed, ts_of 5500)" by (simp add: psim_kernel_def psim_timed_def)
  have "kq_timers psim_timed \<noteq> []" "map_option pt_fire_count (timers_checked (ts_of 5500) (ptimers psim_timed) 2) = Some 5" by code_simp+
  then show ?thesis using posix_timer_check_exact [OF psim_timed_ok _ c ts_of(1)] by auto
qed

theorem posix_wait_bounded_witness:
  "\<exists>w use_to b. wait_timeout psim_kernel (file_poll_timeout (Some (1, 0)) psim_timed) (only_always_ready psim_timed) psim_timed = Some (w, use_to, b) \<and>
    within 0 use_to"
proof -
  have c: "pk_monotonic psim_kernel (pos psim_timed) = (pos psim_timed, ts_of 5500)" by (simp add: psim_kernel_def psim_timed_def)
  have "map_option (\<lambda>x. (pt_in_tree x, max 0 (ts_ns (pt_next x) - ts_ns (ts_of 5500)))) (ptimers psim_timed 2) = Some (True, 0)" by code_simp
  then obtain x where x: "ptimers psim_timed 2 = Some x" "pt_in_tree x" "max 0 (ts_ns (pt_next x) - ts_ns (ts_of 5500)) = 0" by auto
  have "\<And>u. Some (1, 0) = Some u \<Longrightarrow> ts_valid u" by (auto simp: ts_valid_def)
  from posix_wait_bounded [OF psim_timed_ok c ts_of(1) this] x show ?thesis by metis
qed

end
