(* ===== verification/Spec2Isabelle.thy ===== *)
theory Spec2Isabelle
  imports Linux_Runs Linux_Monitor Signal_Runs Posix_Runs
begin

text \<open>
  A verification development for libkqueue, a user-space implementation of the BSD
  kqueue(2) and kevent(2) calls.  The library has a platform-independent part
  (\<^verbatim>\<open>src/src/common\<close>) that keeps knotes in per-filter indexes and processes change
  lists, and one backend per operating system that maps knotes to kernel objects and
  turns kernel events back into kevents.  The development models the common part, with
  the life cycle of kqueues and EVFILT_SIGNAL, the Linux backend (epoll, eventfd,
  timerfd, inotify, pidfd) and the POSIX backend (pselect, pipes, a deadline tree).

  \<^bold>\<open>State.\<close>  The C heap is explicit: a world record (\<open>Knote\<close>) holds the knotes of a
  kqueue by address, the filter table, the allocator (\<open>next_addr\<close>, \<open>calloc_ok\<close>) and
  errno; the Linux world (\<open>Linux_World\<close>) adds the epoll descriptor, the fd_state and
  udata objects, the callers in flight and the deferred-free queue, and the POSIX world
  (\<open>Posix_World\<close>) the descriptor sets, the timers and the snapshots.  An operation is a
  function from a world to an optional world and result; None is a fault: an access to
  freed memory, a failed assertion, or a loop that does not end.  An error of the
  source is a result (mostly -1) with errno set, never None.  System calls are fields
  of the records \<open>kernel\<close> and \<open>pkernel\<close> over an abstract operating system state, so the
  theorems quantify over everything the kernel may answer; what a theorem needs of the
  kernel is a named hypothesis such as \<open>ctl_law\<close> or \<open>settles\<close>.  Operations under a lock
  are one step; the interleaving of threads is a step relation (\<open>Linux_Deferred\<close>,
  \<open>Kqueue_Life\<close>, \<open>Signal_Runs\<close>).

  \<^bold>\<open>Theories and sources.\<close>
  \<^item> \<open>Prelude\<close>: error numbers, flags on words, lists.  \<open>Event\<close>: struct kevent and the
    constants of \<^verbatim>\<open>include/sys/event.h.in\<close>.
  \<^item> \<open>Kq_Map\<close>: \<^verbatim>\<open>common/map.c\<close>, the map from descriptors to kqueues, on 32-bit indexes
    with the casts written out.  It implements a partial function; the exception is
    \<open>map_replace\<close>.
  \<^item> \<open>Knote_Index\<close>, \<open>Knote\<close>: \<^verbatim>\<open>common/knote.c\<close>.  The red-black tree macros are
    used through the interface \<open>ordered_index\<close>, interpreted on a key-ordered
    association list.
  \<^item> \<open>Knote_Inv\<close>, \<open>Knote_Contract\<close>: the invariant of the common state (indexes ordered
    and duplicate-free, every knote in exactly one index, reference counts, the knote
    counter) and the interface \<open>filter_contract\<close> of what a filter's callbacks promise.
  \<^item> \<open>Kq_Filter\<close>: \<^verbatim>\<open>common/filter.c\<close>.  \<open>Libkqueue_Filter\<close>: \<^verbatim>\<open>common/libkqueue.c\<close>.
  \<^item> \<open>Kevent\<close>, \<open>Kevent_Safe\<close>: \<^verbatim>\<open>common/kevent.c\<close>; the interface \<open>backend\<close> and, inside
    it, the safety of change lists, the effect of EV_ADD and EV_DELETE, and the
    tear-down of the filter table.
  \<^item> \<open>Linux_World\<close>, \<open>Linux_Deferred\<close>, \<open>Linux_Epoll\<close>, \<open>Linux_Platform\<close>:
    \<^verbatim>\<open>linux/platform.c\<close> and \<^verbatim>\<open>linux/platform.h\<close>.  \<open>Linux_Timer\<close>, \<open>Linux_User\<close>,
    \<open>Linux_Vnode\<close>, \<open>Linux_Proc\<close>, \<open>Linux_Read\<close> (READ and WRITE): the filters of
    \<^verbatim>\<open>linux/\<close>.
  \<^item> \<open>Linux_Inv\<close>, \<open>Linux_Mux\<close>, \<open>Linux_Read_Inv\<close>: the invariant of the pointers between
    knotes, fd_state objects and udata objects, a small verification-condition
    calculus for it, and its preservation by the filters.
  \<^item> \<open>Linux_Backend\<close>: the Linux filter table, the interpretation of \<open>backend\<close> on it,
    and an executable kernel for concrete runs.  \<open>Linux_Runs\<close>: properties of whole
    calls and the concrete runs.
  \<^item> \<open>Kqueue_Life\<close>: \<^verbatim>\<open>common/kqueue.c\<close> and the entry and exit of kevent(), over the
    interface \<open>kqueue_backend\<close>.  \<open>Linux_Life\<close> interprets it on Linux; \<open>Linux_Monitor\<close>
    is the thread that frees closed kqueues, fork and exit (\<^verbatim>\<open>linux/platform.c\<close>).
  \<^item> \<open>Signal_Filter\<close>, \<open>Signal_Inv\<close>, \<open>Signal_Platform\<close>, \<open>Signal_Runs\<close>: EVFILT_SIGNAL
    (\<^verbatim>\<open>common/evfilt_signal.h\<close>), its invariant, the signalfd and sigaction layers
    (\<^verbatim>\<open>common/evfilt_signalfd.c\<close>, \<^verbatim>\<open>posix/signal.c\<close>) and its runs with the dispatch thread.
  \<^item> \<open>Posix_World\<close>, \<open>Posix_Filters\<close>, \<open>Posix_Platform\<close>: \<^verbatim>\<open>posix/eventfd.c\<close>, the five filters
    \<^verbatim>\<open>posix/read.c\<close>, \<^verbatim>\<open>write.c\<close>, \<^verbatim>\<open>user.c\<close>, \<^verbatim>\<open>timer.c\<close>, \<^verbatim>\<open>vnode.c\<close>, and \<^verbatim>\<open>posix/platform.c\<close>.
    \<open>Posix_Inv\<close>, \<open>Posix_Contract\<close>: the invariant of the backend and the interpretation
    of \<open>backend\<close> on its filters.  \<open>Posix_Timers\<close>, \<open>Posix_Safe\<close>: the timer check, the
    delivery and the wait.  \<open>Posix_Runs\<close>: concrete runs on a small kernel.

  \<^bold>\<open>What is shown.\<close>
  \<^item> Change lists: processing any change list is memory safe and keeps the invariants, on
    Linux (C1) and on POSIX (C11); a list can be handed in in two parts (C15); the size
    of the result of kevent() (C24); what EV_ADD, EV_DELETE and the tear-down of the
    filters do (C25 to C27); EVFILT_LIBKQUEUE (C19, C20).
  \<^item> Life cycle: under every interleaving of application threads and the monitoring
    thread no kqueue is used after it is freed, none leaks, and an open one is found
    (C2 to C4); the code of the thread implements its steps (C5), and a flush returns
    (C6); fork, exit and initialisation (C29 to C32).
  \<^item> Deferred reclamation on Linux: a udata pointer a thread has taken out of epoll_wait
    stays live until the thread leaves kevent() (C16), and leaving reclaims exactly what
    can be reclaimed (C17).
  \<^item> EVFILT_SIGNAL: every interleaving is safe (C7), every fire is counted (C8) and
    delivered (C9), and the signalfd observes the watched signals (C10).
  \<^item> POSIX: the timer check fires every timer as often as it is due (C12), a poll returns
    without a fault (C13), and a wait ends in time for every deadline (C14).
  \<^item> The descriptor map refines a partial function (C18); conversions and round trips
    (C37, C38); the end of a drain loop (C39).
  \<^item> Behaviour of the code that is wrong: an index check (C21), the wrap-around of the
    epoch counter (C22), signals left behind by a short delivery (C23), a fault when a
    descriptor does not fit the map (C28), uses after free (C33, C34), timers that a poll
    does not see (C35), a blocking call that returns 0 (C36), and lost receipts (C40).

  \<^bold>\<open>Bounds.\<close>  No fuel is used.  Loops over lists are structural.  A loop that the kernel
  can keep running is a \<open>partial_function\<close>, and a theorem gives the condition under which
  it returns: \<open>vnode_drain_returns\<close> for the inotify queue, \<open>linux_drain_returns\<close> and
  \<open>linux_monitor_refines\<close> for the monitoring thread, \<open>posix_poll_safe\<close> for the wait and
  the ready lists on POSIX, \<open>posix_timer_check_exact\<close> for the two loops of the timer
  check.  Concrete runs use a table of 12 filters, which is EVFILT_SYSCOUNT.  Words have
  the width of the C types; the products that the user's timer data can overflow on
  POSIX, which C leaves undefined, wrap at 64 bits.

  \<^bold>\<open>Not modelled.\<close>  Mutexes and the order of lock operations; the debug printing
  (\<^verbatim>\<open>common/debug.c\<close>, the dump functions of \<^verbatim>\<open>common/kevent.c\<close>), which has no effect on the
  state; \<^verbatim>\<open>posix/proc.c\<close>, a process-wide thread that reaps children; the Solaris and
  Windows backends, whose event ports and completion ports are interfaces of their own;
  the tree and list macros, which are used through the interface \<open>ordered_index\<close> and as
  lists.
\<close>

end
